(* ===== verification/Prelude.thy ===== *)
theory Prelude
  imports Main "HOL-Library.Word"
begin

text \<open>
  Shared vocabulary of the development: machine integers at the widths of the C sources, the
  reasons why a run of uVisor stops (\<open>HALT_ERROR\<close>, a loop that never ends, an access outside
  of an array), the sequencing combinator for code that may stop, bounded array accesses, and
  the generic lemmas on words and lists that the component theories use.
\<close>

unbundle bit_operations_syntax

section \<open>Types\<close>

type_synonym u8 = "8 word"
type_synonym u16 = "16 word"
type_synonym u32 = "32 word"

text \<open>\<open>THaltError\<close> of \<^verbatim>\<open>api/inc/halt_exports.h\<close>, constructors as in the source.\<close>

datatype THaltError =
    HALT_NO_ERROR
  | PERMISSION_DENIED
  | SANITY_CHECK_FAILED
  | NOT_IMPLEMENTED
  | NOT_ALLOWED
  | FAULT_MEMMANAGE
  | FAULT_BUS
  | FAULT_USAGE
  | FAULT_HARD
  | FAULT_DEBUG
  | FAULT_SECURE

text \<open>
  Why a piece of uVisor code does not return a value: \<open>Halt\<close> is \<open>HALT_ERROR\<close> (\<open>halt\<close> of
  \<^verbatim>\<open>core/system/src/halt.c\<close> ends in \<open>debug_halt_error\<close>, which loops forever when no debug box
  is registered), \<open>Oob\<close> an access outside of the bounds of an array (undefined in C), \<open>Fault\<close> an
  unprivileged access that the memory protection refuses, and \<open>Diverge\<close> a loop that never ends.
\<close>

datatype stop = Halt THaltError | Oob | Fault | Diverge

type_synonym 'a res = "stop + 'a"

section \<open>Sequencing\<close>

fun bind_res :: "'a res \<Rightarrow> ('a \<Rightarrow> 'b res) \<Rightarrow> 'b res" where
  "bind_res (Inl e) f = Inl e"
| "bind_res (Inr x) f = f x"

text \<open>Facts that invert or evaluate stopping code.\<close>

named_theorems res_simps

lemma bind_res_Inr_iff [res_simps]:
  "bind_res m f = Inr y \<longleftrightarrow> (\<exists>x. m = Inr x \<and> f x = Inr y)"
  by (cases m) auto

lemma bind_res_Inl_iff [res_simps]:
  "bind_res m f = Inl e \<longleftrightarrow> m = Inl e \<or> (\<exists>x. m = Inr x \<and> f x = Inl e)"
  by (cases m) auto

lemma bind_res_assoc: "bind_res (bind_res m f) g = bind_res m (\<lambda>x. bind_res (f x) g)"
  by (cases m) auto

definition guard_res :: "bool \<Rightarrow> stop \<Rightarrow> unit res" where
  "guard_res b e = (if b then Inr () else Inl e)"

lemma guard_res_Inr [res_simps]: "guard_res b e = Inr u \<longleftrightarrow> b"
  by (simp add: guard_res_def)

lemma guard_res_Inl [res_simps]: "guard_res b e = Inl e' \<longleftrightarrow> \<not> b \<and> e' = e"
  by (auto simp: guard_res_def)

lemma guard_res_True [simp]: "guard_res True e = Inr ()"
  by (simp add: guard_res_def)

lemma guard_res_False [simp]: "guard_res False e = Inl e"
  by (simp add: guard_res_def)

text \<open>An array access in C: outside of the bounds the behaviour is undefined.\<close>

definition arr_get :: "'a list \<Rightarrow> nat \<Rightarrow> 'a res" where
  "arr_get xs i = (if i < length xs then Inr (xs ! i) else Inl Oob)"

definition arr_set :: "'a list \<Rightarrow> nat \<Rightarrow> 'a \<Rightarrow> 'a list res" where
  "arr_set xs i v = (if i < length xs then Inr (xs[i := v]) else Inl Oob)"

lemma arr_get_Inr [res_simps]: "arr_get xs i = Inr x \<longleftrightarrow> i < length xs \<and> x = xs ! i"
  by (auto simp: arr_get_def)

lemma arr_set_Inr [res_simps]: "arr_set xs i v = Inr ys \<longleftrightarrow> i < length xs \<and> ys = xs[i := v]"
  by (auto simp: arr_set_def)

lemma arr_get_in [simp]: "i < length xs \<Longrightarrow> arr_get xs i = Inr (xs ! i)"
  by (simp add: arr_get_def)

lemma arr_set_in [simp]: "i < length xs \<Longrightarrow> arr_set xs i v = Inr (xs[i := v])"
  by (simp add: arr_set_def)

section \<open>Words\<close>

lemma unat_u8_lt: "unat (x :: u8) < 256"
  using unsigned_less [of x] by simp

lemma unat_u32_lt: "unat (x :: u32) < 2 ^ 32"
  using unsigned_less [of x] by simp

lemma unat_eq_iff: "unat (x :: 'a::len word) = unat y \<longleftrightarrow> x = y"
  by (simp add: word_unat_eq_iff)

lemma unat_of_nat_u8 [simp]: "n < 256 \<Longrightarrow> unat (of_nat n :: u8) = n"
  by (simp add: unat_of_nat take_bit_eq_mod)

lemma unat_of_nat_u32: "n < 2 ^ 32 \<Longrightarrow> unat (of_nat n :: u32) = n"
  by (simp add: unat_of_nat take_bit_eq_mod)

lemma unat_power_2:
  assumes "k < LENGTH('a)"
  shows "unat (2 ^ k :: 'a::len word) = 2 ^ k"
proof -
  have "(2 :: nat) ^ k < 2 ^ LENGTH('a)" using assms by simp
  then show ?thesis using unat_of_nat [of "2 ^ k", where 'a = 'a] by (simp add: take_bit_eq_mod)
qed

lemma unat_power_2_u32 [simp]: "k < 32 \<Longrightarrow> unat (2 ^ k :: u32) = 2 ^ k"
  using unat_power_2 [of k, where 'a = 32] by simp

lemma word_eq_power_2: "k < 32 \<Longrightarrow> (w :: u32) = 2 ^ k \<longleftrightarrow> unat w = 2 ^ k"
  using unat_power_2 [of k, where 'a = 32] by (simp add: word_unat_eq_iff)

text \<open>Clearing the low bits rounds down to a multiple of a power of two.\<close>

lemma and_not_mask: "x AND NOT (mask k) = push_bit k (drop_bit k x)" for x :: "'a::len word"
  by (rule bit_word_eqI) (auto simp: bit_simps)

lemma unat_and_not_mask: "unat (x AND NOT (mask k)) = unat x div 2 ^ k * 2 ^ k" for x :: "'a::len word"
proof -
  have "unat x div 2 ^ k * 2 ^ k \<le> unat x" by simp
  also have "\<dots> < 2 ^ LENGTH('a)" by (rule unsigned_less)
  finally have bound: "unat x div 2 ^ k * 2 ^ k < 2 ^ LENGTH('a)" .
  have "unat (x AND NOT (mask k)) = take_bit LENGTH('a) (push_bit k (drop_bit k (unat x)))"
    unfolding and_not_mask by (simp only: unsigned_push_bit_eq unat_drop_bit_eq)
  also have "\<dots> = unat x div 2 ^ k * 2 ^ k"
    using bound by (simp add: push_bit_eq_mult drop_bit_eq_div take_bit_eq_mod)
  finally show ?thesis .
qed

lemma and_power_2: "x AND 2 ^ k = (if bit x k then 2 ^ k else 0)" for x :: "'a::len word"
  by (rule bit_word_eqI) (auto simp: bit_and_iff bit_exp_iff)

lemma bit_below_bound: "bit x n \<Longrightarrow> unat x < 2 ^ k \<Longrightarrow> n < k" for x :: "'a::len word"
proof -
  assume x: "bit x n" "unat x < 2 ^ k"
  then have "take_bit k x = x" by (metis take_bit_nat_eq_self unsigned_take_bit_eq word_unat_eq_iff)
  then show ?thesis using x(1) bit_take_bit_iff [of k x n] by simp
qed

lemma and_not_mask_range:
  fixes x :: "'a::len word"
  assumes "x AND NOT (mask k) = b"
  shows "unat b \<le> unat x \<and> unat x < unat b + 2 ^ k"
proof -
  have "unat b = unat x div 2 ^ k * 2 ^ k" using assms unat_and_not_mask [of x k] by simp
  moreover have "unat x div 2 ^ k * 2 ^ k + unat x mod 2 ^ k = unat x" "unat x mod 2 ^ k < 2 ^ k"
    by (simp_all only: div_mult_mod_eq) simp
  ultimately show ?thesis by linarith
qed

lemma and_mask_eq_0_iff: "x AND mask k = 0 \<longleftrightarrow> 2 ^ k dvd unat x" for x :: "'a::len word"
proof -
  have "x AND mask k = 0 \<longleftrightarrow> unat (take_bit k x) = 0"
    by (simp only: take_bit_eq_mask unat_eq_zero)
  also have "\<dots> \<longleftrightarrow> take_bit k (unat x) = 0"
    by (simp only: unsigned_take_bit_eq)
  finally show ?thesis by (simp add: take_bit_eq_mod dvd_eq_mod_eq_0)
qed

section \<open>Lists\<close>

lemma nth_list_update_at: "j < length xs \<Longrightarrow> xs[i := v] ! j = (if i = j then v else xs ! j)"
  by (cases "i = j") auto

lemma distinct_words_length:
  fixes n :: "'a::len word"
  assumes "distinct xs" "\<forall>x \<in> set xs. x < n"
  shows "length xs \<le> unat n"
proof -
  have "length xs = card (unat ` set xs)"
    using assms(1) by (simp add: card_image inj_on_def unat_eq_iff distinct_card)
  also have "\<dots> \<le> card {..<unat n}"
    using assms(2) by (intro card_mono) (auto simp: word_less_nat_alt)
  finally show ?thesis by simp
qed

lemma less_5_cases: "(b :: nat) < 5 \<longleftrightarrow> b = 0 \<or> b = 1 \<or> b = 2 \<or> b = 3 \<or> b = 4"
  by arith

lemma find_Some_ex: "(\<exists>x. find P xs = Some x) \<longleftrightarrow> list_ex P xs"
  by (induction xs) auto

lemma list_all_upt_iff: "(\<forall>i < length xs. P (xs ! i)) \<longleftrightarrow> (\<forall>x \<in> set xs. P x)"
  by (metis in_set_conv_nth)

end
