(* ===== verification/Spinlock.thy ===== *)
theory Spinlock
  imports Prelude
begin

text \<open>
  The spin locks of \<^verbatim>\<open>core/system/src/spinlock.c\<close>: one flag, taken with a compare-and-swap.
  Each operation is one atomic step of the model; waiting for the lock is a loop that ends only
  when the flag is clear, so \<open>uvisor_spin_lock\<close> is a partial function whose value \<open>None\<close>
  means that the caller spins forever.
\<close>

section \<open>Operations\<close>

record UvisorSpinlock =
  acquired :: bool

definition uvisor_spin_init :: "UvisorSpinlock \<Rightarrow> UvisorSpinlock" where
  "uvisor_spin_init spinlock = spinlock\<lparr>acquired := False\<rparr>"

definition uvisor_spin_trylock :: "UvisorSpinlock \<Rightarrow> bool \<times> UvisorSpinlock" where
  "uvisor_spin_trylock spinlock =
     (if acquired spinlock = False then (True, spinlock\<lparr>acquired := True\<rparr>) else (False, spinlock))"

partial_function (option) uvisor_spin_lock :: "UvisorSpinlock \<Rightarrow> UvisorSpinlock option" where
  "uvisor_spin_lock spinlock =
     (case uvisor_spin_trylock spinlock of
        (locked, spinlock') \<Rightarrow> if locked = False then uvisor_spin_lock spinlock' else Some spinlock')"

definition uvisor_spin_unlock :: "UvisorSpinlock \<Rightarrow> UvisorSpinlock" where
  "uvisor_spin_unlock spinlock = spinlock\<lparr>acquired := False\<rparr>"

section \<open>What the operations do\<close>

lemma uvisor_spin_lock_free: "\<not> acquired l \<Longrightarrow> uvisor_spin_lock l = Some (l\<lparr>acquired := True\<rparr>)"
  by (simp add: uvisor_spin_lock.simps uvisor_spin_trylock_def)

lemma uvisor_spin_lock_Some_free: "uvisor_spin_lock l = Some l' \<Longrightarrow> \<not> acquired l"
proof (rule uvisor_spin_lock.raw_induct [where P = "\<lambda>l l'. \<not> acquired l"])
  fix f l l'
  assume IH: "\<And>l l'. f l = Some l' \<Longrightarrow> \<not> acquired l"
    and eq: "(case uvisor_spin_trylock l of
        (locked, spinlock') \<Rightarrow> if locked = False then f spinlock' else Some spinlock') = Some l'"
  show "\<not> acquired l"
    using eq IH [of l l'] by (auto simp: uvisor_spin_trylock_def split: if_splits)
qed

lemma uvisor_spin_lock_held: "acquired l \<Longrightarrow> uvisor_spin_lock l = None"
  using uvisor_spin_lock_Some_free by (cases "uvisor_spin_lock l") auto

lemmas spin_simps = uvisor_spin_lock_free uvisor_spin_lock_held
  uvisor_spin_trylock_def uvisor_spin_unlock_def uvisor_spin_init_def

end
