(* ===== verification/Queue_Interface.thy ===== *)
theory Queue_Interface
  imports Prelude
begin

text \<open>
  The contract that the message passing code relies on: a queue of slots that represents a
  sequence, with slots the client holds (allocated and not queued). The client lemmas (a batch of
  enqueued slots comes out in order, a slot that is put back goes to the end) are proved once from
  the contract; \<open>Pool_Queue\<close> interprets it on the model of the pool queues.
\<close>

section \<open>Runs of a queue\<close>

text \<open>Enqueue a batch of slots; dequeue until the queue is empty, at most \<open>n\<close> times.\<close>

fun enqueue_all :: "('q \<Rightarrow> 'a \<Rightarrow> 'q res) \<Rightarrow> 'q \<Rightarrow> 'a list \<Rightarrow> 'q res" where
  "enqueue_all enq q [] = Inr q"
| "enqueue_all enq q (s # ss) = bind_res (enq q s) (\<lambda>q. enqueue_all enq q ss)"

fun drain_all :: "('q \<Rightarrow> ('a option \<times> 'q) res) \<Rightarrow> nat \<Rightarrow> 'q \<Rightarrow> ('a list \<times> 'q) res" where
  "drain_all deq 0 q = Inr ([], q)"
| "drain_all deq (Suc n) q =
     bind_res (deq q) (\<lambda>(s, q).
       case s of
         None \<Rightarrow> Inr ([], q)
       | Some s \<Rightarrow> bind_res (drain_all deq n q) (\<lambda>(ss, q). Inr (s # ss, q)))"

section \<open>The contract\<close>

locale slot_queue =
  fixes rep :: "'q \<Rightarrow> 'a list \<Rightarrow> bool"
    and holds :: "'q \<Rightarrow> 'a \<Rightarrow> bool"
    and enq :: "'q \<Rightarrow> 'a \<Rightarrow> 'q res"
    and deq :: "'q \<Rightarrow> ('a option \<times> 'q) res"
  assumes enq_rep: "rep q xs \<Longrightarrow> holds q s \<Longrightarrow>
      \<exists>q'. enq q s = Inr q' \<and> rep q' (xs @ [s]) \<and> (\<forall>t. t \<noteq> s \<longrightarrow> holds q t \<longrightarrow> holds q' t)"
    and deq_empty: "rep q [] \<Longrightarrow> deq q = Inr (None, q)"
    and deq_rep: "rep q (s # xs) \<Longrightarrow>
      \<exists>q'. deq q = Inr (Some s, q') \<and> rep q' xs \<and> holds q' s \<and> (\<forall>t. holds q t \<longrightarrow> holds q' t)"
begin

lemma enqueue_all_rep:
  "rep q xs \<Longrightarrow> distinct ss \<Longrightarrow> \<forall>s \<in> set ss. holds q s \<Longrightarrow>
    \<exists>q'. enqueue_all enq q ss = Inr q' \<and> rep q' (xs @ ss)"
proof (induction ss arbitrary: q xs)
  case Nil
  then show ?case by simp
next
  case (Cons s ss)
  then obtain q1 where q1: "enq q s = Inr q1" "rep q1 (xs @ [s])"
      "\<forall>t. t \<noteq> s \<longrightarrow> holds q t \<longrightarrow> holds q1 t"
    using enq_rep [of q xs s] by auto
  then have "\<forall>t \<in> set ss. holds q1 t" using Cons.prems by auto
  then show ?case using Cons.IH [of q1 "xs @ [s]"] q1 Cons.prems by auto
qed

lemma drain_all_rep:
  "rep q xs \<Longrightarrow> length xs < n \<Longrightarrow>
    \<exists>q'. drain_all deq n q = Inr (xs, q') \<and> rep q' [] \<and> (\<forall>s \<in> set xs. holds q' s) \<and>
      (\<forall>t. holds q t \<longrightarrow> holds q' t)"
proof (induction xs arbitrary: q n)
  case Nil
  then obtain m where "n = Suc m" by (cases n) auto
  then show ?case using Nil.prems(1) deq_empty by simp
next
  case (Cons s xs)
  then obtain m where m: "n = Suc m" by (cases n) auto
  obtain q1 where q1: "deq q = Inr (Some s, q1)" "rep q1 xs" "holds q1 s"
      "\<forall>t. holds q t \<longrightarrow> holds q1 t"
    using deq_rep Cons.prems(1) by blast
  then obtain q' where "drain_all deq m q1 = Inr (xs, q')" "rep q' []" "\<forall>s \<in> set xs. holds q' s"
      "\<forall>t. holds q1 t \<longrightarrow> holds q' t"
    using Cons.IH [of q1 m] Cons.prems(2) m by auto
  then show ?case using q1 m by auto
qed

lemma fifo_order:
  assumes "rep q []" "distinct ss" "\<forall>s \<in> set ss. holds q s" "length ss < n"
  shows "\<exists>q' q''. enqueue_all enq q ss = Inr q' \<and> drain_all deq n q' = Inr (ss, q'') \<and> rep q'' []"
  using enqueue_all_rep [OF assms(1-3)] drain_all_rep [of _ ss n] assms(4) by fastforce

lemma put_back_rotates:
  assumes "rep q (s # xs)"
  shows "\<exists>q' q''. deq q = Inr (Some s, q') \<and> enq q' s = Inr q'' \<and> rep q'' (xs @ [s])"
  using deq_rep [OF assms] enq_rep by meson

end

end
