(* ===== verification/Pool_Queue.thy ===== *)
theory Pool_Queue
  imports Spinlock Queue_Interface
begin

text \<open>
  The slot pools and pool queues of \<^verbatim>\<open>core/system/src/pool_queue.c\<close> and
  \<^verbatim>\<open>api/inc/pool_queue_exports.h\<close>. A pool manages a fixed number of slots through an in-place
  array of link entries; free slots form a singly linked list, and any number of queues over the
  same pool are doubly linked lists of allocated slots. An entry is a union: the second byte is the
  back link of a queued slot and the state marker of a slot that is free or dequeued.
\<close>

section \<open>Data\<close>

definition UVISOR_POOL_SLOT_INVALID :: u8 where "UVISOR_POOL_SLOT_INVALID = 0xFF"
definition UVISOR_POOL_SLOT_IS_DEQUEUED :: u8 where "UVISOR_POOL_SLOT_IS_DEQUEUED = 0xFE"
definition UVISOR_POOL_SLOT_IS_FREE :: u8 where "UVISOR_POOL_SLOT_IS_FREE = 0xFD"
definition UVISOR_POOL_MAX_VALID :: u8 where "UVISOR_POOL_MAX_VALID = 0xFC"

lemmas slot_consts = UVISOR_POOL_SLOT_INVALID_def UVISOR_POOL_SLOT_IS_DEQUEUED_def
  UVISOR_POOL_SLOT_IS_FREE_def UVISOR_POOL_MAX_VALID_def

definition UDF_OPCODE :: "u32 \<Rightarrow> u32" where
  "UDF_OPCODE imm16 =
     0xA000F7F0 OR push_bit 16 (imm16 AND 0xFFF) OR drop_bit 12 (imm16 AND 0xF000)"

definition UVISOR_POOL_MAGIC :: u32 where "UVISOR_POOL_MAGIC = UDF_OPCODE 0x07C4"
definition UVISOR_POOL_QUEUE_MAGIC :: u32 where "UVISOR_POOL_QUEUE_MAGIC = UDF_OPCODE 0x07C5"

text \<open>
  The union of \<open>queued.{next,prev}\<close> and \<open>dequeued.{next,state}\<close>: both views share the two
  bytes, so \<open>entry_next\<close> is either \<open>next\<close> and \<open>entry_prev\<close> is \<open>queued.prev\<close> as well as
  \<open>dequeued.state\<close>.
\<close>

record uvisor_pool_queue_entry =
  entry_next :: u8
  entry_prev :: u8

record uvisor_pool =
  pool_magic :: u32
  pool_array :: u32
  pool_stride :: u32
  pool_num :: u8
  pool_num_allocated :: u8
  pool_first_free :: u8
  pool_spinlock :: UvisorSpinlock
  management_array :: "uvisor_pool_queue_entry list"

text \<open>A queue holds a pointer to its pool; the operations below take that pool beside the queue.\<close>

record uvisor_pool_queue =
  queue_magic :: u32
  queue_head :: u8
  queue_tail :: u8
  queue_pool :: u32

text \<open>\<open>UVISOR_GET_NS_ALIAS\<close>, with \<open>SECURE_ALIAS_OFFSET\<close> (0 on ARMv7-M) as an argument.\<close>

definition UVISOR_GET_NS_ALIAS :: "u32 \<Rightarrow> u32 \<Rightarrow> u32" where
  "UVISOR_GET_NS_ALIAS secure_alias_offset addr = addr AND NOT secure_alias_offset"

section \<open>Entries\<close>

definition get_entry :: "uvisor_pool \<Rightarrow> u8 \<Rightarrow> uvisor_pool_queue_entry res" where
  "get_entry pool slot = arr_get (management_array pool) (unat slot)"

definition set_entry ::
  "uvisor_pool \<Rightarrow> u8 \<Rightarrow> (uvisor_pool_queue_entry \<Rightarrow> uvisor_pool_queue_entry) \<Rightarrow> uvisor_pool res" where
  "set_entry pool slot f =
     bind_res (get_entry pool slot) (\<lambda>entry.
       Inr (pool\<lparr>management_array := (management_array pool)[unat slot := f entry]\<rparr>))"

definition set_next :: "uvisor_pool \<Rightarrow> u8 \<Rightarrow> u8 \<Rightarrow> uvisor_pool res" where
  "set_next pool slot v = set_entry pool slot (\<lambda>entry. entry\<lparr>entry_next := v\<rparr>)"

definition set_prev :: "uvisor_pool \<Rightarrow> u8 \<Rightarrow> u8 \<Rightarrow> uvisor_pool res" where
  "set_prev pool slot v = set_entry pool slot (\<lambda>entry. entry\<lparr>entry_prev := v\<rparr>)"

section \<open>Initialisation\<close>

text \<open>The loop of \<open>uvisor_pool_init\<close> over the slots; \<open>n\<close> counts the iterations left.\<close>

fun pool_init_loop :: "uvisor_pool \<Rightarrow> nat \<Rightarrow> nat \<Rightarrow> uvisor_pool res" where
  "pool_init_loop pool i 0 = Inr pool"
| "pool_init_loop pool i (Suc n) =
     bind_res (set_next pool (of_nat i) (of_nat i + 1)) (\<lambda>pool.
     bind_res (set_prev pool (of_nat i) UVISOR_POOL_SLOT_IS_FREE) (\<lambda>pool.
     pool_init_loop pool (Suc i) n))"

definition uvisor_pool_init ::
  "u32 \<Rightarrow> uvisor_pool \<Rightarrow> u32 \<Rightarrow> u32 \<Rightarrow> u32 \<Rightarrow> (int \<times> uvisor_pool) res" where
  "uvisor_pool_init secure_alias_offset pool array stride num =
     (if num \<ge> ucast UVISOR_POOL_MAX_VALID then Inr (-1, pool)
      else
        let pool = pool\<lparr>pool_magic := UVISOR_POOL_MAGIC,
              pool_array := UVISOR_GET_NS_ALIAS secure_alias_offset array,
              pool_stride := stride, pool_num := ucast num, pool_num_allocated := 0,
              pool_first_free := 0\<rparr>
        in bind_res (pool_init_loop pool 0 (unat num)) (\<lambda>pool.
           bind_res (if num = 0 then Inl Oob
                     else set_next pool (ucast (num - 1)) UVISOR_POOL_SLOT_INVALID) (\<lambda>pool.
           Inr (0, pool\<lparr>pool_spinlock := uvisor_spin_init (pool_spinlock pool)\<rparr>))))"

text \<open>The status of \<open>uvisor_pool_init\<close> is dropped, as in the source.\<close>

definition uvisor_pool_queue_init ::
  "u32 \<Rightarrow> uvisor_pool_queue \<Rightarrow> u32 \<Rightarrow> uvisor_pool \<Rightarrow> u32 \<Rightarrow> u32 \<Rightarrow> u32
    \<Rightarrow> (int \<times> uvisor_pool_queue \<times> uvisor_pool) res" where
  "uvisor_pool_queue_init secure_alias_offset pool_queue pool_address pool array stride num =
     bind_res (uvisor_pool_init secure_alias_offset pool array stride num) (\<lambda>(status, pool).
     Inr (0, pool_queue\<lparr>queue_magic := UVISOR_POOL_QUEUE_MAGIC,
                queue_head := UVISOR_POOL_SLOT_INVALID, queue_tail := UVISOR_POOL_SLOT_INVALID,
                queue_pool := UVISOR_GET_NS_ALIAS secure_alias_offset pool_address\<rparr>, pool))"

section \<open>Unlocked operations\<close>

text \<open>Remove an element from the front of the free list.\<close>

definition pool_alloc :: "uvisor_pool \<Rightarrow> (u8 \<times> uvisor_pool) res" where
  "pool_alloc pool =
     (let fresh = pool_first_free pool in
      if pool_first_free pool \<noteq> UVISOR_POOL_SLOT_INVALID then
        bind_res (get_entry pool (pool_first_free pool)) (\<lambda>first_free.
        let pool = pool\<lparr>pool_first_free := entry_next first_free\<rparr> in
        bind_res (set_next pool fresh UVISOR_POOL_SLOT_INVALID) (\<lambda>pool.
        bind_res (set_prev pool fresh UVISOR_POOL_SLOT_IS_DEQUEUED) (\<lambda>pool.
        Inr (fresh, pool\<lparr>pool_num_allocated := pool_num_allocated pool + 1\<rparr>))))
      else Inr (fresh, pool))"

text \<open>Add an element to the back of the queue.\<close>

definition enqueue ::
  "uvisor_pool_queue \<Rightarrow> uvisor_pool \<Rightarrow> u8 \<Rightarrow> (uvisor_pool_queue \<times> uvisor_pool) res" where
  "enqueue pool_queue pool slot =
     bind_res
       (if queue_head pool_queue = UVISOR_POOL_SLOT_INVALID then
          let pool_queue = pool_queue\<lparr>queue_head := slot\<rparr> in
          bind_res (set_prev pool (queue_head pool_queue) UVISOR_POOL_SLOT_INVALID) (\<lambda>pool.
          Inr (pool_queue, pool))
        else
          bind_res (set_next pool (queue_tail pool_queue) slot) (\<lambda>pool.
          bind_res (set_prev pool slot (queue_tail pool_queue)) (\<lambda>pool.
          Inr (pool_queue, pool))))
       (\<lambda>(pool_queue, pool).
          bind_res (set_next pool slot UVISOR_POOL_SLOT_INVALID) (\<lambda>pool.
          Inr (pool_queue\<lparr>queue_tail := slot\<rparr>, pool)))"

definition pool_free :: "uvisor_pool \<Rightarrow> u8 \<Rightarrow> uvisor_pool res" where
  "pool_free pool slot =
     bind_res (set_next pool slot (pool_first_free pool)) (\<lambda>pool.
     bind_res (set_prev pool slot UVISOR_POOL_SLOT_IS_FREE) (\<lambda>pool.
     let pool = pool\<lparr>pool_first_free := slot\<rparr> in
     Inr (pool\<lparr>pool_num_allocated := pool_num_allocated pool - 1\<rparr>)))"

definition dequeue ::
  "uvisor_pool_queue \<Rightarrow> uvisor_pool \<Rightarrow> u8 \<Rightarrow> (uvisor_pool_queue \<times> uvisor_pool) res" where
  "dequeue pool_queue pool slot =
     bind_res
       (if queue_head pool_queue = queue_tail pool_queue then
          Inr (pool_queue\<lparr>queue_head := UVISOR_POOL_SLOT_INVALID,
                          queue_tail := UVISOR_POOL_SLOT_INVALID\<rparr>, pool)
        else if queue_head pool_queue = slot then
          bind_res (get_entry pool slot) (\<lambda>slot_entry.
          bind_res (set_prev pool (entry_next slot_entry) UVISOR_POOL_SLOT_INVALID) (\<lambda>pool.
          bind_res (get_entry pool slot) (\<lambda>slot_entry.
          Inr (pool_queue\<lparr>queue_head := entry_next slot_entry\<rparr>, pool))))
        else if queue_tail pool_queue = slot then
          bind_res (get_entry pool slot) (\<lambda>slot_entry.
          bind_res (set_next pool (entry_prev slot_entry) UVISOR_POOL_SLOT_INVALID) (\<lambda>pool.
          bind_res (get_entry pool slot) (\<lambda>slot_entry.
          Inr (pool_queue\<lparr>queue_tail := entry_prev slot_entry\<rparr>, pool))))
        else
          bind_res (get_entry pool slot) (\<lambda>slot_entry.
          let next_entry = entry_next slot_entry; prev_entry = entry_prev slot_entry in
          bind_res (set_next pool prev_entry (entry_next slot_entry)) (\<lambda>pool.
          bind_res (get_entry pool slot) (\<lambda>slot_entry.
          bind_res (set_prev pool next_entry (entry_prev slot_entry)) (\<lambda>pool.
          Inr (pool_queue, pool))))))
       (\<lambda>(pool_queue, pool).
          bind_res (set_next pool slot UVISOR_POOL_SLOT_INVALID) (\<lambda>pool.
          bind_res (set_prev pool slot UVISOR_POOL_SLOT_IS_DEQUEUED) (\<lambda>pool.
          Inr (pool_queue, pool))))"

definition try_dequeue_first ::
  "uvisor_pool_queue \<Rightarrow> uvisor_pool \<Rightarrow> (u8 \<times> uvisor_pool_queue \<times> uvisor_pool) res" where
  "try_dequeue_first pool_queue pool =
     (let slot = queue_head pool_queue in
      if queue_head pool_queue \<noteq> UVISOR_POOL_SLOT_INVALID then
        bind_res (dequeue pool_queue pool slot) (\<lambda>(pool_queue, pool).
        Inr (slot, pool_queue, pool))
      else Inr (slot, pool_queue, pool))"

text \<open>
  The walk of \<open>find_first\<close>. The queue lives in memory a box can write, so the links may form a
  cycle and the loop is bounded by fuel; \<open>Diverge\<close> is a walk that has not ended. The query
  function is a parameter. When a slot matches, the walk releases the pool's lock itself, before
  its caller releases it again.
\<close>

fun find_first_loop ::
  "nat \<Rightarrow> uvisor_pool \<Rightarrow> (u8 \<Rightarrow> bool) \<Rightarrow> u8 \<Rightarrow> (u8 \<times> uvisor_pool) res" where
  "find_first_loop 0 pool query_fn slot = Inl Diverge"
| "find_first_loop (Suc fuel) pool query_fn slot =
     (if slot \<noteq> UVISOR_POOL_SLOT_INVALID then
        if query_fn slot then
          Inr (slot, pool\<lparr>pool_spinlock := uvisor_spin_unlock (pool_spinlock pool)\<rparr>)
        else
          bind_res (get_entry pool slot) (\<lambda>entry.
          find_first_loop fuel pool query_fn (entry_next entry))
      else Inr (UVISOR_POOL_SLOT_INVALID, pool))"

text \<open>A walk over distinct slots ends within 256 entries and the final \<open>INVALID\<close> test.\<close>

definition find_first ::
  "uvisor_pool_queue \<Rightarrow> uvisor_pool \<Rightarrow> (u8 \<Rightarrow> bool) \<Rightarrow> (u8 \<times> uvisor_pool) res" where
  "find_first pool_queue pool query_fn =
     find_first_loop 257 pool query_fn (queue_head pool_queue)"

section \<open>Operations under the pool's spin lock\<close>

definition pool_spin_lock :: "uvisor_pool \<Rightarrow> uvisor_pool res" where
  "pool_spin_lock pool =
     (case uvisor_spin_lock (pool_spinlock pool) of
        None \<Rightarrow> Inl Diverge
      | Some l \<Rightarrow> Inr (pool\<lparr>pool_spinlock := l\<rparr>))"

definition pool_spin_trylock :: "uvisor_pool \<Rightarrow> bool \<times> uvisor_pool" where
  "pool_spin_trylock pool =
     (case uvisor_spin_trylock (pool_spinlock pool) of
        (locked, l) \<Rightarrow> (locked, pool\<lparr>pool_spinlock := l\<rparr>))"

definition pool_spin_unlock :: "uvisor_pool \<Rightarrow> uvisor_pool" where
  "pool_spin_unlock pool = pool\<lparr>pool_spinlock := uvisor_spin_unlock (pool_spinlock pool)\<rparr>"

definition uvisor_pool_allocate :: "uvisor_pool \<Rightarrow> (u8 \<times> uvisor_pool) res" where
  "uvisor_pool_allocate pool =
     bind_res (pool_spin_lock pool) (\<lambda>pool.
     bind_res (pool_alloc pool) (\<lambda>(fresh, pool).
     Inr (fresh, pool_spin_unlock pool)))"

definition uvisor_pool_try_allocate :: "uvisor_pool \<Rightarrow> (u8 \<times> uvisor_pool) res" where
  "uvisor_pool_try_allocate pool =
     (case pool_spin_trylock pool of (locked, pool) \<Rightarrow>
      if \<not> locked then Inr (UVISOR_POOL_SLOT_INVALID, pool)
      else
        bind_res (pool_alloc pool) (\<lambda>(fresh, pool).
        Inr (fresh, pool_spin_unlock pool)))"

definition uvisor_pool_queue_enqueue ::
  "uvisor_pool_queue \<Rightarrow> uvisor_pool \<Rightarrow> u8 \<Rightarrow> (uvisor_pool_queue \<times> uvisor_pool) res" where
  "uvisor_pool_queue_enqueue pool_queue pool slot =
     (if slot \<noteq> UVISOR_POOL_SLOT_INVALID then
        bind_res (pool_spin_lock pool) (\<lambda>pool.
        bind_res (enqueue pool_queue pool slot) (\<lambda>(pool_queue, pool).
        Inr (pool_queue, pool_spin_unlock pool)))
      else Inr (pool_queue, pool))"

definition uvisor_pool_queue_try_enqueue ::
  "uvisor_pool_queue \<Rightarrow> uvisor_pool \<Rightarrow> u8 \<Rightarrow> (int \<times> uvisor_pool_queue \<times> uvisor_pool) res" where
  "uvisor_pool_queue_try_enqueue pool_queue pool slot =
     (if slot \<noteq> UVISOR_POOL_SLOT_INVALID then
        (case pool_spin_trylock pool of (locked, pool) \<Rightarrow>
         if \<not> locked then Inr (-1, pool_queue, pool)
         else
           bind_res (enqueue pool_queue pool slot) (\<lambda>(pool_queue, pool).
           Inr (0, pool_queue, pool_spin_unlock pool)))
      else Inr (0, pool_queue, pool))"

definition uvisor_pool_free :: "uvisor_pool \<Rightarrow> u8 \<Rightarrow> (u8 \<times> uvisor_pool) res" where
  "uvisor_pool_free pool slot =
     (if slot \<ge> pool_num pool then Inr (UVISOR_POOL_SLOT_INVALID, pool)
      else
        bind_res (pool_spin_lock pool) (\<lambda>pool.
        bind_res (get_entry pool slot) (\<lambda>slot_entry.
        let state = entry_prev slot_entry in
        if state = UVISOR_POOL_SLOT_IS_FREE then Inr (state, pool_spin_unlock pool)
        else
          bind_res (pool_free pool slot) (\<lambda>pool.
          Inr (slot, pool_spin_unlock pool)))))"

definition uvisor_pool_try_free :: "uvisor_pool \<Rightarrow> u8 \<Rightarrow> (u8 \<times> uvisor_pool) res" where
  "uvisor_pool_try_free pool slot =
     (if slot \<ge> pool_num pool then Inr (UVISOR_POOL_SLOT_INVALID, pool)
      else
        (case pool_spin_trylock pool of (locked, pool) \<Rightarrow>
         if \<not> locked then Inr (UVISOR_POOL_SLOT_INVALID, pool)
         else
           bind_res (get_entry pool slot) (\<lambda>slot_entry.
           let state = entry_prev slot_entry in
           if state = UVISOR_POOL_SLOT_IS_FREE then Inr (state, pool_spin_unlock pool)
           else
             bind_res (pool_free pool slot) (\<lambda>pool.
             Inr (slot, pool_spin_unlock pool)))))"

text \<open>The part that both dequeue operations run once they hold the lock.\<close>

definition dequeue_locked ::
  "uvisor_pool_queue \<Rightarrow> uvisor_pool \<Rightarrow> u8 \<Rightarrow> (u8 \<times> uvisor_pool_queue \<times> uvisor_pool) res" where
  "dequeue_locked pool_queue pool slot =
     bind_res (get_entry pool slot) (\<lambda>slot_entry.
     let state = entry_prev slot_entry in
     if state = UVISOR_POOL_SLOT_IS_FREE \<or> state = UVISOR_POOL_SLOT_IS_DEQUEUED then
       Inr (state, pool_queue, pool_spin_unlock pool)
     else
       bind_res
         (if queue_head pool_queue \<noteq> UVISOR_POOL_SLOT_INVALID then dequeue pool_queue pool slot
          else Inr (pool_queue, pool))
         (\<lambda>(pool_queue, pool). Inr (slot, pool_queue, pool_spin_unlock pool)))"

definition uvisor_pool_queue_try_dequeue ::
  "uvisor_pool_queue \<Rightarrow> uvisor_pool \<Rightarrow> u8 \<Rightarrow> (u8 \<times> uvisor_pool_queue \<times> uvisor_pool) res" where
  "uvisor_pool_queue_try_dequeue pool_queue pool slot =
     (if slot \<ge> pool_num pool then Inr (UVISOR_POOL_SLOT_INVALID, pool_queue, pool)
      else
        (case pool_spin_trylock pool of (locked, pool) \<Rightarrow>
         if \<not> locked then Inr (UVISOR_POOL_SLOT_INVALID, pool_queue, pool)
         else dequeue_locked pool_queue pool slot))"

definition uvisor_pool_queue_dequeue ::
  "uvisor_pool_queue \<Rightarrow> uvisor_pool \<Rightarrow> u8 \<Rightarrow> (u8 \<times> uvisor_pool_queue \<times> uvisor_pool) res" where
  "uvisor_pool_queue_dequeue pool_queue pool slot =
     (if slot \<ge> pool_num pool then Inr (UVISOR_POOL_SLOT_INVALID, pool_queue, pool)
      else bind_res (pool_spin_lock pool) (\<lambda>pool. dequeue_locked pool_queue pool slot))"

definition uvisor_pool_queue_dequeue_first ::
  "uvisor_pool_queue \<Rightarrow> uvisor_pool \<Rightarrow> (u8 \<times> uvisor_pool_queue \<times> uvisor_pool) res" where
  "uvisor_pool_queue_dequeue_first pool_queue pool =
     bind_res (pool_spin_lock pool) (\<lambda>pool.
     bind_res (try_dequeue_first pool_queue pool) (\<lambda>(slot, pool_queue, pool).
     Inr (slot, pool_queue, pool_spin_unlock pool)))"

definition uvisor_pool_queue_try_dequeue_first ::
  "uvisor_pool_queue \<Rightarrow> uvisor_pool \<Rightarrow> (u8 \<times> uvisor_pool_queue \<times> uvisor_pool) res" where
  "uvisor_pool_queue_try_dequeue_first pool_queue pool =
     (case pool_spin_trylock pool of (locked, pool) \<Rightarrow>
      if \<not> locked then Inr (UVISOR_POOL_SLOT_INVALID, pool_queue, pool)
      else
        bind_res (try_dequeue_first pool_queue pool) (\<lambda>(slot, pool_queue, pool).
        Inr (slot, pool_queue, pool_spin_unlock pool)))"

definition uvisor_pool_queue_try_find_first ::
  "uvisor_pool_queue \<Rightarrow> uvisor_pool \<Rightarrow> (u8 \<Rightarrow> bool) \<Rightarrow> (u8 \<times> uvisor_pool) res" where
  "uvisor_pool_queue_try_find_first pool_queue pool query_fn =
     (case pool_spin_trylock pool of (locked, pool) \<Rightarrow>
      if \<not> locked then Inr (UVISOR_POOL_SLOT_INVALID, pool)
      else
        bind_res (find_first pool_queue pool query_fn) (\<lambda>(slot, pool).
        Inr (slot, pool_spin_unlock pool)))"

definition uvisor_pool_queue_find_first ::
  "uvisor_pool_queue \<Rightarrow> uvisor_pool \<Rightarrow> (u8 \<Rightarrow> bool) \<Rightarrow> (u8 \<times> uvisor_pool) res" where
  "uvisor_pool_queue_find_first pool_queue pool query_fn =
     bind_res (pool_spin_lock pool) (\<lambda>pool.
     bind_res (find_first pool_queue pool query_fn) (\<lambda>(slot, pool).
     Inr (slot, pool_spin_unlock pool)))"

text \<open>The address of a slot's data, \<open>0\<close> (\<open>NULL\<close>) outside of the pool.\<close>

definition uvisor_pool_pointer_to :: "uvisor_pool \<Rightarrow> u8 \<Rightarrow> u32" where
  "uvisor_pool_pointer_to pool slot =
     (if slot \<ge> pool_num pool then 0
      else pool_array pool + pool_stride pool * ucast slot)"

section \<open>Link structure\<close>

text \<open>The two link fields as functions of the slot, and their updates.\<close>

definition in_pool :: "uvisor_pool \<Rightarrow> u8 \<Rightarrow> bool" where
  "in_pool p s \<longleftrightarrow> unat s < length (management_array p)"

definition nxt :: "uvisor_pool \<Rightarrow> u8 \<Rightarrow> u8" where
  "nxt p s = (if in_pool p s then entry_next (management_array p ! unat s) else 0)"

definition prv :: "uvisor_pool \<Rightarrow> u8 \<Rightarrow> u8" where
  "prv p s = (if in_pool p s then entry_prev (management_array p ! unat s) else 0)"

definition upd_entry ::
  "uvisor_pool \<Rightarrow> u8 \<Rightarrow> (uvisor_pool_queue_entry \<Rightarrow> uvisor_pool_queue_entry) \<Rightarrow> uvisor_pool" where
  "upd_entry p s f = p\<lparr>management_array :=
     (management_array p)[unat s := f (management_array p ! unat s)]\<rparr>"

lemma upd_entry_fields [simp]:
  "pool_magic (upd_entry p s f) = pool_magic p"
  "pool_array (upd_entry p s f) = pool_array p"
  "pool_stride (upd_entry p s f) = pool_stride p"
  "pool_num (upd_entry p s f) = pool_num p"
  "pool_num_allocated (upd_entry p s f) = pool_num_allocated p"
  "pool_first_free (upd_entry p s f) = pool_first_free p"
  "pool_spinlock (upd_entry p s f) = pool_spinlock p"
  "length (management_array (upd_entry p s f)) = length (management_array p)"
  "in_pool (upd_entry p s f) t = in_pool p t"
  by (simp_all add: upd_entry_def in_pool_def)

lemma links_frame [simp]:
  "in_pool (p\<lparr>pool_first_free := a\<rparr>) = in_pool p"
  "nxt (p\<lparr>pool_first_free := a\<rparr>) = nxt p"
  "prv (p\<lparr>pool_first_free := a\<rparr>) = prv p"
  "in_pool (p\<lparr>pool_num_allocated := b\<rparr>) = in_pool p"
  "nxt (p\<lparr>pool_num_allocated := b\<rparr>) = nxt p"
  "prv (p\<lparr>pool_num_allocated := b\<rparr>) = prv p"
  "in_pool (p\<lparr>pool_spinlock := l\<rparr>) = in_pool p"
  "nxt (p\<lparr>pool_spinlock := l\<rparr>) = nxt p"
  "prv (p\<lparr>pool_spinlock := l\<rparr>) = prv p"
  by (simp_all add: fun_eq_iff in_pool_def nxt_def prv_def)

lemma get_entry_in [simp]: "in_pool p s \<Longrightarrow> get_entry p s = Inr (management_array p ! unat s)"
  by (simp add: get_entry_def in_pool_def)

lemma entry_links:
  "in_pool p s \<Longrightarrow> entry_next (management_array p ! unat s) = nxt p s"
  "in_pool p s \<Longrightarrow> entry_prev (management_array p ! unat s) = prv p s"
  by (simp_all add: nxt_def prv_def)

lemma set_links_in [simp]:
  "in_pool p s \<Longrightarrow> set_next p s v = Inr (upd_entry p s (\<lambda>e. e\<lparr>entry_next := v\<rparr>))"
  "in_pool p s \<Longrightarrow> set_prev p s v = Inr (upd_entry p s (\<lambda>e. e\<lparr>entry_prev := v\<rparr>))"
  by (simp_all add: set_next_def set_prev_def set_entry_def upd_entry_def)

lemma nxt_upd [simp]:
  "in_pool p s \<Longrightarrow> nxt (upd_entry p s (\<lambda>e. e\<lparr>entry_next := v\<rparr>)) = (nxt p)(s := v)"
  "nxt (upd_entry p s (\<lambda>e. e\<lparr>entry_prev := v\<rparr>)) = nxt p"
  by (auto simp: fun_eq_iff nxt_def upd_entry_def in_pool_def nth_list_update_at dest: unat_eq_iff [THEN iffD1])

lemma prv_upd [simp]:
  "in_pool p s \<Longrightarrow> prv (upd_entry p s (\<lambda>e. e\<lparr>entry_prev := v\<rparr>)) = (prv p)(s := v)"
  "prv (upd_entry p s (\<lambda>e. e\<lparr>entry_next := v\<rparr>)) = prv p"
  by (auto simp: fun_eq_iff prv_def upd_entry_def in_pool_def nth_list_update_at dest: unat_eq_iff [THEN iffD1])

subsection \<open>Paths along a link field\<close>

fun path :: "(u8 \<Rightarrow> u8) \<Rightarrow> u8 \<Rightarrow> u8 list \<Rightarrow> u8 \<Rightarrow> bool" where
  "path n a [] b \<longleftrightarrow> a = b"
| "path n a (x # xs) b \<longleftrightarrow> a = x \<and> x \<noteq> UVISOR_POOL_SLOT_INVALID \<and> path n (n x) xs b"

fun backlinks :: "(u8 \<Rightarrow> u8) \<Rightarrow> u8 \<Rightarrow> u8 list \<Rightarrow> bool" where
  "backlinks pr b [] \<longleftrightarrow> True"
| "backlinks pr b (x # xs) \<longleftrightarrow> pr x = b \<and> backlinks pr x xs"

lemma path_append [simp]: "path n a (xs @ ys) b \<longleftrightarrow> (\<exists>c. path n a xs c \<and> path n c ys b)"
  by (induction xs arbitrary: a) auto

lemma path_upd [simp]: "s \<notin> set xs \<Longrightarrow> path (n(s := v)) a xs b = path n a xs b"
  by (induction xs arbitrary: a) auto

lemma path_cong: "(\<And>s. s \<in> set xs \<Longrightarrow> n s = n' s) \<Longrightarrow> path n a xs b = path n' a xs b"
  by (induction xs arbitrary: a) auto

lemma path_invalid_iff: "path n UVISOR_POOL_SLOT_INVALID xs UVISOR_POOL_SLOT_INVALID \<longleftrightarrow> xs = []"
  by (cases xs) auto

lemma backlinks_append [simp]:
  "backlinks pr b (xs @ ys) \<longleftrightarrow> backlinks pr b xs \<and> backlinks pr (if xs = [] then b else last xs) ys"
  by (induction xs arbitrary: b) auto

lemma backlinks_upd [simp]: "s \<notin> set xs \<Longrightarrow> backlinks (pr(s := v)) b xs = backlinks pr b xs"
  by (induction xs arbitrary: b) auto

lemma backlinks_cong: "(\<And>s. s \<in> set xs \<Longrightarrow> pr s = pr' s) \<Longrightarrow> backlinks pr b xs = backlinks pr' b xs"
  by (induction xs arbitrary: b) auto

lemma backlinks_in: "backlinks pr b xs \<Longrightarrow> s \<in> set xs \<Longrightarrow> pr s = b \<or> pr s \<in> set xs"
  by (induction xs arbitrary: b) auto

lemma path_snoc_upd:
  "path n a xs b \<Longrightarrow> distinct xs \<Longrightarrow> xs \<noteq> [] \<Longrightarrow> path (n(last xs := c)) a xs c"
  by (induction xs arbitrary: a) (auto split: if_splits)

section \<open>Representation of free lists and queues\<close>

definition pool_ok :: "uvisor_pool \<Rightarrow> bool" where
  "pool_ok p \<longleftrightarrow> pool_num p < UVISOR_POOL_MAX_VALID \<and>
     unat (pool_num p) \<le> length (management_array p)"

definition free_rep :: "uvisor_pool \<Rightarrow> u8 list \<Rightarrow> bool" where
  "free_rep p fl \<longleftrightarrow>
     path (nxt p) (pool_first_free p) fl UVISOR_POOL_SLOT_INVALID \<and> distinct fl \<and>
     (\<forall>s \<in> set fl. s < pool_num p) \<and>
     (\<forall>s. s < pool_num p \<longrightarrow> (prv p s = UVISOR_POOL_SLOT_IS_FREE \<longleftrightarrow> s \<in> set fl)) \<and>
     unat (pool_num_allocated p) + length fl = unat (pool_num p)"

definition pool_rep :: "uvisor_pool \<Rightarrow> u8 list \<Rightarrow> bool" where
  "pool_rep p fl \<longleftrightarrow> pool_ok p \<and> free_rep p fl"

definition queue_rep :: "uvisor_pool_queue \<Rightarrow> uvisor_pool \<Rightarrow> u8 list \<Rightarrow> bool" where
  "queue_rep q p xs \<longleftrightarrow>
     path (nxt p) (queue_head q) xs UVISOR_POOL_SLOT_INVALID \<and>
     backlinks (prv p) UVISOR_POOL_SLOT_INVALID xs \<and> distinct xs \<and> (\<forall>s \<in> set xs. s < pool_num p) \<and>
     queue_tail q = (if xs = [] then UVISOR_POOL_SLOT_INVALID else last xs)"

text \<open>Two pools agree outside of a set of slots.\<close>

definition same_links :: "u8 set \<Rightarrow> uvisor_pool \<Rightarrow> uvisor_pool \<Rightarrow> bool" where
  "same_links S p p' \<longleftrightarrow> pool_num p' = pool_num p \<and>
     length (management_array p') = length (management_array p) \<and>
     (\<forall>s. s \<notin> S \<longrightarrow> nxt p' s = nxt p s \<and> prv p' s = prv p s)"

lemma pool_slot_valid:
  assumes "pool_ok p" "s < pool_num p"
  shows "in_pool p s" "s \<noteq> UVISOR_POOL_SLOT_INVALID" "s \<noteq> UVISOR_POOL_SLOT_IS_FREE"
    "s \<noteq> UVISOR_POOL_SLOT_IS_DEQUEUED"
  using assms by (auto simp: pool_ok_def in_pool_def word_less_nat_alt slot_consts)

lemma slot_markers [simp]:
  "UVISOR_POOL_SLOT_INVALID \<noteq> UVISOR_POOL_SLOT_IS_FREE"
  "UVISOR_POOL_SLOT_IS_FREE \<noteq> UVISOR_POOL_SLOT_INVALID"
  "UVISOR_POOL_SLOT_INVALID \<noteq> UVISOR_POOL_SLOT_IS_DEQUEUED"
  "UVISOR_POOL_SLOT_IS_DEQUEUED \<noteq> UVISOR_POOL_SLOT_INVALID"
  "UVISOR_POOL_SLOT_IS_FREE \<noteq> UVISOR_POOL_SLOT_IS_DEQUEUED"
  "UVISOR_POOL_SLOT_IS_DEQUEUED \<noteq> UVISOR_POOL_SLOT_IS_FREE"
  by (simp_all add: slot_consts)

lemma queue_slot_not_marked:
  assumes "pool_ok p" "queue_rep q p xs" "s \<in> set xs"
  shows "prv p s \<noteq> UVISOR_POOL_SLOT_IS_FREE" "prv p s \<noteq> UVISOR_POOL_SLOT_IS_DEQUEUED"
proof -
  have "prv p s = UVISOR_POOL_SLOT_INVALID \<or> prv p s \<in> set xs"
    using assms backlinks_in by (auto simp: queue_rep_def)
  then show "prv p s \<noteq> UVISOR_POOL_SLOT_IS_FREE" "prv p s \<noteq> UVISOR_POOL_SLOT_IS_DEQUEUED"
    using assms pool_slot_valid [OF assms(1)] by (auto simp: queue_rep_def)
qed

lemma free_queue_disjoint:
  assumes "pool_rep p fl" "queue_rep q p xs"
  shows "set fl \<inter> set xs = {}"
  using assms queue_slot_not_marked [of p q xs] by (auto simp: pool_rep_def free_rep_def queue_rep_def)

lemma queue_rep_frame:
  assumes "queue_rep q p xs" "same_links S p p'" "set xs \<inter> S = {}"
  shows "queue_rep q p' xs"
proof -
  have eq: "nxt p' s = nxt p s" "prv p' s = prv p s" if "s \<in> set xs" for s
    using that assms by (auto simp: same_links_def)
  have "path (nxt p') a xs b = path (nxt p) a xs b" "backlinks (prv p') c xs = backlinks (prv p) c xs"
    for a b c by (rule path_cong backlinks_cong; simp add: eq)+
  then show ?thesis using assms by (auto simp: queue_rep_def same_links_def)
qed

lemma queue_rep_head:
  assumes "pool_ok p" "queue_rep q p xs"
  shows "queue_head q = (if xs = [] then UVISOR_POOL_SLOT_INVALID else hd xs)"
  using assms by (cases xs) (auto simp: queue_rep_def)

section \<open>Correctness of the unlocked operations\<close>

lemma pool_alloc_empty: "pool_rep p [] \<Longrightarrow> pool_alloc p = Inr (UVISOR_POOL_SLOT_INVALID, p)"
  by (simp add: pool_rep_def free_rep_def pool_alloc_def)

lemma pool_alloc_step:
  assumes "pool_rep p (s # fl)"
  shows "\<exists>p'. pool_alloc p = Inr (s, p') \<and> pool_rep p' fl \<and> same_links {s} p p' \<and>
           prv p' s = UVISOR_POOL_SLOT_IS_DEQUEUED \<and> s < pool_num p \<and>
           pool_spinlock p' = pool_spinlock p"
proof -
  note rep = assms [unfolded pool_rep_def free_rep_def]
  have s: "s < pool_num p" "in_pool p s" "pool_first_free p = s" "s \<noteq> UVISOR_POOL_SLOT_INVALID"
    using rep pool_slot_valid [of p s] by auto
  let ?p1 = "p\<lparr>pool_first_free := nxt p s\<rparr>"
  let ?p2 = "upd_entry ?p1 s (\<lambda>e. e\<lparr>entry_next := UVISOR_POOL_SLOT_INVALID\<rparr>)"
  let ?p3 = "upd_entry ?p2 s (\<lambda>e. e\<lparr>entry_prev := UVISOR_POOL_SLOT_IS_DEQUEUED\<rparr>)"
  let ?p' = "?p3\<lparr>pool_num_allocated := pool_num_allocated ?p3 + 1\<rparr>"
  have cnt: "unat (pool_num_allocated p + 1) = unat (pool_num_allocated p) + 1"
    using rep unat_u8_lt [of "pool_num p"] by (simp add: unat_word_ariths)
  have "pool_alloc p = Inr (s, ?p')"
    using s by (simp add: pool_alloc_def entry_links Let_def)
  moreover have "pool_rep ?p' fl"
    using rep s cnt by (auto simp: pool_rep_def pool_ok_def free_rep_def)
  ultimately show ?thesis
    using s by (auto simp: same_links_def)
qed

lemma pool_free_step:
  assumes "pool_rep p fl" "s < pool_num p" "s \<notin> set fl"
  shows "\<exists>p'. pool_free p s = Inr p' \<and> pool_rep p' (s # fl) \<and> same_links {s} p p' \<and>
           pool_spinlock p' = pool_spinlock p"
proof -
  note rep = assms(1) [unfolded pool_rep_def free_rep_def]
  have s: "in_pool p s" "s \<noteq> UVISOR_POOL_SLOT_INVALID"
    using rep assms pool_slot_valid [of p s] by auto
  have "length (s # fl) \<le> unat (pool_num p)"
    using rep assms by (intro distinct_words_length) auto
  then have nz: "pool_num_allocated p \<noteq> 0"
    using rep by auto
  have cnt: "unat (pool_num_allocated p - 1) + 1 = unat (pool_num_allocated p)"
    using unat_minus_one [OF nz] nz unat_gt_0 [of "pool_num_allocated p"] by simp
  let ?p1 = "upd_entry p s (\<lambda>e. e\<lparr>entry_next := pool_first_free p\<rparr>)"
  let ?p2 = "upd_entry ?p1 s (\<lambda>e. e\<lparr>entry_prev := UVISOR_POOL_SLOT_IS_FREE\<rparr>)"
  let ?p3 = "?p2\<lparr>pool_first_free := s\<rparr>"
  let ?p' = "?p3\<lparr>pool_num_allocated := pool_num_allocated ?p3 - 1\<rparr>"
  have "pool_free p s = Inr ?p'"
    using s by (simp add: pool_free_def Let_def)
  moreover have "pool_rep ?p' (s # fl)"
    using rep s assms cnt by (auto simp: pool_rep_def pool_ok_def free_rep_def)
  ultimately show ?thesis
    using s by (auto simp: same_links_def)
qed

text \<open>Changing links of slots that are not free keeps the free list.\<close>

lemma pool_rep_frame:
  assumes "pool_rep p fl" "same_links S p p'" "set fl \<inter> S = {}"
    and "pool_first_free p' = pool_first_free p" "pool_num_allocated p' = pool_num_allocated p"
    and "\<And>s. s \<in> S \<Longrightarrow> s < pool_num p \<Longrightarrow> prv p' s \<noteq> UVISOR_POOL_SLOT_IS_FREE"
  shows "pool_rep p' fl"
proof -
  note rep = assms(1) [unfolded pool_rep_def free_rep_def]
  have eq: "nxt p' s = nxt p s" if "s \<in> set fl" for s
    using that assms(2,3) by (auto simp: same_links_def)
  have "path (nxt p') a fl b = path (nxt p) a fl b" for a b
    by (rule path_cong) (simp add: eq)
  moreover have "prv p' s = UVISOR_POOL_SLOT_IS_FREE \<longleftrightarrow> s \<in> set fl" if "s < pool_num p" for s
    using that rep assms(2,3,6) by (cases "s \<in> S") (auto simp: same_links_def)
  ultimately show ?thesis
    using rep assms(2,4,5) by (simp add: pool_rep_def pool_ok_def free_rep_def same_links_def)
qed

lemma enqueue_step:
  assumes "pool_rep p fl" "queue_rep q p xs" "s < pool_num p" "s \<notin> set fl" "s \<notin> set xs"
  shows "\<exists>q' p'. enqueue q p s = Inr (q', p') \<and> pool_rep p' fl \<and> queue_rep q' p' (xs @ [s]) \<and>
           same_links (insert s (set xs)) p p' \<and> pool_spinlock p' = pool_spinlock p"
proof (cases "xs = []")
  case True
  have s: "in_pool p s" "s \<noteq> UVISOR_POOL_SLOT_INVALID"
    using assms pool_slot_valid [of p s] by (auto simp: pool_rep_def)
  let ?p1 = "upd_entry p s (\<lambda>e. e\<lparr>entry_prev := UVISOR_POOL_SLOT_INVALID\<rparr>)"
  let ?p' = "upd_entry ?p1 s (\<lambda>e. e\<lparr>entry_next := UVISOR_POOL_SLOT_INVALID\<rparr>)"
  have "enqueue q p s = Inr (q\<lparr>queue_head := s, queue_tail := s\<rparr>, ?p')"
    using s True assms(2) by (simp add: enqueue_def queue_rep_def Let_def)
  moreover have same: "same_links {s} p ?p'"
    using s by (auto simp: same_links_def)
  moreover have "pool_rep ?p' fl"
    using s assms(4) by (intro pool_rep_frame [OF assms(1) same]) auto
  ultimately show ?thesis
    using True s assms(3) by (auto simp: queue_rep_def)
next
  case False
  let ?t = "last xs"
  have s: "in_pool p s" "s \<noteq> UVISOR_POOL_SLOT_INVALID" and t: "?t \<in> set xs" "in_pool p ?t" "?t \<noteq> s"
    using assms False pool_slot_valid [of p s] pool_slot_valid [of p ?t]
    by (auto simp: pool_rep_def queue_rep_def)
  have q: "queue_head q \<noteq> UVISOR_POOL_SLOT_INVALID" "queue_tail q = ?t"
    using assms(1,2) False by (cases xs; auto simp: queue_rep_def)+
  let ?p1 = "upd_entry p ?t (\<lambda>e. e\<lparr>entry_next := s\<rparr>)"
  let ?p2 = "upd_entry ?p1 s (\<lambda>e. e\<lparr>entry_prev := ?t\<rparr>)"
  let ?p' = "upd_entry ?p2 s (\<lambda>e. e\<lparr>entry_next := UVISOR_POOL_SLOT_INVALID\<rparr>)"
  have "enqueue q p s = Inr (q\<lparr>queue_tail := s\<rparr>, ?p')"
    using s t q by (simp add: enqueue_def Let_def)
  moreover have same: "same_links (insert s (set xs)) p ?p'"
    using s t by (auto simp: same_links_def)
  moreover have "pool_rep ?p' fl"
    using s t assms free_queue_disjoint [OF assms(1,2)] pool_slot_valid [of p ?t]
      queue_slot_not_marked [OF _ assms(2)]
    by (intro pool_rep_frame [OF assms(1) same]) (auto simp: pool_rep_def queue_rep_def)
  moreover have "queue_rep (q\<lparr>queue_tail := s\<rparr>) ?p' (xs @ [s])"
    using s t q assms(2,3,5) False path_snoc_upd [of "nxt p" "queue_head q" xs _ s]
    by (auto simp: queue_rep_def)
  moreover have "pool_spinlock ?p' = pool_spinlock p" by simp
  ultimately show ?thesis by blast
qed

text \<open>The four shapes a queued slot can have: alone, first, last, or between two others.\<close>

lemma queue_slot_cases:
  assumes "s \<in> set xs" "distinct xs"
  obtains (only) "xs = [s]"
    | (first) z zs where "xs = s # z # zs"
    | (last) ys y where "xs = ys @ [y, s]"
    | (middle) ys y z zs where "xs = ys @ y # s # z # zs"
proof -
  obtain as bs where xs: "xs = as @ s # bs"
    using assms(1) by (meson split_list)
  show thesis
  proof (cases as rule: rev_cases)
    case Nil
    then show ?thesis using xs that(1,2) by (cases bs) auto
  next
    case (snoc ys y)
    then show ?thesis using xs that(3,4) by (cases bs) auto
  qed
qed

text \<open>What every branch of \<open>dequeue\<close> ends with: the slot's own entry is marked.\<close>

abbreviation mark_dequeued :: "uvisor_pool \<Rightarrow> u8 \<Rightarrow> uvisor_pool" where
  "mark_dequeued p s \<equiv> upd_entry (upd_entry p s (\<lambda>e. e\<lparr>entry_next := UVISOR_POOL_SLOT_INVALID\<rparr>)) s
     (\<lambda>e. e\<lparr>entry_prev := UVISOR_POOL_SLOT_IS_DEQUEUED\<rparr>)"

lemma dequeue_links:
  assumes "pool_ok p" "queue_rep q p xs" "s \<in> set xs"
  shows "\<exists>q' p'. dequeue q p s = Inr (q', p') \<and> queue_rep q' p' (remove1 s xs) \<and>
           same_links (set xs) p p' \<and> prv p' s = UVISOR_POOL_SLOT_IS_DEQUEUED \<and>
           pool_spinlock p' = pool_spinlock p \<and> pool_first_free p' = pool_first_free p \<and>
           pool_num_allocated p' = pool_num_allocated p"
proof -
  note rep = assms(2) [unfolded queue_rep_def]
  have inp: "in_pool p t" "t \<noteq> UVISOR_POOL_SLOT_INVALID" if "t \<in> set xs" for t
    using that rep assms(1) pool_slot_valid [of p t] by auto
  have "distinct xs" using rep by simp
  with assms(3) show ?thesis
  proof (cases rule: queue_slot_cases)
    case only
    then have "dequeue q p s = Inr (q\<lparr>queue_head := UVISOR_POOL_SLOT_INVALID,
        queue_tail := UVISOR_POOL_SLOT_INVALID\<rparr>, mark_dequeued p s)"
      using rep inp by (simp add: dequeue_def)
    with only show ?thesis
      using inp by (auto simp: queue_rep_def same_links_def)
  next
    case (first z zs)
    let ?p1 = "upd_entry p z (\<lambda>e. e\<lparr>entry_prev := UVISOR_POOL_SLOT_INVALID\<rparr>)"
    have "dequeue q p s = Inr (q\<lparr>queue_head := z\<rparr>, mark_dequeued ?p1 s)"
      using rep inp first by (auto simp: dequeue_def entry_links)
    moreover have "queue_rep (q\<lparr>queue_head := z\<rparr>) (mark_dequeued ?p1 s) (remove1 s xs)"
      using rep inp first by (auto simp: queue_rep_def)
    ultimately show ?thesis
      using inp first rep by (auto simp: same_links_def)
  next
    case (last ys y)
    let ?p1 = "upd_entry p y (\<lambda>e. e\<lparr>entry_next := UVISOR_POOL_SLOT_INVALID\<rparr>)"
    have "dequeue q p s = Inr (q\<lparr>queue_tail := y\<rparr>, mark_dequeued ?p1 s)"
      using rep inp last by (cases ys) (auto simp: dequeue_def entry_links)
    moreover have "queue_rep (q\<lparr>queue_tail := y\<rparr>) (mark_dequeued ?p1 s) (remove1 s xs)"
      using rep inp last by (auto simp: queue_rep_def remove1_append)
    ultimately show ?thesis
      using inp last rep by (auto simp: same_links_def)
  next
    case (middle ys y z zs)
    let ?p1 = "upd_entry p y (\<lambda>e. e\<lparr>entry_next := z\<rparr>)"
    let ?p2 = "upd_entry ?p1 z (\<lambda>e. e\<lparr>entry_prev := y\<rparr>)"
    have ends: "queue_head q = hd (ys @ [y])" "queue_tail q = last (z # zs)"
      using rep middle by (cases ys; auto)+
    have "hd (ys @ [y]) \<in> set (ys @ [y])" "last (z # zs) \<in> set (z # zs)"
      by (rule hd_in_set last_in_set; simp)+
    then have ne: "queue_head q \<noteq> queue_tail q" "queue_head q \<noteq> s" "queue_tail q \<noteq> s" "y \<noteq> s" "z \<noteq> s"
      using \<open>distinct xs\<close> unfolding ends middle by (auto simp del: last.simps)
    have links: "nxt p s = z" "prv p s = y" "in_pool p s" "in_pool p y" "in_pool p z"
      using rep inp middle by auto
    have "dequeue q p s = Inr (q, mark_dequeued ?p2 s)"
      using ne links by (simp add: dequeue_def entry_links Let_def)
    moreover have dist: "s \<notin> set ys" "y \<notin> set ys" "z \<notin> set ys" "s \<notin> set zs" "y \<notin> set zs" "z \<notin> set zs"
        "y \<noteq> z" "remove1 s xs = ys @ y # z # zs"
      using \<open>distinct xs\<close> ne middle by (simp_all add: remove1_append)
    moreover have "path (nxt p) (queue_head q) ys y" "path (nxt p) (nxt p z) zs UVISOR_POOL_SLOT_INVALID"
        "backlinks (prv p) UVISOR_POOL_SLOT_INVALID (ys @ [y])" "backlinks (prv p) z zs"
      using rep middle by simp_all
    then have "queue_rep q (mark_dequeued ?p2 s) (remove1 s xs)"
      using rep inp links dist ne middle by (simp add: queue_rep_def)
    moreover have "same_links (set xs) p (mark_dequeued ?p2 s)"
      using links ne middle by (simp add: same_links_def)
    ultimately show ?thesis
      using links ne by (intro exI conjI) (assumption | simp)+
  qed
qed

lemma dequeue_step:
  assumes "pool_rep p fl" "queue_rep q p xs" "s \<in> set xs"
  shows "\<exists>q' p'. dequeue q p s = Inr (q', p') \<and> pool_rep p' fl \<and> queue_rep q' p' (remove1 s xs) \<and>
           same_links (set xs) p p' \<and> prv p' s = UVISOR_POOL_SLOT_IS_DEQUEUED \<and>
           pool_spinlock p' = pool_spinlock p"
proof -
  have ok: "pool_ok p" using assms(1) by (simp add: pool_rep_def)
  obtain q' p' where d: "dequeue q p s = Inr (q', p')" "queue_rep q' p' (remove1 s xs)"
    and same: "same_links (set xs) p p'" and m: "prv p' s = UVISOR_POOL_SLOT_IS_DEQUEUED"
    and eq: "pool_spinlock p' = pool_spinlock p" "pool_first_free p' = pool_first_free p"
      "pool_num_allocated p' = pool_num_allocated p"
    using dequeue_links [OF ok assms(2,3)] by blast
  have ok': "pool_ok p'" using ok same by (simp add: pool_ok_def same_links_def)
  have "prv p' t \<noteq> UVISOR_POOL_SLOT_IS_FREE" if "t \<in> set xs" for t
    using that m queue_slot_not_marked [OF ok' d(2)] assms(2)
    by (cases "t = s") (auto simp: queue_rep_def)
  then have "pool_rep p' fl"
    using free_queue_disjoint [OF assms(1,2)] eq
    by (intro pool_rep_frame [OF assms(1) same]) auto
  with d same m eq show ?thesis by blast
qed

lemma try_dequeue_first_empty:
  "queue_rep q p [] \<Longrightarrow> try_dequeue_first q p = Inr (UVISOR_POOL_SLOT_INVALID, q, p)"
  by (simp add: try_dequeue_first_def queue_rep_def)

lemma try_dequeue_first_step:
  assumes "pool_rep p fl" "queue_rep q p (s # xs)"
  shows "\<exists>q' p'. try_dequeue_first q p = Inr (s, q', p') \<and> pool_rep p' fl \<and> queue_rep q' p' xs \<and>
           same_links (insert s (set xs)) p p' \<and> prv p' s = UVISOR_POOL_SLOT_IS_DEQUEUED \<and>
           pool_spinlock p' = pool_spinlock p"
proof -
  have "queue_head q = s" "s \<noteq> UVISOR_POOL_SLOT_INVALID"
    using assms(2) by (simp_all add: queue_rep_def)
  then show ?thesis
    using dequeue_step [OF assms, of s] by (auto simp: try_dequeue_first_def Let_def)
qed

lemma find_first_loop_path:
  assumes "path (nxt p) a xs UVISOR_POOL_SLOT_INVALID" "\<forall>s \<in> set xs. in_pool p s" "length xs < fuel"
  shows "find_first_loop fuel p f a =
     (case find f xs of
        Some s \<Rightarrow> Inr (s, pool_spin_unlock p)
      | None \<Rightarrow> Inr (UVISOR_POOL_SLOT_INVALID, p))"
  using assms
proof (induction xs arbitrary: a fuel)
  case Nil
  then show ?case by (cases fuel) simp_all
next
  case (Cons x xs)
  then obtain n where "fuel = Suc n" by (cases fuel) auto
  with Cons show ?case by (simp add: entry_links pool_spin_unlock_def)
qed

lemma find_first_step:
  assumes "pool_ok p" "queue_rep q p xs"
  shows "find_first q p f =
     (case find f xs of
        Some s \<Rightarrow> Inr (s, pool_spin_unlock p)
      | None \<Rightarrow> Inr (UVISOR_POOL_SLOT_INVALID, p))"
proof -
  have "length xs \<le> unat (pool_num p)"
    using assms(2) by (intro distinct_words_length) (auto simp: queue_rep_def)
  then have "length xs < 257"
    using unat_u8_lt [of "pool_num p"] by simp
  then show ?thesis
    using assms pool_slot_valid(1) [OF assms(1)] unfolding find_first_def
    by (intro find_first_loop_path) (auto simp: queue_rep_def)
qed

section \<open>Initialisation gives a full free list and an empty queue\<close>

lemma pool_init_loop_links:
  assumes "i + n \<le> length (management_array p)" "i + n < 256"
  shows "\<exists>p'. pool_init_loop p i n = Inr p' \<and>
     (\<forall>t. nxt p' t = (if i \<le> unat t \<and> unat t < i + n then t + 1 else nxt p t)) \<and>
     (\<forall>t. prv p' t = (if i \<le> unat t \<and> unat t < i + n then UVISOR_POOL_SLOT_IS_FREE else prv p t)) \<and>
     p' = p\<lparr>management_array := management_array p'\<rparr> \<and>
     length (management_array p') = length (management_array p)"
  using assms
proof (induction n arbitrary: i p)
  case 0
  then show ?case by auto
next
  case (Suc n)
  let ?s = "of_nat i :: u8"
  have s: "in_pool p ?s" "unat ?s = i" using Suc.prems by (simp_all add: in_pool_def)
  let ?p1 = "upd_entry p ?s (\<lambda>e. e\<lparr>entry_next := ?s + 1\<rparr>)"
  let ?p2 = "upd_entry ?p1 ?s (\<lambda>e. e\<lparr>entry_prev := UVISOR_POOL_SLOT_IS_FREE\<rparr>)"
  have step: "pool_init_loop p i (Suc n) = pool_init_loop ?p2 (Suc i) n"
    using s by simp
  have rec: "?p2 = p\<lparr>management_array := management_array ?p2\<rparr>"
    by (simp add: upd_entry_def)
  have here: "t = ?s \<longleftrightarrow> unat t = i" for t
    using s(2) unat_eq_iff [of t ?s] by auto
  obtain p' where p': "pool_init_loop ?p2 (Suc i) n = Inr p'"
    "\<forall>t. nxt p' t = (if Suc i \<le> unat t \<and> unat t < Suc i + n then t + 1 else nxt ?p2 t)"
    "\<forall>t. prv p' t = (if Suc i \<le> unat t \<and> unat t < Suc i + n then UVISOR_POOL_SLOT_IS_FREE else prv ?p2 t)"
    "p' = ?p2\<lparr>management_array := management_array p'\<rparr>"
    "length (management_array p') = length (management_array ?p2)"
    using Suc.IH [of "Suc i" ?p2] Suc.prems by auto
  have "nxt p' t = (if i \<le> unat t \<and> unat t < i + Suc n then t + 1 else nxt p t)"
    "prv p' t = (if i \<le> unat t \<and> unat t < i + Suc n then UVISOR_POOL_SLOT_IS_FREE else prv p t)" for t
    using p'(2,3) s here [of t] by (cases "unat t = i"; auto)+
  moreover have "p' = p\<lparr>management_array := management_array p'\<rparr>"
    by (subst p'(4), subst rec) simp
  ultimately show ?case using step p'(1,5) by auto
qed

text \<open>The free list that initialisation builds: slots \<open>k\<close> to \<open>num - 1\<close>, in order.\<close>

definition slots_from :: "nat \<Rightarrow> nat \<Rightarrow> u8 list" where
  "slots_from k n = map of_nat [k..<n]"

lemma slots_from_Cons: "k < n \<Longrightarrow> slots_from k n = of_nat k # slots_from (Suc k) n"
  by (simp add: slots_from_def upt_conv_Cons)

lemma set_slots_from: "n \<le> 256 \<Longrightarrow> s \<in> set (slots_from k n) \<longleftrightarrow> k \<le> unat s \<and> unat s < n"
proof
  assume n: "n \<le> 256" and "s \<in> set (slots_from k n)"
  then show "k \<le> unat s \<and> unat s < n" by (auto simp: slots_from_def)
next
  assume "k \<le> unat s \<and> unat s < n"
  then show "s \<in> set (slots_from k n)"
    by (auto simp: slots_from_def image_iff intro!: bexI [of _ "unat s"])
qed

lemma distinct_slots_from: "n \<le> 256 \<Longrightarrow> distinct (slots_from k n)"
proof -
  assume "n \<le> 256"
  then have "inj_on (of_nat :: nat \<Rightarrow> u8) (set [k..<n])"
    by (intro inj_onI) (metis atLeastLessThan_iff less_le_trans set_upt unat_of_nat_u8)
  then show ?thesis by (simp add: slots_from_def distinct_map)
qed

lemma path_slots_from:
  assumes "\<And>i. k \<le> i \<Longrightarrow> Suc i < n \<Longrightarrow> l (of_nat i) = of_nat (Suc i)"
    and "l (of_nat (n - 1)) = UVISOR_POOL_SLOT_INVALID" "k < n" "n \<le> 255"
  shows "path l (of_nat k) (slots_from k n) UVISOR_POOL_SLOT_INVALID"
  using assms
proof (induction "n - k" arbitrary: k)
  case 0
  then show ?case by simp
next
  case (Suc d)
  have ne: "(of_nat k :: u8) \<noteq> UVISOR_POOL_SLOT_INVALID"
  proof
    assume "(of_nat k :: u8) = UVISOR_POOL_SLOT_INVALID"
    then have "unat (of_nat k :: u8) = 255" by (simp add: slot_consts)
    then show False using Suc.prems(3,4) by simp
  qed
  show ?case
  proof (cases "Suc k < n")
    case True
    then show ?thesis
      using ne Suc.hyps(1) [of "Suc k"] Suc.hyps(2) Suc.prems(1) [of k] Suc.prems
      by (simp add: slots_from_Cons [of k])
  next
    case False
    then have "n = Suc k" using Suc.prems(3) by simp
    then show ?thesis using ne Suc.prems(2) by (simp add: slots_from_def)
  qed
qed

text \<open>
  \<open>uvisor_pool_queue_init\<close> on a pool with room for \<open>num\<close> entries (\<open>0 < num < 0xFC\<close>) returns
  0 and leaves every slot in the free list, in increasing order, the queue empty, nothing counted
  as allocated, and the lock free.
\<close>

theorem uvisor_pool_queue_init_rep:
  assumes "0 < num" "num < ucast UVISOR_POOL_MAX_VALID" "unat num \<le> length (management_array p)"
  shows "\<exists>q' p'. uvisor_pool_queue_init sao q pa p arr stride num = Inr (0, q', p') \<and>
    pool_rep p' (slots_from 0 (unat num)) \<and> queue_rep q' p' [] \<and>
    pool_num_allocated p' = 0 \<and> \<not> acquired (pool_spinlock p')"
proof -
  have n: "unat num < 252" "0 < unat num"
    using assms(1,2) by (simp_all add: word_less_nat_alt slot_consts)
  have cast: "unat (ucast num :: u8) = unat num" "unat (ucast (num - 1) :: u8) = unat num - 1"
    using n unat_minus_one [of num] assms(1) by (simp_all add: unsigned_ucast_eq take_bit_eq_mod word_gt_0)
  let ?p0 = "p\<lparr>pool_magic := UVISOR_POOL_MAGIC, pool_array := UVISOR_GET_NS_ALIAS sao arr,
      pool_stride := stride, pool_num := ucast num, pool_num_allocated := 0, pool_first_free := 0\<rparr>"
  obtain p1 where p1: "pool_init_loop ?p0 0 (unat num) = Inr p1"
    "\<forall>t. nxt p1 t = (if unat t < unat num then t + 1 else nxt ?p0 t)"
    "\<forall>t. prv p1 t = (if unat t < unat num then UVISOR_POOL_SLOT_IS_FREE else prv ?p0 t)"
    "p1 = ?p0\<lparr>management_array := management_array p1\<rparr>"
    "length (management_array p1) = length (management_array ?p0)"
    using pool_init_loop_links [of 0 "unat num" ?p0] n assms(3) by auto
  let ?l = "ucast (num - 1) :: u8"
  have l: "in_pool p1 ?l" using p1(5) assms(3) n cast by (simp add: in_pool_def)
  let ?p2 = "upd_entry p1 ?l (\<lambda>e. e\<lparr>entry_next := UVISOR_POOL_SLOT_INVALID\<rparr>)"
  let ?p' = "?p2\<lparr>pool_spinlock := uvisor_spin_init (pool_spinlock ?p2)\<rparr>"
  have fields: "pool_num p1 = ucast num" "pool_num_allocated p1 = 0" "pool_first_free p1 = 0"
    by (subst p1(4); simp)+
  have "\<not> ucast UVISOR_POOL_MAX_VALID \<le> num" "num \<noteq> 0" using assms by auto
  then have run: "uvisor_pool_init sao p arr stride num = Inr (0, ?p')"
    using p1(1) l by (simp add: uvisor_pool_init_def)
  have "path (nxt ?p') (of_nat 0) (slots_from 0 (unat num)) UVISOR_POOL_SLOT_INVALID"
  proof (rule path_slots_from)
    fix i assume i: "Suc i < unat num"
    then have "unat (of_nat i :: u8) \<noteq> unat ?l" using cast(2) n by simp
    then have "of_nat i \<noteq> ?l" by metis
    then show "nxt ?p' (of_nat i) = of_nat (Suc i)" using i n l p1(2) by simp
  next
    have "of_nat (unat num - 1) = ?l" unfolding cast(2) [symmetric] by simp
    then show "nxt ?p' (of_nat (unat num - 1)) = UVISOR_POOL_SLOT_INVALID" using l by simp
  qed (use n in auto)
  then have "pool_rep ?p' (slots_from 0 (unat num))"
    using n cast p1(3,5) fields assms(3) set_slots_from [of "unat num" _ 0] distinct_slots_from [of "unat num" 0]
    by (auto simp: pool_rep_def pool_ok_def free_rep_def word_less_nat_alt slot_consts slots_from_def)
  with run fields show ?thesis
    by (simp add: uvisor_pool_queue_init_def queue_rep_def uvisor_spin_init_def)
qed

section \<open>Correctness of the public operations\<close>

abbreviation unlocked :: "uvisor_pool \<Rightarrow> bool" where
  "unlocked p \<equiv> \<not> acquired (pool_spinlock p)"

abbreviation lock_held :: "uvisor_pool \<Rightarrow> uvisor_pool" where
  "lock_held p \<equiv> p\<lparr>pool_spinlock := (pool_spinlock p)\<lparr>acquired := True\<rparr>\<rparr>"

lemma lock_unlocked [simp]:
  "unlocked p \<Longrightarrow> pool_spin_lock p = Inr (lock_held p)"
  "unlocked p \<Longrightarrow> pool_spin_trylock p = (True, lock_held p)"
  "acquired (pool_spinlock p) \<Longrightarrow> pool_spin_lock p = Inl Diverge"
  "acquired (pool_spinlock p) \<Longrightarrow> pool_spin_trylock p = (False, p)"
  by (simp_all add: pool_spin_lock_def pool_spin_trylock_def spin_simps)

lemma spinlock_frame [simp]:
  "pool_rep (p\<lparr>pool_spinlock := l\<rparr>) fl = pool_rep p fl"
  "queue_rep q (p\<lparr>pool_spinlock := l\<rparr>) xs = queue_rep q p xs"
  "same_links S (p\<lparr>pool_spinlock := l\<rparr>) p' = same_links S p p'"
  "same_links S p (p'\<lparr>pool_spinlock := l\<rparr>) = same_links S p p'"
  by (simp_all add: pool_rep_def pool_ok_def free_rep_def queue_rep_def same_links_def)

lemma unlock_frame [simp]:
  "pool_rep (pool_spin_unlock p) fl = pool_rep p fl"
  "queue_rep q (pool_spin_unlock p) xs = queue_rep q p xs"
  "same_links S p (pool_spin_unlock p') = same_links S p p'"
  "unlocked (pool_spin_unlock p)" "prv (pool_spin_unlock p) = prv p"
  "pool_num (pool_spin_unlock p) = pool_num p"
  by (simp_all add: pool_spin_unlock_def uvisor_spin_unlock_def)

lemma unlock_lock_held [simp]: "unlocked p \<Longrightarrow> pool_spin_unlock (lock_held p) = p"
  by (cases p; cases "pool_spinlock p") (simp add: pool_spin_unlock_def uvisor_spin_unlock_def)

lemma try_allocate_unlocked [simp]:
  "unlocked p \<Longrightarrow> uvisor_pool_try_allocate p = uvisor_pool_allocate p"
  by (simp add: uvisor_pool_try_allocate_def uvisor_pool_allocate_def)

text \<open>
  On a pool whose lock is free, \<open>uvisor_pool_allocate\<close> takes the first slot of the free list,
  marks it dequeued, keeps every other entry and releases the lock; from an empty free list it
  returns \<open>UVISOR_POOL_SLOT_INVALID\<close> and changes nothing.
\<close>

theorem uvisor_pool_allocate_rep:
  assumes "pool_rep p fl" "unlocked p"
  shows "case fl of
      [] \<Rightarrow> uvisor_pool_allocate p = Inr (UVISOR_POOL_SLOT_INVALID, p)
    | s # fl' \<Rightarrow> (\<exists>p'. uvisor_pool_allocate p = Inr (s, p') \<and> pool_rep p' fl' \<and> s < pool_num p \<and>
        prv p' s = UVISOR_POOL_SLOT_IS_DEQUEUED \<and> same_links {s} p p' \<and> unlocked p')"
proof (cases fl)
  case Nil
  then show ?thesis
    using assms pool_alloc_empty [of "lock_held p"] by (simp add: uvisor_pool_allocate_def)
next
  case (Cons s fl')
  then obtain p' where "pool_alloc (lock_held p) = Inr (s, p')" "pool_rep p' fl'"
      "same_links {s} p p'" "prv p' s = UVISOR_POOL_SLOT_IS_DEQUEUED" "s < pool_num p"
    using assms(1) pool_alloc_step [of "lock_held p" s fl'] by auto
  then show ?thesis
    using Cons assms(2) by (auto simp: uvisor_pool_allocate_def)
qed

text \<open>A slot that is allocated and in no queue carries the dequeued marker.\<close>

definition held :: "uvisor_pool \<Rightarrow> u8 \<Rightarrow> bool" where
  "held p s \<longleftrightarrow> s < pool_num p \<and> prv p s = UVISOR_POOL_SLOT_IS_DEQUEUED"

lemma held_not_free: "pool_rep p fl \<Longrightarrow> held p s \<Longrightarrow> s \<notin> set fl"
  by (auto simp: pool_rep_def free_rep_def held_def)

lemma held_not_queued: "pool_ok p \<Longrightarrow> queue_rep q p xs \<Longrightarrow> held p s \<Longrightarrow> s \<notin> set xs"
  using queue_slot_not_marked(2) by (auto simp: held_def)

lemma held_frame: "held p t \<Longrightarrow> same_links S p p' \<Longrightarrow> t \<notin> S \<Longrightarrow> held p' t"
  by (simp add: held_def same_links_def)

text \<open>The pool and one of its queues, with the lock free, represent the queue's contents.\<close>

definition queue_state :: "uvisor_pool_queue \<times> uvisor_pool \<Rightarrow> u8 list \<Rightarrow> bool" where
  "queue_state qp xs \<longleftrightarrow>
     (\<exists>fl. pool_rep (snd qp) fl) \<and> queue_rep (fst qp) (snd qp) xs \<and> unlocked (snd qp)"

lemma try_enqueue_rep:
  assumes "pool_rep p fl" "queue_rep q p xs" "unlocked p" "held p s"
  shows "\<exists>q' p'. uvisor_pool_queue_try_enqueue q p s = Inr (0, q', p') \<and>
    uvisor_pool_queue_enqueue q p s = Inr (q', p') \<and>
    pool_rep p' fl \<and> queue_rep q' p' (xs @ [s]) \<and> same_links (insert s (set xs)) p p' \<and> unlocked p'"
proof -
  have s: "s < pool_num p" "s \<notin> set fl" "s \<notin> set xs" "s \<noteq> UVISOR_POOL_SLOT_INVALID"
    using assms held_not_free held_not_queued pool_slot_valid(2) [of p s]
    by (auto simp: held_def pool_rep_def)
  obtain q' p' where "enqueue q (lock_held p) s = Inr (q', p')" "pool_rep p' fl"
      "queue_rep q' p' (xs @ [s])" "same_links (insert s (set xs)) p p'"
    using enqueue_step [of "lock_held p" fl q xs s] assms s by auto
  then show ?thesis
    using assms(3) s by (simp add: uvisor_pool_queue_try_enqueue_def uvisor_pool_queue_enqueue_def)
qed

lemma try_dequeue_first_rep:
  assumes "pool_rep p fl" "queue_rep q p (s # xs)" "unlocked p"
  shows "\<exists>q' p'. uvisor_pool_queue_try_dequeue_first q p = Inr (s, q', p') \<and>
    uvisor_pool_queue_dequeue_first q p = Inr (s, q', p') \<and>
    pool_rep p' fl \<and> queue_rep q' p' xs \<and> same_links (insert s (set xs)) p p' \<and> held p' s \<and> unlocked p'"
proof -
  obtain q' p' where "try_dequeue_first q (lock_held p) = Inr (s, q', p')" "pool_rep p' fl"
      "queue_rep q' p' xs" "same_links (insert s (set xs)) p p'"
      "prv p' s = UVISOR_POOL_SLOT_IS_DEQUEUED"
    using try_dequeue_first_step [of "lock_held p" fl q s xs] assms by auto
  moreover from this have "s < pool_num p'"
    using assms(2) by (simp add: queue_rep_def same_links_def)
  ultimately show ?thesis
    using assms(3)
    by (simp add: uvisor_pool_queue_try_dequeue_first_def uvisor_pool_queue_dequeue_first_def held_def)
qed

lemma try_dequeue_first_none:
  "queue_rep q p [] \<Longrightarrow> unlocked p \<Longrightarrow>
    uvisor_pool_queue_try_dequeue_first q p = Inr (UVISOR_POOL_SLOT_INVALID, q, p)"
  using try_dequeue_first_empty [of q "lock_held p"]
  by (simp add: uvisor_pool_queue_try_dequeue_first_def)

section \<open>The pool queue provides the queue contract\<close>

definition queue_enq :: "uvisor_pool_queue \<times> uvisor_pool \<Rightarrow> u8 \<Rightarrow> (uvisor_pool_queue \<times> uvisor_pool) res" where
  "queue_enq = (\<lambda>(q, p) s. bind_res (uvisor_pool_queue_try_enqueue q p s) (\<lambda>(status, q, p). Inr (q, p)))"

definition queue_deq ::
  "uvisor_pool_queue \<times> uvisor_pool \<Rightarrow> (u8 option \<times> uvisor_pool_queue \<times> uvisor_pool) res" where
  "queue_deq = (\<lambda>(q, p). bind_res (uvisor_pool_queue_try_dequeue_first q p) (\<lambda>(s, q, p).
     Inr (if s < pool_num p then Some s else None, q, p)))"

interpretation pq: slot_queue queue_state "\<lambda>(q, p). held p" queue_enq queue_deq
proof (unfold_locales, goal_cases)
  case (1 qp xs s)
  obtain q p where [simp]: "qp = (q, p)" by force
  from 1 obtain fl where rep: "pool_rep p fl" "queue_rep q p xs" "unlocked p" "held p s"
    by (auto simp: queue_state_def)
  then obtain q' p' where "uvisor_pool_queue_try_enqueue q p s = Inr (0, q', p')" "pool_rep p' fl"
      "queue_rep q' p' (xs @ [s])" "same_links (insert s (set xs)) p p'" "unlocked p'"
    using try_enqueue_rep by blast
  moreover have "t \<notin> set xs" if "held p t" for t
    using that held_not_queued rep by (auto simp: pool_rep_def)
  ultimately show ?case
    by (auto simp: queue_enq_def queue_state_def intro: held_frame)
next
  case (2 qp)
  then show ?case
    by (cases qp) (auto simp: queue_deq_def queue_state_def try_dequeue_first_none pool_rep_def
        dest: pool_slot_valid(2))
next
  case (3 qp s xs)
  obtain q p where [simp]: "qp = (q, p)" by force
  from 3 obtain fl where rep: "pool_rep p fl" "queue_rep q p (s # xs)" "unlocked p"
    by (auto simp: queue_state_def)
  then obtain q' p' where p': "uvisor_pool_queue_try_dequeue_first q p = Inr (s, q', p')" "pool_rep p' fl"
      "queue_rep q' p' xs" "same_links (insert s (set xs)) p p'" "held p' s" "unlocked p'"
    using try_dequeue_first_rep by blast
  moreover have "t \<notin> set xs" "t \<noteq> s" if "held p t" for t
    using that held_not_queued [of p q "s # xs" t] rep by (auto simp: pool_rep_def)
  moreover have "s < pool_num p'" using p'(5) by (simp add: held_def)
  ultimately show ?case
    by (auto simp: queue_deq_def queue_state_def intro: held_frame)
qed

text \<open>
  C25: Pool queues are first-in first-out. Slots that a client holds and enqueues one after the
  other into an empty queue (with the lock free) are dequeued in exactly that order, no operation
  leaves the management array, and the queue is empty again.
\<close>

theorem pool_queue_fifo:
  assumes "queue_state (q, p) []" "distinct ss" "\<forall>s \<in> set ss. held p s" "length ss < n"
  shows "\<exists>qp' qp''. enqueue_all queue_enq (q, p) ss = Inr qp' \<and>
    drain_all queue_deq n qp' = Inr (ss, qp'') \<and> queue_state qp'' []"
  using pq.fifo_order [of "(q, p)" ss n] assms by auto

lemma dequeue_locked_rep:
  assumes "pool_rep p fl" "queue_rep q p xs" "s \<in> set xs"
  shows "\<exists>q' p'. dequeue_locked q p s = Inr (s, q', p') \<and> pool_rep p' fl \<and>
    queue_rep q' p' (remove1 s xs) \<and> same_links (set xs) p p' \<and> held p' s \<and> unlocked p'"
proof -
  have ok: "pool_ok p" and s: "s < pool_num p" "in_pool p s"
    using assms pool_slot_valid(1) [of p s] by (auto simp: pool_rep_def queue_rep_def)
  have "queue_head q \<noteq> UVISOR_POOL_SLOT_INVALID"
    using queue_rep_head [OF ok assms(2)] assms(2,3) by (cases xs) (auto simp: queue_rep_def)
  moreover obtain q' p' where d: "dequeue q p s = Inr (q', p')" "pool_rep p' fl"
      "queue_rep q' p' (remove1 s xs)" "same_links (set xs) p p'"
      "prv p' s = UVISOR_POOL_SLOT_IS_DEQUEUED"
    using dequeue_step [OF assms] by blast
  moreover have "s < pool_num p'" using d(4) s(1) by (simp add: same_links_def)
  ultimately show ?thesis
    using s(2) queue_slot_not_marked [OF ok assms(2,3)]
    by (simp add: dequeue_locked_def entry_links held_def Let_def)
qed

text \<open>
  Dequeuing a given slot. \<open>uvisor_pool_queue_dequeue\<close> and \<open>uvisor_pool_queue_try_dequeue\<close> remove
  exactly that slot from the queue wherever it stands (alone, first, last or in the middle), keep
  the order of the others, leave the free list alone and hand the slot to the caller; for a slot
  that is free or already dequeued they report its marker, and for a number outside of the pool
  \<open>UVISOR_POOL_SLOT_INVALID\<close>, without any change.
\<close>

theorem uvisor_pool_queue_dequeue_rep:
  assumes "pool_rep p fl" "queue_rep q p xs" "unlocked p"
  shows "uvisor_pool_queue_try_dequeue q p s = uvisor_pool_queue_dequeue q p s \<and>
    (if s \<ge> pool_num p then
       uvisor_pool_queue_dequeue q p s = Inr (UVISOR_POOL_SLOT_INVALID, q, p)
     else if s \<in> set xs then
       \<exists>q' p'. uvisor_pool_queue_dequeue q p s = Inr (s, q', p') \<and> pool_rep p' fl \<and>
         queue_rep q' p' (remove1 s xs) \<and> same_links (set xs) p p' \<and> held p' s \<and> unlocked p'
     else s \<in> set fl \<or> held p s \<longrightarrow> uvisor_pool_queue_dequeue q p s = Inr (prv p s, q, p))"
proof -
  have eq: "uvisor_pool_queue_try_dequeue q p s = uvisor_pool_queue_dequeue q p s"
    using assms(3) by (simp add: uvisor_pool_queue_try_dequeue_def uvisor_pool_queue_dequeue_def)
  have run: "s < pool_num p \<Longrightarrow> uvisor_pool_queue_dequeue q p s = dequeue_locked q (lock_held p) s"
    using assms(3) by (auto simp: uvisor_pool_queue_dequeue_def)
  have "dequeue_locked q (lock_held p) s = Inr (prv p s, q, p)"
    if "s < pool_num p" "s \<in> set fl \<or> held p s"
  proof -
    have "prv p s = UVISOR_POOL_SLOT_IS_FREE \<or> prv p s = UVISOR_POOL_SLOT_IS_DEQUEUED"
      using that assms(1) by (auto simp: pool_rep_def free_rep_def held_def)
    moreover have "in_pool p s" using that assms(1) pool_slot_valid(1) by (simp add: pool_rep_def)
    ultimately show ?thesis
      using assms(3) entry_links(2) [of "lock_held p" s]
      by (auto simp: dequeue_locked_def Let_def)
  qed
  then show ?thesis
    using eq run dequeue_locked_rep [of "lock_held p" fl q xs s] assms
    by (cases "s < pool_num p") (auto simp: uvisor_pool_queue_dequeue_def)
qed

text \<open>
  Freeing. \<open>uvisor_pool_free\<close> puts a held slot back at the front of the free list and returns it;
  freeing a slot that is free already is detected (the marker is returned) and a number outside
  of the pool is refused, in both cases without any change.
\<close>

theorem uvisor_pool_free_rep:
  assumes "pool_rep p fl" "unlocked p"
  shows "uvisor_pool_try_free p s = uvisor_pool_free p s \<and>
    (if s \<ge> pool_num p then uvisor_pool_free p s = Inr (UVISOR_POOL_SLOT_INVALID, p)
     else if s \<in> set fl then uvisor_pool_free p s = Inr (UVISOR_POOL_SLOT_IS_FREE, p)
     else \<exists>p'. uvisor_pool_free p s = Inr (s, p') \<and> pool_rep p' (s # fl) \<and> same_links {s} p p' \<and>
       unlocked p')"
proof -
  have eq: "uvisor_pool_try_free p s = uvisor_pool_free p s"
    using assms(2) by (simp add: uvisor_pool_try_free_def uvisor_pool_free_def)
  consider "s \<ge> pool_num p" | "s < pool_num p" "s \<in> set fl" | "s < pool_num p" "s \<notin> set fl"
    by fastforce
  then show ?thesis
  proof cases
    case 1
    then show ?thesis using eq by (simp add: uvisor_pool_free_def)
  next
    case 2
    then have "in_pool p s" "prv p s = UVISOR_POOL_SLOT_IS_FREE"
      using assms(1) pool_slot_valid(1) by (auto simp: pool_rep_def free_rep_def)
    then show ?thesis
      using 2 eq assms(2) entry_links(2) [of "lock_held p" s] by (auto simp: uvisor_pool_free_def Let_def)
  next
    case 3
    then have s: "in_pool p s" "prv p s \<noteq> UVISOR_POOL_SLOT_IS_FREE"
      using assms(1) pool_slot_valid(1) by (auto simp: pool_rep_def free_rep_def)
    obtain p' where "pool_free (lock_held p) s = Inr p'" "pool_rep p' (s # fl)" "same_links {s} p p'"
      using pool_free_step [of "lock_held p" fl s] 3 assms(1) by auto
    then show ?thesis
      using 3 eq s assms(2) entry_links(2) [of "lock_held p" s]
      by (auto simp: uvisor_pool_free_def Let_def)
  qed
qed


section \<open>A concrete pool\<close>

text \<open>
  Four slots of eight bytes: slot 3 is free, slot 2 is held by a client and the queue holds slots 0
  and 1; and the same pool with 0, 1 and 2 held and an empty queue.
\<close>

definition example_pool :: uvisor_pool where
  "example_pool = \<lparr>pool_magic = UVISOR_POOL_MAGIC, pool_array = 0x20001000, pool_stride = 8, pool_num = 4,
     pool_num_allocated = 3, pool_first_free = 3, pool_spinlock = \<lparr>acquired = False\<rparr>,
     management_array =
       [\<lparr>entry_next = 1, entry_prev = 0xFF\<rparr>, \<lparr>entry_next = 0xFF, entry_prev = 0\<rparr>,
        \<lparr>entry_next = 0xFF, entry_prev = 0xFE\<rparr>, \<lparr>entry_next = 0xFF, entry_prev = 0xFD\<rparr>]\<rparr>"

definition example_queue :: uvisor_pool_queue where
  "example_queue = \<lparr>queue_magic = UVISOR_POOL_QUEUE_MAGIC, queue_head = 0, queue_tail = 1, queue_pool = 0x20000F00\<rparr>"

definition example_held_pool :: uvisor_pool where
  "example_held_pool = example_pool\<lparr>management_array :=
     [\<lparr>entry_next = 0xFF, entry_prev = 0xFE\<rparr>, \<lparr>entry_next = 0xFF, entry_prev = 0xFE\<rparr>,
      \<lparr>entry_next = 0xFF, entry_prev = 0xFE\<rparr>, \<lparr>entry_next = 0xFF, entry_prev = 0xFD\<rparr>]\<rparr>"

definition example_empty_queue :: uvisor_pool_queue where
  "example_empty_queue = example_queue\<lparr>queue_head := 0xFF, queue_tail := 0xFF\<rparr>"

lemma u8_less_4: "(s :: u8) < 4 \<longleftrightarrow> s = 0 \<or> s = 1 \<or> s = 2 \<or> s = 3"
proof -
  have "unat s < 4 \<longleftrightarrow> unat s = 0 \<or> unat s = 1 \<or> unat s = 2 \<or> unat s = 3" by arith
  then show ?thesis by (simp add: word_less_nat_alt word_unat_eq_iff)
qed

lemmas example_defs = example_pool_def example_queue_def example_held_pool_def example_empty_queue_def
  pool_rep_def pool_ok_def free_rep_def queue_rep_def nxt_def prv_def in_pool_def held_def slot_consts u8_less_4

lemma example_pool_rep: "pool_rep example_pool [3]"
  by (auto simp: example_defs)

lemma example_queue_rep: "queue_rep example_queue example_pool [0, 1]"
  by (auto simp: example_defs)

lemma example_held_rep:
  "queue_state (example_empty_queue, example_held_pool) []" "\<forall>s \<in> set [2, 0, 1]. held example_held_pool s"
proof -
  have "pool_rep example_held_pool [3]" by (auto simp: example_defs)
  moreover have "queue_rep example_empty_queue example_held_pool []" by (auto simp: example_defs)
  moreover have "unlocked example_held_pool" by (simp add: example_held_pool_def example_pool_def)
  ultimately show "queue_state (example_empty_queue, example_held_pool) []"
    by (auto simp: queue_state_def)
  show "\<forall>s \<in> set [2, 0, 1]. held example_held_pool s" by (auto simp: example_defs)
qed

lemma example_unlocked: "unlocked example_pool" by (simp add: example_pool_def)

theorem uvisor_pool_queue_init_rep_witness:
  "\<exists>q' p'. uvisor_pool_queue_init 0 example_queue 0x20000F00 example_pool 0x20001000 8 4 = Inr (0, q', p') \<and>
    pool_rep p' (slots_from 0 4) \<and> queue_rep q' p' [] \<and> pool_num_allocated p' = 0 \<and>
    \<not> acquired (pool_spinlock p')"
  using uvisor_pool_queue_init_rep [where num = 4 and p = example_pool and sao = 0 and q = example_queue
      and pa = "0x20000F00" and arr = "0x20001000" and stride = 8]
  by (simp add: slot_consts example_pool_def)

theorem uvisor_pool_allocate_rep_witness:
  "\<exists>p'. uvisor_pool_allocate example_pool = Inr (3, p') \<and> pool_rep p' [] \<and> unlocked p'"
  using uvisor_pool_allocate_rep [OF example_pool_rep example_unlocked] by auto

theorem pool_queue_fifo_witness:
  "\<exists>qp' qp''. enqueue_all queue_enq (example_empty_queue, example_held_pool) [2, 0, 1] = Inr qp' \<and>
    drain_all queue_deq 4 qp' = Inr ([2, 0, 1], qp'') \<and> queue_state qp'' []"
  using pool_queue_fifo [OF example_held_rep(1) _ example_held_rep(2)] by simp

theorem uvisor_pool_queue_dequeue_rep_witness:
  "\<exists>q' p'. uvisor_pool_queue_dequeue example_queue example_pool 0 = Inr (0, q', p') \<and> pool_rep p' [3] \<and>
    queue_rep q' p' [1] \<and> held p' 0"
  using uvisor_pool_queue_dequeue_rep [OF example_pool_rep example_queue_rep example_unlocked, of 0]
  by (auto simp: example_pool_def)

theorem uvisor_pool_free_rep_witness:
  "uvisor_pool_free example_pool 9 = Inr (UVISOR_POOL_SLOT_INVALID, example_pool) \<and>
   uvisor_pool_free example_pool 3 = Inr (UVISOR_POOL_SLOT_IS_FREE, example_pool) \<and>
   (\<exists>p'. uvisor_pool_free example_pool 2 = Inr (2, p') \<and> pool_rep p' [2, 3])"
proof -
  have n: "pool_num example_pool = 4" by (simp add: example_pool_def)
  note free = uvisor_pool_free_rep [OF example_pool_rep example_unlocked]
  show ?thesis using free [of 9] free [of 3] free [of 2] by (simp add: n) blast
qed


end
