(* ===== verification/Vmpu_Base.thy ===== *)
theory Vmpu_Base
  imports Prelude
begin

text \<open>
  What the memory protection ports share: the linker provided configuration and the address tests of
  \<^verbatim>\<open>core/vmpu/inc/vmpu.h\<close> and \<^verbatim>\<open>core/system/inc/linker.h\<close>, the access control flags, the size
  arithmetic and the bit-band address translation, the region descriptor of
  \<^verbatim>\<open>core/vmpu/inc/vmpu_mpu.h\<close>, and the contract of the size and alignment functions that every port
  implements and the page allocator uses.
\<close>

unbundle bit_operations_syntax

section \<open>Configuration and address tests\<close>

text \<open>
  The fields of \<open>UvisorConfig\<close> that the modelled code reads. Pointers are addresses; \<open>page_size\<close> is
  the value behind the pointer of that name and \<open>page_size_ptr\<close> the pointer.
\<close>

record UvisorConfig =
  cfg_magic :: u32
  cfg_version :: u32
  cfg_mode :: u32
  bss_start :: u32
  bss_end :: u32
  bss_main_start :: u32
  bss_main_end :: u32
  bss_boxes_start :: u32
  bss_boxes_end :: u32
  main_start :: u32
  main_end :: u32
  secure_start :: u32
  secure_end :: u32
  cfgtbl_start :: u32
  cfgtbl_end :: u32
  cfgtbl_ptr_start :: u32
  cfgtbl_ptr_end :: u32
  register_gateway_ptr_start :: u32
  register_gateway_ptr_end :: u32
  uvisor_box_context :: u32
  heap_start :: u32
  heap_end :: u32
  page_start :: u32
  page_end :: u32
  page_size_ptr :: u32
  page_size :: u32
  flash_start :: u32
  flash_end :: u32
  sram_start :: u32
  sram_end :: u32
  public_sram_start :: u32
  public_sram_end :: u32
  newlib_impure_ptr :: u32

text \<open>A configuration with 256 KB of flash and 64 KB of SRAM, for the examples of the development.\<close>

definition example_config :: UvisorConfig where
  "example_config = \<lparr>cfg_magic = 0x2FE539A6, cfg_version = 0, cfg_mode = 0x114, bss_start = 0x20000000, bss_end = 0x20004000,
     bss_main_start = 0x20000000, bss_main_end = 0x20002000, bss_boxes_start = 0x20002000, bss_boxes_end = 0x20004000,
     main_start = 0x400, main_end = 0x8000, secure_start = 0x20000, secure_end = 0x40000, cfgtbl_start = 0x20000,
     cfgtbl_end = 0x20100, cfgtbl_ptr_start = 0x20100, cfgtbl_ptr_end = 0x20108, register_gateway_ptr_start = 0x20108,
     register_gateway_ptr_end = 0x20110, uvisor_box_context = 0x20008000, heap_start = 0x20008000, heap_end = 0x2000FF00, page_start = 0x20004000,
     page_end = 0x20008000, page_size_ptr = 0x20110, page_size = 1024, flash_start = 0, flash_end = 0x80000,
     sram_start = 0x20000000, sram_end = 0x20010000, public_sram_start = 0x20000000, public_sram_end = 0x20010000,
     newlib_impure_ptr = 0x20008004\<rparr>"

definition vmpu_public_flash_addr :: "UvisorConfig \<Rightarrow> u32 \<Rightarrow> bool" where
  "vmpu_public_flash_addr cfg addr \<longleftrightarrow> addr \<ge> flash_start cfg \<and> addr \<le> secure_start cfg - 4"

definition vmpu_flash_addr :: "UvisorConfig \<Rightarrow> u32 \<Rightarrow> bool" where
  "vmpu_flash_addr cfg addr \<longleftrightarrow> addr \<ge> flash_start cfg \<and> addr \<le> flash_end cfg - 4"

definition vmpu_public_sram_addr :: "UvisorConfig \<Rightarrow> u32 \<Rightarrow> bool" where
  "vmpu_public_sram_addr cfg addr \<longleftrightarrow> addr \<ge> public_sram_start cfg \<and> addr \<le> public_sram_end cfg - 4"

definition vmpu_sram_addr :: "UvisorConfig \<Rightarrow> u32 \<Rightarrow> bool" where
  "vmpu_sram_addr cfg addr \<longleftrightarrow> addr \<ge> sram_start cfg \<and> addr \<le> sram_end cfg - 4"

definition VMPU_REGION_SIZE :: "u32 \<Rightarrow> u32 \<Rightarrow> u32" where
  "VMPU_REGION_SIZE p1 p2 = (if p1 \<ge> p2 then 0 else p2 - p1)"

section \<open>Boxes\<close>

definition UVISOR_MAX_BOXES :: nat where "UVISOR_MAX_BOXES = 5"
definition UVISOR_BOX_ID_INVALID :: u8 where "UVISOR_BOX_ID_INVALID = 0xFF"

text \<open>\<open>counted\<close> is \<open>g_vmpu_boxes_counted\<close> and \<open>box_count\<close> is \<open>g_vmpu_box_count\<close>.\<close>

definition vmpu_is_box_id_valid :: "bool \<Rightarrow> u8 \<Rightarrow> u8 \<Rightarrow> bool" where
  "vmpu_is_box_id_valid counted box_count box_id \<longleftrightarrow>
     (if counted then box_id < box_count else unat box_id < UVISOR_MAX_BOXES)"

section \<open>Access control flags\<close>

definition UVISOR_TACL_UEXECUTE :: u32 where "UVISOR_TACL_UEXECUTE = 0x0001"
definition UVISOR_TACL_UWRITE :: u32 where "UVISOR_TACL_UWRITE = 0x0002"
definition UVISOR_TACL_UREAD :: u32 where "UVISOR_TACL_UREAD = 0x0004"
definition UVISOR_TACL_SEXECUTE :: u32 where "UVISOR_TACL_SEXECUTE = 0x0008"
definition UVISOR_TACL_SWRITE :: u32 where "UVISOR_TACL_SWRITE = 0x0010"
definition UVISOR_TACL_SREAD :: u32 where "UVISOR_TACL_SREAD = 0x0020"
definition UVISOR_TACL_STACK :: u32 where "UVISOR_TACL_STACK = 0x0040"
definition UVISOR_TACL_SIZE_ROUND_UP :: u32 where "UVISOR_TACL_SIZE_ROUND_UP = 0x0080"
definition UVISOR_TACL_SIZE_ROUND_DOWN :: u32 where "UVISOR_TACL_SIZE_ROUND_DOWN = 0x0100"
definition UVISOR_TACL_PERIPHERAL :: u32 where "UVISOR_TACL_PERIPHERAL = 0x0200"
definition UVISOR_TACL_SHARED :: u32 where "UVISOR_TACL_SHARED = 0x0400"
definition UVISOR_TACL_USER :: u32 where "UVISOR_TACL_USER = 0x0800"
definition UVISOR_TACL_IRQ :: u32 where "UVISOR_TACL_IRQ = 0x1000"

lemmas tacl_flags = UVISOR_TACL_UEXECUTE_def UVISOR_TACL_UWRITE_def UVISOR_TACL_UREAD_def
  UVISOR_TACL_SEXECUTE_def UVISOR_TACL_SWRITE_def UVISOR_TACL_SREAD_def UVISOR_TACL_STACK_def
  UVISOR_TACL_SIZE_ROUND_UP_def UVISOR_TACL_SIZE_ROUND_DOWN_def UVISOR_TACL_PERIPHERAL_def
  UVISOR_TACL_SHARED_def UVISOR_TACL_USER_def UVISOR_TACL_IRQ_def

definition UVISOR_TACL_UACL :: u32 where
  "UVISOR_TACL_UACL = UVISOR_TACL_UREAD OR UVISOR_TACL_UWRITE OR UVISOR_TACL_UEXECUTE"

definition UVISOR_TACL_SACL :: u32 where
  "UVISOR_TACL_SACL = UVISOR_TACL_SREAD OR UVISOR_TACL_SWRITE OR UVISOR_TACL_SEXECUTE"

definition UVISOR_TACL_EXECUTE :: u32 where
  "UVISOR_TACL_EXECUTE = UVISOR_TACL_UEXECUTE OR UVISOR_TACL_SEXECUTE"

definition UVISOR_TACL_ACCESS :: u32 where
  "UVISOR_TACL_ACCESS = UVISOR_TACL_UACL OR UVISOR_TACL_SACL"

definition UVISOR_TACLDEF_SECURE_BSS :: u32 where
  "UVISOR_TACLDEF_SECURE_BSS = UVISOR_TACL_UREAD OR UVISOR_TACL_UWRITE OR UVISOR_TACL_SREAD OR
     UVISOR_TACL_SWRITE OR UVISOR_TACL_SIZE_ROUND_UP"

definition UVISOR_TACLDEF_SECURE_CONST :: u32 where
  "UVISOR_TACLDEF_SECURE_CONST = UVISOR_TACL_UREAD OR UVISOR_TACL_SREAD OR UVISOR_TACL_SIZE_ROUND_UP"

definition UVISOR_TACLDEF_DATA :: u32 where
  "UVISOR_TACLDEF_DATA = UVISOR_TACLDEF_SECURE_BSS"

definition UVISOR_TACLDEF_STACK :: u32 where
  "UVISOR_TACLDEF_STACK = UVISOR_TACL_STACK OR UVISOR_TACL_UREAD OR UVISOR_TACL_UWRITE OR
     UVISOR_TACL_SREAD OR UVISOR_TACL_SWRITE"

lemmas tacl_defs = tacl_flags UVISOR_TACL_UACL_def UVISOR_TACL_SACL_def UVISOR_TACL_EXECUTE_def
  UVISOR_TACL_ACCESS_def UVISOR_TACLDEF_SECURE_BSS_def UVISOR_TACLDEF_SECURE_CONST_def
  UVISOR_TACLDEF_DATA_def UVISOR_TACLDEF_STACK_def

text \<open>The C test \<open>acl & flag\<close>.\<close>

abbreviation has_flag :: "u32 \<Rightarrow> u32 \<Rightarrow> bool" where
  "has_flag acl flag \<equiv> acl AND flag \<noteq> 0"

section \<open>Regions\<close>

record MpuRegion =
  region_start :: u32
  region_end :: u32
  region_config :: u32
  region_acl :: u32

definition region_contains :: "MpuRegion \<Rightarrow> u32 \<Rightarrow> bool" where
  "region_contains region address \<longleftrightarrow> region_start region \<le> address \<and> address < region_end region"

section \<open>Size arithmetic\<close>

text \<open>The number of significant bits, and \<open>__builtin_clz\<close> on 32 bits (32 for 0, as the CLZ instruction).\<close>

fun nat_bits :: "nat \<Rightarrow> nat" where
  "nat_bits n = (if n = 0 then 0 else Suc (nat_bits (n div 2)))"

declare nat_bits.simps [simp del]

definition builtin_clz :: "u32 \<Rightarrow> nat" where
  "builtin_clz w = 32 - nat_bits (unat w)"

definition vmpu_bits :: "u32 \<Rightarrow> nat" where
  "vmpu_bits sz = 32 - builtin_clz sz"

definition UVISOR_REGION_BITS :: "u32 \<Rightarrow> nat" where
  "UVISOR_REGION_BITS x =
     (if x \<le> 32 then 5
     else if x \<le> 64 then 6
     else if x \<le> 128 then 7
     else if x \<le> 256 then 8
     else if x \<le> 512 then 9
     else if x \<le> 1024 then 10
     else if x \<le> 2048 then 11
     else if x \<le> 4096 then 12
     else if x \<le> 8192 then 13
     else if x \<le> 16384 then 14
     else if x \<le> 32768 then 15
     else if x \<le> 65536 then 16
     else if x \<le> 131072 then 17
     else if x \<le> 262144 then 18
     else if x \<le> 524288 then 19
     else if x \<le> 1048576 then 20
     else if x \<le> 2097152 then 21
     else if x \<le> 4194304 then 22
     else if x \<le> 8388608 then 23
     else if x \<le> 16777216 then 24
     else if x \<le> 33554432 then 25
     else if x \<le> 67108864 then 26
     else if x \<le> 134217728 then 27
     else if x \<le> 268435456 then 28
     else if x \<le> 536870912 then 29
     else if x \<le> 1073741824 then 30
     else if x \<le> 2147483648 then 31
     else 32)"

definition UVISOR_ROUND32_DOWN :: "u32 \<Rightarrow> u32" where
  "UVISOR_ROUND32_DOWN address = address AND NOT 0x1F"

definition UVISOR_ROUND32_UP :: "u32 \<Rightarrow> u32" where
  "UVISOR_ROUND32_UP address = UVISOR_ROUND32_DOWN (address + 31)"

definition UVISOR_MIN_STACK_SIZE :: u32 where "UVISOR_MIN_STACK_SIZE = 1024"

definition UVISOR_MIN_STACK :: "u32 \<Rightarrow> u32" where
  "UVISOR_MIN_STACK x = (if x < UVISOR_MIN_STACK_SIZE then UVISOR_MIN_STACK_SIZE else x)"

lemma nat_bits_bounds: "n \<noteq> 0 \<Longrightarrow> 2 ^ (nat_bits n - 1) \<le> n \<and> n < 2 ^ nat_bits n \<and> 0 < nat_bits n"
proof (induction n rule: nat_bits.induct)
  case (1 n)
  show ?case
  proof (cases "n div 2 = 0")
    case True
    then have "n = 1" using 1(2) by auto
    then show ?thesis by (simp add: nat_bits.simps)
  next
    case False
    obtain k where k: "nat_bits (n div 2) = Suc k" "2 ^ k \<le> n div 2" "n div 2 < 2 ^ Suc k"
      using 1(1) [OF 1(2) False] by (cases "nat_bits (n div 2)") auto
    then have "nat_bits n = Suc (Suc k)" using 1(2) by (simp add: nat_bits.simps [of n])
    then show ?thesis using k(2,3) by auto
  qed
qed

lemma nat_bits_le: "n < 2 ^ k \<Longrightarrow> nat_bits n \<le> k"
proof (cases "n = 0")
  case False
  assume "n < 2 ^ k"
  then have "2 ^ (nat_bits n - 1) < (2 :: nat) ^ k" using nat_bits_bounds [OF False] by linarith
  then have "nat_bits n - 1 < k" by simp
  then show ?thesis by linarith
qed (simp add: nat_bits.simps)

lemma nat_bits_power: "nat_bits (2 ^ k) = Suc k"
  by (induction k) (simp_all add: nat_bits.simps)

lemma vmpu_bits_nat_bits: "vmpu_bits sz = nat_bits (unat sz)"
  using nat_bits_le [OF unat_u32_lt, of sz] by (simp add: vmpu_bits_def builtin_clz_def)

text \<open>\<open>vmpu_bits\<close> counts the significant bits, as the self test in \<open>vmpu_init_pre\<close> relies on.\<close>

lemma vmpu_bits_bounds:
  assumes "sz \<noteq> 0"
  shows "2 ^ (vmpu_bits sz - 1) \<le> unat sz" "unat sz < 2 ^ vmpu_bits sz" "0 < vmpu_bits sz" "vmpu_bits sz \<le> 32"
  using assms nat_bits_bounds [of "unat sz"] nat_bits_le [OF unat_u32_lt, of sz]
  by (simp_all add: vmpu_bits_nat_bits unat_eq_zero)

lemma region_bits_unique:
  fixes n :: nat
  assumes "n \<le> 2 ^ b" "b = 5 \<or> 2 ^ (b - 1) < n" "5 \<le> b" "n \<le> 2 ^ c" "c = 5 \<or> 2 ^ (c - 1) < n" "5 \<le> c"
  shows "b = c"
proof -
  have less: False if "x < y" "n \<le> 2 ^ x" "2 ^ (y - 1) < n" for x y
  proof -
    have "2 ^ (y - 1) < (2 :: nat) ^ x" using that by linarith
    then have "y - 1 < x" by simp
    then show False using that(1) by simp
  qed
  show ?thesis using assms less [of b c] less [of c b] by (metis le_antisym nat_neq_iff not_less)
qed

lemma UVISOR_REGION_BITS_bounds:
  "unat x \<le> 2 ^ UVISOR_REGION_BITS x \<and> 5 \<le> UVISOR_REGION_BITS x \<and> UVISOR_REGION_BITS x \<le> 32 \<and>
    (UVISOR_REGION_BITS x = 5 \<or> 2 ^ (UVISOR_REGION_BITS x - 1) < unat x)"
  using unat_u32_lt [of x] unfolding UVISOR_REGION_BITS_def by (simp add: word_le_nat_alt)

section \<open>Bit-band aliases\<close>

definition VMPU_SRAM_START :: u32 where "VMPU_SRAM_START = 0x20000000"
definition VMPU_SRAM_BITBAND_START :: u32 where "VMPU_SRAM_BITBAND_START = 0x22000000"
definition VMPU_SRAM_BITBAND_END :: u32 where "VMPU_SRAM_BITBAND_END = 0x23FFFFFF"
definition VMPU_PERIPH_START :: u32 where "VMPU_PERIPH_START = 0x40000000"
definition VMPU_PERIPH_BITBAND_START :: u32 where "VMPU_PERIPH_BITBAND_START = 0x42000000"
definition VMPU_PERIPH_BITBAND_END :: u32 where "VMPU_PERIPH_BITBAND_END = 0x43FFFFFF"

definition VMPU_SRAM_BITBAND_ADDR_TO_ALIAS :: "u32 \<Rightarrow> u32 \<Rightarrow> u32" where
  "VMPU_SRAM_BITBAND_ADDR_TO_ALIAS addr b =
     VMPU_SRAM_BITBAND_START + 32 * (addr - VMPU_SRAM_START) + 4 * b"

definition VMPU_SRAM_BITBAND_ALIAS_TO_ADDR :: "u32 \<Rightarrow> u32" where
  "VMPU_SRAM_BITBAND_ALIAS_TO_ADDR alias =
     (drop_bit 5 (alias - VMPU_SRAM_BITBAND_START) AND NOT 0x3) + VMPU_SRAM_START"

definition VMPU_SRAM_BITBAND_ALIAS_TO_BIT :: "u32 \<Rightarrow> u32" where
  "VMPU_SRAM_BITBAND_ALIAS_TO_BIT alias =
     drop_bit 2 ((alias - VMPU_SRAM_BITBAND_START) -
       push_bit 5 (VMPU_SRAM_BITBAND_ALIAS_TO_ADDR alias - VMPU_SRAM_START))"

definition VMPU_PERIPH_BITBAND_ADDR_TO_ALIAS :: "u32 \<Rightarrow> u32 \<Rightarrow> u32" where
  "VMPU_PERIPH_BITBAND_ADDR_TO_ALIAS addr b =
     VMPU_PERIPH_BITBAND_START + 32 * (addr - VMPU_PERIPH_START) + 4 * b"

definition VMPU_PERIPH_BITBAND_ALIAS_TO_ADDR :: "u32 \<Rightarrow> u32" where
  "VMPU_PERIPH_BITBAND_ALIAS_TO_ADDR alias =
     (drop_bit 5 (alias - VMPU_PERIPH_BITBAND_START) AND NOT 0x3) + VMPU_PERIPH_START"

definition VMPU_PERIPH_BITBAND_ALIAS_TO_BIT :: "u32 \<Rightarrow> u32" where
  "VMPU_PERIPH_BITBAND_ALIAS_TO_BIT alias =
     drop_bit 2 ((alias - VMPU_PERIPH_BITBAND_START) -
       push_bit 5 (VMPU_PERIPH_BITBAND_ALIAS_TO_ADDR alias - VMPU_PERIPH_START))"

lemma bitband_roundtrip:
  fixes x b :: u32
  assumes "x < 0x100000" "x AND 3 = 0" "b < 32"
  shows "drop_bit 5 (32 * x + 4 * b) AND NOT 0x3 = x" "drop_bit 2 (32 * x + 4 * b - push_bit 5 x) = b"
    "32 * x + 4 * b \<le> 0x1FFFFFF"
proof -
  have x: "unat x < 2 ^ 20" "unat b < 32" using assms by (simp_all add: word_less_nat_alt)
  have dvd: "4 dvd unat x" using assms(2) and_mask_eq_0_iff [of x 2] by (simp add: mask_eq_exp_minus_1)
  have e: "unat (32 * x + 4 * b) = 32 * unat x + 4 * unat b"
    using x by (simp add: unat_word_ariths)
  have m: "(3 :: u32) = mask 2" by (simp add: mask_eq_exp_minus_1)
  have "unat (drop_bit 5 (32 * x + 4 * b) AND NOT 0x3) = unat x"
    using dvd x unfolding m unat_and_not_mask unat_drop_bit_eq e by (elim dvdE) (simp add: drop_bit_eq_div)
  then show "drop_bit 5 (32 * x + 4 * b) AND NOT 0x3 = x" by (simp add: unat_eq_iff)
  have "push_bit 5 x = 32 * x" by (simp add: push_bit_eq_mult)
  then have "unat (drop_bit 2 (32 * x + 4 * b - push_bit 5 x)) = unat b"
    using x by (simp add: unat_drop_bit_eq drop_bit_eq_div unat_word_ariths)
  then show "drop_bit 2 (32 * x + 4 * b - push_bit 5 x) = b" by (simp add: unat_eq_iff)
  have "unat x \<le> 0xFFFFC" using x(1) dvd by (elim dvdE) simp
  then show "32 * x + 4 * b \<le> 0x1FFFFFF" using x e by (simp add: word_le_nat_alt)
qed

text \<open>
  The bit-band macros are inverse to each other. The alias of bit \<open>b\<close> of a word of the first megabyte
  of SRAM, or of the peripherals, lies in the alias range and translates back to the address of
  the word and to the bit, so an access through an alias is judged by the word it touches.
\<close>

theorem bitband_alias_roundtrip:
  assumes "a < 0x100000" "a AND 3 = 0" "b < 32"
  shows "VMPU_SRAM_BITBAND_ALIAS_TO_ADDR (VMPU_SRAM_BITBAND_ADDR_TO_ALIAS (VMPU_SRAM_START + a) b) = VMPU_SRAM_START + a \<and>
    VMPU_SRAM_BITBAND_ALIAS_TO_BIT (VMPU_SRAM_BITBAND_ADDR_TO_ALIAS (VMPU_SRAM_START + a) b) = b \<and>
    VMPU_SRAM_BITBAND_START \<le> VMPU_SRAM_BITBAND_ADDR_TO_ALIAS (VMPU_SRAM_START + a) b \<and>
    VMPU_SRAM_BITBAND_ADDR_TO_ALIAS (VMPU_SRAM_START + a) b \<le> VMPU_SRAM_BITBAND_END \<and>
    VMPU_PERIPH_BITBAND_ALIAS_TO_ADDR (VMPU_PERIPH_BITBAND_ADDR_TO_ALIAS (VMPU_PERIPH_START + a) b) = VMPU_PERIPH_START + a \<and>
    VMPU_PERIPH_BITBAND_ALIAS_TO_BIT (VMPU_PERIPH_BITBAND_ADDR_TO_ALIAS (VMPU_PERIPH_START + a) b) = b \<and>
    VMPU_PERIPH_BITBAND_START \<le> VMPU_PERIPH_BITBAND_ADDR_TO_ALIAS (VMPU_PERIPH_START + a) b \<and>
    VMPU_PERIPH_BITBAND_ADDR_TO_ALIAS (VMPU_PERIPH_START + a) b \<le> VMPU_PERIPH_BITBAND_END"
proof -
  let ?y = "32 * a + 4 * b"
  note r = bitband_roundtrip [OF assms]
  have y: "base + 32 * (start + a - start) + 4 * b - base = ?y" "base + 32 * (start + a - start) + 4 * b = base + ?y"
    "base + ?y - base = ?y" "a + start - start = a" for base start :: u32
    by simp_all
  have bound: "unat ?y \<le> 0x1FFFFFF" using r(3) by (simp add: word_le_nat_alt)
  have range: "VMPU_SRAM_BITBAND_START \<le> VMPU_SRAM_BITBAND_START + ?y" "VMPU_SRAM_BITBAND_START + ?y \<le> VMPU_SRAM_BITBAND_END"
    "VMPU_PERIPH_BITBAND_START \<le> VMPU_PERIPH_BITBAND_START + ?y" "VMPU_PERIPH_BITBAND_START + ?y \<le> VMPU_PERIPH_BITBAND_END"
    using bound by (simp_all add: word_le_nat_alt unat_word_ariths(1) VMPU_SRAM_BITBAND_START_def VMPU_SRAM_BITBAND_END_def
        VMPU_PERIPH_BITBAND_START_def VMPU_PERIPH_BITBAND_END_def)
  show ?thesis
    unfolding VMPU_SRAM_BITBAND_ALIAS_TO_BIT_def VMPU_SRAM_BITBAND_ALIAS_TO_ADDR_def VMPU_SRAM_BITBAND_ADDR_TO_ALIAS_def
      VMPU_PERIPH_BITBAND_ALIAS_TO_BIT_def VMPU_PERIPH_BITBAND_ALIAS_TO_ADDR_def VMPU_PERIPH_BITBAND_ADDR_TO_ALIAS_def y r(1)
    using range r(2) by (simp only: add.commute [of _ a] simp_thms)
qed

theorem bitband_alias_roundtrip_witness:
  "VMPU_SRAM_BITBAND_ALIAS_TO_ADDR (VMPU_SRAM_BITBAND_ADDR_TO_ALIAS 0x20000404 7) = 0x20000404 \<and>
   VMPU_PERIPH_BITBAND_ALIAS_TO_BIT (VMPU_PERIPH_BITBAND_ADDR_TO_ALIAS 0x40000404 7) = 7"
  using bitband_alias_roundtrip [of "0x404" 7] by (simp add: VMPU_SRAM_START_def VMPU_PERIPH_START_def)

section \<open>The contract of the size and alignment functions\<close>

text \<open>
  \<open>vmpu_is_region_size_valid\<close> and \<open>vmpu_round_up_region\<close> as documented in \<^verbatim>\<open>vmpu.h\<close>: sizes are
  between 32 bytes and 512 MB, rounding an address gives the least upper address of the port's
  alignment, at less than the region sz above, and 0 when the sz is invalid or the address is
  too large.
\<close>

locale region_geometry =
  fixes is_region_size_valid :: "u32 \<Rightarrow> bool"
    and round_up_region :: "u32 \<Rightarrow> u32 \<Rightarrow> u32"
  assumes size_valid_range: "is_region_size_valid sz \<Longrightarrow> 32 \<le> unat sz \<and> unat sz \<le> 2 ^ 29"
    and round_up_invalid: "\<not> is_region_size_valid sz \<Longrightarrow> round_up_region addr sz = 0"
    and round_up_bounds: "is_region_size_valid sz \<Longrightarrow> unat addr + unat sz \<le> 2 ^ 32 \<Longrightarrow>
      unat addr \<le> unat (round_up_region addr sz) \<and>
      unat (round_up_region addr sz) < unat addr + unat sz"
    and round_up_nonzero: "round_up_region addr sz \<noteq> 0 \<Longrightarrow>
      unat addr \<le> unat (round_up_region addr sz) \<and>
      unat (round_up_region addr sz) < unat addr + unat sz"

end
