(* ===== verification/Unpriv_Access.thy ===== *)
theory Unpriv_Access
  imports Prelude
begin

text \<open>
  Memory as the uVisor core sees it, and the accesses it makes on behalf of a box
  (\<^verbatim>\<open>core/vmpu/inc/vmpu_unpriv_access.h\<close>, \<^verbatim>\<open>core/vmpu/src/mpu_armv8m/vmpu_armv8m_unpriv_access.c\<close>).
  Memory is byte addressed and little endian. On ARMv7-M an access is one instruction that the MPU
  checks as unprivileged; whether it is permitted is the parameter \<open>acc write address size\<close>, and a
  refused access is \<open>Fault\<close>. On ARMv8-M the access is a C function that asks the hardware (\<open>TTA\<close>)
  and tries once to recover.
\<close>

unbundle bit_operations_syntax

section \<open>Memory\<close>

type_synonym mem = "u32 \<Rightarrow> u8"

definition read8 :: "mem \<Rightarrow> u32 \<Rightarrow> u8" where
  "read8 m a = m a"

definition read16 :: "mem \<Rightarrow> u32 \<Rightarrow> u16" where
  "read16 m a = ucast (m a) OR push_bit 8 (ucast (m (a + 1)))"

definition read32 :: "mem \<Rightarrow> u32 \<Rightarrow> u32" where
  "read32 m a = ucast (m a) OR push_bit 8 (ucast (m (a + 1))) OR push_bit 16 (ucast (m (a + 2))) OR
     push_bit 24 (ucast (m (a + 3)))"

definition write8 :: "mem \<Rightarrow> u32 \<Rightarrow> u8 \<Rightarrow> mem" where
  "write8 m a v = m(a := v)"

definition write16 :: "mem \<Rightarrow> u32 \<Rightarrow> u16 \<Rightarrow> mem" where
  "write16 m a v = m(a := ucast v, a + 1 := ucast (drop_bit 8 v))"

definition write32 :: "mem \<Rightarrow> u32 \<Rightarrow> u32 \<Rightarrow> mem" where
  "write32 m a v = m(a := ucast v, a + 1 := ucast (drop_bit 8 v), a + 2 := ucast (drop_bit 16 v),
     a + 3 := ucast (drop_bit 24 v))"

text \<open>\<open>memset(start, 0, size)\<close>.\<close>

definition zero_range :: "mem \<Rightarrow> u32 \<Rightarrow> u32 \<Rightarrow> mem" where
  "zero_range m start sz = (\<lambda>a. if unat (a - start) < unat sz then 0 else m a)"

lemma offset_neq [simp]:
  "(a :: u32) + 1 \<noteq> a" "a + 2 \<noteq> a" "a + 3 \<noteq> a" "a + 2 \<noteq> a + 1" "a + 3 \<noteq> a + 1" "a + 3 \<noteq> a + 2"
  "a \<noteq> a + 1" "a \<noteq> a + 2" "a \<noteq> a + 3" "a + 1 \<noteq> a + 2" "a + 1 \<noteq> a + 3" "a + 2 \<noteq> a + 3"
  by simp_all

lemma read32_write32: "read32 (write32 m a v) a = v"
proof (rule bit_word_eqI)
  fix n assume "n < LENGTH(32)"
  then consider "n < 8" | "8 \<le> n" "n < 16" | "16 \<le> n" "n < 24" | "24 \<le> n" "n < 32" by fastforce
  then show "bit (read32 (write32 m a v) a) n \<longleftrightarrow> bit v n"
    by cases (auto simp: read32_def write32_def bit_simps)
qed

lemma read32_frame:
  "(\<And>k. k < 4 \<Longrightarrow> m' (a + of_nat k) = m (a + of_nat k)) \<Longrightarrow> read32 m' a = read32 m a"
proof -
  assume eq: "\<And>k. k < 4 \<Longrightarrow> m' (a + of_nat k) = m (a + of_nat k)"
  show ?thesis using eq [of 0] eq [of 1] eq [of 2] eq [of 3] by (simp add: read32_def)
qed

section \<open>Accesses on behalf of a box\<close>

type_synonym access = "bool \<Rightarrow> u32 \<Rightarrow> nat \<Rightarrow> bool"

definition vmpu_unpriv_uint8_write :: "access \<Rightarrow> mem \<Rightarrow> u32 \<Rightarrow> u8 \<Rightarrow> mem res" where
  "vmpu_unpriv_uint8_write acc m addr data = (if acc True addr 1 then Inr (write8 m addr data) else Inl Fault)"

definition vmpu_unpriv_uint16_write :: "access \<Rightarrow> mem \<Rightarrow> u32 \<Rightarrow> u16 \<Rightarrow> mem res" where
  "vmpu_unpriv_uint16_write acc m addr data = (if acc True addr 2 then Inr (write16 m addr data) else Inl Fault)"

definition vmpu_unpriv_uint32_write :: "access \<Rightarrow> mem \<Rightarrow> u32 \<Rightarrow> u32 \<Rightarrow> mem res" where
  "vmpu_unpriv_uint32_write acc m addr data = (if acc True addr 4 then Inr (write32 m addr data) else Inl Fault)"

definition vmpu_unpriv_uint8_read :: "access \<Rightarrow> mem \<Rightarrow> u32 \<Rightarrow> u8 res" where
  "vmpu_unpriv_uint8_read acc m addr = (if acc False addr 1 then Inr (read8 m addr) else Inl Fault)"

definition vmpu_unpriv_uint16_read :: "access \<Rightarrow> mem \<Rightarrow> u32 \<Rightarrow> u16 res" where
  "vmpu_unpriv_uint16_read acc m addr = (if acc False addr 2 then Inr (read16 m addr) else Inl Fault)"

definition vmpu_unpriv_uint32_read :: "access \<Rightarrow> mem \<Rightarrow> u32 \<Rightarrow> u32 res" where
  "vmpu_unpriv_uint32_read acc m addr = (if acc False addr 4 then Inr (read32 m addr) else Inl Fault)"

section \<open>The ARMv8-M access function\<close>

text \<open>
  The result of the \<open>TTA\<close> instruction for an address is the parameter \<open>tta\<close>, a function of the state \<open>'s\<close> of the port; the argument \<open>recover\<close> is
  \<open>vmpu_fault_recovery_mpu\<close>, which returns whether it recovered and the new state.
\<close>

definition TT_RESP_S_Msk :: u32 where "TT_RESP_S_Msk = push_bit 22 1"
definition TT_RESP_NSRW_Msk :: u32 where "TT_RESP_NSRW_Msk = push_bit 21 1"
definition TT_RESP_NSR_Msk :: u32 where "TT_RESP_NSR_Msk = push_bit 20 1"
definition TT_RESP_RW_Msk :: u32 where "TT_RESP_RW_Msk = push_bit 19 1"
definition TT_RESP_R_Msk :: u32 where "TT_RESP_R_Msk = push_bit 18 1"
definition TT_RESP_SRVALID_Msk :: u32 where "TT_RESP_SRVALID_Msk = push_bit 17 1"
definition TT_RESP_SREGION_Msk :: u32 where "TT_RESP_SREGION_Msk = push_bit 8 0xFF"

lemmas tt_masks = TT_RESP_S_Msk_def TT_RESP_NSRW_Msk_def TT_RESP_NSR_Msk_def TT_RESP_RW_Msk_def
  TT_RESP_R_Msk_def TT_RESP_SRVALID_Msk_def TT_RESP_SREGION_Msk_def

definition UVISOR_UNPRIV_ACCESS_READ :: "u32 \<Rightarrow> u32" where
  "UVISOR_UNPRIV_ACCESS_READ sz = sz OR push_bit 31 0"

definition UVISOR_UNPRIV_ACCESS_WRITE :: "u32 \<Rightarrow> u32" where
  "UVISOR_UNPRIV_ACCESS_WRITE sz = sz OR push_bit 31 1"

definition UVISOR_UNPRIV_ACCESS_SIZE :: "u32 \<Rightarrow> u32" where
  "UVISOR_UNPRIV_ACCESS_SIZE sz = sz AND NOT (push_bit 31 1)"

lemmas unpriv_access_defs = UVISOR_UNPRIV_ACCESS_READ_def UVISOR_UNPRIV_ACCESS_WRITE_def
  UVISOR_UNPRIV_ACCESS_SIZE_def

definition vmpu_unpriv_test_range :: "(u32 \<Rightarrow> u32) \<Rightarrow> u32 \<Rightarrow> u32 \<Rightarrow> u32" where
  "vmpu_unpriv_test_range tta addr sz =
     (let sz = (if sz = 0 then 1 else sz);
          test_addr_lower = addr AND NOT 31;
          test_addr_upper = (addr + sz - 1) AND NOT 31;
          response_lower = tta test_addr_lower;
          response_upper = tta test_addr_upper;
          differ = (response_lower XOR response_upper) AND
            (TT_RESP_S_Msk OR TT_RESP_SRVALID_Msk OR TT_RESP_SREGION_Msk) \<noteq> 0;
          result = (if test_addr_lower \<noteq> test_addr_upper then response_lower AND response_upper
                    else response_lower)
      in if test_addr_lower \<noteq> test_addr_upper \<and> differ then 0
         else result AND (TT_RESP_NSRW_Msk OR TT_RESP_NSR_Msk OR TT_RESP_RW_Msk OR TT_RESP_R_Msk OR
                          TT_RESP_S_Msk OR TT_RESP_SRVALID_Msk OR TT_RESP_SREGION_Msk))"

definition unpriv_granted :: "(u32 \<Rightarrow> u32) \<Rightarrow> u32 \<Rightarrow> u32 \<Rightarrow> bool" where
  "unpriv_granted tta addr sz \<longleftrightarrow>
     vmpu_unpriv_test_range tta addr (UVISOR_UNPRIV_ACCESS_SIZE sz) AND (TT_RESP_NSRW_Msk OR TT_RESP_SRVALID_Msk)
       = TT_RESP_NSRW_Msk OR TT_RESP_SRVALID_Msk"

text \<open>The body of the granted branch; \<open>None\<close> is the \<open>default\<close> case, which leaves the loop.\<close>

definition unpriv_switch :: "mem \<Rightarrow> u32 \<Rightarrow> u32 \<Rightarrow> u32 \<Rightarrow> (u32 \<times> mem) option" where
  "unpriv_switch m addr sz data =
     (if sz = UVISOR_UNPRIV_ACCESS_READ 1 then Some (ucast (read8 m addr), m)
      else if sz = UVISOR_UNPRIV_ACCESS_READ 2 then Some (ucast (read16 m addr), m)
      else if sz = UVISOR_UNPRIV_ACCESS_READ 4 then Some (read32 m addr, m)
      else if sz = UVISOR_UNPRIV_ACCESS_WRITE 1 then Some (0, write8 m addr (ucast data))
      else if sz = UVISOR_UNPRIV_ACCESS_WRITE 2 then Some (0, write16 m addr (ucast data))
      else if sz = UVISOR_UNPRIV_ACCESS_WRITE 4 then Some (0, write32 m addr data)
      else None)"

text \<open>
  The loop; \<open>n\<close> bounds its iterations, and \<open>vmpu_unpriv_access\<close> runs it with the two it can make.
\<close>

fun unpriv_access_loop ::
  "nat \<Rightarrow> nat \<Rightarrow> ('s \<Rightarrow> u32 \<Rightarrow> u32) \<Rightarrow> (u32 \<Rightarrow> 's \<Rightarrow> (bool \<times> 's) res) \<Rightarrow> 's \<Rightarrow> mem \<Rightarrow> u32 \<Rightarrow> u32 \<Rightarrow> u32
    \<Rightarrow> (u32 \<times> mem \<times> 's) res" where
  "unpriv_access_loop 0 tries tta recover st m addr sz data = Inl Diverge"
| "unpriv_access_loop (Suc n) tries tta recover st m addr sz data =
     (if unpriv_granted (tta st) addr sz then
        case unpriv_switch m addr sz data of
          Some (v, m) \<Rightarrow> Inr (v, m, st)
        | None \<Rightarrow> Inl (Halt PERMISSION_DENIED)
      else if tries + 1 > 1 then Inl (Halt PERMISSION_DENIED)
      else
        bind_res (recover addr st) (\<lambda>(ok, st).
          if \<not> ok then Inl (Halt PERMISSION_DENIED)
          else unpriv_access_loop n (tries + 1) tta recover st m addr sz data))"

definition vmpu_unpriv_access ::
  "('s \<Rightarrow> u32 \<Rightarrow> u32) \<Rightarrow> (u32 \<Rightarrow> 's \<Rightarrow> (bool \<times> 's) res) \<Rightarrow> 's \<Rightarrow> mem \<Rightarrow> u32 \<Rightarrow> u32 \<Rightarrow> u32
    \<Rightarrow> (u32 \<times> mem \<times> 's) res" where
  "vmpu_unpriv_access tta recover st m addr sz data = unpriv_access_loop 2 0 tta recover st m addr sz data"

section \<open>The ARMv8-M access is safe\<close>

lemma vmpu_unpriv_access_unfold:
  "vmpu_unpriv_access tta recover st m addr sz data =
    (let run = (\<lambda>st. case unpriv_switch m addr sz data of
         Some (v, m) \<Rightarrow> Inr (v, m, st) | None \<Rightarrow> Inl (Halt PERMISSION_DENIED)) in
     if unpriv_granted (tta st) addr sz then run st
     else bind_res (recover addr st) (\<lambda>(ok, st).
       if ok \<and> unpriv_granted (tta st) addr sz then run st else Inl (Halt PERMISSION_DENIED)))"
  by (cases "recover addr st") (auto simp: vmpu_unpriv_access_def numeral_2_eq_2 Let_def split: option.split)

lemma test_range_bits:
  assumes "bit (vmpu_unpriv_test_range tta addr sz) n" "sz \<noteq> 0"
  shows "bit (tta (addr AND NOT 31)) n \<and> bit (tta ((addr + sz - 1) AND NOT 31)) n"
  using assms by (auto simp: vmpu_unpriv_test_range_def Let_def bit_simps split: if_splits)

lemma granted_bits:
  assumes "unpriv_granted tta addr sz"
  shows "bit (vmpu_unpriv_test_range tta addr (UVISOR_UNPRIV_ACCESS_SIZE sz)) 21"
    "bit (vmpu_unpriv_test_range tta addr (UVISOR_UNPRIV_ACCESS_SIZE sz)) 17"
proof -
  let ?t = "vmpu_unpriv_test_range tta addr (UVISOR_UNPRIV_ACCESS_SIZE sz)"
  have "bit (TT_RESP_NSRW_Msk OR TT_RESP_SRVALID_Msk) 21" "bit (TT_RESP_NSRW_Msk OR TT_RESP_SRVALID_Msk) 17"
    by (simp_all add: tt_masks bit_simps)
  then show "bit ?t 21" "bit ?t 17"
    using assms unfolding unpriv_granted_def by (metis bit_and_iff)+
qed

lemma unpriv_access_cases:
  assumes "UVISOR_UNPRIV_ACCESS_SIZE sz \<noteq> 0"
  shows "case vmpu_unpriv_access tta recover st m addr sz data of
      Inl e \<Rightarrow> e = Halt PERMISSION_DENIED \<or> recover addr st = Inl e
    | Inr (v, m', st') \<Rightarrow> (st' = st \<or> recover addr st = Inr (True, st')) \<and>
        (let last = (addr + UVISOR_UNPRIV_ACCESS_SIZE sz - 1) AND NOT 31 in
         bit (tta st' (addr AND NOT 31)) 21 \<and> bit (tta st' last) 21 \<and>
         bit (tta st' (addr AND NOT 31)) 17 \<and> bit (tta st' last) 17) \<and>
        unpriv_switch m addr sz data = Some (v, m')"
proof -
  have bits: "bit (tta' (addr AND NOT 31)) 21 \<and> bit (tta' ((addr + UVISOR_UNPRIV_ACCESS_SIZE sz - 1) AND NOT 31)) 21 \<and>
      bit (tta' (addr AND NOT 31)) 17 \<and> bit (tta' ((addr + UVISOR_UNPRIV_ACCESS_SIZE sz - 1) AND NOT 31)) 17"
    if "unpriv_granted tta' addr sz" for tta'
    using granted_bits [OF that] test_range_bits [of tta' addr "UVISOR_UNPRIV_ACCESS_SIZE sz"] assms by blast
  show ?thesis
    by (cases "recover addr st")
      (auto simp: vmpu_unpriv_access_unfold Let_def split: option.splits dest!: bits)
qed

text \<open>
  An ARMv8-M access on behalf of a box always ends, after at most one recovery. It returns only
  when the hardware, asked with the state in which the access is made, reports both the first and
  the last 32 byte granule of the range as readable and writable for non-secure code and inside an
  SAU region; otherwise it halts with \<open>PERMISSION_DENIED\<close>, or where recovery itself stops.
\<close>

theorem vmpu_unpriv_access_safe:
  assumes "UVISOR_UNPRIV_ACCESS_SIZE sz \<noteq> 0"
  shows "case vmpu_unpriv_access tta recover st m addr sz data of
      Inl e \<Rightarrow> e = Halt PERMISSION_DENIED \<or> recover addr st = Inl e
    | Inr (v, m', st') \<Rightarrow> (st' = st \<or> recover addr st = Inr (True, st')) \<and>
        (let last = (addr + UVISOR_UNPRIV_ACCESS_SIZE sz - 1) AND NOT 31 in
         bit (tta st' (addr AND NOT 31)) 21 \<and> bit (tta st' last) 21 \<and>
         bit (tta st' (addr AND NOT 31)) 17 \<and> bit (tta st' last) 17) \<and>
        unpriv_switch m addr sz data = Some (v, m')"
  by (rule unpriv_access_cases [OF assms])

theorem vmpu_unpriv_access_safe_witness:
  "\<exists>m'. vmpu_unpriv_access (\<lambda>st _. st) (\<lambda>_ _. Inr (True, 0x2A0100)) 0 (\<lambda>_. 0) 0x20000010 (UVISOR_UNPRIV_ACCESS_WRITE 4) 7
      = Inr (0, m', 0x2A0100) \<and> bit (0x2A0100 :: u32) 21 \<and> unpriv_switch (\<lambda>_. 0) 0x20000010 (UVISOR_UNPRIV_ACCESS_WRITE 4) 7 = Some (0, m')"
proof -
  have run: "\<exists>m'. vmpu_unpriv_access (\<lambda>st _. st) (\<lambda>_ _. Inr (True, 0x2A0100)) 0 (\<lambda>_. 0) 0x20000010
      (UVISOR_UNPRIV_ACCESS_WRITE 4) 7 = Inr (0, m', 0x2A0100)"
    by (simp add: vmpu_unpriv_access_unfold unpriv_granted_def vmpu_unpriv_test_range_def
        unpriv_access_defs tt_masks unpriv_switch_def)
  show ?thesis
    using run vmpu_unpriv_access_safe [where sz = "UVISOR_UNPRIV_ACCESS_WRITE 4" and tta = "\<lambda>st _. st"
        and recover = "\<lambda>_ _. Inr (True, 0x2A0100)" and st = 0 and m = "\<lambda>_. 0" and addr = "0x20000010" and data = 7]
    by (auto simp: unpriv_access_defs)
qed

end
