(* ===== verification/Register_Gateway.thy ===== *)
theory Register_Gateway
  imports Vmpu_Base Unpriv_Access
begin

text \<open>
  Register gateways, \<^verbatim>\<open>core/system/src/register_gateway.c\<close>: a box executes a supervisor call inside a constant
  structure in flash that names a peripheral register and one operation on it, and uVisor performs
  that operation with privileges. The device registers are part of the memory.
\<close>

unbundle bit_operations_syntax

section \<open>The gateway\<close>

datatype register_gateway_status =
    REGISTER_GATEWAY_STATUS_OK
  | REGISTER_GATEWAY_STATUS_ERROR_FLASH
  | REGISTER_GATEWAY_STATUS_ERROR_MAGIC
  | REGISTER_GATEWAY_STATUS_ERROR_BOX_PTR
  | REGISTER_GATEWAY_STATUS_ERROR_BOX_ID
  | REGISTER_GATEWAY_STATUS_ERROR_ADDRESS

record TRegisterGateway =
  rgw_svc_opcode :: u16
  rgw_branch :: u16
  rgw_magic :: u32
  rgw_box_ptr :: u32
  rgw_address :: u32
  rgw_mask :: u32
  rgw_operation :: u16
  rgw_bxlr :: u16

text \<open>The packed structure at an address; its size is 24 bytes.\<close>

definition register_gateway_at :: "mem \<Rightarrow> u32 \<Rightarrow> TRegisterGateway" where
  "register_gateway_at m p = \<lparr>rgw_svc_opcode = read16 m p, rgw_branch = read16 m (p + 2), rgw_magic = read32 m (p + 4),
     rgw_box_ptr = read32 m (p + 8), rgw_address = read32 m (p + 12), rgw_mask = read32 m (p + 16),
     rgw_operation = read16 m (p + 20), rgw_bxlr = read16 m (p + 22)\<rparr>"

definition UVISOR_REGISTER_GATEWAY_MAGIC :: u32 where "UVISOR_REGISTER_GATEWAY_MAGIC = 0xF7F3A89E"
definition UVISOR_RGW_OP_TYPE_MASK :: u16 where "UVISOR_RGW_OP_TYPE_MASK = 0x00FF"
definition UVISOR_RGW_OP_WIDTH_MASK :: u16 where "UVISOR_RGW_OP_WIDTH_MASK = 0x3F00"
definition UVISOR_RGW_OP_SHARED_MASK :: u16 where "UVISOR_RGW_OP_SHARED_MASK = 0x8000"
definition VMPU_PERIPH_FULL_MASK :: u32 where "VMPU_PERIPH_FULL_MASK = 0xFC000000"
definition VMPU_ROMTABLE_MASK :: u32 where "VMPU_ROMTABLE_MASK = 0xFFFFF000"
definition VMPU_ROMTABLE_START :: u32 where "VMPU_ROMTABLE_START = 0xE00FF000"

lemmas rgw_consts = UVISOR_REGISTER_GATEWAY_MAGIC_def UVISOR_RGW_OP_TYPE_MASK_def UVISOR_RGW_OP_WIDTH_MASK_def
  UVISOR_RGW_OP_SHARED_MASK_def VMPU_PERIPH_FULL_MASK_def VMPU_ROMTABLE_MASK_def VMPU_ROMTABLE_START_def

definition UVISOR_RGW_OP :: "u16 \<Rightarrow> u16 \<Rightarrow> u16 \<Rightarrow> u16" where
  "UVISOR_RGW_OP type width shared =
     (type AND UVISOR_RGW_OP_TYPE_MASK) OR (push_bit 8 width AND UVISOR_RGW_OP_WIDTH_MASK) OR
     (push_bit 15 shared AND UVISOR_RGW_OP_SHARED_MASK)"

section \<open>Checks\<close>

text \<open>
  The box number is the distance of the box pointer from the start of the pointer table, in words,
  cut to 8 bits.
\<close>

definition register_gateway_check :: "UvisorConfig \<Rightarrow> u8 \<Rightarrow> mem \<Rightarrow> u32 \<Rightarrow> register_gateway_status" where
  "register_gateway_check cfg active m p =
     (let rgw = register_gateway_at m p in
      if \<not> vmpu_public_flash_addr cfg p \<or> \<not> vmpu_public_flash_addr cfg (p + 24 - 1)
      then REGISTER_GATEWAY_STATUS_ERROR_FLASH
      else if rgw_magic rgw \<noteq> UVISOR_REGISTER_GATEWAY_MAGIC then REGISTER_GATEWAY_STATUS_ERROR_MAGIC
      else if rgw_box_ptr rgw < cfgtbl_ptr_start cfg then REGISTER_GATEWAY_STATUS_ERROR_BOX_PTR
      else
        let box_id = ucast (word_of_int (sint (rgw_box_ptr rgw - cfgtbl_ptr_start cfg) div 4) :: u32) :: u8 in
        if rgw_operation rgw AND UVISOR_RGW_OP_SHARED_MASK = 0 \<and> box_id \<noteq> active
        then REGISTER_GATEWAY_STATUS_ERROR_BOX_ID
        else
          let address = rgw_address rgw in
          if address AND VMPU_PERIPH_FULL_MASK \<noteq> VMPU_PERIPH_START \<and> address AND VMPU_ROMTABLE_MASK \<noteq> VMPU_ROMTABLE_START
          then REGISTER_GATEWAY_STATUS_ERROR_ADDRESS
          else REGISTER_GATEWAY_STATUS_OK)"

section \<open>Operations\<close>

definition rgw_load :: "mem \<Rightarrow> u32 \<Rightarrow> u16 \<Rightarrow> u32 res" where
  "rgw_load m address width =
     (if width = 4 then Inr (read32 m address)
      else if width = 2 then Inr (ucast (read16 m address))
      else if width = 1 then Inr (ucast (read8 m address))
      else Inl (Halt NOT_ALLOWED))"

definition rgw_store :: "mem \<Rightarrow> u32 \<Rightarrow> u16 \<Rightarrow> u32 \<Rightarrow> mem res" where
  "rgw_store m address width result =
     (if width = 4 then Inr (write32 m address result)
      else if width = 2 then Inr (write16 m address (ucast result))
      else if width = 1 then Inr (write8 m address (ucast result))
      else Inl (Halt NOT_ALLOWED))"

text \<open>What a write operation stores, given the old content, the mask and the value.\<close>

definition rgw_write_result :: "u16 \<Rightarrow> u32 \<Rightarrow> u32 \<Rightarrow> u32 \<Rightarrow> u32 res" where
  "rgw_write_result operation old rmask value =
     (if operation = 2 then Inr value
      else if operation = 3 then Inr (old AND (value OR NOT rmask))
      else if operation = 4 then Inr (old OR (value AND rmask))
      else if operation = 5 then Inr (old XOR (value AND rmask))
      else if operation = 6 then Inr ((old AND NOT rmask) OR (value AND rmask))
      else Inl (Halt NOT_ALLOWED))"

definition register_gateway_perform_operation :: "UvisorConfig \<Rightarrow> access \<Rightarrow> u8 \<Rightarrow> u32 \<Rightarrow> u32 \<Rightarrow> mem \<Rightarrow> mem res" where
  "register_gateway_perform_operation cfg acc active svc_sp svc_pc m =
     (if register_gateway_check cfg active m svc_pc \<noteq> REGISTER_GATEWAY_STATUS_OK then Inl (Halt PERMISSION_DENIED)
      else
        let rgw = register_gateway_at m svc_pc in
        bind_res (vmpu_unpriv_uint32_read acc m svc_sp) (\<lambda>value.
        let address = rgw_address rgw;
            width = drop_bit 8 (rgw_operation rgw AND UVISOR_RGW_OP_WIDTH_MASK) in
        bind_res (rgw_load m address width) (\<lambda>result.
        let operation = rgw_operation rgw AND UVISOR_RGW_OP_TYPE_MASK in
        if operation = 0 then vmpu_unpriv_uint32_write acc m svc_sp result
        else if operation = 1 then vmpu_unpriv_uint32_write acc m svc_sp (result AND rgw_mask rgw)
        else
          bind_res (rgw_write_result operation result (rgw_mask rgw) value) (\<lambda>result.
          rgw_store m address width result))))"

section \<open>What a gateway can touch\<close>

definition in_bytes :: "u32 \<Rightarrow> nat \<Rightarrow> u32 \<Rightarrow> bool" where
  "in_bytes base n a \<longleftrightarrow> unat (a - base) < n"

lemma write_outside:
  "\<not> in_bytes p 4 a \<Longrightarrow> write32 m p v a = m a" "\<not> in_bytes p 2 a \<Longrightarrow> write16 m p w a = m a"
  "\<not> in_bytes p 1 a \<Longrightarrow> write8 m p x a = m a"
  by (auto simp: in_bytes_def write32_def write16_def write8_def)

lemma rgw_store_outside:
  "rgw_store m address width v = Inr m' \<Longrightarrow> \<not> in_bytes address (unat width) a \<Longrightarrow> m' a = m a"
  by (auto simp: rgw_store_def write_outside split: if_splits)

text \<open>The operation and width fields do not overlap.\<close>

lemma rgw_op_fields:
  assumes "type < 256" "width < 64" "shared < 2"
  shows "UVISOR_RGW_OP type width shared AND UVISOR_RGW_OP_TYPE_MASK = type"
    "drop_bit 8 (UVISOR_RGW_OP type width shared AND UVISOR_RGW_OP_WIDTH_MASK) = width"
proof -
  have fits: "bit type n \<Longrightarrow> n < 8" "bit width n \<Longrightarrow> n < 6" "bit shared n \<Longrightarrow> n = 0" for n
    using bit_below_bound [of type n 8] bit_below_bound [of width n 6] bit_below_bound [of shared n 1] assms by (auto simp: word_less_nat_alt)
  have masks: "UVISOR_RGW_OP_TYPE_MASK = mask 8" "UVISOR_RGW_OP_WIDTH_MASK = push_bit 8 (mask 6)" "UVISOR_RGW_OP_SHARED_MASK = push_bit 15 (mask 1)"
    by (simp_all add: rgw_consts mask_eq_exp_minus_1 push_bit_eq_mult)
  note simps = UVISOR_RGW_OP_def masks bit_simps
  show "UVISOR_RGW_OP type width shared AND UVISOR_RGW_OP_TYPE_MASK = type"
    by (rule bit_word_eqI) (auto simp: simps dest: fits)
  show "drop_bit 8 (UVISOR_RGW_OP type width shared AND UVISOR_RGW_OP_WIDTH_MASK) = width"
    by (rule bit_word_eqI) (auto simp: simps dest: fits)
qed

text \<open>
  C18: A register gateway is confined. When it completes, the structure lies in public flash and has the
  magic number; unless it is marked as shared, it belongs to the active box; its register is in
  the peripheral region or in the ROM table; the access width is 1, 2 or 4; and the only bytes that can have changed are
  those of the register, or the word on the caller's stack that the caller may write.
\<close>

theorem register_gateway_confined:
  assumes "register_gateway_perform_operation cfg acc active svc_sp svc_pc m = Inr m'"
  defines "rgw \<equiv> register_gateway_at m svc_pc"
  defines "width \<equiv> unat (drop_bit 8 (rgw_operation rgw AND UVISOR_RGW_OP_WIDTH_MASK))"
  shows "vmpu_public_flash_addr cfg svc_pc \<and> rgw_magic rgw = UVISOR_REGISTER_GATEWAY_MAGIC \<and>
    (rgw_operation rgw AND UVISOR_RGW_OP_SHARED_MASK \<noteq> 0 \<or>
      ucast (word_of_int (sint (rgw_box_ptr rgw - cfgtbl_ptr_start cfg) div 4) :: u32) = active) \<and>
    (VMPU_PERIPH_START \<le> rgw_address rgw \<and> rgw_address rgw \<le> VMPU_PERIPH_BITBAND_END \<or>
      VMPU_ROMTABLE_START \<le> rgw_address rgw \<and> rgw_address rgw \<le> 0xE00FFFFF) \<and> width \<in> {1, 2, 4} \<and>
    ((\<forall>a. \<not> in_bytes (rgw_address rgw) width a \<longrightarrow> m' a = m a) \<or>
     acc True svc_sp 4 \<and> (\<forall>a. \<not> in_bytes svc_sp 4 a \<longrightarrow> m' a = m a))"
proof -
  from assms(1) have check: "register_gateway_check cfg active m svc_pc = REGISTER_GATEWAY_STATUS_OK"
    by (auto simp: register_gateway_perform_operation_def split: if_splits)
  then have c: "vmpu_public_flash_addr cfg svc_pc" "rgw_magic rgw = UVISOR_REGISTER_GATEWAY_MAGIC"
    "rgw_operation rgw AND UVISOR_RGW_OP_SHARED_MASK \<noteq> 0 \<or>
      ucast (word_of_int (sint (rgw_box_ptr rgw - cfgtbl_ptr_start cfg) div 4) :: u32) = active"
    "rgw_address rgw AND VMPU_PERIPH_FULL_MASK = VMPU_PERIPH_START \<or> rgw_address rgw AND VMPU_ROMTABLE_MASK = VMPU_ROMTABLE_START"
    by (auto simp: register_gateway_check_def rgw_def [symmetric] Let_def split: if_splits)
  have masks: "VMPU_PERIPH_FULL_MASK = NOT (mask 26)" "VMPU_ROMTABLE_MASK = NOT (mask 12)"
    by (simp_all add: rgw_consts mask_eq_exp_minus_1)
  have range: "VMPU_PERIPH_START \<le> rgw_address rgw \<and> rgw_address rgw \<le> VMPU_PERIPH_BITBAND_END \<or>
      VMPU_ROMTABLE_START \<le> rgw_address rgw \<and> rgw_address rgw \<le> 0xE00FFFFF"
    using c(4) and_not_mask_range [of "rgw_address rgw" 26 VMPU_PERIPH_START]
      and_not_mask_range [of "rgw_address rgw" 12 VMPU_ROMTABLE_START]
    unfolding masks by (auto simp: word_le_nat_alt VMPU_PERIPH_START_def VMPU_PERIPH_BITBAND_END_def VMPU_ROMTABLE_START_def)
  let ?w = "drop_bit 8 (rgw_operation rgw AND UVISOR_RGW_OP_WIDTH_MASK)"
  obtain old where load: "rgw_load m (rgw_address rgw) ?w = Inr old"
    and m': "vmpu_unpriv_uint32_write acc m svc_sp old = Inr m' \<or> vmpu_unpriv_uint32_write acc m svc_sp (old AND rgw_mask rgw) = Inr m' \<or>
      (\<exists>new. rgw_store m (rgw_address rgw) ?w new = Inr m')"
    using assms(1) check
    by (auto simp: register_gateway_perform_operation_def rgw_def [symmetric] Let_def bind_res_Inr_iff split: if_splits)
  have "width \<in> {1, 2, 4}" using load by (auto simp: rgw_load_def width_def split: if_splits)
  moreover have "(\<forall>a. \<not> in_bytes (rgw_address rgw) width a \<longrightarrow> m' a = m a) \<or>
     acc True svc_sp 4 \<and> (\<forall>a. \<not> in_bytes svc_sp 4 a \<longrightarrow> m' a = m a)"
    using m' rgw_store_outside unfolding width_def
    by (auto simp: vmpu_unpriv_uint32_write_def write_outside split: if_splits)
  ultimately show ?thesis using c range by blast
qed

lemma write_result_bits:
  assumes "rgw_write_result op old rmask value = Inr new"
  shows "op \<noteq> 2 \<Longrightarrow> n < 32 \<Longrightarrow> \<not> bit rmask n \<Longrightarrow> bit new n = bit old n" "op = 6 \<Longrightarrow> n < 32 \<Longrightarrow> bit rmask n \<Longrightarrow> bit new n = bit value n"
  using assms by (auto simp: rgw_write_result_def bit_simps split: if_splits)

text \<open>
  What a register gateway writes. A 32 bit write gateway leaves in the register the value that its
  operation computes from the old content, the mask and the value on the caller's stack; except for the
  plain write, the bits outside of the mask keep their content, and the replacing write gives the bits inside
  the mask the value.
\<close>

theorem register_gateway_write32:
  assumes "register_gateway_perform_operation cfg acc active svc_sp svc_pc m = Inr m'"
    "rgw_operation (register_gateway_at m svc_pc) = UVISOR_RGW_OP op 4 shared" "2 \<le> op" "op < 256" "shared < 2"
  defines "rgw \<equiv> register_gateway_at m svc_pc"
  defines "old \<equiv> read32 m (rgw_address rgw)" and "new \<equiv> read32 m' (rgw_address rgw)" and "value \<equiv> read32 m svc_sp"
  shows "op \<in> {2, 3, 4, 5, 6} \<and> rgw_write_result op old (rgw_mask rgw) value = Inr new \<and> acc False svc_sp 4 \<and>
    (op \<noteq> 2 \<longrightarrow> new AND NOT (rgw_mask rgw) = old AND NOT (rgw_mask rgw)) \<and>
    (op = 6 \<longrightarrow> new AND rgw_mask rgw = value AND rgw_mask rgw)"
proof -
  have ops: "rgw_operation rgw AND UVISOR_RGW_OP_TYPE_MASK = op" "drop_bit 8 (rgw_operation rgw AND UVISOR_RGW_OP_WIDTH_MASK) = 4"
    using rgw_op_fields [of op 4 shared] assms(4,5) by (simp_all add: rgw_def assms(2))
  have ne: "op \<noteq> 0" "op \<noteq> 1" using assms(3) by (auto simp: word_le_nat_alt)
  then obtain res where res: "rgw_write_result op old (rgw_mask rgw) value = Inr res" "m' = write32 m (rgw_address rgw) res" "acc False svc_sp 4"
    using assms(1) ops
    by (auto simp: register_gateway_perform_operation_def rgw_def [symmetric] Let_def bind_res_Inr_iff rgw_load_def rgw_store_def
        old_def value_def vmpu_unpriv_uint32_read_def split: if_splits)
  have new: "new = res" by (simp add: new_def res(2) read32_write32)
  have "op \<in> {2, 3, 4, 5, 6}" using res(1) by (auto simp: rgw_write_result_def split: if_splits)
  moreover have "new AND NOT (rgw_mask rgw) = old AND NOT (rgw_mask rgw)" if "op \<noteq> 2"
    using write_result_bits(1) [OF res(1) that] new by (intro bit_word_eqI) (auto simp: bit_and_iff bit_not_iff)
  moreover have "new AND rgw_mask rgw = value AND rgw_mask rgw" if "op = 6"
    using write_result_bits(2) [OF res(1) that] new by (intro bit_word_eqI) (auto simp: bit_and_iff)
  ultimately show ?thesis using res new by blast
qed

section \<open>Example\<close>

text \<open>A gateway of box 1 that replaces the low byte of a register.\<close>

definition example_gateway :: mem where
  "example_gateway = write32 (write32 (write16 (write32 (write32 (write32 (write32 (\<lambda>_. 0) 0x1004 UVISOR_REGISTER_GATEWAY_MAGIC) 0x1008 0x20104)
     0x100C 0x40001000) 0x1010 0xFF) 0x1014 0x0406) 0x40001000 0x12345678) 0x20003000 0xAB"

lemma example_gateway_runs:
  "\<exists>m'. register_gateway_perform_operation example_config (\<lambda>_ _ _. True) 1 0x20003000 0x1000 example_gateway = Inr m'"
  "rgw_operation (register_gateway_at example_gateway 0x1000) = UVISOR_RGW_OP 6 4 0"
  "rgw_address (register_gateway_at example_gateway 0x1000) = 0x40001000" "rgw_mask (register_gateway_at example_gateway 0x1000) = 0xFF"
  "read32 example_gateway 0x20003000 = 0xAB" "read32 example_gateway 0x40001000 = 0x12345678"
proof -
  have r: "rgw_operation (register_gateway_at example_gateway 0x1000) = 0x0406" "rgw_magic (register_gateway_at example_gateway 0x1000) = UVISOR_REGISTER_GATEWAY_MAGIC"
    "rgw_box_ptr (register_gateway_at example_gateway 0x1000) = 0x20104" "rgw_address (register_gateway_at example_gateway 0x1000) = 0x40001000"
    "rgw_mask (register_gateway_at example_gateway 0x1000) = 0xFF"
    by (simp_all add: register_gateway_at_def example_gateway_def read32_def write32_def read16_def write16_def UVISOR_REGISTER_GATEWAY_MAGIC_def)
  then show "rgw_operation (register_gateway_at example_gateway 0x1000) = UVISOR_RGW_OP 6 4 0"
    "rgw_address (register_gateway_at example_gateway 0x1000) = 0x40001000" "rgw_mask (register_gateway_at example_gateway 0x1000) = 0xFF"
    by (simp_all add: UVISOR_RGW_OP_def rgw_consts)
  show "read32 example_gateway 0x20003000 = 0xAB" "read32 example_gateway 0x40001000 = 0x12345678"
    by (simp_all add: example_gateway_def read32_def write32_def write16_def)
  show "\<exists>m'. register_gateway_perform_operation example_config (\<lambda>_ _ _. True) 1 0x20003000 0x1000 example_gateway = Inr m'"
    by (simp add: register_gateway_perform_operation_def register_gateway_check_def r Let_def rgw_load_def rgw_store_def rgw_write_result_def
        vmpu_unpriv_uint32_read_def vmpu_public_flash_addr_def example_config_def rgw_consts VMPU_PERIPH_START_def)
qed

theorem register_gateway_confined_witness:
  "\<exists>m'. register_gateway_perform_operation example_config (\<lambda>_ _ _. True) 1 0x20003000 0x1000 example_gateway = Inr m' \<and>
    (m' 0x40001004 = example_gateway 0x40001004 \<or> m' 0x20003004 = example_gateway 0x20003004)"
proof -
  obtain m' where run: "register_gateway_perform_operation example_config (\<lambda>_ _ _. True) 1 0x20003000 0x1000 example_gateway = Inr m'"
    using example_gateway_runs(1) by blast
  have "\<not> in_bytes 0x40001000 (unat (drop_bit 8 (rgw_operation (register_gateway_at example_gateway 0x1000) AND UVISOR_RGW_OP_WIDTH_MASK))) 0x40001004"
    "\<not> in_bytes 0x20003000 4 0x20003004"
    by (simp_all add: in_bytes_def example_gateway_runs(2) UVISOR_RGW_OP_def rgw_consts)
  then show ?thesis
    using run register_gateway_confined [OF run] by (auto simp: example_gateway_runs(3))
qed

theorem register_gateway_write32_witness:
  "\<exists>m'. register_gateway_perform_operation example_config (\<lambda>_ _ _. True) 1 0x20003000 0x1000 example_gateway = Inr m' \<and>
    read32 m' 0x40001000 = 0x123456AB"
proof -
  obtain m' where run: "register_gateway_perform_operation example_config (\<lambda>_ _ _. True) 1 0x20003000 0x1000 example_gateway = Inr m'"
    using example_gateway_runs(1) by blast
  show ?thesis
    using run register_gateway_write32 [OF run example_gateway_runs(2)]
    by (auto simp: example_gateway_runs(3-6) rgw_write_result_def)
qed

end
