(* ===== verification/Mpu_Armv7m.thy ===== *)
theory Mpu_Armv7m
  imports Vmpu_Base
begin

text \<open>
  The ARMv7-M MPU driver, \<^verbatim>\<open>core/vmpu/src/mpu_armv7m/vmpu_armv7m_mpu.c\<close>: region sizes and alignment,
  the translation of an access control list into an MPU region, the table of the regions of every
  box, and the eight hardware regions with their round robin replacement. The registers of the MPU
  are part of the state; a write to \<open>RBAR\<close> with the \<open>VALID\<close> bit selects the region it names, as the
  architecture defines it.
\<close>

unbundle bit_operations_syntax

section \<open>Constants and state\<close>

definition MPU_ACL_COUNT :: nat where "MPU_ACL_COUNT = 64"
definition ARMv7M_MPU_ALIGNMENT_BITS :: nat where "ARMv7M_MPU_ALIGNMENT_BITS = 5"
definition ARMv7M_MPU_REGIONS :: nat where "ARMv7M_MPU_REGIONS = 8"
definition ARMv7M_MPU_REGIONS_STATIC :: u8 where "ARMv7M_MPU_REGIONS_STATIC = 2"
definition ARMv7M_MPU_REGIONS_MAX :: u8 where "ARMv7M_MPU_REGIONS_MAX = of_nat ARMv7M_MPU_REGIONS"

definition MPU_RASR_AP_PNO_UNO :: u32 where "MPU_RASR_AP_PNO_UNO = push_bit 24 0"
definition MPU_RASR_AP_PRW_UNO :: u32 where "MPU_RASR_AP_PRW_UNO = push_bit 24 1"
definition MPU_RASR_AP_PRW_URO :: u32 where "MPU_RASR_AP_PRW_URO = push_bit 24 2"
definition MPU_RASR_AP_PRW_URW :: u32 where "MPU_RASR_AP_PRW_URW = push_bit 24 3"
definition MPU_RASR_AP_PRO_UNO :: u32 where "MPU_RASR_AP_PRO_UNO = push_bit 24 5"
definition MPU_RASR_AP_PRO_URO :: u32 where "MPU_RASR_AP_PRO_URO = push_bit 24 6"
definition MPU_RASR_XN :: u32 where "MPU_RASR_XN = push_bit 28 1"
definition MPU_RASR_SRD_Msk :: u32 where "MPU_RASR_SRD_Msk = 0xFF00"
definition MPU_RASR_ENABLE_Msk :: u32 where "MPU_RASR_ENABLE_Msk = 1"
definition MPU_RBAR_ADDR_Msk :: u32 where "MPU_RBAR_ADDR_Msk = 0xFFFFFFE0"
definition MPU_RBAR_VALID_Msk :: u32 where "MPU_RBAR_VALID_Msk = 0x10"
definition MPU_RBAR_REGION_Msk :: u32 where "MPU_RBAR_REGION_Msk = 0xF"

lemmas mpu_consts = MPU_ACL_COUNT_def ARMv7M_MPU_ALIGNMENT_BITS_def ARMv7M_MPU_REGIONS_def
  ARMv7M_MPU_REGIONS_STATIC_def ARMv7M_MPU_REGIONS_MAX_def

lemmas rasr_consts = MPU_RASR_AP_PNO_UNO_def MPU_RASR_AP_PRW_UNO_def MPU_RASR_AP_PRW_URO_def
  MPU_RASR_AP_PRW_URW_def MPU_RASR_AP_PRO_UNO_def MPU_RASR_AP_PRO_URO_def MPU_RASR_XN_def
  MPU_RASR_SRD_Msk_def MPU_RASR_ENABLE_Msk_def

text \<open>The regions of one box: a pointer into \<open>g_mpu_region\<close> (an index, or none) and their number.\<close>

record MpuRegionSlice =
  slice_regions :: "nat option"
  slice_count :: u32

record mpu_state =
  g_mpu_region_count :: u16
  g_mpu_region :: "MpuRegion list"
  g_mpu_box_region :: "MpuRegionSlice list"
  g_mpu_slot :: u8
  g_mpu_priority :: "u8 list"
  MPU_TYPE :: u32
  MPU_CTRL :: u32
  MPU_RNR :: u32
  mpu_rbar :: "u32 list"
  mpu_rasr :: "u32 list"
  mpu_addr_bits :: u32
  SCB_SHCSR :: u32

text \<open>
  Register accesses. \<open>mpu_addr_bits\<close> are the address bits of \<open>RBAR\<close> that the implementation has.
\<close>

definition write_RBAR :: "mpu_state \<Rightarrow> u32 \<Rightarrow> mpu_state res" where
  "write_RBAR st v =
     (let st = (if v AND MPU_RBAR_VALID_Msk \<noteq> 0 then st\<lparr>MPU_RNR := v AND MPU_RBAR_REGION_Msk\<rparr> else st) in
      bind_res (arr_set (mpu_rbar st) (unat (MPU_RNR st)) (v AND mpu_addr_bits st)) (\<lambda>rbar.
      Inr (st\<lparr>mpu_rbar := rbar\<rparr>)))"

definition write_RASR :: "mpu_state \<Rightarrow> u32 \<Rightarrow> mpu_state res" where
  "write_RASR st v =
     bind_res (arr_set (mpu_rasr st) (unat (MPU_RNR st)) v) (\<lambda>rasr. Inr (st\<lparr>mpu_rasr := rasr\<rparr>))"

definition MPU_RBAR :: "u8 \<Rightarrow> u32 \<Rightarrow> u32" where
  "MPU_RBAR region addr = (ucast region OR MPU_RBAR_VALID_Msk) OR addr"

section \<open>Region sizes\<close>

definition vmpu_is_region_size_valid :: "u32 \<Rightarrow> bool" where
  "vmpu_is_region_size_valid sz =
     (let bits = int (vmpu_bits sz) - 1 in
      if bits < int ARMv7M_MPU_ALIGNMENT_BITS \<or> 29 < bits then False
      else push_bit (nat bits) 1 = sz)"

definition vmpu_round_up_region :: "u32 \<Rightarrow> u32 \<Rightarrow> u32" where
  "vmpu_round_up_region addr sz =
     (if \<not> vmpu_is_region_size_valid sz then 0
      else
        let mask = sz - 1; rounded_addr = addr + mask in
        if rounded_addr < addr then 0 else rounded_addr AND NOT mask)"

definition vmpu_region_bits :: "u32 \<Rightarrow> u8" where
  "vmpu_region_bits sz =
     (let bits = of_int (int (vmpu_bits sz) - 1) :: u8;
          bits = (if push_bit (unat bits) 1 \<noteq> sz then bits + 1 else bits)
      in if bits < of_nat ARMv7M_MPU_ALIGNMENT_BITS then of_nat ARMv7M_MPU_ALIGNMENT_BITS else bits)"

section \<open>From access control lists to regions\<close>

text \<open>The rights a mapping stands for and the attribute bits, before the execute flags.\<close>

definition map_acl_rights :: "u32 \<Rightarrow> u32 \<times> u32" where
  "map_acl_rights acl =
     (if has_flag acl UVISOR_TACL_UWRITE then
        (UVISOR_TACL_UREAD OR UVISOR_TACL_UWRITE OR UVISOR_TACL_SREAD OR UVISOR_TACL_SWRITE,
         MPU_RASR_AP_PRW_URW)
      else if has_flag acl UVISOR_TACL_UREAD then
        (if has_flag acl UVISOR_TACL_SWRITE then
           (UVISOR_TACL_UREAD OR UVISOR_TACL_SREAD OR UVISOR_TACL_SWRITE, MPU_RASR_AP_PRW_URO)
         else (UVISOR_TACL_UREAD OR UVISOR_TACL_SREAD, MPU_RASR_AP_PRO_URO))
      else if has_flag acl UVISOR_TACL_SWRITE then
        (UVISOR_TACL_SREAD OR UVISOR_TACL_SWRITE, MPU_RASR_AP_PRW_UNO)
      else if has_flag acl UVISOR_TACL_SREAD then (UVISOR_TACL_SREAD, MPU_RASR_AP_PRO_UNO)
      else (0, MPU_RASR_AP_PNO_UNO))"

definition vmpu_map_acl :: "u32 \<Rightarrow> u32 res" where
  "vmpu_map_acl acl =
     (case map_acl_rights acl of (acl_res, flags) \<Rightarrow>
      let (acl_res, flags) =
        (if has_flag acl (UVISOR_TACL_UEXECUTE OR UVISOR_TACL_SEXECUTE)
         then (acl_res OR UVISOR_TACL_UEXECUTE OR UVISOR_TACL_SEXECUTE, flags)
         else (acl_res, flags OR MPU_RASR_XN))
      in if acl_res \<noteq> acl AND UVISOR_TACL_ACCESS then Inl (Halt SANITY_CHECK_FAILED)
         else Inr flags)"

text \<open>\<open>vmpu_region_translate_acl\<close> returns the region it fills in and the rounded size.\<close>

definition vmpu_region_translate_acl ::
  "u32 \<Rightarrow> u32 \<Rightarrow> u32 \<Rightarrow> u32 \<Rightarrow> (MpuRegion \<times> u32) res" where
  "vmpu_region_translate_acl start sz acl acl_hw_spec =
     (let bits = unat (vmpu_region_bits sz); size_rounded = push_bit bits 1 :: u32 in
      bind_res
        (if size_rounded \<noteq> sz then
           if acl AND (UVISOR_TACL_SIZE_ROUND_UP OR UVISOR_TACL_SIZE_ROUND_DOWN) = 0 then
             Inl (Halt SANITY_CHECK_FAILED)
           else if has_flag acl UVISOR_TACL_SIZE_ROUND_DOWN then
             (let bits = bits - 1 in
              if bits < ARMv7M_MPU_ALIGNMENT_BITS then Inl (Halt SANITY_CHECK_FAILED)
              else Inr (bits, push_bit bits 1 :: u32))
           else Inr (bits, size_rounded)
         else Inr (bits, size_rounded))
        (\<lambda>(bits, size_rounded).
          let mask = size_rounded - 1 in
          if start AND mask \<noteq> 0 then Inl (Halt SANITY_CHECK_FAILED)
          else
            bind_res (vmpu_map_acl acl) (\<lambda>config.
            let subregions = push_bit 8 acl_hw_spec AND MPU_RASR_SRD_Msk in
            Inr (\<lparr>region_start = start, region_end = start + size_rounded,
                  region_config = config OR MPU_RASR_ENABLE_Msk OR push_bit 1 (of_nat bits - 1) OR subregions,
                  region_acl = acl\<rparr>, size_rounded))))"

section \<open>The regions of the boxes\<close>

definition vmpu_region_add_static_acl ::
  "bool \<Rightarrow> u8 \<Rightarrow> mpu_state \<Rightarrow> u8 \<Rightarrow> u32 \<Rightarrow> u32 \<Rightarrow> u32 \<Rightarrow> u32 \<Rightarrow> (u32 \<times> mpu_state) res" where
  "vmpu_region_add_static_acl counted box_count st box_id start sz acl acl_hw_spec =
     (if unat (g_mpu_region_count st) \<ge> MPU_ACL_COUNT then Inl (Halt SANITY_CHECK_FAILED)
      else if \<not> vmpu_is_box_id_valid counted box_count box_id then Inl (Halt SANITY_CHECK_FAILED)
      else
        bind_res (arr_get (g_mpu_box_region st) (unat box_id)) (\<lambda>box.
        let regions = (case slice_regions box of None \<Rightarrow> unat (g_mpu_region_count st) | Some i \<Rightarrow> i);
            i = regions + unat (slice_count box) in
        bind_res (arr_get (g_mpu_region st) i) (\<lambda>region.
        if region_config region \<noteq> 0 then Inl (Halt SANITY_CHECK_FAILED)
        else
          bind_res (vmpu_region_translate_acl start sz acl acl_hw_spec) (\<lambda>(region, rounded_size).
          bind_res (arr_set (g_mpu_region st) i region) (\<lambda>regs.
          Inr (rounded_size,
            st\<lparr>g_mpu_region := regs,
               g_mpu_box_region := (g_mpu_box_region st)[unat box_id :=
                 \<lparr>slice_regions = Some regions, slice_count = slice_count box + 1\<rparr>],
               g_mpu_region_count := g_mpu_region_count st + 1\<rparr>))))))"

text \<open>The result is the returned flag, the pointer to the first region and the count.\<close>

definition vmpu_region_get_for_box ::
  "mpu_state \<Rightarrow> u8 \<Rightarrow> (bool \<times> nat option \<times> u32) res" where
  "vmpu_region_get_for_box st box_id =
     (if g_mpu_region_count st = 0 then Inl (Halt SANITY_CHECK_FAILED)
      else if unat box_id < UVISOR_MAX_BOXES then
        bind_res (arr_get (g_mpu_box_region st) (unat box_id)) (\<lambda>box.
        Inr (True, if slice_count box \<noteq> 0 then slice_regions box else None, slice_count box))
      else Inr (False, None, 0))"

text \<open>The scan over \<open>count\<close> regions from index \<open>i\<close>; a null pointer is only scanned for 0 regions.\<close>

fun find_region_loop :: "MpuRegion list \<Rightarrow> u32 \<Rightarrow> nat \<Rightarrow> nat \<Rightarrow> nat option res" where
  "find_region_loop regions address i 0 = Inr None"
| "find_region_loop regions address i (Suc count) =
     bind_res (arr_get regions i) (\<lambda>region.
     if region_contains region address then Inr (Some i)
     else find_region_loop regions address (Suc i) count)"

definition vmpu_region_find_for_address :: "mpu_state \<Rightarrow> u8 \<Rightarrow> u32 \<Rightarrow> nat option res" where
  "vmpu_region_find_for_address st box_id address =
     bind_res (arr_get (g_mpu_box_region st) (unat box_id)) (\<lambda>box.
     case slice_regions box of
       None \<Rightarrow> if slice_count box = 0 then Inr None else Inl Oob
     | Some i \<Rightarrow> find_region_loop (g_mpu_region st) address i (unat (slice_count box)))"

section \<open>MPU access\<close>

definition vmpu_mpu_init :: "mpu_state \<Rightarrow> mpu_state res" where
  "vmpu_mpu_init st =
     (let st = st\<lparr>MPU_CTRL := 0, MPU_RNR := 0\<rparr> in
      bind_res (write_RBAR st MPU_RBAR_ADDR_Msk) (\<lambda>st.
      bind_res (arr_get (mpu_rbar st) (unat (MPU_RNR st))) (\<lambda>rbar.
      let alignment_mask = NOT rbar in
      bind_res (write_RBAR st 0) (\<lambda>st.
      let st = st\<lparr>SCB_SHCSR := SCB_SHCSR st OR 0x70000\<rparr> in
      if of_nat ARMv7M_MPU_REGIONS \<noteq> drop_bit 8 (MPU_TYPE st) AND 0xFF then
        Inl (Halt SANITY_CHECK_FAILED)
      else if ARMv7M_MPU_ALIGNMENT_BITS \<noteq> vmpu_bits alignment_mask then
        Inl (Halt SANITY_CHECK_FAILED)
      else Inr st))))"

definition vmpu_mpu_lock :: "mpu_state \<Rightarrow> mpu_state" where
  "vmpu_mpu_lock st = st\<lparr>MPU_CTRL := 1 OR push_bit 2 1\<rparr>"

text \<open>Write a region into the hardware slot and remember its priority.\<close>

definition place_region :: "mpu_state \<Rightarrow> u8 \<Rightarrow> MpuRegion \<Rightarrow> u8 \<Rightarrow> mpu_state res" where
  "place_region st slot region priority =
     bind_res (write_RBAR st (MPU_RBAR slot (region_start region))) (\<lambda>st.
     bind_res (write_RASR st (region_config region)) (\<lambda>st.
     bind_res (arr_set (g_mpu_priority st) (unat slot) priority) (\<lambda>prio.
     Inr (st\<lparr>g_mpu_priority := prio\<rparr>))))"

definition vmpu_mpu_set_static_acl ::
  "mpu_state \<Rightarrow> u8 \<Rightarrow> u32 \<Rightarrow> u32 \<Rightarrow> u32 \<Rightarrow> u32 \<Rightarrow> (u32 \<times> mpu_state) res" where
  "vmpu_mpu_set_static_acl st index start sz acl acl_hw_spec =
     (if index \<ge> ARMv7M_MPU_REGIONS_STATIC then Inl (Halt SANITY_CHECK_FAILED)
      else
        bind_res (vmpu_region_translate_acl start sz acl acl_hw_spec) (\<lambda>(region, rounded_size).
        bind_res (place_region st index region 255) (\<lambda>st. Inr (rounded_size, st))))"

fun invalidate_loop :: "mpu_state \<Rightarrow> u8 \<Rightarrow> nat \<Rightarrow> mpu_state res" where
  "invalidate_loop st slot 0 = (if slot < ARMv7M_MPU_REGIONS_MAX then Inl Diverge else Inr st)"
| "invalidate_loop st slot (Suc n) =
     (if slot < ARMv7M_MPU_REGIONS_MAX then
        bind_res (write_RASR (st\<lparr>MPU_RNR := ucast slot\<rparr>) 0) (\<lambda>st.
        bind_res (write_RBAR st 0) (\<lambda>st.
        bind_res (arr_set (g_mpu_priority st) (unat slot) 0) (\<lambda>prio.
        invalidate_loop (st\<lparr>g_mpu_priority := prio\<rparr>) (slot + 1) n)))
      else Inr st)"

definition vmpu_mpu_invalidate :: "mpu_state \<Rightarrow> mpu_state res" where
  "vmpu_mpu_invalidate st =
     invalidate_loop (st\<lparr>g_mpu_slot := ARMv7M_MPU_REGIONS_STATIC\<rparr>) ARMv7M_MPU_REGIONS_STATIC
       ARMv7M_MPU_REGIONS"

text \<open>
  The search of \<open>vmpu_mpu_push\<close>: it returns whether the region was placed, and the viable slot
  otherwise. It ends after at most one round over the hardware regions.
\<close>

fun push_loop :: "nat \<Rightarrow> mpu_state \<Rightarrow> MpuRegion \<Rightarrow> u8 \<Rightarrow> u8 \<Rightarrow> (bool \<times> u8 \<times> mpu_state) res" where
  "push_loop 0 st region priority start_slot = Inl Diverge"
| "push_loop (Suc fuel) st region priority start_slot =
     (let st = st\<lparr>g_mpu_slot := g_mpu_slot st + 1\<rparr>;
          st = (if g_mpu_slot st \<ge> ARMv7M_MPU_REGIONS_MAX
                then st\<lparr>g_mpu_slot := ARMv7M_MPU_REGIONS_STATIC\<rparr> else st) in
      bind_res (arr_get (g_mpu_priority st) (unat (g_mpu_slot st))) (\<lambda>prio.
      if prio < priority then
        bind_res (place_region st (g_mpu_slot st) region priority) (\<lambda>st.
        Inr (True, g_mpu_slot st, st))
      else
        let viable_slot = g_mpu_slot st in
        if g_mpu_slot st \<noteq> start_slot then push_loop fuel st region priority start_slot
        else Inr (False, viable_slot, st)))"

definition vmpu_mpu_push :: "mpu_state \<Rightarrow> MpuRegion \<Rightarrow> u8 \<Rightarrow> (bool \<times> mpu_state) res" where
  "vmpu_mpu_push st region priority =
     (let priority = (if priority = 0 then 1 else priority); start_slot = g_mpu_slot st in
      bind_res (push_loop (Suc ARMv7M_MPU_REGIONS) st region priority start_slot)
        (\<lambda>(placed, viable_slot, st).
          if placed then Inr (True, st)
          else
            bind_res (place_region st viable_slot region priority) (\<lambda>st. Inr (True, st))))"

section \<open>Sizes and alignment are correct\<close>

lemma region_size_valid_iff: "vmpu_is_region_size_valid sz \<longleftrightarrow> (\<exists>k. 5 \<le> k \<and> k \<le> 29 \<and> unat sz = 2 ^ k)"
proof
  assume v: "vmpu_is_region_size_valid sz"
  define k where "k = vmpu_bits sz - 1"
  from v have k: "5 \<le> k" "k \<le> 29" "push_bit k 1 = sz"
    by (auto simp: vmpu_is_region_size_valid_def mpu_consts Let_def k_def nat_diff_distrib split: if_splits)
  then have "unat sz = 2 ^ k" by auto
  then show "\<exists>k. 5 \<le> k \<and> k \<le> 29 \<and> unat sz = 2 ^ k" using k by blast
next
  assume "\<exists>k. 5 \<le> k \<and> k \<le> 29 \<and> unat sz = 2 ^ k"
  then obtain k where k: "5 \<le> k" "k \<le> 29" "unat sz = 2 ^ k" by blast
  then have "vmpu_bits sz = Suc k" by (simp add: vmpu_bits_nat_bits nat_bits_power)
  moreover have "push_bit k 1 = sz"
    using k by (simp add: word_unat_eq_iff)
  ultimately show "vmpu_is_region_size_valid sz"
    using k by (simp add: vmpu_is_region_size_valid_def mpu_consts)
qed

lemma region_size_validE:
  assumes "vmpu_is_region_size_valid sz"
  obtains k where "5 \<le> k" "k \<le> 29" "unat sz = 2 ^ k"
  using assms region_size_valid_iff by auto

lemma round_up_nat:
  fixes a k :: nat
  shows "a \<le> (a + (2 ^ k - 1)) div 2 ^ k * 2 ^ k" "(a + (2 ^ k - 1)) div 2 ^ k * 2 ^ k < a + 2 ^ k"
proof -
  define n where "n = a + (2 ^ k - 1)"
  have "n div 2 ^ k * 2 ^ k + n mod 2 ^ k = n" "n mod 2 ^ k < 2 ^ k"
    by (simp_all only: div_mult_mod_eq) simp
  then show "a \<le> (a + (2 ^ k - 1)) div 2 ^ k * 2 ^ k" "(a + (2 ^ k - 1)) div 2 ^ k * 2 ^ k < a + 2 ^ k"
    unfolding n_def by linarith+
qed

lemma round_up_region_nat:
  assumes "unat sz = 2 ^ k" "5 \<le> k" "k \<le> 29"
  shows "unat (vmpu_round_up_region addr sz) =
    (if unat addr + 2 ^ k \<le> 2 ^ 32 then (unat addr + (2 ^ k - 1)) div 2 ^ k * 2 ^ k else 0)"
proof -
  have valid: "vmpu_is_region_size_valid sz" using assms region_size_valid_iff by blast
  have "(2 :: nat) ^ k \<le> 2 ^ 29" using assms(3) by (intro power_increasing) auto
  then have lt: "(2 :: nat) ^ k < 2 ^ 32" by simp
  have sz: "sz = 2 ^ k" using assms word_eq_power_2 [of k sz] by simp
  have um: "unat (sz - 1) = 2 ^ k - 1"
    using assms unat_minus_one [of sz] by (cases "sz = 0") auto
  have mask: "sz - 1 = mask k" by (simp add: sz mask_eq_exp_minus_1)
  show ?thesis
  proof (cases "unat addr + 2 ^ k \<le> 2 ^ 32")
    case True
    then have s: "unat (addr + (sz - 1)) = unat addr + (2 ^ k - 1)"
      using um by (subst unat_plus_if') auto
    then have "\<not> addr + (sz - 1) < addr" unfolding word_less_nat_alt by linarith
    then show ?thesis
      using True valid s by (simp add: vmpu_round_up_region_def Let_def mask unat_and_not_mask)
  next
    case False
    then have "unat (addr + (sz - 1)) = unat addr + (2 ^ k - 1) - 2 ^ 32"
      using um by (subst unat_plus_if') auto
    also have "\<dots> < unat addr" using lt False by linarith
    finally have "addr + (sz - 1) < addr" by (simp add: word_less_nat_alt)
    then show ?thesis using False valid by (simp add: vmpu_round_up_region_def Let_def)
  qed
qed

interpretation v7m: region_geometry vmpu_is_region_size_valid vmpu_round_up_region
proof
  fix sz :: u32 assume "vmpu_is_region_size_valid sz"
  then obtain k where k: "5 \<le> k" "k \<le> 29" "unat sz = 2 ^ k" using region_size_valid_iff by blast
  have "(2 :: nat) ^ 5 \<le> 2 ^ k" "(2 :: nat) ^ k \<le> 2 ^ 29" using k by (intro power_increasing; simp)+
  then show "32 \<le> unat sz \<and> unat sz \<le> 2 ^ 29" using k by simp
next
  fix sz addr :: u32 assume "\<not> vmpu_is_region_size_valid sz"
  then show "vmpu_round_up_region addr sz = 0" by (simp add: vmpu_round_up_region_def)
next
  fix sz addr :: u32 assume "vmpu_is_region_size_valid sz" "unat addr + unat sz \<le> 2 ^ 32"
  moreover from this obtain k where "5 \<le> k" "k \<le> 29" "unat sz = 2 ^ k" using region_size_valid_iff by blast
  ultimately show "unat addr \<le> unat (vmpu_round_up_region addr sz) \<and>
      unat (vmpu_round_up_region addr sz) < unat addr + unat sz"
    using round_up_region_nat [of sz k addr] round_up_nat [of "unat addr" k] by simp
next
  fix sz addr :: u32 assume nz: "vmpu_round_up_region addr sz \<noteq> 0"
  then have v: "vmpu_is_region_size_valid sz" using vmpu_round_up_region_def [of addr sz] by argo
  then obtain k where k: "5 \<le> k" "k \<le> 29" "unat sz = 2 ^ k" using region_size_valid_iff by blast
  have "unat (vmpu_round_up_region addr sz) \<noteq> 0" using nz by (simp add: unat_eq_zero)
  then show "unat addr \<le> unat (vmpu_round_up_region addr sz) \<and>
      unat (vmpu_round_up_region addr sz) < unat addr + unat sz"
    using k round_up_region_nat [of sz k addr] round_up_nat [of "unat addr" k] by (auto split: if_splits)
qed

text \<open>
  Region sizes and alignment on ARMv7-M. A size is valid exactly when it is a power of two from
  32 bytes to 512 MB. Rounding an address up gives the smallest multiple of the size at or above
  the address, and 0 exactly when the size is invalid, when the address is 0, or when the next
  multiple does not fit into 32 bits.
\<close>

theorem vmpu_round_up_region_correct:
  "(vmpu_is_region_size_valid sz \<longleftrightarrow> (\<exists>k. 5 \<le> k \<and> k \<le> 29 \<and> unat sz = 2 ^ k)) \<and>
   (if vmpu_is_region_size_valid sz \<and> unat addr + unat sz \<le> 2 ^ 32
    then unat sz dvd unat (vmpu_round_up_region addr sz) \<and>
      unat addr \<le> unat (vmpu_round_up_region addr sz) \<and>
      unat (vmpu_round_up_region addr sz) < unat addr + unat sz
    else vmpu_round_up_region addr sz = 0)"
proof -
  have "unat sz dvd unat (vmpu_round_up_region addr sz)"
    if v: "vmpu_is_region_size_valid sz"
  proof -
    obtain k where k: "5 \<le> k" "k \<le> 29" "unat sz = 2 ^ k" using region_size_validE [OF v] .
    show ?thesis unfolding k(3) round_up_region_nat [OF k(3,1,2)] by (simp split: if_split)
  qed
  moreover have "vmpu_round_up_region addr sz = 0"
    if v: "vmpu_is_region_size_valid sz" and big: "\<not> unat addr + unat sz \<le> 2 ^ 32"
  proof -
    obtain k where k: "5 \<le> k" "k \<le> 29" "unat sz = 2 ^ k" using region_size_validE [OF v] .
    then have "unat (vmpu_round_up_region addr sz) = 0" using big round_up_region_nat [of sz k addr] by simp
    then show ?thesis by (simp only: unat_eq_zero)
  qed
  ultimately show ?thesis
    using region_size_valid_iff [of sz] v7m.round_up_bounds [of sz addr] v7m.round_up_invalid [of sz addr]
    by argo
qed

lemma region_bits_eq:
  assumes "sz \<noteq> 0"
  shows "unat (vmpu_region_bits sz) = UVISOR_REGION_BITS sz"
proof -
  define n where "n = vmpu_bits sz"
  note b = vmpu_bits_bounds [OF assms, folded n_def]
  have u: "unat (of_int (int n - 1) :: u8) = n - 1"
  proof -
    have "(of_int (int n - 1) :: u8) = of_nat (n - 1)" using b(3) by (simp add: of_nat_diff)
    then show ?thesis using b(4) by simp
  qed
  have pw: "unat (push_bit (n - 1) 1 :: u32) = 2 ^ (n - 1)"
    using b(3,4) by simp
  have "unat (vmpu_region_bits sz) =
      (let m = if unat sz = 2 ^ (n - 1) then n - 1 else n in if m < 5 then 5 else m)"
  proof (cases "unat sz = 2 ^ (n - 1)")
    case True
    then have "push_bit (n - 1) 1 = sz" using pw by (simp only: word_unat_eq_iff)
    then show ?thesis
      using True u by (simp add: vmpu_region_bits_def mpu_consts Let_def n_def [symmetric] word_less_nat_alt)
  next
    case False
    then have "push_bit (n - 1) 1 \<noteq> sz" using pw by auto
    moreover have "unat (of_int (int n - 1) + 1 :: u8) = n"
      using u b(3,4) by (subst unat_plus_if') auto
    ultimately show ?thesis
      using False u by (simp add: vmpu_region_bits_def mpu_consts Let_def n_def [symmetric] word_less_nat_alt)
  qed
  moreover have "(let m = if unat sz = 2 ^ (n - 1) then n - 1 else n in if m < 5 then 5 else m) = UVISOR_REGION_BITS sz"
    (is "?m = _")
  proof (rule region_bits_unique)
    show "unat sz \<le> 2 ^ ?m"
    proof -
      have "(2 :: nat) ^ n \<le> 2 ^ 5" "(2 :: nat) ^ (n - 1) \<le> 2 ^ 5" if "n \<le> 5"
        using that by (intro power_increasing; simp)+
      then show ?thesis using b(2) by (auto simp: Let_def)
    qed
    show "?m = 5 \<or> 2 ^ (?m - 1) < unat sz"
    proof -
      have "(2 :: nat) ^ (n - 2) < 2 ^ (n - 1)" if "n \<ge> 2" using that by (intro power_strict_increasing) auto
      then show ?thesis using b(1,3) by (auto simp: Let_def numeral_2_eq_2)
    qed
  qed (use UVISOR_REGION_BITS_bounds [of sz] in \<open>auto simp: Let_def\<close>)
  ultimately show ?thesis by simp
qed

text \<open>
  \<open>vmpu_region_bits\<close>, which computes with \<open>__builtin_clz\<close> on 8 bit values, agrees with the
  compile-time macro \<open>UVISOR_REGION_BITS\<close> on every nonzero size (the \<open>assert\<close> in the source never
  fails), and both give the exponent of the smallest power of two that is at least 32 and covers
  the size.
\<close>

theorem vmpu_region_bits_correct:
  assumes "sz \<noteq> 0"
  shows "unat (vmpu_region_bits sz) = UVISOR_REGION_BITS sz \<and> unat sz \<le> 2 ^ UVISOR_REGION_BITS sz \<and>
    32 \<le> (2 :: nat) ^ UVISOR_REGION_BITS sz \<and>
    (\<forall>k. unat sz \<le> 2 ^ k \<longrightarrow> 5 \<le> k \<longrightarrow> UVISOR_REGION_BITS sz \<le> k)"
proof -
  let ?b = "UVISOR_REGION_BITS sz"
  note b = UVISOR_REGION_BITS_bounds [of sz]
  have "?b \<le> k" if "unat sz \<le> 2 ^ k" "5 \<le> k" for k
  proof (cases "?b = 5")
    case False
    then have "2 ^ (?b - 1) < (2 :: nat) ^ k" using b that(1) by linarith
    then have "?b - 1 < k" by simp
    then show ?thesis by simp
  qed (use that in simp)
  moreover have "(2 :: nat) ^ 5 \<le> 2 ^ ?b" using b by (intro power_increasing) auto
  ultimately show ?thesis using b region_bits_eq [OF assms] by simp
qed

theorem vmpu_region_bits_correct_witness:
  "unat (vmpu_region_bits 0x5000) = UVISOR_REGION_BITS 0x5000 \<and> UVISOR_REGION_BITS 0x5000 = 15"
  using vmpu_region_bits_correct [of "0x5000"] by (simp add: UVISOR_REGION_BITS_def)

section \<open>What the hardware makes of a region\<close>

text \<open>
  The architecture's reading of an \<open>RBAR\<close>/\<open>RASR\<close> pair: the region is \<open>2 ^ (SIZE + 1)\<close> bytes from the
  base, an eighth of it whose \<open>SRD\<close> bit is set does not match, \<open>AP\<close> gives the rights and \<open>XN\<close>
  forbids execution.
\<close>

definition rasr_size :: "u32 \<Rightarrow> nat" where
  "rasr_size rasr = 2 ^ (unat (take_bit 5 (drop_bit 1 rasr)) + 1)"

definition rasr_srd :: "u32 \<Rightarrow> u32" where
  "rasr_srd rasr = take_bit 8 (drop_bit 8 rasr)"

definition rasr_ap :: "u32 \<Rightarrow> u32" where
  "rasr_ap rasr = take_bit 3 (drop_bit 24 rasr)"

definition rasr_user_read :: "u32 \<Rightarrow> bool" where
  "rasr_user_read rasr \<longleftrightarrow> rasr_ap rasr = 2 \<or> rasr_ap rasr = 3 \<or> rasr_ap rasr = 6 \<or> rasr_ap rasr = 7"

definition rasr_user_write :: "u32 \<Rightarrow> bool" where
  "rasr_user_write rasr \<longleftrightarrow> rasr_ap rasr = 3"

definition rasr_execute :: "u32 \<Rightarrow> bool" where
  "rasr_execute rasr \<longleftrightarrow> \<not> bit rasr 28"

definition rasr_match :: "u32 \<Rightarrow> u32 \<Rightarrow> u32 \<Rightarrow> bool" where
  "rasr_match rbar rasr addr \<longleftrightarrow> bit rasr 0 \<and> unat rbar \<le> unat addr \<and>
     unat addr < unat rbar + rasr_size rasr \<and>
     \<not> bit (rasr_srd rasr) ((unat addr - unat rbar) div (rasr_size rasr div 8))"

lemmas rasr_defs = rasr_size_def rasr_srd_def rasr_ap_def

lemma rasr_fields:
  fixes c :: u32
  assumes c: "c = (push_bit 24 ap OR push_bit 28 xn) OR 1 OR push_bit 1 w OR (push_bit 8 hw AND push_bit 8 (mask 8))"
    and ap: "take_bit 3 ap = ap" and w: "take_bit 5 w = w" and xn: "xn = 0 \<or> xn = 1"
  shows "take_bit 5 (drop_bit 1 c) = w" "take_bit 8 (drop_bit 8 c) = take_bit 8 hw"
    "take_bit 3 (drop_bit 24 c) = ap" "bit c 0" "bit c 28 \<longleftrightarrow> xn = 1"
proof -
  have ap': "n < 3" if "bit ap n" for n using ap that by (metis bit_take_bit_iff)
  have w': "n < 5" if "bit w n" for n using w that by (metis bit_take_bit_iff)
  have xn': "bit xn n \<longleftrightarrow> n = 0 \<and> xn = 1" for n using xn by (auto simp: bit_1_iff)
  have bc: "bit c n \<longleftrightarrow> (24 \<le> n \<and> n < 32 \<and> bit ap (n - 24)) \<or> (28 \<le> n \<and> n < 32 \<and> bit xn (n - 28)) \<or> n = 0 \<or>
      (1 \<le> n \<and> n < 32 \<and> bit w (n - 1)) \<or> (8 \<le> n \<and> n < 16 \<and> bit hw (n - 8))" for n
    unfolding c bit_or_iff bit_and_iff bit_push_bit_iff bit_1_iff bit_mask_iff possible_bit_word by auto
  show "take_bit 5 (drop_bit 1 c) = w"
    by (rule bit_word_eqI) (use w' in \<open>fastforce simp: bc bit_take_bit_iff bit_drop_bit_eq\<close>)
  show "take_bit 8 (drop_bit 8 c) = take_bit 8 hw"
    by (rule bit_word_eqI) (use w' in \<open>fastforce simp: bc bit_take_bit_iff bit_drop_bit_eq\<close>)
  show "take_bit 3 (drop_bit 24 c) = ap"
    by (rule bit_word_eqI) (use ap' w' xn' in \<open>fastforce simp: bc bit_take_bit_iff bit_drop_bit_eq\<close>)
  show "bit c 0" by (simp add: bc)
  show "bit c 28 \<longleftrightarrow> xn = 1" using ap' w' xn' by (fastforce simp: bc)
qed

text \<open>A mapping that is accepted grants exactly the rights of the access control list.\<close>

lemma access_flags:
  "acl AND UVISOR_TACL_UREAD = (acl AND UVISOR_TACL_ACCESS) AND UVISOR_TACL_UREAD"
  "acl AND UVISOR_TACL_UWRITE = (acl AND UVISOR_TACL_ACCESS) AND UVISOR_TACL_UWRITE"
  "acl AND (UVISOR_TACL_UEXECUTE OR UVISOR_TACL_SEXECUTE) =
    (acl AND UVISOR_TACL_ACCESS) AND (UVISOR_TACL_UEXECUTE OR UVISOR_TACL_SEXECUTE)"
  by (simp_all add: and.assoc tacl_defs)

lemma map_acl_rights_ap:
  "\<exists>ap. snd (map_acl_rights acl) = push_bit 24 ap \<and> take_bit 3 ap = ap \<and> ap \<noteq> 7 \<and>
    (ap = 3 \<longleftrightarrow> fst (map_acl_rights acl) AND UVISOR_TACL_UWRITE \<noteq> 0) \<and>
    (ap = 2 \<or> ap = 3 \<or> ap = 6 \<longleftrightarrow> fst (map_acl_rights acl) AND UVISOR_TACL_UREAD \<noteq> 0) \<and>
    fst (map_acl_rights acl) AND (UVISOR_TACL_UEXECUTE OR UVISOR_TACL_SEXECUTE) = 0"
proof -
  have "map_acl_rights acl = (0x36, push_bit 24 3) \<or> map_acl_rights acl = (0x34, push_bit 24 2) \<or>
    map_acl_rights acl = (0x24, push_bit 24 6) \<or> map_acl_rights acl = (0x30, push_bit 24 1) \<or>
    map_acl_rights acl = (0x20, push_bit 24 5) \<or> map_acl_rights acl = (0, push_bit 24 0)"
    by (simp add: map_acl_rights_def rasr_consts tacl_defs)
  then consider "map_acl_rights acl = (0x36, push_bit 24 3)" | "map_acl_rights acl = (0x34, push_bit 24 2)" |
    "map_acl_rights acl = (0x24, push_bit 24 6)" | "map_acl_rights acl = (0x30, push_bit 24 1)" |
    "map_acl_rights acl = (0x20, push_bit 24 5)" | "map_acl_rights acl = (0, push_bit 24 0)"
    by metis
  then show ?thesis
  proof cases
    case 1 show ?thesis unfolding 1 by (rule exI [of _ 3]) (simp add: tacl_defs)
  next
    case 2 show ?thesis unfolding 2 by (rule exI [of _ 2]) (simp add: tacl_defs)
  next
    case 3 show ?thesis unfolding 3 by (rule exI [of _ 6]) (simp add: tacl_defs)
  next
    case 4 show ?thesis unfolding 4 by (rule exI [of _ 1]) (simp add: tacl_defs)
  next
    case 5 show ?thesis unfolding 5 by (rule exI [of _ 5]) (simp add: tacl_defs)
  next
    case 6 show ?thesis unfolding 6 by (rule exI [of _ 0]) (simp add: tacl_defs)
  qed
qed

lemma vmpu_map_acl_flags:
  assumes "vmpu_map_acl acl = Inr flags"
  shows "\<exists>ap xn. flags = push_bit 24 ap OR push_bit 28 xn \<and> take_bit 3 ap = ap \<and> (xn = 0 \<or> xn = 1) \<and>
    ap \<noteq> 7 \<and> (ap = 3 \<longleftrightarrow> has_flag acl UVISOR_TACL_UWRITE) \<and>
    (ap = 2 \<or> ap = 3 \<or> ap = 6 \<longleftrightarrow> has_flag acl UVISOR_TACL_UREAD) \<and>
    (xn = 1 \<longleftrightarrow> \<not> has_flag acl (UVISOR_TACL_UEXECUTE OR UVISOR_TACL_SEXECUTE))"
proof -
  obtain res ap where r: "map_acl_rights acl = (res, push_bit 24 ap)" "take_bit 3 ap = ap" "ap \<noteq> 7"
    "ap = 3 \<longleftrightarrow> res AND UVISOR_TACL_UWRITE \<noteq> 0"
    "ap = 2 \<or> ap = 3 \<or> ap = 6 \<longleftrightarrow> res AND UVISOR_TACL_UREAD \<noteq> 0"
    using map_acl_rights_ap [of acl] by (metis prod.collapse)
  let ?x = "has_flag acl (UVISOR_TACL_UEXECUTE OR UVISOR_TACL_SEXECUTE)"
  define xn :: u32 where "xn = (if ?x then 0 else 1)"
  define full where "full = (if ?x then res OR UVISOR_TACL_UEXECUTE OR UVISOR_TACL_SEXECUTE else res)"
  have run: "full = acl AND UVISOR_TACL_ACCESS" "flags = push_bit 24 ap OR push_bit 28 xn"
    using assms r(1)
    by (simp_all add: vmpu_map_acl_def xn_def full_def MPU_RASR_XN_def split: if_splits)
  have "full AND UVISOR_TACL_UWRITE = res AND UVISOR_TACL_UWRITE"
    "full AND UVISOR_TACL_UREAD = res AND UVISOR_TACL_UREAD"
    by (simp_all add: full_def tacl_flags bit.conj_disj_distrib2)
  then have "ap = 3 \<longleftrightarrow> has_flag acl UVISOR_TACL_UWRITE"
    "ap = 2 \<or> ap = 3 \<or> ap = 6 \<longleftrightarrow> has_flag acl UVISOR_TACL_UREAD"
    using r(4,5) run(1) access_flags [of acl] by auto
  then show ?thesis using r run(2) by (intro exI [of _ ap] exI [of _ xn]) (simp add: xn_def)
qed

text \<open>The rounding step: the exponent, and how the rounded size compares with the size asked for.\<close>

definition rounded_bits :: "u32 \<Rightarrow> u32 \<Rightarrow> nat" where
  "rounded_bits sz acl =
     (let bits = UVISOR_REGION_BITS sz in
      if unat sz \<noteq> 2 ^ bits \<and> has_flag acl UVISOR_TACL_SIZE_ROUND_DOWN then bits - 1 else bits)"

lemma translate_acl_cases:
  assumes "vmpu_region_translate_acl start sz acl hw = Inr (r, n)" "sz \<noteq> 0" "sz \<le> 0x80000000"
  defines "b \<equiv> rounded_bits sz acl"
  shows "5 \<le> b \<and> b \<le> 31 \<and> n = 2 ^ b \<and> start AND mask b = 0 \<and>
    (if has_flag acl UVISOR_TACL_SIZE_ROUND_DOWN then unat n \<le> unat sz else unat sz \<le> unat n) \<and>
    (\<exists>config. vmpu_map_acl acl = Inr config \<and>
      r = \<lparr>region_start = start, region_end = start + n,
           region_config = config OR MPU_RASR_ENABLE_Msk OR push_bit 1 (of_nat b - 1) OR
             (push_bit 8 hw AND MPU_RASR_SRD_Msk),
           region_acl = acl\<rparr>)"
proof -
  define bits where "bits = UVISOR_REGION_BITS sz"
  note eq = region_bits_eq [OF assms(2), folded bits_def]
  note rb = UVISOR_REGION_BITS_bounds [of sz, folded bits_def]
  have le31: "bits \<le> 31"
  proof (rule ccontr)
    assume "\<not> bits \<le> 31"
    then have "bits = 32" using rb by simp
    then have "(2 :: nat) ^ 31 < unat sz" using rb by simp
    then show False using assms(3) by (simp add: word_le_nat_alt)
  qed
  have exact: "2 ^ bits = sz \<longleftrightarrow> unat sz = 2 ^ bits" using le31 by (auto simp: word_unat_eq_iff)
  have down: "2 ^ (bits - 1) \<le> unat sz" if "\<not> bits - 1 < 5" using rb that by auto
  show ?thesis
    using assms(1) rb le31 exact down
    by (auto simp: vmpu_region_translate_acl_def rounded_bits_def b_def bits_def [symmetric] eq
        mask_eq_exp_minus_1 mpu_consts Let_def bind_res_Inr_iff split: if_splits)
qed

text \<open>
  C36: Translating an access control list into an ARMv7-M region. When
  \<open>vmpu_region_translate_acl\<close> accepts (sizes up to 2 GB), the region starts where it was asked to,
  aligned to its size, and as the hardware decodes the generated register value it is enabled, has
  exactly the returned size (which covers the requested size, or stays below it when rounding down
  was asked for), has exactly the requested subregions disabled, and gives unprivileged code
  exactly the read and write rights of the list, and execution only if the list has it.
\<close>

theorem vmpu_region_translate_acl_sound:
  assumes "vmpu_region_translate_acl start sz acl hw = Inr (r, n)" "sz \<noteq> 0" "sz \<le> 0x80000000"
  shows "region_start r = start \<and> region_end r = start + n \<and> region_acl r = acl \<and>
    unat n dvd unat start \<and> rasr_size (region_config r) = unat n \<and>
    (if has_flag acl UVISOR_TACL_SIZE_ROUND_DOWN then unat n \<le> unat sz else unat sz \<le> unat n) \<and>
    bit (region_config r) 0 \<and> rasr_srd (region_config r) = take_bit 8 hw \<and>
    (rasr_user_read (region_config r) \<longleftrightarrow> has_flag acl UVISOR_TACL_UREAD) \<and>
    (rasr_user_write (region_config r) \<longleftrightarrow> has_flag acl UVISOR_TACL_UWRITE) \<and>
    (rasr_execute (region_config r) \<longleftrightarrow> has_flag acl (UVISOR_TACL_UEXECUTE OR UVISOR_TACL_SEXECUTE))"
proof -
  define b where "b = rounded_bits sz acl"
  obtain config where c: "5 \<le> b" "b \<le> 31" "n = 2 ^ b" "start AND mask b = 0"
      "if has_flag acl UVISOR_TACL_SIZE_ROUND_DOWN then unat n \<le> unat sz else unat sz \<le> unat n"
      "vmpu_map_acl acl = Inr config" "region_start r = start" "region_end r = start + n" "region_acl r = acl"
      "region_config r = config OR MPU_RASR_ENABLE_Msk OR push_bit 1 (of_nat b - 1) OR (push_bit 8 hw AND MPU_RASR_SRD_Msk)"
    using translate_acl_cases [OF assms, folded b_def] by auto
  obtain ap xn where ap: "config = push_bit 24 ap OR push_bit 28 xn" "take_bit 3 ap = ap" "xn = 0 \<or> xn = 1" "ap \<noteq> 7"
      "ap = 3 \<longleftrightarrow> has_flag acl UVISOR_TACL_UWRITE" "ap = 2 \<or> ap = 3 \<or> ap = 6 \<longleftrightarrow> has_flag acl UVISOR_TACL_UREAD"
      "xn = 1 \<longleftrightarrow> \<not> has_flag acl (UVISOR_TACL_UEXECUTE OR UVISOR_TACL_SEXECUTE)"
    using vmpu_map_acl_flags [OF c(6)] by blast
  define w :: u32 where "w = of_nat b - 1"
  have w_nat: "w = of_nat (b - 1)" using c(1) by (simp add: w_def of_nat_diff)
  have "b - 1 < 32" using c(2) by simp
  then have "unat w = b - 1" by (simp add: w_nat unat_of_nat_u32)
  moreover have "take_bit 5 w = w"
    using c(2) by (simp add: w_nat take_bit_of_nat) (simp add: take_bit_eq_mod)
  moreover have "region_config r = (push_bit 24 ap OR push_bit 28 xn) OR 1 OR push_bit 1 w OR (push_bit 8 hw AND push_bit 8 (mask 8))"
    by (simp add: c(10) ap(1) MPU_RASR_ENABLE_Msk_def MPU_RASR_SRD_Msk_def w_def mask_eq_exp_minus_1)
  note f = rasr_fields [OF this ap(2) \<open>take_bit 5 w = w\<close> ap(3)]
  have "rasr_size (region_config r) = unat n"
    using c(1,2) unfolding rasr_size_def f(1) \<open>unat w = b - 1\<close> c(3) by simp
  moreover have "unat n dvd unat start" using c(2,3,4) by (simp add: and_mask_eq_0_iff)
  moreover have "rasr_srd (region_config r) = take_bit 8 hw" by (simp only: rasr_srd_def f(2))
  moreover have "rasr_ap (region_config r) = ap" by (simp only: rasr_ap_def f(3))
  ultimately show ?thesis
    using c(5,7,8,9) f(4,5) ap(3,4,5,6,7)
    by (auto simp: rasr_user_read_def rasr_user_write_def rasr_execute_def)
qed

theorem vmpu_region_translate_acl_sound_witness:
  "\<exists>r. vmpu_region_translate_acl 0x20000000 0x5000 UVISOR_TACLDEF_DATA 3 = Inr (r, 0x8000) \<and>
    rasr_size (region_config r) = 0x8000 \<and> rasr_user_write (region_config r) \<and> \<not> rasr_execute (region_config r)"
proof -
  have bits: "vmpu_region_bits 0x5000 = 15"
    by (simp add: vmpu_region_bits_def vmpu_bits_nat_bits nat_bits.simps mpu_consts)
  obtain r where r: "vmpu_region_translate_acl 0x20000000 0x5000 UVISOR_TACLDEF_DATA 3 = Inr (r, 0x8000)"
    by (simp add: vmpu_region_translate_acl_def bits tacl_defs vmpu_map_acl_def map_acl_rights_def)
  show ?thesis
    using vmpu_region_translate_acl_sound [OF r] r by (auto simp: tacl_defs)
qed

section \<open>Replacement in the hardware regions\<close>

definition mpu_ok :: "mpu_state \<Rightarrow> bool" where
  "mpu_ok st \<longleftrightarrow> length (g_mpu_priority st) = 8 \<and> length (mpu_rbar st) = 8 \<and> length (mpu_rasr st) = 8 \<and>
     mpu_addr_bits st = MPU_RBAR_ADDR_Msk \<and> 2 \<le> unat (g_mpu_slot st) \<and> unat (g_mpu_slot st) < 8"

definition placed :: "mpu_state \<Rightarrow> nat \<Rightarrow> MpuRegion \<Rightarrow> u8 \<Rightarrow> mpu_state" where
  "placed st slot r p = st\<lparr>MPU_RNR := of_nat slot,
     mpu_rbar := (mpu_rbar st)[slot := region_start r], mpu_rasr := (mpu_rasr st)[slot := region_config r],
     g_mpu_priority := (g_mpu_priority st)[slot := p]\<rparr>"

text \<open>Region bases are multiples of 32, so the region number and the address do not mix.\<close>

definition region_aligned :: "MpuRegion \<Rightarrow> bool" where
  "region_aligned r \<longleftrightarrow> region_start r AND mask 5 = 0"

lemma RBAR_fields:
  fixes a :: u32
  assumes "a AND mask 5 = 0" "s < 8"
  shows "((of_nat s OR MPU_RBAR_VALID_Msk) OR a) AND MPU_RBAR_VALID_Msk \<noteq> 0"
    "((of_nat s OR MPU_RBAR_VALID_Msk) OR a) AND MPU_RBAR_REGION_Msk = of_nat s"
    "((of_nat s OR MPU_RBAR_VALID_Msk) OR a) AND MPU_RBAR_ADDR_Msk = a"
proof -
  have a: "a AND 0x1F = 0" using assms(1) by (simp add: mask_eq_exp_minus_1)
  have s: "s = 0 \<or> s = 1 \<or> s = 2 \<or> s = 3 \<or> s = 4 \<or> s = 5 \<or> s = 6 \<or> s = 7" using assms(2) by arith
  have "a AND 0xF = (a AND 0x1F) AND 0xF" "a AND 0x10 = (a AND 0x1F) AND 0x10"
    by (simp_all add: and.assoc)
  then have low: "a AND 0xF = 0" "a AND 0x10 = 0" using a by simp_all
  have "(0xFFFFFFE0 :: u32) OR 0x1F = - 1" by simp
  then have "a = (a AND 0xFFFFFFE0) OR (a AND 0x1F)"
    by (simp only: bit.conj_disj_distrib [symmetric] bit.conj_one_right)
  then have high: "a AND 0xFFFFFFE0 = a" using a by simp
  show "((of_nat s OR MPU_RBAR_VALID_Msk) OR a) AND MPU_RBAR_VALID_Msk \<noteq> 0"
    using s by (elim disjE) (simp_all add: MPU_RBAR_VALID_Msk_def bit.conj_disj_distrib2 low)
  show "((of_nat s OR MPU_RBAR_VALID_Msk) OR a) AND MPU_RBAR_REGION_Msk = of_nat s"
    using s by (elim disjE) (simp_all add: MPU_RBAR_VALID_Msk_def MPU_RBAR_REGION_Msk_def bit.conj_disj_distrib2 low)
  show "((of_nat s OR MPU_RBAR_VALID_Msk) OR a) AND MPU_RBAR_ADDR_Msk = a"
    using s by (elim disjE) (simp_all add: MPU_RBAR_VALID_Msk_def MPU_RBAR_ADDR_Msk_def bit.conj_disj_distrib2 high)
qed

lemma place_region_placed:
  assumes "mpu_ok st" "region_aligned r" "unat slot < 8"
  shows "place_region st slot r p = Inr (placed st (unat slot) r p)"
proof -
  have slot: "(ucast slot :: u32) = of_nat (unat slot)" by simp
  have n: "unat (of_nat (unat slot) :: u32) = unat slot"
    using assms(3) by (intro unat_of_nat_u32) simp
  note f = RBAR_fields [OF assms(2) [unfolded region_aligned_def] assms(3)]
  show ?thesis
    using assms n
    by (simp add: place_region_def write_RBAR_def write_RASR_def MPU_RBAR_def slot f mpu_ok_def placed_def Let_def
        del: of_nat_unat)
qed

text \<open>The slots in the order in which a push that starts behind slot \<open>s\<close> visits them.\<close>

definition visit_order :: "nat \<Rightarrow> nat list" where
  "visit_order s = [Suc s..<8] @ [2..<Suc s]"

fun visits :: "nat \<Rightarrow> nat list \<Rightarrow> bool" where
  "visits s [] = True"
| "visits s (t # ts) = (t = (if Suc s \<ge> 8 then 2 else Suc s) \<and> 2 \<le> t \<and> t < 8 \<and> visits t ts)"

lemma visit_order_visits:
  assumes "2 \<le> s" "s < 8"
  shows "visits s (visit_order s)" "last (visit_order s) = s" "s \<notin> set (butlast (visit_order s))"
    "length (visit_order s) = 6" "set (visit_order s) = {2..<8}"
proof -
  have s: "s = 2 \<or> s = 3 \<or> s = 4 \<or> s = 5 \<or> s = 6 \<or> s = 7" using assms by arith
  show "visits s (visit_order s)" using s by (elim disjE) (simp_all add: visit_order_def)
  show "last (visit_order s) = s" "s \<notin> set (butlast (visit_order s))"
    using assms by (auto simp: visit_order_def butlast_append)
  show "length (visit_order s) = 6" "set (visit_order s) = {2..<8}"
    using assms by (auto simp: visit_order_def)
qed

lemma next_slot:
  fixes s :: u8
  assumes "unat s < 8"
  shows "unat (if s + 1 \<ge> ARMv7M_MPU_REGIONS_MAX then ARMv7M_MPU_REGIONS_STATIC else s + 1) =
    (if Suc (unat s) \<ge> 8 then 2 else Suc (unat s))"
proof -
  have "unat (s + 1) = Suc (unat s)" using assms by (subst unat_plus_if') auto
  then show ?thesis by (simp add: mpu_consts word_le_nat_alt)
qed

lemma push_loop_Suc:
  "push_loop (Suc n) st r p start =
    (let s' = (if g_mpu_slot st + 1 \<ge> ARMv7M_MPU_REGIONS_MAX then ARMv7M_MPU_REGIONS_STATIC else g_mpu_slot st + 1);
         st' = st\<lparr>g_mpu_slot := s'\<rparr> in
     bind_res (arr_get (g_mpu_priority st') (unat s')) (\<lambda>prio.
     if prio < p then bind_res (place_region st' s' r p) (\<lambda>st. Inr (True, g_mpu_slot st, st))
     else if s' \<noteq> start then push_loop n st' r p start else Inr (False, s', st')))"
  by (cases "ARMv7M_MPU_REGIONS_MAX \<le> g_mpu_slot st + 1") (simp_all add: Let_def cong: if_cong)

lemma push_loop_search:
  assumes "visits (unat (g_mpu_slot st)) ts" "ts \<noteq> []" "last ts = unat start" "unat start \<notin> set (butlast ts)"
    "length ts \<le> fuel" "mpu_ok st" "region_aligned r"
  shows "push_loop fuel st r p start =
    (case find (\<lambda>t. g_mpu_priority st ! t < p) ts of
       Some t \<Rightarrow> Inr (True, of_nat t, placed (st\<lparr>g_mpu_slot := of_nat t\<rparr>) t r p)
     | None \<Rightarrow> Inr (False, start, st\<lparr>g_mpu_slot := start\<rparr>))"
  using assms
proof (induction ts arbitrary: fuel st)
  case (Cons t ts)
  obtain n where fuel: "fuel = Suc n" "length ts \<le> n" using Cons.prems(5) by (cases fuel) auto
  define s' where "s' = (if g_mpu_slot st + 1 \<ge> ARMv7M_MPU_REGIONS_MAX then ARMv7M_MPU_REGIONS_STATIC else g_mpu_slot st + 1)"
  define st' where "st' = st\<lparr>g_mpu_slot := s'\<rparr>"
  have t: "unat s' = t" "2 \<le> t" "t < 8"
    using Cons.prems(1,6) next_slot [of "g_mpu_slot st"] by (auto simp: s'_def mpu_ok_def)
  have s't: "of_nat t = s'" using t(1) by auto
  have ok: "mpu_ok st'" using Cons.prems(6) t by (simp add: mpu_ok_def st'_def)
  have step: "push_loop fuel st r p start =
      (if g_mpu_priority st ! t < p then Inr (True, s', placed st' t r p)
       else if s' \<noteq> start then push_loop n st' r p start else Inr (False, s', st'))"
    using ok t place_region_placed [OF ok Cons.prems(7), of s' p]
    unfolding fuel(1) push_loop_Suc s'_def [symmetric] Let_def st'_def [symmetric]
    by (auto simp: mpu_ok_def placed_def st'_def)
  show ?case
  proof (cases "g_mpu_priority st ! t < p")
    case True
    then show ?thesis by (simp add: step s't st'_def)
  next
    case False
    show ?thesis
    proof (cases "ts = []")
      case True
      then have "s' = start" using Cons.prems(3) t(1) by (simp add: unat_eq_iff)
      then show ?thesis using False True by (simp add: step st'_def)
    next
      case ne: False
      then have ne': "s' \<noteq> start" using Cons.prems(4) t(1) by auto
      have "push_loop n st' r p start =
          (case find (\<lambda>t. g_mpu_priority st' ! t < p) ts of
             Some t \<Rightarrow> Inr (True, of_nat t, placed (st'\<lparr>g_mpu_slot := of_nat t\<rparr>) t r p)
           | None \<Rightarrow> Inr (False, start, st'\<lparr>g_mpu_slot := start\<rparr>))"
        using Cons.prems ne t fuel(2) ok by (intro Cons.IH) (auto simp: st'_def)
      then show ?thesis using False ne' by (simp add: step) (simp add: st'_def split: option.split)
    qed
  qed
qed simp

definition push_slot :: "mpu_state \<Rightarrow> u8 \<Rightarrow> nat" where
  "push_slot st p =
     (case find (\<lambda>t. g_mpu_priority st ! t < p) (visit_order (unat (g_mpu_slot st))) of
        Some t \<Rightarrow> t | None \<Rightarrow> unat (g_mpu_slot st))"

lemma vmpu_mpu_push_placed:
  assumes "mpu_ok st" "region_aligned r" "p \<noteq> 0"
  shows "vmpu_mpu_push st r p =
    Inr (True, placed (st\<lparr>g_mpu_slot := of_nat (push_slot st p)\<rparr>) (push_slot st p) r p)"
proof -
  define s where "s = unat (g_mpu_slot st)"
  have s: "2 \<le> s" "s < 8" using assms(1) by (simp_all add: s_def mpu_ok_def)
  note v = visit_order_visits [OF s]
  have ne: "visit_order s \<noteq> []" using v(4) by auto
  have "push_loop (Suc ARMv7M_MPU_REGIONS) st r p (g_mpu_slot st) =
      (case find (\<lambda>t. g_mpu_priority st ! t < p) (visit_order s) of
         Some t \<Rightarrow> Inr (True, of_nat t, placed (st\<lparr>g_mpu_slot := of_nat t\<rparr>) t r p)
       | None \<Rightarrow> Inr (False, g_mpu_slot st, st\<lparr>g_mpu_slot := g_mpu_slot st\<rparr>))"
    using v ne assms(1,2) by (intro push_loop_search) (simp_all add: s_def mpu_consts)
  moreover have "place_region st (g_mpu_slot st) r p = Inr (placed st s r p)"
    using place_region_placed [OF assms(1,2), of "g_mpu_slot st"] s by (simp add: s_def)
  ultimately show ?thesis
    using assms(3) by (auto simp: vmpu_mpu_push_def push_slot_def s_def Let_def split: option.splits)
qed

lemma push_slot_range:
  assumes "mpu_ok st"
  shows "2 \<le> push_slot st p" "push_slot st p < 8"
    "g_mpu_priority st ! push_slot st p < p \<or> push_slot st p = unat (g_mpu_slot st)"
    "t \<in> {2..<8} \<Longrightarrow> g_mpu_priority st ! t < p \<Longrightarrow> g_mpu_priority st ! push_slot st p < p"
proof -
  have s: "2 \<le> unat (g_mpu_slot st)" "unat (g_mpu_slot st) < 8" using assms by (simp_all add: mpu_ok_def)
  note v = visit_order_visits(5) [OF s]
  show "2 \<le> push_slot st p" "push_slot st p < 8"
    "g_mpu_priority st ! push_slot st p < p \<or> push_slot st p = unat (g_mpu_slot st)"
    "t \<in> {2..<8} \<Longrightarrow> g_mpu_priority st ! t < p \<Longrightarrow> g_mpu_priority st ! push_slot st p < p"
    using s v unfolding push_slot_def
    by (auto split: option.splits simp: find_Some_iff find_None_iff dest!: nth_mem)
qed

lemma mpu_ok_placed:
  assumes "mpu_ok st" "2 \<le> t" "t < 8"
  shows "mpu_ok (placed (st\<lparr>g_mpu_slot := of_nat t\<rparr>) t r p)"
  using assms by (simp add: mpu_ok_def placed_def)

subsection \<open>Invalidation\<close>

definition cleared :: "'a list \<Rightarrow> nat \<Rightarrow> 'a \<Rightarrow> 'a list" where
  "cleared xs k v = take k xs @ replicate (length xs - k) v"

lemma cleared_step: "k < length xs \<Longrightarrow> cleared (xs[k := v]) (Suc k) v = cleared xs k v"
proof (rule nth_equalityI)
  fix i assume "k < length xs" "i < length (cleared (xs[k := v]) (Suc k) v)"
  then show "cleared (xs[k := v]) (Suc k) v ! i = cleared xs k v ! i"
    by (auto simp: cleared_def nth_append nth_list_update_at)
qed (simp add: cleared_def)

lemma invalidate_loop_cleared:
  assumes "unat slot \<le> 8" "8 \<le> unat slot + n" "length (g_mpu_priority st) = 8" "length (mpu_rbar st) = 8" "length (mpu_rasr st) = 8"
  shows "\<exists>rnr. invalidate_loop st slot n = Inr (st\<lparr>MPU_RNR := rnr, mpu_rbar := cleared (mpu_rbar st) (unat slot) 0,
    mpu_rasr := cleared (mpu_rasr st) (unat slot) 0, g_mpu_priority := cleared (g_mpu_priority st) (unat slot) 0\<rparr>)"
  using assms
proof (induction n arbitrary: st slot)
  case 0
  then show ?case
    by (intro exI [of _ "MPU_RNR st"]) (simp add: mpu_consts word_less_nat_alt cleared_def)
next
  case (Suc n)
  show ?case
  proof (cases "slot < ARMv7M_MPU_REGIONS_MAX")
    case False
    then have "unat slot = 8" using Suc.prems(1) by (simp add: mpu_consts word_less_nat_alt)
    then show ?thesis
      using False Suc.prems by (intro exI [of _ "MPU_RNR st"]) (simp add: cleared_def)
  next
    case lt: True
    then have lt': "unat slot < 8" by (simp add: mpu_consts word_less_nat_alt)
    have next_slot: "unat (slot + 1) = Suc (unat slot)" using lt' by (subst unat_plus_if') auto
    let ?st = "st\<lparr>MPU_RNR := ucast slot, mpu_rasr := (mpu_rasr st)[unat slot := 0],
      mpu_rbar := (mpu_rbar st)[unat slot := 0], g_mpu_priority := (g_mpu_priority st)[unat slot := 0]\<rparr>"
    have u: "unat (ucast slot :: u32) = unat slot"
      by (simp add: unsigned_ucast_eq) (simp add: take_bit_eq_mod order.strict_trans [OF unat_u8_lt])
    have step: "invalidate_loop st slot (Suc n) = invalidate_loop ?st (slot + 1) n"
      using lt lt' Suc.prems u by (simp add: write_RASR_def write_RBAR_def)
    obtain rnr where "invalidate_loop ?st (slot + 1) n = Inr (?st\<lparr>MPU_RNR := rnr,
        mpu_rbar := cleared (mpu_rbar ?st) (unat (slot + 1)) 0, mpu_rasr := cleared (mpu_rasr ?st) (unat (slot + 1)) 0,
        g_mpu_priority := cleared (g_mpu_priority ?st) (unat (slot + 1)) 0\<rparr>)"
      using Suc.IH [of "slot + 1" ?st] Suc.prems next_slot lt' by auto
    then show ?thesis using step next_slot lt' Suc.prems by (auto simp: cleared_step)
  qed
qed

lemma vmpu_mpu_invalidate_cleared:
  assumes "mpu_ok st"
  shows "\<exists>rnr. vmpu_mpu_invalidate st = Inr (st\<lparr>g_mpu_slot := 2, MPU_RNR := rnr, mpu_rbar := cleared (mpu_rbar st) 2 0,
    mpu_rasr := cleared (mpu_rasr st) 2 0, g_mpu_priority := cleared (g_mpu_priority st) 2 0\<rparr>)"
  using invalidate_loop_cleared [of 2 8 "st\<lparr>g_mpu_slot := 2\<rparr>"] assms
  by (auto simp: vmpu_mpu_invalidate_def mpu_consts mpu_ok_def)

subsection \<open>The stack region of a secure box is never replaced\<close>

fun push_all :: "mpu_state \<Rightarrow> (MpuRegion \<times> u8) list \<Rightarrow> mpu_state res" where
  "push_all st [] = Inr st"
| "push_all st ((r, p) # rs) = bind_res (vmpu_mpu_push st r p) (\<lambda>(placed, st). push_all st rs)"

text \<open>
  Slot 3 holds region \<open>r\<close> at the highest priority, the static slots are those of \<open>st0\<close>, and right
  after it was pushed there is still an unused slot.
\<close>

definition pinned :: "mpu_state \<Rightarrow> MpuRegion \<Rightarrow> mpu_state \<Rightarrow> bool" where
  "pinned st0 r st \<longleftrightarrow> mpu_ok st \<and> g_mpu_priority st ! 3 = 255 \<and> mpu_rbar st ! 3 = region_start r \<and>
     mpu_rasr st ! 3 = region_config r \<and> take 2 (mpu_rbar st) = take 2 (mpu_rbar st0) \<and>
     take 2 (mpu_rasr st) = take 2 (mpu_rasr st0) \<and> take 2 (g_mpu_priority st) = take 2 (g_mpu_priority st0) \<and>
     (unat (g_mpu_slot st) = 3 \<longrightarrow> g_mpu_priority st ! 4 = 0)"

lemma invalidate_push_pinned:
  assumes "mpu_ok st" "region_aligned r"
  shows "\<exists>st1 st2. vmpu_mpu_invalidate st = Inr st1 \<and> vmpu_mpu_push st1 r 255 = Inr (True, st2) \<and> pinned st r st2"
proof -
  obtain rnr where inv: "vmpu_mpu_invalidate st = Inr (st\<lparr>g_mpu_slot := 2, MPU_RNR := rnr, mpu_rbar := cleared (mpu_rbar st) 2 0,
      mpu_rasr := cleared (mpu_rasr st) 2 0, g_mpu_priority := cleared (g_mpu_priority st) 2 0\<rparr>)" (is "_ = Inr ?st1")
    using vmpu_mpu_invalidate_cleared [OF assms(1)] by blast
  have ok: "mpu_ok ?st1" using assms(1) by (simp add: mpu_ok_def cleared_def)
  have slot: "push_slot ?st1 255 = 3"
    using assms(1) by (simp add: push_slot_def visit_order_def cleared_def nth_append mpu_ok_def)
  have "vmpu_mpu_push ?st1 r 255 = Inr (True, placed (?st1\<lparr>g_mpu_slot := 3\<rparr>) 3 r 255)"
    using vmpu_mpu_push_placed [OF ok assms(2), of 255] slot by simp
  moreover have "pinned st r (placed (?st1\<lparr>g_mpu_slot := 3\<rparr>) 3 r 255)"
    using assms(1) by (simp add: pinned_def placed_def mpu_ok_def cleared_def nth_append)
  ultimately show ?thesis using inv by blast
qed

lemma pinned_push:
  assumes "pinned st0 r0 st" "region_aligned r" "p < 255"
  shows "\<exists>st'. vmpu_mpu_push st r p = Inr (True, st') \<and> pinned st0 r0 st'"
proof -
  define q where "q = (if p = 0 then 1 else p)"
  have q: "q \<noteq> 0" "q < 255" "vmpu_mpu_push st r p = vmpu_mpu_push st r q"
    using assms(3) by (auto simp: q_def vmpu_mpu_push_def)
  have ok: "mpu_ok st" using assms(1) by (simp add: pinned_def)
  define t where "t = push_slot st q"
  note t = push_slot_range [OF ok, where p = q, folded t_def]
  have not3: "t \<noteq> 3"
  proof
    assume "t = 3"
    then have "unat (g_mpu_slot st) = 3" using t(3) assms(1) q(2) by (auto simp: pinned_def)
    then have "g_mpu_priority st ! 4 < q" using assms(1) q(1) by (simp add: pinned_def word_gt_0)
    then have "g_mpu_priority st ! t < q" using t(4) [of 4] by simp
    then show False using \<open>t = 3\<close> assms(1) q(2) by (simp add: pinned_def)
  qed
  have "pinned st0 r0 (placed (st\<lparr>g_mpu_slot := of_nat t\<rparr>) t r q)"
    using assms(1) t(1,2) not3 mpu_ok_placed [OF ok t(1,2)]
    by (simp add: pinned_def) (simp add: placed_def)
  then show ?thesis using vmpu_mpu_push_placed [OF ok assms(2) q(1)] q(3) by (simp add: t_def)
qed


section \<open>The region table of the boxes\<close>

definition slice_of :: "mpu_state \<Rightarrow> nat \<Rightarrow> nat list" where
  "slice_of st b =
     (let box = g_mpu_box_region st ! b in
      case slice_regions box of None \<Rightarrow> [] | Some i \<Rightarrow> [i..<i + unat (slice_count box)])"

definition regions_of :: "mpu_state \<Rightarrow> nat \<Rightarrow> MpuRegion list" where
  "regions_of st b = map ((!) (g_mpu_region st)) (slice_of st b)"

definition box_slice_ok :: "mpu_state \<Rightarrow> nat \<Rightarrow> bool" where
  "box_slice_ok st b \<longleftrightarrow>
     (let box = g_mpu_box_region st ! b in
      case slice_regions box of
        None \<Rightarrow> slice_count box = 0
      | Some i \<Rightarrow> i + unat (slice_count box) \<le> unat (g_mpu_region_count st))"

definition slices_ok :: "mpu_state \<Rightarrow> bool" where
  "slices_ok st \<longleftrightarrow> length (g_mpu_region st) = MPU_ACL_COUNT \<and> length (g_mpu_box_region st) = UVISOR_MAX_BOXES \<and>
     unat (g_mpu_region_count st) \<le> MPU_ACL_COUNT \<and>
     (\<forall>i < unat (g_mpu_region_count st). region_config (g_mpu_region st ! i) \<noteq> 0) \<and>
     (\<forall>i < MPU_ACL_COUNT. unat (g_mpu_region_count st) \<le> i \<longrightarrow> region_config (g_mpu_region st ! i) = 0) \<and>
     (\<forall>b < UVISOR_MAX_BOXES. box_slice_ok st b)"

lemma find_region_loop_find:
  "i + n \<le> length regions \<Longrightarrow>
    find_region_loop regions a i n = Inr (find (\<lambda>j. region_contains (regions ! j) a) [i..<i + n])"
proof (induction n arbitrary: i)
  case (Suc n)
  then have "[i..<i + Suc n] = i # [Suc i..<Suc i + n]" by (simp add: upt_conv_Cons)
  then show ?case using Suc.IH [of "Suc i"] Suc.prems by simp
qed simp

lemma find_for_address_eq:
  assumes "slices_ok st" "unat box_id < UVISOR_MAX_BOXES"
  shows "vmpu_region_find_for_address st box_id a =
      Inr (find (\<lambda>j. region_contains (g_mpu_region st ! j) a) (slice_of st (unat box_id)))"
proof -
  have ok: "box_slice_ok st (unat box_id)" using assms by (simp add: slices_ok_def)
  have len: "length (g_mpu_box_region st) = UVISOR_MAX_BOXES" "length (g_mpu_region st) = MPU_ACL_COUNT"
    "unat (g_mpu_region_count st) \<le> MPU_ACL_COUNT"
    using assms(1) by (simp_all add: slices_ok_def)
  show ?thesis
    using ok len assms(2)
    by (auto simp: vmpu_region_find_for_address_def box_slice_ok_def slice_of_def Let_def
        find_region_loop_find split: option.splits)
qed

lemma find_for_address_iff:
  "find (\<lambda>j. region_contains (g_mpu_region st ! j) a) (slice_of st b) \<noteq> None \<longleftrightarrow>
     list_ex (\<lambda>r. region_contains r a) (regions_of st b)"
  using find_Some_ex [of "\<lambda>j. region_contains (g_mpu_region st ! j) a" "slice_of st b"]
  by (auto simp: regions_of_def list_ex_iff)

text \<open>
  Looking up the region of a box for an address scans exactly the box's own regions, in the order
  in which they were added, never leaves the table, and finds a region exactly when one of them
  contains the address.
\<close>

theorem vmpu_region_find_for_address_correct:
  assumes "slices_ok st" "unat box_id < UVISOR_MAX_BOXES"
  shows "vmpu_region_find_for_address st box_id a =
      Inr (find (\<lambda>j. region_contains (g_mpu_region st ! j) a) (slice_of st (unat box_id))) \<and>
    ((\<exists>j. vmpu_region_find_for_address st box_id a = Inr (Some j)) \<longleftrightarrow>
      list_ex (\<lambda>r. region_contains r a) (regions_of st (unat box_id)))"
  using find_for_address_eq [OF assms] find_for_address_iff [of st a "unat box_id"] by simp

lemma translate_acl_config:
  assumes "vmpu_region_translate_acl start sz acl hw = Inr (r, n)"
  shows "region_config r \<noteq> 0"
proof -
  obtain x y z where "region_config r = x OR MPU_RASR_ENABLE_Msk OR y OR z"
    using assms by (auto simp: vmpu_region_translate_acl_def Let_def bind_res_Inr_iff split: if_splits prod.splits)
  then have "bit (region_config r) 0" by (simp add: MPU_RASR_ENABLE_Msk_def bit_simps)
  then show ?thesis by auto
qed

lemma translate_acl_halts: "vmpu_region_translate_acl start sz acl hw = Inl e \<Longrightarrow> e = Halt SANITY_CHECK_FAILED"
  by (auto simp: vmpu_region_translate_acl_def vmpu_map_acl_def Let_def bind_res_Inl_iff
      split: if_splits prod.splits)

lemma add_static_acl_cases:
  assumes "slices_ok st" "unat box_id < UVISOR_MAX_BOXES"
  defines "box \<equiv> g_mpu_box_region st ! unat box_id" and "k \<equiv> unat (g_mpu_region_count st)"
  defines "base \<equiv> (case slice_regions box of None \<Rightarrow> k | Some i \<Rightarrow> i)"
  assumes run: "vmpu_region_add_static_acl counted box_count st box_id start sz acl hw = Inr (n, st')"
  shows "\<exists>r. vmpu_region_translate_acl start sz acl hw = Inr (r, n) \<and> k < MPU_ACL_COUNT \<and>
    base + unat (slice_count box) = k \<and>
    st' = st\<lparr>g_mpu_region := (g_mpu_region st)[k := r],
      g_mpu_box_region := (g_mpu_box_region st)[unat box_id := \<lparr>slice_regions = Some base, slice_count = slice_count box + 1\<rparr>],
      g_mpu_region_count := g_mpu_region_count st + 1\<rparr>"
proof -
  have len: "length (g_mpu_region st) = MPU_ACL_COUNT" "length (g_mpu_box_region st) = UVISOR_MAX_BOXES"
    using assms(1) by (simp_all add: slices_ok_def)
  have le: "base + unat (slice_count box) \<le> k"
    using assms(1,2) by (auto simp: slices_ok_def box_slice_ok_def Let_def base_def box_def k_def split: option.splits)
  from run obtain r where r: "k < MPU_ACL_COUNT" "vmpu_region_translate_acl start sz acl hw = Inr (r, n)"
      "region_config (g_mpu_region st ! (base + unat (slice_count box))) = 0"
      "st' = st\<lparr>g_mpu_region := (g_mpu_region st)[base + unat (slice_count box) := r],
        g_mpu_box_region := (g_mpu_box_region st)[unat box_id := \<lparr>slice_regions = Some base, slice_count = slice_count box + 1\<rparr>],
        g_mpu_region_count := g_mpu_region_count st + 1\<rparr>"
    using assms(2) len unfolding base_def box_def k_def
    by (auto simp: vmpu_region_add_static_acl_def Let_def res_simps split: if_splits)
  moreover have "base + unat (slice_count box) = k"
    using le r(3) assms(1) by (metis slices_ok_def k_def le_neq_implies_less)
  ultimately show ?thesis by auto
qed

lemma add_slice_of:
  assumes "slices_ok st" "unat box_id < UVISOR_MAX_BOXES" "b < UVISOR_MAX_BOXES"
  defines "box \<equiv> g_mpu_box_region st ! unat box_id" and "k \<equiv> unat (g_mpu_region_count st)"
  assumes st': "st' = st\<lparr>g_mpu_region := (g_mpu_region st)[k := r],
      g_mpu_box_region := (g_mpu_box_region st)[unat box_id := \<lparr>slice_regions = Some base, slice_count = slice_count box + 1\<rparr>],
      g_mpu_region_count := g_mpu_region_count st + 1\<rparr>"
    and base: "base = (case slice_regions box of None \<Rightarrow> k | Some i \<Rightarrow> i)"
    and k: "base + unat (slice_count box) = k" "k < MPU_ACL_COUNT"
  shows "slice_of st' b = (if b = unat box_id then slice_of st b @ [k] else slice_of st b)"
    "set (slice_of st b) \<subseteq> {..<k}" "box_slice_ok st' b" "unat (g_mpu_region_count st') = Suc k"
proof -
  have len: "length (g_mpu_box_region st) = UVISOR_MAX_BOXES" and ok: "box_slice_ok st b" "box_slice_ok st (unat box_id)"
    using assms(1-3) by (simp_all add: slices_ok_def)
  have k': "k < 64" using k(2) by (simp add: MPU_ACL_COUNT_def)
  have c: "unat (slice_count box + 1) = Suc (unat (slice_count box))"
    using k(1) k' by (subst unat_plus_if') auto
  have count: "unat (g_mpu_region_count st + 1) = Suc k"
    using k' by (subst unat_plus_if') (auto simp: k_def)
  show "unat (g_mpu_region_count st') = Suc k" using count by (simp add: st')
  show "set (slice_of st b) \<subseteq> {..<k}"
    using ok(1) by (auto simp: slice_of_def box_slice_ok_def Let_def k_def split: option.splits)
  show "slice_of st' b = (if b = unat box_id then slice_of st b @ [k] else slice_of st b)"
    using len assms(2,3) c k(1) base ok(2)
    by (auto simp: slice_of_def st' Let_def box_def [symmetric] box_slice_ok_def split: option.splits)
  show "box_slice_ok st' b"
    using ok(1) len assms(2,3) c k(1) count
    by (cases "b = unat box_id") (auto simp: box_slice_ok_def st' Let_def k_def split: option.splits)
qed

lemma vmpu_region_add_static_acl_Inr:
  assumes "slices_ok st" "unat box_id < UVISOR_MAX_BOXES"
    "vmpu_region_add_static_acl counted box_count st box_id start sz acl hw = Inr (n, st')"
  shows "slices_ok st' \<and>
        (\<exists>r. vmpu_region_translate_acl start sz acl hw = Inr (r, n) \<and>
          regions_of st' (unat box_id) = regions_of st (unat box_id) @ [r]) \<and>
        (\<forall>b < UVISOR_MAX_BOXES. b \<noteq> unat box_id \<longrightarrow> regions_of st' b = regions_of st b)"
proof -
  define box where "box = g_mpu_box_region st ! unat box_id"
  define k where "k = unat (g_mpu_region_count st)"
  define base where "base = (case slice_regions box of None \<Rightarrow> k | Some i \<Rightarrow> i)"
  obtain r where r: "vmpu_region_translate_acl start sz acl hw = Inr (r, n)" "k < MPU_ACL_COUNT"
      "base + unat (slice_count box) = k"
    and st': "st' = st\<lparr>g_mpu_region := (g_mpu_region st)[k := r],
      g_mpu_box_region := (g_mpu_box_region st)[unat box_id := \<lparr>slice_regions = Some base, slice_count = slice_count box + 1\<rparr>],
      g_mpu_region_count := g_mpu_region_count st + 1\<rparr>"
    using add_static_acl_cases [OF assms(1,2,3)] unfolding box_def k_def base_def by blast
  note sl = add_slice_of [OF assms(1,2) _ st' [unfolded box_def k_def] base_def [unfolded box_def k_def]
      r(3) [unfolded box_def k_def] r(2) [unfolded k_def], folded k_def]
  have len: "length (g_mpu_region st) = MPU_ACL_COUNT" using assms(1) by (simp add: slices_ok_def)
  have regs: "g_mpu_region st' ! j = (if j = k then r else g_mpu_region st ! j)" if "j < MPU_ACL_COUNT" for j
    using that len by (simp add: st' nth_list_update_at)
  have frame: "map ((!) (g_mpu_region st')) xs = map ((!) (g_mpu_region st)) xs" if "set xs \<subseteq> {..<k}" for xs
    using that regs r(2) by (intro map_cong) auto
  have reg_of: "regions_of st' b = (if b = unat box_id then regions_of st b @ [r] else regions_of st b)"
    if "b < UVISOR_MAX_BOXES" for b
    using sl(1,2) [OF that] frame regs r(2) by (simp add: regions_of_def)
  have "slices_ok st'"
    using assms(1) sl(3) sl(4) [OF assms(2)] regs r(2) translate_acl_config [OF r(1)]
    by (auto simp: slices_ok_def k_def less_Suc_eq_le) (auto simp: st')
  then show ?thesis using reg_of r(1) assms(2) by simp
qed

lemma add_static_acl_spec:
  assumes "slices_ok st" "unat box_count \<le> UVISOR_MAX_BOXES"
  shows "case vmpu_region_add_static_acl counted box_count st box_id start sz acl hw of
      Inl e \<Rightarrow> e = Halt SANITY_CHECK_FAILED
    | Inr (n, st') \<Rightarrow> slices_ok st' \<and>
        (\<exists>r. vmpu_region_translate_acl start sz acl hw = Inr (r, n) \<and>
          regions_of st' (unat box_id) = regions_of st (unat box_id) @ [r]) \<and>
        (\<forall>b < UVISOR_MAX_BOXES. b \<noteq> unat box_id \<longrightarrow> regions_of st' b = regions_of st b)"
proof (cases "vmpu_is_box_id_valid counted box_count box_id")
  case False
  then show ?thesis by (simp add: vmpu_region_add_static_acl_def)
next
  case True
  then have b: "unat box_id < UVISOR_MAX_BOXES"
    using assms(2) by (auto simp: vmpu_is_box_id_valid_def word_less_nat_alt split: if_splits)
  let ?run = "vmpu_region_add_static_acl counted box_count st box_id start sz acl hw"
  let ?box = "g_mpu_box_region st ! unat box_id"
  have le: "(case slice_regions ?box of None \<Rightarrow> unat (g_mpu_region_count st) | Some i \<Rightarrow> i) + unat (slice_count ?box)
      \<le> unat (g_mpu_region_count st)"
    using assms(1) b by (auto simp: slices_ok_def box_slice_ok_def Let_def split: option.splits)
  have "e = Halt SANITY_CHECK_FAILED" if "?run = Inl e" for e
    using that le assms(1) b
    by (auto simp: vmpu_region_add_static_acl_def slices_ok_def Let_def bind_res_Inl_iff arr_get_def arr_set_def
        dest: translate_acl_halts split: if_splits)
  then show ?thesis
    using vmpu_region_add_static_acl_Inr [OF assms(1) b] by (auto split: sum.splits prod.splits)
qed

text \<open>
  Adding an access control region to a box appends the translated region to that box's regions
  and changes no other box's regions; the table stays well formed. It never writes outside of the
  table: when the table is full, the box number is invalid, the regions of the boxes would
  interleave, or the list cannot be translated, it halts instead.
\<close>

theorem vmpu_region_add_static_acl_correct:
  assumes "slices_ok st" "unat box_count \<le> UVISOR_MAX_BOXES"
  shows "case vmpu_region_add_static_acl counted box_count st box_id start sz acl hw of
      Inl e \<Rightarrow> e = Halt SANITY_CHECK_FAILED
    | Inr (n, st') \<Rightarrow> slices_ok st' \<and>
        (\<exists>r. vmpu_region_translate_acl start sz acl hw = Inr (r, n) \<and>
          regions_of st' (unat box_id) = regions_of st (unat box_id) @ [r]) \<and>
        (\<forall>b < UVISOR_MAX_BOXES. b \<noteq> unat box_id \<longrightarrow> regions_of st' b = regions_of st b)"
  using assms by (rule add_static_acl_spec)

section \<open>A concrete MPU\<close>

text \<open>One region of box 1 (the 256 bytes from \<open>0x20000400\<close>), the hardware regions unused.\<close>

definition example_region :: MpuRegion where
  "example_region = \<lparr>region_start = 0x20000400, region_end = 0x20000500, region_config = 0x1300000F,
     region_acl = UVISOR_TACLDEF_STACK\<rparr>"

definition empty_region :: MpuRegion where
  "empty_region = \<lparr>region_start = 0, region_end = 0, region_config = 0, region_acl = 0\<rparr>"

definition example_mpu :: mpu_state where
  "example_mpu = \<lparr>g_mpu_region_count = 1, g_mpu_region = example_region # replicate 63 empty_region,
     g_mpu_box_region = (replicate 5 \<lparr>slice_regions = None, slice_count = 0\<rparr>)[1 := \<lparr>slice_regions = Some 0, slice_count = 1\<rparr>],
     g_mpu_slot = 2, g_mpu_priority = [255, 255, 0, 0, 0, 0, 0, 0], MPU_TYPE = 0x800, MPU_CTRL = 5, MPU_RNR = 0,
     mpu_rbar = replicate 8 0, mpu_rasr = replicate 8 0, mpu_addr_bits = MPU_RBAR_ADDR_Msk, SCB_SHCSR = 0x70000\<rparr>"

lemma example_mpu_ok: "mpu_ok example_mpu"
  by (simp add: mpu_ok_def example_mpu_def)

lemma example_slices_ok: "slices_ok example_mpu"
  by (auto simp: slices_ok_def example_mpu_def mpu_consts UVISOR_MAX_BOXES_def nth_Cons' example_region_def
      empty_region_def box_slice_ok_def less_5_cases)


theorem vmpu_region_find_for_address_correct_witness:
  "vmpu_region_find_for_address example_mpu 1 0x20000480 = Inr (Some 0)"
  using vmpu_region_find_for_address_correct [OF example_slices_ok, of 1 "0x20000480"]
  by (simp add: UVISOR_MAX_BOXES_def slice_of_def example_mpu_def region_contains_def example_region_def)

theorem vmpu_region_add_static_acl_correct_witness:
  "\<exists>n st'. vmpu_region_add_static_acl False 0 example_mpu 1 0x20000800 0x100 UVISOR_TACLDEF_STACK 0 = Inr (n, st') \<and>
    slices_ok st' \<and> length (regions_of st' 1) = 2"
proof -
  have bits: "vmpu_region_bits 0x100 = 8"
    by (simp add: vmpu_region_bits_def vmpu_bits_nat_bits nat_bits.simps mpu_consts)
  have run: "\<exists>n st'. vmpu_region_add_static_acl False 0 example_mpu 1 0x20000800 0x100 UVISOR_TACLDEF_STACK 0 = Inr (n, st')"
    by (simp add: vmpu_region_add_static_acl_def example_mpu_def mpu_consts vmpu_is_box_id_valid_def UVISOR_MAX_BOXES_def
        vmpu_region_translate_acl_def bits tacl_defs vmpu_map_acl_def map_acl_rights_def empty_region_def)
  have "length (regions_of example_mpu 1) = 1" by (simp add: regions_of_def slice_of_def example_mpu_def)
  then show ?thesis
    using run vmpu_region_add_static_acl_correct [OF example_slices_ok, where box_count = 0 and counted = False
      and box_id = 1 and start = "0x20000800" and sz = "0x100" and acl = UVISOR_TACLDEF_STACK and hw = 0]
    by auto
qed

end
