(* ===== verification/Page_Allocator.thy ===== *)
theory Page_Allocator
  imports Vmpu_Base Unpriv_Access
begin

text \<open>
  The page allocator: \<^verbatim>\<open>core/system/src/page_allocator.c\<close>, the page pmap accessors of
  \<^verbatim>\<open>core/system/inc/page_allocator_config.h\<close> and the fault book keeping and page iterators of
  \<^verbatim>\<open>core/system/src/page_allocator_faults.c\<close>. Which page is in use and which box owns it is kept
  in bit maps, shifted so that the MPU's subregion masks can be cut out of them. The page table is
  in the memory of the calling box and every access to it is unprivileged.
\<close>

unbundle bit_operations_syntax

section \<open>State\<close>

definition UVISOR_PAGE_MAX_COUNT :: nat where "UVISOR_PAGE_MAX_COUNT = 16"
definition UVISOR_PAGE_SIZE_MINIMUM :: u32 where "UVISOR_PAGE_SIZE_MINIMUM = 1024"
definition UVISOR_PAGE_MAP_COUNT :: nat where
  "UVISOR_PAGE_MAP_COUNT = (UVISOR_PAGE_MAX_COUNT + 31 + 8) div 32"
definition UVISOR_PAGE_UNUSED :: u8 where "UVISOR_PAGE_UNUSED = UVISOR_BOX_ID_INVALID"

definition UVISOR_ERROR_CLASS_PAGE :: int where "UVISOR_ERROR_CLASS_PAGE = 65536"
definition UVISOR_ERROR_PAGE_OK :: int where "UVISOR_ERROR_PAGE_OK = 0"
definition UVISOR_ERROR_PAGE_OUT_OF_MEMORY :: int where
  "UVISOR_ERROR_PAGE_OUT_OF_MEMORY = UVISOR_ERROR_CLASS_PAGE + 1"
definition UVISOR_ERROR_PAGE_INVALID_PAGE_TABLE :: int where
  "UVISOR_ERROR_PAGE_INVALID_PAGE_TABLE = UVISOR_ERROR_CLASS_PAGE + 2"
definition UVISOR_ERROR_PAGE_INVALID_PAGE_SIZE :: int where
  "UVISOR_ERROR_PAGE_INVALID_PAGE_SIZE = UVISOR_ERROR_CLASS_PAGE + 3"
definition UVISOR_ERROR_PAGE_INVALID_PAGE_ORIGIN :: int where
  "UVISOR_ERROR_PAGE_INVALID_PAGE_ORIGIN = UVISOR_ERROR_CLASS_PAGE + 4"
definition UVISOR_ERROR_PAGE_INVALID_PAGE_OWNER :: int where
  "UVISOR_ERROR_PAGE_INVALID_PAGE_OWNER = UVISOR_ERROR_CLASS_PAGE + 5"
definition UVISOR_ERROR_PAGE_INVALID_PAGE_COUNT :: int where
  "UVISOR_ERROR_PAGE_INVALID_PAGE_COUNT = UVISOR_ERROR_CLASS_PAGE + 6"

lemmas page_errors = UVISOR_ERROR_CLASS_PAGE_def UVISOR_ERROR_PAGE_OK_def UVISOR_ERROR_PAGE_OUT_OF_MEMORY_def
  UVISOR_ERROR_PAGE_INVALID_PAGE_TABLE_def UVISOR_ERROR_PAGE_INVALID_PAGE_SIZE_def
  UVISOR_ERROR_PAGE_INVALID_PAGE_ORIGIN_def UVISOR_ERROR_PAGE_INVALID_PAGE_OWNER_def
  UVISOR_ERROR_PAGE_INVALID_PAGE_COUNT_def

lemmas page_consts = UVISOR_PAGE_MAX_COUNT_def UVISOR_PAGE_SIZE_MINIMUM_def UVISOR_PAGE_MAP_COUNT_def
  UVISOR_PAGE_UNUSED_def UVISOR_BOX_ID_INVALID_def UVISOR_MAX_BOXES_def

text \<open>The global variables of the two source files.\<close>

record page_allocator =
  g_page_owner_map :: "u32 list list"
  g_page_usage_map :: "u32 list"
  g_page_size :: u32
  g_page_heap_start :: u32
  g_page_heap_end :: u32
  g_page_count_free :: u8
  g_page_count_total :: u8
  g_page_map_shift :: u8
  g_page_head_end_rounded :: u32
  g_page_fault_table :: "u32 list"

section \<open>Page maps\<close>

definition page_allocator_map_set :: "u8 \<Rightarrow> u32 list \<Rightarrow> u8 \<Rightarrow> u32 list res" where
  "page_allocator_map_set shift pmap page =
     (let page = page + shift; i = unat page div 32 in
      bind_res (arr_get pmap i) (\<lambda>w. arr_set pmap i (w OR push_bit (unat page mod 32) 1)))"

definition page_allocator_map_clear :: "u8 \<Rightarrow> u32 list \<Rightarrow> u8 \<Rightarrow> u32 list res" where
  "page_allocator_map_clear shift pmap page =
     (let page = page + shift; i = unat page div 32 in
      bind_res (arr_get pmap i) (\<lambda>w. arr_set pmap i (w AND NOT (push_bit (unat page mod 32) 1))))"

definition page_allocator_map_get :: "u8 \<Rightarrow> u32 list \<Rightarrow> u8 \<Rightarrow> bool res" where
  "page_allocator_map_get shift pmap page =
     (let page = page + shift; i = unat page div 32 in
      bind_res (arr_get pmap i) (\<lambda>w. Inr (drop_bit (unat page mod 32) w AND 1 \<noteq> 0)))"

definition page_allocator_get_page_from_address :: "page_allocator \<Rightarrow> u32 \<Rightarrow> u8" where
  "page_allocator_get_page_from_address st address =
     (if address < g_page_heap_start st \<or> address \<ge> g_page_heap_end st then UVISOR_PAGE_UNUSED
      else ucast ((address - g_page_heap_start st) div g_page_size st))"

section \<open>Initialisation\<close>

text \<open>
  The port's size functions are arguments; \<open>ps_ptr\<close> is the pointer and \<open>sz\<close> the value it
  points to. The number of pages is kept in 8 bits.
\<close>

definition page_allocator_init ::
  "(u32 \<Rightarrow> bool) \<Rightarrow> (u32 \<Rightarrow> u32 \<Rightarrow> u32) \<Rightarrow> UvisorConfig \<Rightarrow> page_allocator \<Rightarrow> u32 \<Rightarrow> u32 \<Rightarrow> u32 \<Rightarrow> u32
    \<Rightarrow> page_allocator res" where
  "page_allocator_init size_valid round_up cfg st h_start h_end ps_ptr sz =
     (if ps_ptr = 0 \<or> \<not> vmpu_public_flash_addr cfg ps_ptr then Inl (Halt SANITY_CHECK_FAILED)
      else if h_start = 0 \<or> \<not> vmpu_public_sram_addr cfg h_start then Inl (Halt SANITY_CHECK_FAILED)
      else if h_end = 0 \<or> \<not> vmpu_public_sram_addr cfg h_end then Inl (Halt SANITY_CHECK_FAILED)
      else if h_end < h_start then Inl (Halt SANITY_CHECK_FAILED)
      else if sz < UVISOR_PAGE_SIZE_MINIMUM \<or> \<not> size_valid sz then Inl (Halt SANITY_CHECK_FAILED)
      else
        let start = round_up h_start sz in
        if start = 0 then Inl (Halt SANITY_CHECK_FAILED)
        else
          let total = (if start > 0xFFFFFFFF - sz \<or> start + sz > h_end then 0
                       else ucast ((h_end - start) div sz)) :: u8;
              (heap, total) =
                (if unat total > UVISOR_PAGE_MAX_COUNT
                 then (start + of_nat (unat total - UVISOR_PAGE_MAX_COUNT) * sz, of_nat UVISOR_PAGE_MAX_COUNT)
                 else (start, total));
              hend = heap + ucast total * sz;
              rounded = round_up hend (sz * 8);
              shift = of_nat (UVISOR_PAGE_MAP_COUNT * 32) - total;
              shift = shift - ucast ((rounded - hend) div sz)
          in Inr (st\<lparr>g_page_owner_map := replicate UVISOR_MAX_BOXES (replicate UVISOR_PAGE_MAP_COUNT 0),
                     g_page_usage_map := replicate UVISOR_PAGE_MAP_COUNT 0,
                     g_page_size := sz, g_page_heap_start := heap, g_page_heap_end := hend,
                     g_page_count_free := total, g_page_count_total := total,
                     g_page_map_shift := shift, g_page_head_end_rounded := rounded\<rparr>))"

section \<open>Fault book keeping\<close>

definition page_allocator_reset_faults :: "page_allocator \<Rightarrow> u8 \<Rightarrow> page_allocator res" where
  "page_allocator_reset_faults st page =
     (if page < g_page_count_total st then
        bind_res (arr_set (g_page_fault_table st) (unat page) 0) (\<lambda>t. Inr (st\<lparr>g_page_fault_table := t\<rparr>))
      else Inr st)"

definition page_allocator_register_fault :: "page_allocator \<Rightarrow> u8 \<Rightarrow> page_allocator res" where
  "page_allocator_register_fault st page =
     (if page < g_page_count_total st then
        bind_res (arr_get (g_page_fault_table st) (unat page)) (\<lambda>n.
        bind_res (arr_set (g_page_fault_table st) (unat page) (n + 1)) (\<lambda>t.
        Inr (st\<lparr>g_page_fault_table := t\<rparr>)))
      else Inr st)"

definition page_allocator_get_faults :: "page_allocator \<Rightarrow> u8 \<Rightarrow> u32 res" where
  "page_allocator_get_faults st page =
     (if page < g_page_count_total st then arr_get (g_page_fault_table st) (unat page) else Inr 0)"

section \<open>Allocation\<close>

text \<open>Set or clear the owner bit of a page for the boxes in a list.\<close>

fun owners_update ::
  "(u32 list \<Rightarrow> u32 list res) \<Rightarrow> u32 list list \<Rightarrow> nat list \<Rightarrow> u32 list list res" where
  "owners_update f owners [] = Inr owners"
| "owners_update f owners (ii # boxes) =
     bind_res (arr_get owners ii) (\<lambda>pmap.
     bind_res (f pmap) (\<lambda>pmap.
     bind_res (arr_set owners ii pmap) (\<lambda>owners. owners_update f owners boxes)))"

definition owner_boxes :: "u8 \<Rightarrow> nat list" where
  "owner_boxes box_id = (if box_id = 0 then [0..<UVISOR_MAX_BOXES] else [unat box_id])"

text \<open>What \<open>page_allocator_malloc\<close> does with an empty page.\<close>

definition malloc_page ::
  "access \<Rightarrow> u8 \<Rightarrow> u32 \<Rightarrow> u32 \<Rightarrow> page_allocator \<Rightarrow> mem \<Rightarrow> (page_allocator \<times> mem) res" where
  "malloc_page acc box_id page page_table st m =
     (let shift = g_page_map_shift st; p = ucast page in
      bind_res (page_allocator_map_set shift (g_page_usage_map st) p) (\<lambda>usage.
      bind_res (owners_update (\<lambda>pmap. page_allocator_map_set shift pmap p) (g_page_owner_map st) (owner_boxes box_id)) (\<lambda>owners.
      bind_res (page_allocator_reset_faults (st\<lparr>g_page_usage_map := usage, g_page_owner_map := owners\<rparr>) p) (\<lambda>st.
      let ptr = g_page_heap_start st + page * g_page_size st;
          m = zero_range m ptr (g_page_size st) in
      bind_res (vmpu_unpriv_uint32_write acc m page_table ptr) (\<lambda>m.
      Inr (st, m))))))"

text \<open>The loop over the pages; it makes at most as many iterations as there are pages.\<close>

primrec malloc_loop ::
  "access \<Rightarrow> u8 \<Rightarrow> nat \<Rightarrow> u32 \<Rightarrow> u32 \<Rightarrow> u32 \<Rightarrow> page_allocator \<Rightarrow> mem \<Rightarrow> (page_allocator \<times> mem) res" where
  "malloc_loop acc box_id 0 page pages_required page_table st m =
     (if page < ucast (g_page_count_total st) \<and> pages_required \<noteq> 0 then Inl Diverge else Inr (st, m))"
| "malloc_loop acc box_id (Suc n) page pages_required page_table st m =
     (if page < ucast (g_page_count_total st) \<and> pages_required \<noteq> 0 then
        bind_res (page_allocator_map_get (g_page_map_shift st) (g_page_usage_map st) (ucast page)) (\<lambda>used.
        if \<not> used then
          bind_res (malloc_page acc box_id page page_table st m) (\<lambda>(st, m).
          malloc_loop acc box_id n (page + 1) (pages_required - 1) (page_table + 4) st m)
        else malloc_loop acc box_id n (page + 1) pages_required page_table st m)
      else Inr (st, m))"

text \<open>
  The table is \<open>page_size\<close>, \<open>page_count\<close> and then the origins, one word each; \<open>box_id\<close> is
  \<open>g_active_box\<close>.
\<close>

definition page_allocator_malloc ::
  "access \<Rightarrow> u8 \<Rightarrow> page_allocator \<Rightarrow> mem \<Rightarrow> u32 \<Rightarrow> (int \<times> page_allocator \<times> mem) res" where
  "page_allocator_malloc acc box_id st m table =
     bind_res (vmpu_unpriv_uint32_read acc m (table + 4)) (\<lambda>pages_required.
     bind_res (vmpu_unpriv_uint32_read acc m table) (\<lambda>page_size.
     if pages_required = 0 then Inr (UVISOR_ERROR_PAGE_INVALID_PAGE_COUNT, st, m)
     else if page_size \<noteq> g_page_size st then Inr (UVISOR_ERROR_PAGE_INVALID_PAGE_SIZE, st, m)
     else if pages_required > ucast (g_page_count_free st) then Inr (UVISOR_ERROR_PAGE_OUT_OF_MEMORY, st, m)
     else
       let st = st\<lparr>g_page_count_free := ucast (ucast (g_page_count_free st) - pages_required)\<rparr> in
       bind_res (malloc_loop acc box_id (unat (g_page_count_total st)) 0 pages_required (table + 8) st m) (\<lambda>(st, m).
       Inr (UVISOR_ERROR_PAGE_OK, st, m))))"

section \<open>Freeing\<close>

definition free_page :: "u8 \<Rightarrow> u8 \<Rightarrow> page_allocator \<Rightarrow> page_allocator res" where
  "free_page box_id page_index st =
     (let shift = g_page_map_shift st in
      bind_res (page_allocator_map_clear shift (g_page_usage_map st) page_index) (\<lambda>usage.
      bind_res (owners_update (\<lambda>pmap. page_allocator_map_clear shift pmap page_index) (g_page_owner_map st)
        (owner_boxes box_id)) (\<lambda>owners.
      Inr (st\<lparr>g_page_usage_map := usage, g_page_owner_map := owners,
             g_page_count_free := g_page_count_free st + 1\<rparr>))))"

primrec free_loop ::
  "access \<Rightarrow> u8 \<Rightarrow> nat \<Rightarrow> u32 \<Rightarrow> page_allocator \<Rightarrow> mem \<Rightarrow> (int \<times> page_allocator) res" where
  "free_loop acc box_id 0 page_table st m = Inr (UVISOR_ERROR_PAGE_OK, st)"
| "free_loop acc box_id (Suc table_size) page_table st m =
     bind_res (vmpu_unpriv_uint32_read acc m page_table) (\<lambda>page.
     let page_index = page_allocator_get_page_from_address st page in
     if page_index = UVISOR_PAGE_UNUSED then Inr (UVISOR_ERROR_PAGE_INVALID_PAGE_ORIGIN, st)
     else
       bind_res (arr_get (g_page_owner_map st) (unat box_id)) (\<lambda>pmap.
       bind_res (page_allocator_map_get (g_page_map_shift st) pmap page_index) (\<lambda>owned.
       if owned then
         bind_res (free_page box_id page_index st) (\<lambda>st.
         free_loop acc box_id table_size (page_table + 4) st m)
       else Inr (UVISOR_ERROR_PAGE_INVALID_PAGE_OWNER, st))))"

definition page_allocator_free ::
  "access \<Rightarrow> u8 \<Rightarrow> page_allocator \<Rightarrow> mem \<Rightarrow> u32 \<Rightarrow> (int \<times> page_allocator) res" where
  "page_allocator_free acc box_id st m table =
     (if g_page_count_free st = g_page_count_total st then Inr (UVISOR_ERROR_PAGE_INVALID_PAGE_TABLE, st)
      else
        bind_res (vmpu_unpriv_uint32_read acc m (table + 4)) (\<lambda>page_count.
        bind_res (vmpu_unpriv_uint32_read acc m table) (\<lambda>page_size.
        if page_size \<noteq> g_page_size st then Inr (UVISOR_ERROR_PAGE_INVALID_PAGE_SIZE, st)
        else if page_count = 0 then Inr (UVISOR_ERROR_PAGE_INVALID_PAGE_COUNT, st)
        else if page_count > of_int (int (unat (g_page_count_total st)) - int (unat (g_page_count_free st))) then
          Inr (UVISOR_ERROR_PAGE_INVALID_PAGE_TABLE, st)
        else free_loop acc box_id (unat page_count) (table + 8) st m)))"

section \<open>Pages of the active box\<close>

text \<open>The error code, and on success the bounds and the number of the page.\<close>

definition page_allocator_get_active_region_for_address ::
  "page_allocator \<Rightarrow> u8 \<Rightarrow> u32 \<Rightarrow> (int \<times> (u32 \<times> u32 \<times> u8) option) res" where
  "page_allocator_get_active_region_for_address st box_id address =
     (let p = page_allocator_get_page_from_address st address in
      if p = UVISOR_PAGE_UNUSED then Inr (UVISOR_ERROR_PAGE_INVALID_PAGE_ORIGIN, None)
      else
        bind_res (arr_get (g_page_owner_map st) (unat box_id)) (\<lambda>pmap.
        bind_res (page_allocator_map_get (g_page_map_shift st) pmap p) (\<lambda>owned.
        if \<not> owned then Inr (UVISOR_ERROR_PAGE_INVALID_PAGE_OWNER, None)
        else
          let start_addr = g_page_heap_start st + g_page_size st * ucast p in
          Inr (UVISOR_ERROR_PAGE_OK, Some (start_addr, start_addr + g_page_size st, p)))))"

text \<open>The error code, and on success the mask, its index and the number of the page.\<close>

definition page_allocator_get_active_mask_for_address ::
  "page_allocator \<Rightarrow> u8 \<Rightarrow> u32 \<Rightarrow> (int \<times> (u8 \<times> u8 \<times> u8) option) res" where
  "page_allocator_get_active_mask_for_address st box_id address =
     (let p = page_allocator_get_page_from_address st address in
      if p = UVISOR_PAGE_UNUSED then Inr (UVISOR_ERROR_PAGE_INVALID_PAGE_ORIGIN, None)
      else
        bind_res (arr_get (g_page_owner_map st) (unat box_id)) (\<lambda>pmap.
        bind_res (page_allocator_map_get (g_page_map_shift st) pmap p) (\<lambda>owned.
        if \<not> owned then Inr (UVISOR_ERROR_PAGE_INVALID_PAGE_OWNER, None)
        else
          let page = p; p = p + g_page_map_shift st in
          bind_res (arr_get pmap (unat p div 32)) (\<lambda>w.
          Inr (UVISOR_ERROR_PAGE_OK, Some (ucast (drop_bit (unat p mod 32 div 8 * 8) w), p div 8, page))))))"

text \<open>
  The iterators. The callback sees and changes the state \<open>'s\<close> of its owner; \<open>None\<close> is a null
  pointer. \<open>backward\<close> is the direction.
\<close>

primrec iterate_pages_loop ::
  "page_allocator \<Rightarrow> u32 list \<Rightarrow> (u32 \<Rightarrow> u32 \<Rightarrow> u8 \<Rightarrow> 's \<Rightarrow> (bool \<times> 's) res) option \<Rightarrow> bool \<Rightarrow> nat \<Rightarrow> u8 \<Rightarrow> u8 \<Rightarrow> 's
    \<Rightarrow> (u8 \<times> 's) res" where
  "iterate_pages_loop st pmap callback backward 0 ii count s = Inr (count, s)"
| "iterate_pages_loop st pmap callback backward (Suc n) ii count s =
     (let index = (if backward then (g_page_count_total st - 1) - ii else ii) in
      bind_res (page_allocator_map_get (g_page_map_shift st) pmap index) (\<lambda>owned.
      if owned then
        let count = count + 1 in
        case callback of
          Some f \<Rightarrow>
            let start_addr = g_page_heap_start st + g_page_size st * ucast index in
            bind_res (f start_addr (start_addr + g_page_size st) ii s) (\<lambda>(continue, s).
            if \<not> continue then Inr (count, s)
            else iterate_pages_loop st pmap callback backward n (ii + 1) count s)
        | None \<Rightarrow> iterate_pages_loop st pmap callback backward n (ii + 1) count s
      else iterate_pages_loop st pmap callback backward n (ii + 1) count s))"

definition page_allocator_iterate_active_pages ::
  "page_allocator \<Rightarrow> u8 \<Rightarrow> (u32 \<Rightarrow> u32 \<Rightarrow> u8 \<Rightarrow> 's \<Rightarrow> (bool \<times> 's) res) option \<Rightarrow> bool \<Rightarrow> 's \<Rightarrow> (u8 \<times> 's) res" where
  "page_allocator_iterate_active_pages st box_id callback backward s =
     bind_res (arr_get (g_page_owner_map st) (unat box_id)) (\<lambda>pmap.
     iterate_pages_loop st pmap callback backward (unat (g_page_count_total st)) 0 0 s)"

primrec iterate_masks_loop ::
  "u32 list \<Rightarrow> (u8 \<Rightarrow> u8 \<Rightarrow> 's \<Rightarrow> (bool \<times> 's) res) option \<Rightarrow> bool \<Rightarrow> nat \<Rightarrow> nat \<Rightarrow> nat \<Rightarrow> u8 \<Rightarrow> 's
    \<Rightarrow> (u8 \<times> 's) res" where
  "iterate_masks_loop pmap callback backward octets 0 ii count s = Inr (count, s)"
| "iterate_masks_loop pmap callback backward octets (Suc n) ii count s =
     (let index = (if backward then UVISOR_PAGE_MAP_COUNT * 4 - 1 - ii
                   else (UVISOR_PAGE_MAP_COUNT * 4 - octets) + ii) in
      bind_res (arr_get pmap (index div 4)) (\<lambda>w.
      let mask = ucast (drop_bit (index mod 4 * 8) w) :: u8 in
      if mask \<noteq> 0 then
        let count = count + 1 in
        case callback of
          Some f \<Rightarrow>
            bind_res (f mask (of_nat ii) s) (\<lambda>(continue, s).
            if \<not> continue then Inr (count, s)
            else iterate_masks_loop pmap callback backward octets n (Suc ii) count s)
        | None \<Rightarrow> iterate_masks_loop pmap callback backward octets n (Suc ii) count s
      else iterate_masks_loop pmap callback backward octets n (Suc ii) count s))"

definition page_allocator_iterate_active_page_masks ::
  "page_allocator \<Rightarrow> u8 \<Rightarrow> (u8 \<Rightarrow> u8 \<Rightarrow> 's \<Rightarrow> (bool \<times> 's) res) option \<Rightarrow> bool \<Rightarrow> 's \<Rightarrow> (u8 \<times> 's) res" where
  "page_allocator_iterate_active_page_masks st box_id callback backward s =
     bind_res (arr_get (g_page_owner_map st) (unat box_id)) (\<lambda>pmap.
     let octets = (unat (g_page_count_total st) + 7) div 8 in
     iterate_masks_loop pmap callback backward octets octets 0 0 s)"

section \<open>What the page maps represent\<close>

definition used :: "page_allocator \<Rightarrow> nat \<Rightarrow> bool" where
  "used st p \<longleftrightarrow> bit (g_page_usage_map st ! 0) (p + unat (g_page_map_shift st))"

definition owned :: "page_allocator \<Rightarrow> nat \<Rightarrow> nat \<Rightarrow> bool" where
  "owned st b p \<longleftrightarrow> bit (g_page_owner_map st ! b ! 0) (p + unat (g_page_map_shift st))"

abbreviation pages :: "page_allocator \<Rightarrow> nat" where
  "pages st \<equiv> unat (g_page_count_total st)"

definition free_pages :: "page_allocator \<Rightarrow> nat \<Rightarrow> nat list" where
  "free_pages st k = filter (\<lambda>p. \<not> used st p) [k..<pages st]"

definition maps_ok :: "page_allocator \<Rightarrow> bool" where
  "maps_ok st \<longleftrightarrow> length (g_page_owner_map st) = UVISOR_MAX_BOXES \<and> (\<forall>b < UVISOR_MAX_BOXES. length (g_page_owner_map st ! b) = 1) \<and>
     length (g_page_usage_map st) = 1 \<and> length (g_page_fault_table st) = UVISOR_PAGE_MAX_COUNT \<and>
     pages st \<le> UVISOR_PAGE_MAX_COUNT \<and> unat (g_page_map_shift st) + pages st \<le> 32"

text \<open>The pages tile the heap, and the heap does not wrap around.\<close>

definition geometry_ok :: "page_allocator \<Rightarrow> bool" where
  "geometry_ok st \<longleftrightarrow> 0 < unat (g_page_size st) \<and>
     unat (g_page_heap_start st) + pages st * unat (g_page_size st) < 2 ^ 32 \<and>
     unat (g_page_heap_end st) = unat (g_page_heap_start st) + pages st * unat (g_page_size st)"

text \<open>
  Ownership: an unused page has no owner, a used one is either public (allocated by box 0, owned by
  every box) or private to exactly one box other than 0; the free counter counts the unused pages.
\<close>

definition ownership_ok :: "page_allocator \<Rightarrow> bool" where
  "ownership_ok st \<longleftrightarrow>
     (\<forall>p < pages st. if used st p
        then (\<forall>b < UVISOR_MAX_BOXES. owned st b p) \<or>
          (\<exists>b. 0 < b \<and> b < UVISOR_MAX_BOXES \<and> (\<forall>c < UVISOR_MAX_BOXES. owned st c p \<longleftrightarrow> c = b))
        else \<forall>b < UVISOR_MAX_BOXES. \<not> owned st b p) \<and>
     unat (g_page_count_free st) = length (free_pages st 0)"

definition pa_ok :: "page_allocator \<Rightarrow> bool" where
  "pa_ok st \<longleftrightarrow> maps_ok st \<and> geometry_ok st \<and> ownership_ok st"

definition in_page :: "page_allocator \<Rightarrow> nat \<Rightarrow> u32 \<Rightarrow> bool" where
  "in_page st p a \<longleftrightarrow> unat (a - (g_page_heap_start st + of_nat p * g_page_size st)) < unat (g_page_size st)"

definition in_words :: "u32 \<Rightarrow> nat \<Rightarrow> u32 \<Rightarrow> bool" where
  "in_words base n a \<longleftrightarrow> unat (a - base) < 4 * n"

text \<open>Two allocator states that differ only in the maps and the fault counters.\<close>

definition same_geometry :: "page_allocator \<Rightarrow> page_allocator \<Rightarrow> bool" where
  "same_geometry st st' \<longleftrightarrow> g_page_size st' = g_page_size st \<and> g_page_heap_start st' = g_page_heap_start st \<and>
     g_page_heap_end st' = g_page_heap_end st \<and> g_page_count_total st' = g_page_count_total st \<and>
     g_page_map_shift st' = g_page_map_shift st \<and> g_page_head_end_rounded st' = g_page_head_end_rounded st"

section \<open>Bits\<close>

lemma map_index:
  fixes page shift :: u8
  assumes "unat page + unat shift < 32"
  shows "unat (page + shift) = unat page + unat shift"
  using assms by (subst unat_plus_if') auto

lemma map_get_bit:
  assumes "unat page + unat shift < 32" "length ws = 1"
  shows "page_allocator_map_get shift ws page = Inr (bit (ws ! 0) (unat page + unat shift))"
  using assms by (simp add: page_allocator_map_get_def Let_def map_index bit_iff_odd_drop_bit and_one_eq odd_iff_mod_2_eq_one)

lemma map_set_bit:
  assumes "unat page + unat shift < 32" "length ws = 1"
  shows "page_allocator_map_set shift ws page = Inr [set_bit (unat page + unat shift) (ws ! 0)]"
proof -
  obtain w where "ws = [w]" using assms(2) by (cases ws) auto
  then show ?thesis
    using assms(1) by (simp add: page_allocator_map_set_def Let_def map_index set_bit_eq_or)
qed

lemma map_clear_bit:
  assumes "unat page + unat shift < 32" "length ws = 1"
  shows "page_allocator_map_clear shift ws page = Inr [unset_bit (unat page + unat shift) (ws ! 0)]"
proof -
  obtain w where "ws = [w]" using assms(2) by (cases ws) auto
  then show ?thesis
    using assms(1) by (simp add: page_allocator_map_clear_def Let_def map_index unset_bit_eq_and_not)
qed

lemma owners_update_nth:
  assumes "distinct bs" "\<forall>b \<in> set bs. b < length owners" "\<And>ws. length ws = 1 \<Longrightarrow> f ws = Inr (g ws)"
    "\<forall>b \<in> set bs. length (owners ! b) = 1"
  shows "\<exists>owners'. owners_update f owners bs = Inr owners' \<and> length owners' = length owners \<and>
    (\<forall>c < length owners. owners' ! c = (if c \<in> set bs then g (owners ! c) else owners ! c))"
  using assms
proof (induction bs arbitrary: owners)
  case (Cons b bs)
  define o1 where "o1 = owners[b := g (owners ! b)]"
  have "owners_update f owners (b # bs) = owners_update f o1 bs"
    using Cons.prems by (simp add: o1_def)
  moreover obtain o2 where o2: "owners_update f o1 bs = Inr o2" "length o2 = length o1"
      "\<forall>c < length o1. o2 ! c = (if c \<in> set bs then g (o1 ! c) else o1 ! c)"
  proof -
    have "\<forall>c \<in> set bs. length (o1 ! c) = 1" using Cons.prems by (auto simp: o1_def nth_list_update_at)
    then show ?thesis using that Cons.IH [of o1] Cons.prems by (auto simp: o1_def)
  qed
  ultimately show ?case
    using Cons.prems by (intro exI [of _ o2]) (auto simp: o1_def nth_list_update_at)
qed simp

lemma owner_boxes_ok: "unat box < UVISOR_MAX_BOXES \<Longrightarrow> distinct (owner_boxes box)"
  "unat box < UVISOR_MAX_BOXES \<Longrightarrow> b \<in> set (owner_boxes box) \<Longrightarrow> b < UVISOR_MAX_BOXES"
  by (auto simp: owner_boxes_def split: if_splits)

lemma write32_frame: "\<not> in_words t 1 a \<Longrightarrow> write32 m t v a = m a"
  by (auto simp: write32_def in_words_def)

lemma in_words_Suc:
  assumes "\<not> in_words t (Suc n) a" "n < 16"
  shows "\<not> in_words t 1 a" "\<not> in_words (t + 4) n a"
proof -
  have ge: "4 * Suc n \<le> unat (a - t)" using assms(1) by (simp add: in_words_def)
  then show "\<not> in_words t 1 a" by (simp add: in_words_def)
  have "unat (a - (t + 4)) = unat (a - t) - 4"
    using ge unat_sub_if' [of "a - t" 4] unfolding diff_diff_eq [symmetric] by simp
  then show "\<not> in_words (t + 4) n a" using ge by (simp add: in_words_def)
qed

section \<open>Allocation is correct\<close>

lemma page_small: "maps_ok st \<Longrightarrow> p < pages st \<Longrightarrow> p < 16 \<and> p + unat (g_page_map_shift st) < 32"
  by (simp add: maps_ok_def page_consts)

lemma ucast_page: "p < 16 \<Longrightarrow> unat (ucast (of_nat p :: u32) :: u8) = p"
  by (simp add: unsigned_ucast_eq unat_of_nat_u32) (simp add: take_bit_eq_mod)

definition granted :: "page_allocator \<Rightarrow> page_allocator \<Rightarrow> nat set \<Rightarrow> nat set \<Rightarrow> bool" where
  "granted st st' bs N \<longleftrightarrow> same_geometry st st' \<and> g_page_count_free st' = g_page_count_free st \<and> maps_ok st' \<and>
     (\<forall>q < pages st. used st' q \<longleftrightarrow> used st q \<or> q \<in> N) \<and>
     (\<forall>b < UVISOR_MAX_BOXES. \<forall>q < pages st. owned st' b q \<longleftrightarrow> owned st b q \<or> (q \<in> N \<and> b \<in> bs))"

lemma malloc_page_step:
  assumes "maps_ok st" "p < pages st" "unat box < UVISOR_MAX_BOXES"
  shows "\<exists>st'. granted st st' (set (owner_boxes box)) {p} \<and>
    malloc_page acc box (of_nat p) t st m =
      (if acc True t 4 then
         let ptr = g_page_heap_start st + of_nat p * g_page_size st in
         Inr (st', write32 (zero_range m ptr (g_page_size st)) t ptr)
       else Inl Fault)"
proof -
  note small = page_small [OF assms(1,2)]
  define n where "n = p + unat (g_page_map_shift st)"
  have n: "n < 32" using small by (simp add: n_def)
  have idx: "unat (ucast (of_nat p :: u32) :: u8) + unat (g_page_map_shift st) = n"
    using small by (simp add: ucast_page n_def)
  have setb: "page_allocator_map_set (g_page_map_shift st) ws (ucast (of_nat p :: u32)) = Inr [set_bit n (ws ! 0)]"
    if "length ws = 1" for ws
    using map_set_bit [of "ucast (of_nat p :: u32)" "g_page_map_shift st" ws] that n unfolding idx by blast
  have len: "length (g_page_owner_map st) = UVISOR_MAX_BOXES" "\<forall>b < UVISOR_MAX_BOXES. length (g_page_owner_map st ! b) = 1"
    "length (g_page_usage_map st) = 1" "length (g_page_fault_table st) = 16" "pages st \<le> 16"
    using assms(1) by (simp_all add: maps_ok_def page_consts)
  obtain owners' where o: "owners_update (\<lambda>ws. page_allocator_map_set (g_page_map_shift st) ws (ucast (of_nat p :: u32)))
        (g_page_owner_map st) (owner_boxes box) = Inr owners'" "length owners' = UVISOR_MAX_BOXES"
      "\<forall>c < UVISOR_MAX_BOXES. owners' ! c = (if c \<in> set (owner_boxes box) then [set_bit n (g_page_owner_map st ! c ! 0)] else g_page_owner_map st ! c)"
    using owners_update_nth [where bs = "owner_boxes box" and owners = "g_page_owner_map st"
        and f = "\<lambda>ws. page_allocator_map_set (g_page_map_shift st) ws (ucast (of_nat p :: u32))" and g = "\<lambda>ws. [set_bit n (ws ! 0)]"]
      owner_boxes_ok [OF assms(3)] len setb by auto
  define st' where "st' = st\<lparr>g_page_usage_map := [set_bit n (g_page_usage_map st ! 0)], g_page_owner_map := owners',
    g_page_fault_table := (g_page_fault_table st)[p := 0]\<rparr>"
  have "ucast (of_nat p :: u32) < g_page_count_total st"
    using assms(2) small by (simp add: word_less_nat_alt ucast_page)
  then have "page_allocator_reset_faults (st\<lparr>g_page_usage_map := [set_bit n (g_page_usage_map st ! 0)], g_page_owner_map := owners'\<rparr>)
      (ucast (of_nat p :: u32)) = Inr st'"
    using small len by (simp add: page_allocator_reset_faults_def ucast_page st'_def)
  then have "malloc_page acc box (of_nat p) t st m =
      (if acc True t 4 then
         let ptr = g_page_heap_start st + of_nat p * g_page_size st in
         Inr (st', write32 (zero_range m ptr (g_page_size st)) t ptr)
       else Inl Fault)"
    using setb [OF len(3)] o(1)
    by (simp add: malloc_page_def Let_def vmpu_unpriv_uint32_write_def) (simp add: st'_def)
  moreover have "granted st st' (set (owner_boxes box)) {p}"
    using assms(1) o n unfolding granted_def
    by (auto simp: st'_def same_geometry_def maps_ok_def used_def owned_def bit_set_bit_iff n_def)
  ultimately show ?thesis by blast
qed

lemma granted_trans:
  "granted st st1 bs N \<Longrightarrow> granted st1 st2 bs N' \<Longrightarrow> granted st st2 bs (N \<union> N')"
  unfolding granted_def same_geometry_def by auto

lemma granted_refl: "maps_ok st \<Longrightarrow> granted st st bs {}"
  by (simp add: granted_def same_geometry_def)

lemma free_pages_Cons:
  "k < pages st \<Longrightarrow> free_pages st k = (if used st k then [] else [k]) @ free_pages st (Suc k)"
  by (simp add: free_pages_def upt_conv_Cons)

lemma malloc_loop_grants:
  assumes "maps_ok st" "k + n = pages st" "unat box < UVISOR_MAX_BOXES" "unat req \<le> 16"
  defines "N \<equiv> take (unat req) (free_pages st k)"
  shows "malloc_loop acc box n (of_nat k) req t st m = Inl Fault \<or>
    (\<exists>st' m'. malloc_loop acc box n (of_nat k) req t st m = Inr (st', m') \<and>
      granted st st' (set (owner_boxes box)) (set N) \<and>
      (\<forall>a. \<not> in_words t (unat req) a \<longrightarrow> m' a = (if \<exists>p \<in> set N. in_page st p a then 0 else m a)))"
  using assms(1-4) unfolding N_def
proof (induction n arbitrary: k req t st m)
  case 0
  have "k < 2 ^ 32" using page_small [of st] 0 by (simp add: maps_ok_def page_consts)
  then have "\<not> (of_nat k :: u32) < ucast (g_page_count_total st)"
    using 0 by (simp add: word_less_nat_alt unat_of_nat_u32 unsigned_ucast_eq)
  then show ?case using 0 by (auto simp: free_pages_def granted_refl)
next
  case (Suc n)
  then have kp: "k < pages st" by simp
  note small = page_small [OF Suc.prems(1) kp]
  have lt: "(of_nat k :: u32) < ucast (g_page_count_total st)"
    using kp small by (simp add: word_less_nat_alt unat_of_nat_u32 unsigned_ucast_eq)
      (simp add: take_bit_eq_mod order.strict_trans [OF unat_u8_lt])
  have get: "page_allocator_map_get (g_page_map_shift st) (g_page_usage_map st) (ucast (of_nat k :: u32)) = Inr (used st k)"
    using small Suc.prems(1) map_get_bit [of "ucast (of_nat k :: u32)" "g_page_map_shift st" "g_page_usage_map st"]
    by (simp add: ucast_page maps_ok_def used_def)
  have next_k: "of_nat k + 1 = (of_nat (Suc k) :: u32)" by simp
  consider "req = 0" | "req \<noteq> 0" "used st k" | "req \<noteq> 0" "\<not> used st k" by blast
  then show ?case
  proof cases
    case 1
    then show ?thesis using Suc.prems(1) by (auto simp: granted_refl)
  next
    case 2
    then have "malloc_loop acc box (Suc n) (of_nat k) req t st m = malloc_loop acc box n (of_nat (Suc k)) req t st m"
      using lt get by (simp add: next_k del: of_nat_Suc)
    then show ?thesis
      using Suc.IH [of st "Suc k" req t m] Suc.prems 2 free_pages_Cons [OF kp] by simp
  next
    case 3
    obtain st1 where st1: "granted st st1 (set (owner_boxes box)) {k}"
      and run: "malloc_page acc box (of_nat k) t st m =
        (if acc True t 4 then
           let ptr = g_page_heap_start st + of_nat k * g_page_size st in
           Inr (st1, write32 (zero_range m ptr (g_page_size st)) t ptr)
         else Inl Fault)"
      using malloc_page_step [OF Suc.prems(1) kp Suc.prems(3)] by blast
    show ?thesis
    proof (cases "acc True t 4")
      case False
      then show ?thesis using 3 lt get run by simp
    next
      case True
      define ptr where "ptr = g_page_heap_start st + of_nat k * g_page_size st"
      define m1 where "m1 = write32 (zero_range m ptr (g_page_size st)) t ptr"
      have step: "malloc_loop acc box (Suc n) (of_nat k) req t st m =
          malloc_loop acc box n (of_nat (Suc k)) (req - 1) (t + 4) st1 m1"
        using 3 lt get run True by (simp add: next_k m1_def ptr_def Let_def del: of_nat_Suc)
      have req: "unat req = Suc (unat (req - 1))"
        using 3(1) unat_minus_one [of req] by (simp add: unat_gt_0)
      have geo: "pages st1 = pages st" "maps_ok st1" "in_page st1 = in_page st"
        using st1 by (auto simp: granted_def same_geometry_def in_page_def fun_eq_iff)
      have "used st1 q = used st q" if "Suc k \<le> q" "q < pages st" for q
        using st1 that by (simp add: granted_def)
      then have fp: "free_pages st1 (Suc k) = free_pages st (Suc k)"
        using geo(1) unfolding free_pages_def by (intro filter_cong) auto
      have N: "take (unat req) (free_pages st k) = k # take (unat (req - 1)) (free_pages st (Suc k))"
        using free_pages_Cons [OF kp] 3(2) req by simp
      have m1_a: "m1 a = (if in_page st k a then 0 else m a)" if "\<not> in_words t 1 a" for a
        using that by (simp add: m1_def write32_frame zero_range_def in_page_def ptr_def)
      from Suc.IH [of st1 "Suc k" "req - 1" "t + 4" m1] Suc.prems geo req
      consider "malloc_loop acc box n (of_nat (Suc k)) (req - 1) (t + 4) st1 m1 = Inl Fault"
        | st' m' where "malloc_loop acc box n (of_nat (Suc k)) (req - 1) (t + 4) st1 m1 = Inr (st', m')"
          "granted st1 st' (set (owner_boxes box)) (set (take (unat (req - 1)) (free_pages st (Suc k))))"
          "\<forall>a. \<not> in_words (t + 4) (unat (req - 1)) a \<longrightarrow>
            m' a = (if \<exists>p \<in> set (take (unat (req - 1)) (free_pages st (Suc k))). in_page st p a then 0 else m1 a)"
        unfolding fp by (auto simp del: of_nat_Suc)
      then show ?thesis
      proof cases
        case 1
        then show ?thesis using step by simp
      next
        case 2
        have "granted st st' (set (owner_boxes box)) (set (take (unat req) (free_pages st k)))"
          using granted_trans [OF st1 2(2)] N by simp
        moreover have "m' a = (if \<exists>p \<in> set (take (unat req) (free_pages st k)). in_page st p a then 0 else m a)"
          if "\<not> in_words t (unat req) a" for a
          using 2(3) in_words_Suc [of t "unat (req - 1)" a] that req Suc.prems(4) m1_a [of a] unfolding N by auto
        ultimately show ?thesis using step 2(1) by auto
      qed
    qed
  qed
qed

lemma filter_not_take: "distinct xs \<Longrightarrow> filter (\<lambda>x. x \<notin> set (take n xs)) xs = drop n xs"
proof -
  assume d: "distinct xs"
  have "filter (\<lambda>x. x \<notin> set (take n xs)) (take n xs @ drop n xs) = drop n xs"
    using d by (subst filter_append) (auto simp: filter_empty_conv intro!: filter_True dest: set_take_disj_set_drop_if_distinct [of xs n n])
  then show ?thesis by simp
qed

lemma granted_pa_ok:
  assumes "pa_ok st" "unat box < UVISOR_MAX_BOXES" "granted (st\<lparr>g_page_count_free := c\<rparr>) st' (set (owner_boxes box)) (set N)"
    "N = take r (free_pages st 0)" "unat c = unat (g_page_count_free st) - r"
  shows "pa_ok st'"
proof -
  have frame: "pages st' = pages st" "g_page_size st' = g_page_size st" "g_page_heap_start st' = g_page_heap_start st"
    "g_page_heap_end st' = g_page_heap_end st" "g_page_count_free st' = c" "maps_ok st'"
    using assms(3) by (simp_all add: granted_def same_geometry_def)
  have used: "used st' q \<longleftrightarrow> used st q \<or> q \<in> set N" if "q < pages st" for q
    using assms(3) that by (simp add: granted_def) (simp add: used_def)
  have owned: "owned st' b q \<longleftrightarrow> owned st b q \<or> (q \<in> set N \<and> b \<in> set (owner_boxes box))"
    if "b < UVISOR_MAX_BOXES" "q < pages st" for b q
    using assms(3) that by (simp add: granted_def) (simp add: owned_def)
  have N: "q < pages st \<and> \<not> used st q" if "q \<in> set N" for q
    using that assms(4) set_take_subset [of r "free_pages st 0"] by (auto simp: free_pages_def)
  have "filter (\<lambda>p. \<not> used st' p) [0..<pages st] = filter (\<lambda>p. p \<notin> set N) (free_pages st 0)"
    using used unfolding free_pages_def filter_filter by (intro filter_cong) auto
  also have "\<dots> = drop r (free_pages st 0)"
    unfolding assms(4) by (rule filter_not_take) (simp add: free_pages_def)
  finally have count: "unat (g_page_count_free st') = length (free_pages st' 0)"
    using assms(1,5) frame(1,5) by (simp add: free_pages_def pa_ok_def ownership_ok_def)
  have own: "if used st q then (\<forall>b < UVISOR_MAX_BOXES. owned st b q) \<or>
        (\<exists>b. 0 < b \<and> b < UVISOR_MAX_BOXES \<and> (\<forall>c < UVISOR_MAX_BOXES. owned st c q \<longleftrightarrow> c = b))
      else \<forall>b < UVISOR_MAX_BOXES. \<not> owned st b q" if "q < pages st" for q
    using assms(1) that by (simp add: pa_ok_def ownership_ok_def)
  have boxes: "(\<forall>b < UVISOR_MAX_BOXES. b \<in> set (owner_boxes box)) \<or>
      (0 < unat box \<and> (\<forall>c < UVISOR_MAX_BOXES. c \<in> set (owner_boxes box) \<longleftrightarrow> c = unat box))"
    by (auto simp: owner_boxes_def unat_gt_0)
  have "if used st' q then (\<forall>b < UVISOR_MAX_BOXES. owned st' b q) \<or>
        (\<exists>b. 0 < b \<and> b < UVISOR_MAX_BOXES \<and> (\<forall>c < UVISOR_MAX_BOXES. owned st' c q \<longleftrightarrow> c = b))
      else \<forall>b < UVISOR_MAX_BOXES. \<not> owned st' b q" if "q < pages st" for q
    using own [OF that] used [OF that] owned [OF _ that] N [of q] boxes assms(2)
    by (cases "q \<in> set N") (auto split: if_splits)
  then show ?thesis
    using assms(1) frame count by (simp add: pa_ok_def ownership_ok_def geometry_ok_def)
qed

lemma unat_ucast_u8_u32: "unat (ucast (x :: u8) :: u32) = unat x"
  by (simp add: unsigned_ucast_eq) (simp add: take_bit_eq_mod order.strict_trans [OF unat_u8_lt])

lemma free_count_le: "pa_ok st \<Longrightarrow> unat (g_page_count_free st) = length (free_pages st 0) \<and> length (free_pages st 0) \<le> 16"
proof -
  assume ok: "pa_ok st"
  have "length (free_pages st 0) \<le> pages st"
    unfolding free_pages_def using length_filter_le [of _ "[0..<pages st]"] by simp
  then show ?thesis using ok by (simp add: pa_ok_def ownership_ok_def maps_ok_def page_consts)
qed


section \<open>Freeing is correct\<close>

definition revoked :: "page_allocator \<Rightarrow> page_allocator \<Rightarrow> nat set \<Rightarrow> nat set \<Rightarrow> bool" where
  "revoked st st' bs F \<longleftrightarrow> same_geometry st st' \<and> maps_ok st' \<and>
     (\<forall>q < pages st. used st' q \<longleftrightarrow> used st q \<and> q \<notin> F) \<and>
     (\<forall>b < UVISOR_MAX_BOXES. \<forall>q < pages st. owned st' b q \<longleftrightarrow> owned st b q \<and> \<not> (q \<in> F \<and> b \<in> bs))"

lemma free_page_step:
  assumes "maps_ok st" "unat idx < pages st" "unat box < UVISOR_MAX_BOXES"
  shows "\<exists>st'. free_page box idx st = Inr st' \<and> revoked st st' (set (owner_boxes box)) {unat idx} \<and>
    g_page_count_free st' = g_page_count_free st + 1"
proof -
  note small = page_small [OF assms(1,2)]
  define n where "n = unat idx + unat (g_page_map_shift st)"
  have clr: "page_allocator_map_clear (g_page_map_shift st) ws idx = Inr [unset_bit n (ws ! 0)]"
    if "length ws = 1" for ws
    using map_clear_bit [OF _ that] small by (simp add: n_def)
  have len: "length (g_page_owner_map st) = UVISOR_MAX_BOXES" "\<forall>b < UVISOR_MAX_BOXES. length (g_page_owner_map st ! b) = 1"
    "length (g_page_usage_map st) = 1"
    using assms(1) by (simp_all add: maps_ok_def)
  obtain owners' where o: "owners_update (\<lambda>ws. page_allocator_map_clear (g_page_map_shift st) ws idx)
        (g_page_owner_map st) (owner_boxes box) = Inr owners'" "length owners' = UVISOR_MAX_BOXES"
      "\<forall>c < UVISOR_MAX_BOXES. owners' ! c = (if c \<in> set (owner_boxes box) then [unset_bit n (g_page_owner_map st ! c ! 0)] else g_page_owner_map st ! c)"
    using owners_update_nth [where bs = "owner_boxes box" and owners = "g_page_owner_map st"
        and f = "\<lambda>ws. page_allocator_map_clear (g_page_map_shift st) ws idx" and g = "\<lambda>ws. [unset_bit n (ws ! 0)]"]
      owner_boxes_ok [OF assms(3)] len clr by auto
  define st' where "st' = st\<lparr>g_page_usage_map := [unset_bit n (g_page_usage_map st ! 0)], g_page_owner_map := owners',
    g_page_count_free := g_page_count_free st + 1\<rparr>"
  have "free_page box idx st = Inr st'" using clr [OF len(3)] o(1) by (simp add: free_page_def Let_def st'_def)
  moreover have "revoked st st' (set (owner_boxes box)) {unat idx}"
    using assms(1) o unfolding revoked_def
    by (auto simp: st'_def same_geometry_def maps_ok_def used_def owned_def bit_unset_bit_iff n_def)
  moreover have "g_page_count_free st' = g_page_count_free st + 1" by (simp add: st'_def)
  ultimately show ?thesis by blast
qed

text \<open>The caller is the public box, or owns only private pages.\<close>

definition frees_own_pages :: "page_allocator \<Rightarrow> u8 \<Rightarrow> bool" where
  "frees_own_pages st box \<longleftrightarrow> box = 0 \<or> (\<forall>p < pages st. owned st (unat box) p \<longrightarrow> \<not> owned st 0 p)"

lemma revoked_pa_ok:
  assumes ok: "pa_ok st" and box: "unat box < UVISOR_MAX_BOXES" and own: "frees_own_pages st box"
    and p: "p < pages st" "owned st (unat box) p"
    and rev: "revoked st st' (set (owner_boxes box)) {p}" "g_page_count_free st' = g_page_count_free st + 1"
  shows "pa_ok st'" "frees_own_pages st' box"
proof -
  have frame: "pages st' = pages st" "g_page_size st' = g_page_size st" "g_page_heap_start st' = g_page_heap_start st"
    "g_page_heap_end st' = g_page_heap_end st" "maps_ok st'"
    and us: "\<And>q. q < pages st \<Longrightarrow> used st' q \<longleftrightarrow> used st q \<and> q \<noteq> p"
    and ow: "\<And>b q. b < UVISOR_MAX_BOXES \<Longrightarrow> q < pages st \<Longrightarrow> owned st' b q \<longleftrightarrow> owned st b q \<and> \<not> (q = p \<and> b \<in> set (owner_boxes box))"
    using rev(1) by (simp_all add: revoked_def same_geometry_def)
  have inv: "if used st q then (\<forall>b < UVISOR_MAX_BOXES. owned st b q) \<or>
        (\<exists>b. 0 < b \<and> b < UVISOR_MAX_BOXES \<and> (\<forall>c < UVISOR_MAX_BOXES. owned st c q \<longleftrightarrow> c = b))
      else \<forall>b < UVISOR_MAX_BOXES. \<not> owned st b q" if "q < pages st" for q
    using ok that by (simp add: pa_ok_def ownership_ok_def)
  have pu: "used st p" using inv [OF p(1)] p(2) box by (auto split: if_splits)
  have none: "\<not> owned st' b p" if "b < UVISOR_MAX_BOXES" for b
  proof (cases "box = 0")
    case True
    then show ?thesis using ow [OF that p(1)] that by (simp add: owner_boxes_def)
  next
    case False
    then have "\<not> owned st 0 p" using own p by (simp add: frees_own_pages_def)
    then have "owned st b p \<longleftrightarrow> b = unat box"
      using inv [OF p(1)] pu p(2) box that by (auto simp: UVISOR_MAX_BOXES_def)
    then show ?thesis using ow [OF that p(1)] False by (simp add: owner_boxes_def)
  qed
  have cnt: "length (free_pages st 0) = card {q. q < pages st \<and> \<not> used st q}" for st
    unfolding free_pages_def by (simp add: distinct_length_filter) (rule arg_cong [of _ _ card], auto)
  have "{q. q < pages st \<and> \<not> used st' q} = insert p {q. q < pages st \<and> \<not> used st q}"
    using us p(1) by auto
  then have "length (free_pages st' 0) = Suc (length (free_pages st 0))"
    using pu unfolding cnt frame(1) by simp
  moreover have "unat (g_page_count_free st + 1) = Suc (unat (g_page_count_free st))"
    using free_count_le [OF ok] by (subst unat_plus_if') auto
  ultimately have count: "unat (g_page_count_free st') = length (free_pages st' 0)"
    using rev(2) free_count_le [OF ok] by simp
  have "if used st' q then (\<forall>b < UVISOR_MAX_BOXES. owned st' b q) \<or>
        (\<exists>b. 0 < b \<and> b < UVISOR_MAX_BOXES \<and> (\<forall>c < UVISOR_MAX_BOXES. owned st' c q \<longleftrightarrow> c = b))
      else \<forall>b < UVISOR_MAX_BOXES. \<not> owned st' b q" if "q < pages st" for q
    using inv [OF that] us [OF that] ow [OF _ that] none by (cases "q = p") (auto split: if_splits)
  then show "pa_ok st'"
    using ok frame count by (simp add: pa_ok_def ownership_ok_def geometry_ok_def)
  show "frees_own_pages st' box"
    using own ow [of "unat box"] ow [of 0] box frame(1) by (auto simp: frees_own_pages_def UVISOR_MAX_BOXES_def)
qed

lemma page_from_address:
  assumes "pa_ok st" "page_allocator_get_page_from_address st a = idx" "idx \<noteq> UVISOR_PAGE_UNUSED"
  shows "unat idx < pages st" "in_page st (unat idx) a"
proof -
  define s where "s = unat (g_page_heap_start st)"
  define z where "z = unat (g_page_size st)"
  have geo: "0 < z" "s + pages st * z < 2 ^ 32" "unat (g_page_heap_end st) = s + pages st * z" "pages st \<le> 16"
    using assms(1) by (simp_all add: pa_ok_def geometry_ok_def maps_ok_def page_consts s_def z_def)
  have a: "s \<le> unat a" "unat a < s + pages st * z"
    and idx: "idx = ucast ((a - g_page_heap_start st) div g_page_size st)"
    using assms(2,3) geo(3) by (auto simp: page_allocator_get_page_from_address_def word_less_nat_alt word_le_nat_alt s_def split: if_splits)
  have off: "unat (a - g_page_heap_start st) = unat a - s"
    using a(1) by (simp add: unat_sub_if' s_def)
  define q where "q = (unat a - s) div z"
  have q: "q < pages st" using a geo(1) by (simp add: q_def less_mult_imp_div_less)
  then have uq: "unat idx = q"
    using geo(4) off by (simp add: idx unsigned_ucast_eq unat_div_distrib q_def z_def take_bit_eq_mod)
  then show "unat idx < pages st" using q by simp
  have "q * z < pages st * z" using q geo(1) by simp
  then have lt: "s + q * z < 2 ^ 32" using geo(2) by linarith
  have "unat (g_page_heap_start st + of_nat q * g_page_size st) = s + q * z"
  proof -
    have "g_page_heap_start st + of_nat q * g_page_size st = of_nat (s + q * z)" by (simp add: s_def z_def)
    then show ?thesis using lt by (simp add: unat_of_nat_u32 del: of_nat_add of_nat_mult)
  qed
  moreover have "s + q * z \<le> unat a" "unat a - (s + q * z) < z"
  proof -
    have "q * z \<le> unat a - s" "unat a - s < q * z + z"
      using geo(1) by (simp_all add: q_def dividend_less_times_div div_times_less_eq_dividend add.commute mult.commute)
    then show "s + q * z \<le> unat a" "unat a - (s + q * z) < z" using a(1) by linarith+
  qed
  ultimately show "in_page st (unat idx) a"
    by (simp add: in_page_def uq unat_sub_if' z_def)
qed

lemma page_base:
  assumes "pa_ok st" "p < pages st"
  shows "unat (g_page_heap_start st + of_nat p * g_page_size st) = unat (g_page_heap_start st) + p * unat (g_page_size st)"
    "unat (g_page_heap_start st) + p * unat (g_page_size st) + unat (g_page_size st) \<le> unat (g_page_heap_end st)"
    "unat (g_page_heap_end st) < 2 ^ 32"
proof -
  define s where "s = unat (g_page_heap_start st)"
  define z where "z = unat (g_page_size st)"
  have geo: "s + pages st * z < 2 ^ 32" "unat (g_page_heap_end st) = s + pages st * z"
    using assms(1) by (simp_all add: pa_ok_def geometry_ok_def s_def z_def)
  have "Suc p * z \<le> pages st * z" using assms(2) by (intro mult_right_mono) auto
  then have le: "s + p * z + z \<le> s + pages st * z" by simp
  then have lt: "s + p * z < 2 ^ 32" using geo(1) by linarith
  have "g_page_heap_start st + of_nat p * g_page_size st = of_nat (s + p * z)" by (simp add: s_def z_def)
  then show "unat (g_page_heap_start st + of_nat p * g_page_size st) = unat (g_page_heap_start st) + p * unat (g_page_size st)"
    using lt by (simp add: unat_of_nat_u32 s_def z_def del: of_nat_add of_nat_mult)
  show "unat (g_page_heap_start st) + p * unat (g_page_size st) + unat (g_page_size st) \<le> unat (g_page_heap_end st)"
    using le geo(2) by (simp add: s_def z_def)
  show "unat (g_page_heap_end st) < 2 ^ 32" using geo by simp
qed

lemma page_from_address_complete:
  assumes "pa_ok st" "p < pages st" "in_page st p a"
  shows "page_allocator_get_page_from_address st a = of_nat p" "p < 16"
proof -
  define s where "s = unat (g_page_heap_start st)"
  define z where "z = unat (g_page_size st)"
  note base = page_base [OF assms(1,2), folded s_def z_def]
  show p16: "p < 16" using assms by (simp add: pa_ok_def maps_ok_def page_consts)
  have "unat (a - (g_page_heap_start st + of_nat p * g_page_size st)) < z" using assms(3) by (simp add: in_page_def z_def)
  then have a: "s + p * z \<le> unat a" "unat a < s + p * z + z"
    using base by (simp_all add: unat_sub_if' split: if_splits)
  have off: "unat (a - g_page_heap_start st) = unat a - s" using a by (simp add: unat_sub_if' s_def)
  have "(unat a - s) div z = p" using a by (intro div_nat_eqI) (auto simp: mult.commute)
  then have "unat ((a - g_page_heap_start st) div g_page_size st) = p" by (simp add: unat_div off z_def)
  then have "ucast ((a - g_page_heap_start st) div g_page_size st) = (of_nat p :: u8)"
    by (metis of_nat_unat)
  moreover have "\<not> a < g_page_heap_start st" "\<not> g_page_heap_end st \<le> a"
    using a base by (simp_all add: word_less_nat_alt word_le_nat_alt s_def)
  ultimately show "page_allocator_get_page_from_address st a = of_nat p"
    by (simp add: page_allocator_get_page_from_address_def)
qed

lemma active_mask_iff:
  assumes "pa_ok st" "unat box < UVISOR_MAX_BOXES"
  shows "\<exists>rc found. page_allocator_get_active_mask_for_address st box a = Inr (rc, found) \<and>
    (found \<noteq> None \<longleftrightarrow> (\<exists>p < pages st. owned st (unat box) p \<and> in_page st p a)) \<and>
    (\<forall>m i p. found = Some (m, i, p) \<longrightarrow> unat p < pages st)"
proof (cases "page_allocator_get_page_from_address st a = UVISOR_PAGE_UNUSED")
  case True
  have "\<not> (\<exists>p < pages st. in_page st p a)"
  proof
    assume "\<exists>p < pages st. in_page st p a"
    then obtain p where "of_nat p = UVISOR_PAGE_UNUSED" "p < 16" using page_from_address_complete [OF assms(1)] True by metis
    then have "unat (of_nat p :: u8) = unat UVISOR_PAGE_UNUSED" by simp
    then show False using \<open>p < 16\<close> by (simp add: UVISOR_PAGE_UNUSED_def UVISOR_BOX_ID_INVALID_def)
  qed
  then show ?thesis using True by (auto simp: page_allocator_get_active_mask_for_address_def)
next
  case False
  define p where "p = page_allocator_get_page_from_address st a"
  note here = page_from_address [OF assms(1) p_def [symmetric] False [folded p_def]]
  have uniq: "q = unat p" if "q < pages st" "in_page st q a" for q
    using page_from_address_complete [OF assms(1) that] by (simp add: p_def)
  have maps: "maps_ok st" using assms(1) by (simp add: pa_ok_def)
  have shift: "unat p + unat (g_page_map_shift st) < 32" using page_small [OF maps here(1)] by simp
  have len: "length (g_page_owner_map st ! unat box) = 1" "length (g_page_owner_map st) = UVISOR_MAX_BOXES"
    using maps assms(2) by (simp_all add: maps_ok_def)
  have "owned st (unat box) (unat p) \<longleftrightarrow> (\<exists>q < pages st. owned st (unat box) q \<and> in_page st q a)"
    using here uniq by blast
  then show ?thesis
    using False here(1) len assms(2) shift unfolding page_allocator_get_active_mask_for_address_def p_def [symmetric] Let_def
    by (simp add: map_get_bit map_index owned_def) blast
qed

lemma revoked_trans:
  "revoked st st1 bs F \<Longrightarrow> revoked st1 st2 bs F' \<Longrightarrow> revoked st st2 bs (F \<union> F')"
  unfolding revoked_def same_geometry_def by auto

lemma free_loop_revokes:
  assumes "pa_ok st" "unat box < UVISOR_MAX_BOXES" "frees_own_pages st box"
  shows "free_loop acc box n t st m = Inl Fault \<or>
    (\<exists>rc st' F. free_loop acc box n t st m = Inr (rc, st') \<and> pa_ok st' \<and> finite F \<and>
      (\<forall>p \<in> F. p < pages st \<and> owned st (unat box) p) \<and> (rc = UVISOR_ERROR_PAGE_OK \<longrightarrow> card F = n) \<and>
      revoked st st' (set (owner_boxes box)) F)"
  using assms
proof (induction n arbitrary: t st)
  case 0
  then have "revoked st st (set (owner_boxes box)) {}" by (simp add: revoked_def same_geometry_def pa_ok_def)
  then show ?case using 0 by (intro disjI2 exI [of _ UVISOR_ERROR_PAGE_OK] exI [of _ st] exI [of _ "{}"]) simp
next
  case (Suc n)
  have refl: "revoked st st (set (owner_boxes box)) {}" using Suc.prems by (simp add: revoked_def same_geometry_def pa_ok_def)
  define idx where "idx = page_allocator_get_page_from_address st (read32 m t)"
  have len: "length (g_page_owner_map st) = UVISOR_MAX_BOXES" "length (g_page_owner_map st ! unat box) = 1"
    using Suc.prems by (simp_all add: pa_ok_def maps_ok_def)
  consider "\<not> acc False t 4" | "acc False t 4" "idx = UVISOR_PAGE_UNUSED"
    | "acc False t 4" "idx \<noteq> UVISOR_PAGE_UNUSED" "\<not> owned st (unat box) (unat idx)"
    | "acc False t 4" "idx \<noteq> UVISOR_PAGE_UNUSED" "owned st (unat box) (unat idx)" by blast
  then show ?case
  proof cases
    case 1
    then show ?thesis by (simp add: vmpu_unpriv_uint32_read_def)
  next
    case 2
    then have "free_loop acc box (Suc n) t st m = Inr (UVISOR_ERROR_PAGE_INVALID_PAGE_ORIGIN, st)"
      by (simp add: vmpu_unpriv_uint32_read_def idx_def)
    then show ?thesis using Suc.prems refl by (intro disjI2 exI [of _ UVISOR_ERROR_PAGE_INVALID_PAGE_ORIGIN] exI [of _ st] exI [of _ "{}"]) (simp add: page_errors)
  next
    case 3
    have p: "unat idx < pages st" using page_from_address(1) [OF Suc.prems(1) idx_def [symmetric] 3(2)] .
    have "page_allocator_map_get (g_page_map_shift st) (g_page_owner_map st ! unat box) idx = Inr (owned st (unat box) (unat idx))"
      using map_get_bit [OF _ len(2)] page_small [of st, OF _ p] Suc.prems(1) by (simp add: pa_ok_def owned_def)
    then have "free_loop acc box (Suc n) t st m = Inr (UVISOR_ERROR_PAGE_INVALID_PAGE_OWNER, st)"
      using 3 len Suc.prems(2) by (simp add: vmpu_unpriv_uint32_read_def Let_def flip: idx_def)
    then show ?thesis using Suc.prems refl by (intro disjI2 exI [of _ UVISOR_ERROR_PAGE_INVALID_PAGE_OWNER] exI [of _ st] exI [of _ "{}"]) (simp add: page_errors)
  next
    case 4
    have p: "unat idx < pages st" using page_from_address(1) [OF Suc.prems(1) idx_def [symmetric] 4(2)] .
    have get: "page_allocator_map_get (g_page_map_shift st) (g_page_owner_map st ! unat box) idx = Inr (owned st (unat box) (unat idx))"
      using map_get_bit [OF _ len(2)] page_small [of st, OF _ p] Suc.prems(1) by (simp add: pa_ok_def owned_def)
    obtain st1 where st1: "free_page box idx st = Inr st1" "revoked st st1 (set (owner_boxes box)) {unat idx}"
        "g_page_count_free st1 = g_page_count_free st + 1"
      using free_page_step [of st idx box] Suc.prems p by (auto simp: pa_ok_def)
    note ok1 = revoked_pa_ok [OF Suc.prems p 4(3) st1(2,3)]
    have step: "free_loop acc box (Suc n) t st m = free_loop acc box n (t + 4) st1 m"
      using 4 len Suc.prems(2) get st1(1) by (simp add: vmpu_unpriv_uint32_read_def Let_def flip: idx_def)
    have own1: "\<not> owned st1 (unat box) (unat idx)" "\<And>q. q < pages st \<Longrightarrow> owned st1 (unat box) q \<Longrightarrow> owned st (unat box) q" "pages st1 = pages st"
      using st1(2) Suc.prems(2) p by (auto simp: revoked_def same_geometry_def owner_boxes_def)
    from Suc.IH [OF ok1(1) Suc.prems(2) ok1(2), of "t + 4"]
    consider "free_loop acc box n (t + 4) st1 m = Inl Fault"
      | rc st' F where "free_loop acc box n (t + 4) st1 m = Inr (rc, st')" "pa_ok st'" "finite F"
        "\<forall>p \<in> F. p < pages st1 \<and> owned st1 (unat box) p" "rc = UVISOR_ERROR_PAGE_OK \<longrightarrow> card F = n"
        "revoked st1 st' (set (owner_boxes box)) F"
      by blast
    then show ?thesis
    proof cases
      case 1
      then show ?thesis using step by simp
    next
      case 2
      have new: "unat idx \<notin> F" using 2(4) own1(1) by auto
      show ?thesis
        using step 2 new own1 p 4(3) revoked_trans [OF st1(2) 2(6)]
        by (intro disjI2 exI [of _ rc] exI [of _ st'] exI [of _ "insert (unat idx) F"]) auto
    qed
  qed
qed


section \<open>Initialisation is correct on every port\<close>

context region_geometry
begin

lemma shift_bounds:
  assumes "unat (tot :: u8) \<le> 16" "unat sz * 8 < 2 ^ 32" "is_region_size_valid (sz * 8)"
    "unat hend + unat sz * 8 \<le> 2 ^ 32"
  defines "shift \<equiv> of_nat (UVISOR_PAGE_MAP_COUNT * 32) - tot - ucast ((round_up_region hend (sz * 8) - hend) div sz)"
  shows "unat shift + unat tot \<le> 32"
proof -
  have s8: "unat (sz * 8) = unat sz * 8" using assms(2) by (simp add: unat_word_ariths)
  define r where "r = round_up_region hend (sz * 8)"
  have r: "unat hend \<le> unat r" "unat r < unat hend + unat sz * 8"
    using round_up_bounds [OF assms(3), of hend] assms(4) s8 by (simp_all add: r_def)
  have "unat (r - hend) = unat r - unat hend" using r(1) by (simp add: unat_sub_if')
  then have "unat ((r - hend) div sz) = (unat r - unat hend) div unat sz" by (simp add: unat_div_distrib)
  also have "\<dots> < 8"
  proof -
    have "unat r - unat hend < 8 * unat sz" using r by linarith
    then show ?thesis by (rule less_mult_imp_div_less)
  qed
  finally have k: "unat (ucast ((r - hend) div sz) :: u8) < 8"
    by (simp add: unsigned_ucast_eq take_bit_eq_mod)
  have "unat ((32 :: u8) - tot) = 32 - unat tot" using assms(1) by (simp add: unat_sub_if')
  then have "unat ((32 :: u8) - tot - ucast ((r - hend) div sz)) = 32 - unat tot - unat (ucast ((r - hend) div sz) :: u8)"
    using k assms(1) by (subst unat_sub_if') simp
  then show ?thesis using assms(1) by (simp add: shift_def page_consts r_def)
qed

lemma page_allocator_init_state:
  assumes "page_allocator_init is_region_size_valid round_up_region cfg st h_start h_end ps_ptr sz = Inr st'"
    "unat h_end + 9 * unat sz < 2 ^ 32"
  shows "\<exists>start heap (tot :: u8).
    unat h_start \<le> unat start \<and> unat start < unat h_start + unat sz \<and> unat h_start \<le> unat h_end \<and> 0 < unat sz \<and>
    unat start \<le> unat heap \<and> unat tot \<le> 16 \<and>
    (unat tot = 0 \<and> heap = start \<or> 0 < unat tot \<and> unat heap + unat tot * unat sz \<le> unat h_end) \<and>
    g_page_heap_start st' = heap \<and> g_page_heap_end st' = heap + ucast tot * sz \<and> g_page_size st' = sz \<and>
    g_page_count_total st' = tot \<and> g_page_count_free st' = tot \<and>
    g_page_map_shift st' = of_nat (UVISOR_PAGE_MAP_COUNT * 32) - tot -
      ucast ((round_up_region (heap + ucast tot * sz) (sz * 8) - (heap + ucast tot * sz)) div sz) \<and>
    g_page_owner_map st' = replicate UVISOR_MAX_BOXES (replicate UVISOR_PAGE_MAP_COUNT 0) \<and>
    g_page_usage_map st' = replicate UVISOR_PAGE_MAP_COUNT 0 \<and> g_page_fault_table st' = g_page_fault_table st"
proof -
  define start where "start = round_up_region h_start sz"
  define total0 :: u8 where "total0 = (if start > 0xFFFFFFFF - sz \<or> start + sz > h_end then 0 else ucast ((h_end - start) div sz))"
  define heap where "heap = (if unat total0 > 16 then start + of_nat (unat total0 - 16) * sz else start)"
  define tot :: u8 where "tot = (if unat total0 > 16 then 16 else total0)"
  have valid: "is_region_size_valid sz" "start \<noteq> 0" "h_start \<le> h_end"
    and st': "st' = st\<lparr>g_page_owner_map := replicate UVISOR_MAX_BOXES (replicate UVISOR_PAGE_MAP_COUNT 0),
       g_page_usage_map := replicate UVISOR_PAGE_MAP_COUNT 0, g_page_size := sz, g_page_heap_start := heap,
       g_page_heap_end := heap + ucast tot * sz, g_page_count_free := tot, g_page_count_total := tot,
       g_page_map_shift := of_nat (UVISOR_PAGE_MAP_COUNT * 32) - tot -
         ucast ((round_up_region (heap + ucast tot * sz) (sz * 8) - (heap + ucast tot * sz)) div sz),
       g_page_head_end_rounded := round_up_region (heap + ucast tot * sz) (sz * 8)\<rparr>"
    using assms(1) unfolding page_allocator_init_def total0_def heap_def tot_def start_def
    by (auto simp: Let_def UVISOR_PAGE_MAX_COUNT_def not_less split: if_splits)
  have start: "unat h_start \<le> unat start" "unat start < unat h_start + unat sz"
    using round_up_nonzero [of h_start sz] valid(2) by (simp_all add: start_def)
  have sz: "32 \<le> unat sz" using size_valid_range [OF valid(1)] by simp
  have none: "heap = start" "tot = 0" if "total0 = 0" using that by (simp_all add: heap_def tot_def)
  have some: "0 < unat tot" "unat start \<le> unat heap" "unat heap + unat tot * unat sz \<le> unat h_end" if nz: "total0 \<noteq> 0"
  proof -
    define Q where "Q = (unat h_end - unat start) div unat sz"
    from nz have c: "start \<le> 0xFFFFFFFF - sz" "start + sz \<le> h_end" "total0 = ucast ((h_end - start) div sz)"
      by (auto simp: total0_def not_less split: if_splits)
    have "unat (0xFFFFFFFF - sz) = 0xFFFFFFFF - unat sz"
      using assms(2) by (subst unat_sub_if') simp
    then have "unat (start + sz) = unat start + unat sz"
      using c(1) assms(2) by (subst unat_plus_if') (simp add: word_le_nat_alt)
    then have le: "unat start + unat sz \<le> unat h_end" using c(2) by (simp add: word_le_nat_alt)
    then have "unat ((h_end - start) div sz) = Q" by (simp add: unat_div_distrib unat_sub_if' Q_def)
    then have t0: "unat total0 = Q mod 256" by (simp add: c(3) unsigned_ucast_eq take_bit_eq_mod)
    have "Q * unat sz \<le> unat h_end - unat start" by (simp add: Q_def)
    moreover have "unat total0 * unat sz \<le> Q * unat sz" by (simp add: t0)
    ultimately have fit: "unat start + unat total0 * unat sz \<le> unat h_end" using le by linarith
    have pos: "0 < unat total0" using nz by (simp add: unat_gt_0)
    show "0 < unat tot" using pos by (simp add: tot_def)
    show "unat start \<le> unat heap" "unat heap + unat tot * unat sz \<le> unat h_end"
    proof (atomize (full), cases "unat total0 > 16")
      case False
      then show "unat start \<le> unat heap \<and> unat heap + unat tot * unat sz \<le> unat h_end" using fit by (simp add: heap_def tot_def)
    next
      case True
      define d where "d = unat total0 - 16"
      have d: "unat total0 = d + 16" using True by (simp add: d_def)
      have fit': "unat start + d * unat sz + 16 * unat sz \<le> unat h_end" using fit by (simp add: d algebra_simps)
      have "heap = of_nat (unat start + d * unat sz)" using True by (simp add: heap_def d_def)
      then have "unat heap = unat start + d * unat sz"
        using fit' assms(2) by (simp add: unat_of_nat_u32 del: of_nat_add of_nat_mult)
      then show "unat start \<le> unat heap \<and> unat heap + unat tot * unat sz \<le> unat h_end"
        using True fit' by (simp add: tot_def)
    qed
  qed
  have t16: "unat tot \<le> 16" by (simp add: tot_def)
  have cases: "unat tot = 0 \<and> heap = start \<or> 0 < unat tot \<and> unat heap + unat tot * unat sz \<le> unat h_end"
    "unat start \<le> unat heap"
    using none some by (cases "total0 = 0"; simp)+
  have fields: "g_page_heap_start st' = heap" "g_page_heap_end st' = heap + ucast tot * sz" "g_page_size st' = sz"
    "g_page_count_total st' = tot" "g_page_count_free st' = tot"
    "g_page_map_shift st' = of_nat (UVISOR_PAGE_MAP_COUNT * 32) - tot -
      ucast ((round_up_region (heap + ucast tot * sz) (sz * 8) - (heap + ucast tot * sz)) div sz)"
    "g_page_owner_map st' = replicate UVISOR_MAX_BOXES (replicate UVISOR_PAGE_MAP_COUNT 0)"
    "g_page_usage_map st' = replicate UVISOR_PAGE_MAP_COUNT 0" "g_page_fault_table st' = g_page_fault_table st"
    by (simp_all add: st')
  show ?thesis
    using start sz valid(3) cases t16 fields
    by (intro exI [of _ start] exI [of _ heap] exI [of _ tot]) (simp add: word_le_nat_alt)
qed

lemma page_allocator_init_ok:
  assumes "page_allocator_init is_region_size_valid round_up_region cfg st h_start h_end ps_ptr sz = Inr st'"
    "unat h_end + 9 * unat sz < 2 ^ 32" "is_region_size_valid (sz * 8)"
    "length (g_page_fault_table st) = UVISOR_PAGE_MAX_COUNT"
  shows "pa_ok st' \<and> (\<forall>p < pages st'. \<not> used st' p) \<and> unat h_start \<le> unat (g_page_heap_start st') \<and>
    (0 < pages st' \<longrightarrow> unat (g_page_heap_end st') \<le> unat h_end)"
proof -
  from page_allocator_init_state [OF assms(1,2)] obtain start heap and tot :: u8 where
    start: "unat h_start \<le> unat start" "unat start < unat h_start + unat sz" "unat h_start \<le> unat h_end" "0 < unat sz"
      "unat start \<le> unat heap" "unat tot \<le> 16"
      "unat tot = 0 \<and> heap = start \<or> 0 < unat tot \<and> unat heap + unat tot * unat sz \<le> unat h_end"
    and f: "g_page_heap_start st' = heap" "g_page_heap_end st' = heap + ucast tot * sz" "g_page_size st' = sz"
      "g_page_count_total st' = tot" "g_page_count_free st' = tot"
      "g_page_map_shift st' = of_nat (UVISOR_PAGE_MAP_COUNT * 32) - tot -
        ucast ((round_up_region (heap + ucast tot * sz) (sz * 8) - (heap + ucast tot * sz)) div sz)"
      "g_page_owner_map st' = replicate UVISOR_MAX_BOXES (replicate UVISOR_PAGE_MAP_COUNT 0)"
      "g_page_usage_map st' = replicate UVISOR_PAGE_MAP_COUNT 0" "g_page_fault_table st' = g_page_fault_table st"
    by blast
  have fit: "unat heap + unat tot * unat sz < unat h_end + unat sz" using start by auto
  have "heap + ucast tot * sz = of_nat (unat heap + unat tot * unat sz)"
    by (simp add: unat_ucast_u8_u32 [symmetric] del: unat_ucast_u8_u32)
  then have hend: "unat (heap + ucast tot * sz) = unat heap + unat tot * unat sz"
    using fit assms(2) by (simp add: unat_of_nat_u32 del: of_nat_add of_nat_mult)
  have "unat (g_page_map_shift st') + unat tot \<le> 32"
    unfolding f(6) using start(6) assms(2,3) hend fit by (intro shift_bounds) auto
  then have "maps_ok st'"
    using start(6) f assms(4) by (simp add: maps_ok_def page_consts)
  moreover have "geometry_ok st'"
    using start(4) f hend fit assms(2) by (simp add: geometry_ok_def)
  moreover have none: "\<not> used st' p" "b < UVISOR_MAX_BOXES \<Longrightarrow> \<not> owned st' b p" for b p
    by (simp_all add: used_def owned_def f page_consts)
  ultimately have "pa_ok st'"
    using f by (simp add: pa_ok_def ownership_ok_def free_pages_def)
  then show ?thesis using none start f hend by auto
qed

end

section \<open>A public page freed by another box\<close>

text \<open>
  One page of 1 kB at \<open>0x20001000\<close>, allocated by the public box and therefore owned by every box;
  the page table of the caller is at \<open>0x20008000\<close> and names that page.
\<close>

definition example_pages :: page_allocator where
  "example_pages = \<lparr>g_page_owner_map = [[0x80000000], [0x80000000], [0x80000000], [0x80000000], [0x80000000]], g_page_usage_map = [0x80000000], g_page_size = 1024,
     g_page_heap_start = 0x20001000, g_page_heap_end = 0x20001400, g_page_count_free = 0, g_page_count_total = 1,
     g_page_map_shift = 31, g_page_head_end_rounded = 0x20001400, g_page_fault_table = replicate 16 0\<rparr>"

definition example_table :: mem where
  "example_table = write32 (write32 (write32 (\<lambda>_. 0) 0x20008000 1024) 0x20008004 1) 0x20008008 0x20001000"

text \<open>The same allocator while the page is still free.\<close>

definition example_free_pages :: page_allocator where
  "example_free_pages = example_pages\<lparr>g_page_owner_map := [[0], [0], [0], [0], [0]], g_page_usage_map := [0], g_page_count_free := 1\<rparr>"

lemmas example_pages_defs = pa_ok_def maps_ok_def geometry_ok_def ownership_ok_def example_pages_def example_free_pages_def
  page_consts used_def owned_def free_pages_def less_5_cases

lemma example_pages_ok: "pa_ok example_pages" "pa_ok example_free_pages"
  by (simp_all add: example_pages_defs)

lemma example_table_reads:
  "read32 example_table 0x20008000 = 1024" "read32 example_table 0x20008004 = 1" "read32 example_table 0x20008008 = 0x20001000"
  by (simp_all add: example_table_def read32_def write32_def)

text \<open>
  A page of the public box that another box frees is not taken away from the others. Box 1 frees
  a page that box 0 allocated (so every box owns it); the call succeeds, the page counts as free,
  and yet boxes 0, 2, 3 and 4 still own it, so the next private allocation of the page is shared
  with them. The page belongs to no box only after its owner, box 0, frees it.
\<close>

theorem page_allocator_free_leaves_public_owners:
  "\<exists>st'. page_allocator_free (\<lambda>_ _ _. True) 1 example_pages example_table 0x20008000 = Inr (UVISOR_ERROR_PAGE_OK, st') \<and>
    pa_ok example_pages \<and> \<not> used st' 0 \<and> \<not> owned st' 1 0 \<and> owned st' 0 0 \<and> owned st' 2 0 \<and> owned st' 3 0 \<and> owned st' 4 0"
proof -
  have "page_allocator_free (\<lambda>_ _ _. True) 1 example_pages example_table 0x20008000 =
      Inr (UVISOR_ERROR_PAGE_OK, example_pages\<lparr>g_page_usage_map := [0], g_page_count_free := 1,
        g_page_owner_map := [[0x80000000], [0], [0x80000000], [0x80000000], [0x80000000]]\<rparr>)"
    by (simp add: page_allocator_free_def vmpu_unpriv_uint32_read_def example_table_reads example_pages_def
        page_allocator_get_page_from_address_def page_consts page_allocator_map_get_def free_page_def
        page_allocator_map_clear_def owner_boxes_def Let_def)
  then show ?thesis
    using example_pages_ok by (simp add: used_def owned_def example_pages_def)
qed



end
