(* ===== verification/Vmpu_Armv7m.thy ===== *)
theory Vmpu_Armv7m
  imports Mpu_Armv7m Page_Allocator
begin

text \<open>
  The ARMv7-M port, \<^verbatim>\<open>core/vmpu/src/mpu_armv7m/vmpu_armv7m.c\<close>: finding the region of a faulting
  address, recovering from memory management faults, switching the hardware regions between boxes,
  laying out the SRAM of a secure box, the static regions, and the search for the order of the
  boxes that wastes the least memory.
\<close>

unbundle bit_operations_syntax

section \<open>State\<close>

text \<open>The MPU driver, the page allocator, \<open>g_active_box\<close> and the static offset of \<open>vmpu_acl_sram\<close>.\<close>

record v7m_state =
  v_mpu :: mpu_state
  v_pages :: page_allocator
  active_box :: u8
  box_mem_pos :: u32

section \<open>Faults\<close>

definition vmpu_fault_find_region :: "v7m_state \<Rightarrow> u32 \<Rightarrow> nat option res" where
  "vmpu_fault_find_region st fault_addr =
     bind_res
       (if active_box st \<noteq> 0 then vmpu_region_find_for_address (v_mpu st) (active_box st) fault_addr
        else Inr None)
       (\<lambda>region.
         if region \<noteq> None then Inr region
         else vmpu_region_find_for_address (v_mpu st) 0 fault_addr)"

definition SCB_SCR_ADDRESS :: u32 where "SCB_SCR_ADDRESS = 0xE000ED10"

definition vmpu_fault_find_acl :: "v7m_state \<Rightarrow> u32 \<Rightarrow> u32 \<Rightarrow> u32 res" where
  "vmpu_fault_find_acl st fault_addr sz =
     (if fault_addr = SCB_SCR_ADDRESS then Inr (UVISOR_TACL_UWRITE OR UVISOR_TACL_UREAD)
      else
        let fault_addr =
          (if fault_addr \<ge> VMPU_PERIPH_BITBAND_START \<and> fault_addr \<le> VMPU_PERIPH_BITBAND_END
           then VMPU_PERIPH_BITBAND_ALIAS_TO_ADDR fault_addr
           else if fault_addr \<ge> VMPU_SRAM_BITBAND_START \<and> fault_addr \<le> VMPU_SRAM_BITBAND_END
           then VMPU_SRAM_BITBAND_ALIAS_TO_ADDR fault_addr
           else fault_addr) in
        bind_res (vmpu_fault_find_region st fault_addr) (\<lambda>region.
        case region of
          None \<Rightarrow> Inr 0
        | Some i \<Rightarrow>
            bind_res (arr_get (g_mpu_region (v_mpu st)) i) (\<lambda>region.
            if fault_addr + sz > region_end region then Inr 0
            else Inr (region_acl region))))"

text \<open>The iterator pushes one region and stops the iteration.\<close>

definition vmpu_mem_push_page_acl_iterator :: "page_allocator \<Rightarrow> u8 \<Rightarrow> u8 \<Rightarrow> mpu_state \<Rightarrow> (bool \<times> mpu_state) res" where
  "vmpu_mem_push_page_acl_iterator pa page_mask index mpu =
     (let sz = g_page_size pa * 8 in
      bind_res (vmpu_region_translate_acl (g_page_head_end_rounded pa - sz * (ucast index + 1)) sz
        (UVISOR_TACLDEF_DATA OR UVISOR_TACL_EXECUTE) (NOT (ucast page_mask))) (\<lambda>(region, rounded_size).
      bind_res (vmpu_mpu_push mpu region 100) (\<lambda>(placed, mpu).
      Inr (False, mpu))))"

definition SCB_CFSR_MMARVALID_Msk :: u32 where "SCB_CFSR_MMARVALID_Msk = push_bit 7 1"
definition SCB_CFSR_MSTKERR_Msk :: u32 where "SCB_CFSR_MSTKERR_Msk = push_bit 4 1"
definition SCB_CFSR_MUNSTKERR_Msk :: u32 where "SCB_CFSR_MUNSTKERR_Msk = push_bit 3 1"
definition SCB_CFSR_DACCVIOL_Msk :: u32 where "SCB_CFSR_DACCVIOL_Msk = push_bit 1 1"

lemmas cfsr_masks = SCB_CFSR_MMARVALID_Msk_def SCB_CFSR_MSTKERR_Msk_def SCB_CFSR_MUNSTKERR_Msk_def
  SCB_CFSR_DACCVIOL_Msk_def

text \<open>The result is whether the fault was recovered; the program counter and stack pointer are not used.\<close>

definition vmpu_fault_recovery_mpu :: "v7m_state \<Rightarrow> u32 \<Rightarrow> u32 \<Rightarrow> u32 \<Rightarrow> u32 \<Rightarrow> (bool \<times> v7m_state) res" where
  "vmpu_fault_recovery_mpu st pc sp fault_addr fault_status =
     (if \<not> (fault_status = SCB_CFSR_MMARVALID_Msk OR SCB_CFSR_DACCVIOL_Msk \<or>
            fault_status AND (SCB_CFSR_MSTKERR_Msk OR SCB_CFSR_MUNSTKERR_Msk) \<noteq> 0)
      then Inr (False, st)
      else
        bind_res (page_allocator_get_active_mask_for_address (v_pages st) (active_box st) fault_addr) (\<lambda>(rc, found).
        case found of
          Some (page_mask, index, page) \<Rightarrow>
            bind_res (page_allocator_register_fault (v_pages st) page) (\<lambda>pa.
            let st = st\<lparr>v_pages := pa\<rparr> in
            bind_res (vmpu_mem_push_page_acl_iterator (v_pages st) page_mask
              (of_nat (UVISOR_PAGE_MAP_COUNT * 4 - 1) - index) (v_mpu st)) (\<lambda>(continue, mpu).
            Inr (True, st\<lparr>v_mpu := mpu\<rparr>)))
        | None \<Rightarrow>
            bind_res (vmpu_fault_find_region st fault_addr) (\<lambda>region.
            case region of
              None \<Rightarrow> Inr (False, st)
            | Some i \<Rightarrow>
                bind_res (arr_get (g_mpu_region (v_mpu st)) i) (\<lambda>region.
                bind_res (vmpu_mpu_push (v_mpu st) region 3) (\<lambda>(placed, mpu).
                Inr (True, st\<lparr>v_mpu := mpu\<rparr>))))))"

section \<open>Switching boxes\<close>

text \<open>\<open>while (count-- && vmpu_mpu_push(region++, priority))\<close>; a push always returns true.\<close>

primrec push_regions :: "nat \<Rightarrow> nat \<Rightarrow> u8 \<Rightarrow> mpu_state \<Rightarrow> mpu_state res" where
  "push_regions 0 i priority mpu = Inr mpu"
| "push_regions (Suc count) i priority mpu =
     bind_res (arr_get (g_mpu_region mpu) i) (\<lambda>region.
     bind_res (vmpu_mpu_push mpu region priority) (\<lambda>(placed, mpu).
     if placed then push_regions count (Suc i) priority mpu else Inr mpu))"

definition region_index :: "nat option \<Rightarrow> nat" where
  "region_index region = (case region of None \<Rightarrow> 0 | Some i \<Rightarrow> i)"

text \<open>
  A null pointer comes with the count 0, so its index is never used, except that a secure box
  without regions would push the region at a null pointer: that is \<open>Oob\<close> (an assertion of the
  debug build).
\<close>

definition vmpu_switch :: "v7m_state \<Rightarrow> u8 \<Rightarrow> u8 \<Rightarrow> v7m_state res" where
  "vmpu_switch st src_box dst_box =
     bind_res (vmpu_mpu_invalidate (v_mpu st)) (\<lambda>mpu.
     bind_res (vmpu_region_get_for_box mpu dst_box) (\<lambda>(ok, region, dst_count).
     bind_res
       (if dst_box \<noteq> 0 then
          case region of
            None \<Rightarrow> Inl Oob
          | Some i \<Rightarrow>
              bind_res (arr_get (g_mpu_region mpu) i) (\<lambda>stack.
              bind_res (vmpu_mpu_push mpu stack 255) (\<lambda>(placed, mpu).
              Inr (Some (Suc i), dst_count - 1, mpu)))
        else Inr (region, dst_count, mpu))
       (\<lambda>(region, dst_count, mpu).
         bind_res (page_allocator_iterate_active_page_masks (v_pages st) (active_box st)
           (Some (vmpu_mem_push_page_acl_iterator (v_pages st))) True mpu) (\<lambda>(count, mpu).
         bind_res (push_regions (unat dst_count) (region_index region) 2 mpu) (\<lambda>mpu.
         bind_res
           (if dst_box = 0 then
              bind_res (vmpu_region_get_for_box mpu 0) (\<lambda>(ok, region, dst_count).
              push_regions (unat dst_count) (region_index region) 1 mpu)
            else Inr mpu)
           (\<lambda>mpu. Inr (st\<lparr>v_mpu := mpu\<rparr>)))))))"

section \<open>Box memory\<close>

text \<open>The region size, and the start moved up to its alignment.\<close>

definition vmpu_acl_sram_region_size :: "u32 \<Rightarrow> u32 \<Rightarrow> u32 \<Rightarrow> u32 \<times> u32" where
  "vmpu_acl_sram_region_size start bss_size stack_size =
     (let bits = unat (vmpu_region_bits (((stack_size + bss_size) * 8) div 6));
          bits = (if bits < 8 then 8 else bits);
          region_size = push_bit bits 1;
          start = (if start AND (region_size - 1) \<noteq> 0
                   then (start AND NOT (region_size - 1)) + region_size else start)
      in (region_size, start))"

text \<open>The results are the start of the BSS sections, the stack pointer and the new state.\<close>

definition vmpu_acl_sram ::
  "UvisorConfig \<Rightarrow> bool \<Rightarrow> u8 \<Rightarrow> v7m_state \<Rightarrow> u8 \<Rightarrow> u32 \<Rightarrow> u32 \<Rightarrow> (u32 \<times> u32 \<times> v7m_state) res" where
  "vmpu_acl_sram cfg counted box_count st box_id bss_size stack_size =
     (let pos = (if box_mem_pos st = 0 then bss_boxes_start cfg else box_mem_pos st);
          stack_size = UVISOR_MIN_STACK stack_size;
          (region_size, pos) = vmpu_acl_sram_region_size pos bss_size stack_size;
          subregion_size = region_size div 8;
          slots_for_bss = int (unat ((bss_size + subregion_size - 1) div subregion_size));
          slots_for_stack = (if slots_for_bss \<noteq> 0 then 8 - slots_for_bss - 1 else 8) in
      if of_int slots_for_bss * subregion_size < bss_size then Inl (Halt SANITY_CHECK_FAILED)
      else if of_int slots_for_stack * subregion_size < stack_size then Inl (Halt SANITY_CHECK_FAILED)
      else
        let bss_start = (if slots_for_bss \<noteq> 0 then pos else 0);
            stack_pointer = (pos + region_size) - 8 in
        bind_res (vmpu_region_add_static_acl counted box_count (v_mpu st) box_id pos region_size UVISOR_TACLDEF_STACK
          (if slots_for_bss \<noteq> 0 then push_bit (nat slots_for_bss) 1 else 0)) (\<lambda>(region_size, mpu).
        Inr (bss_start, stack_pointer, st\<lparr>v_mpu := mpu, box_mem_pos := pos + region_size\<rparr>)))"

section \<open>Static regions\<close>

definition vmpu_arch_init_hw :: "u32 \<Rightarrow> UvisorConfig \<Rightarrow> mpu_state \<Rightarrow> mpu_state res" where
  "vmpu_arch_init_hw flash_origin cfg mpu =
     bind_res (vmpu_mpu_set_static_acl mpu 0 flash_origin (secure_end cfg - flash_origin)
       (UVISOR_TACLDEF_SECURE_CONST OR UVISOR_TACL_EXECUTE) 0) (\<lambda>(n, mpu).
     let total_size = push_bit (unat (vmpu_region_bits (public_sram_end cfg - public_sram_start cfg))) 1 :: u32;
         subregions_size = total_size div 8;
         protected_size = page_end cfg - public_sram_start cfg in
     if protected_size mod subregions_size \<noteq> 0 then Inl (Halt SANITY_CHECK_FAILED)
     else
       let subregions_disable_mask = ucast (push_bit (unat (protected_size div subregions_size)) 1 - 1 :: u32) :: u8 in
       bind_res (vmpu_mpu_set_static_acl mpu 1 (public_sram_start cfg) total_size
         (UVISOR_TACLDEF_DATA OR UVISOR_TACL_EXECUTE) (ucast subregions_disable_mask)) (\<lambda>(n, mpu).
       if subregions_size < page_size cfg then Inl (Halt SANITY_CHECK_FAILED) else Inr mpu))"

definition vmpu_arch_init :: "u32 \<Rightarrow> UvisorConfig \<Rightarrow> mpu_state \<Rightarrow> mpu_state res" where
  "vmpu_arch_init flash_origin cfg mpu =
     bind_res (vmpu_mpu_init mpu) (\<lambda>mpu.
     bind_res (vmpu_arch_init_hw flash_origin cfg mpu) (\<lambda>mpu.
     Inr (vmpu_mpu_lock mpu)))"

section \<open>The order of the boxes\<close>

text \<open>
  \<open>sizes\<close> gives the sum of the BSS sizes and the stack size of each configuration table. The
  arrays \<open>box_order\<close> and \<open>best_order\<close> are lists; \<open>order_boxes_rec d\<close> is \<open>__vmpu_order_boxes\<close> for
  \<open>start = end + 1 - d\<close>.
\<close>

definition swap_boxes :: "nat list \<Rightarrow> nat \<Rightarrow> nat \<Rightarrow> nat list" where
  "swap_boxes xs i j = xs[i := xs ! j, j := xs ! i]"

definition order_sram_size :: "u32 \<Rightarrow> (nat \<Rightarrow> u32 \<times> u32) \<Rightarrow> nat list \<Rightarrow> u32" where
  "order_sram_size boxes_start sizes indices =
     fold (\<lambda>index sram_offset.
         case vmpu_acl_sram_region_size sram_offset (fst (sizes index)) (snd (sizes index)) of
           (region_size, sram_offset) \<Rightarrow> sram_offset + region_size) indices boxes_start - boxes_start"

type_synonym order_state = "nat list \<times> nat list \<times> u32"

definition order_evaluate :: "u32 \<Rightarrow> (nat \<Rightarrow> u32 \<times> u32) \<Rightarrow> nat \<Rightarrow> order_state \<Rightarrow> order_state" where
  "order_evaluate boxes_start sizes e_idx = (\<lambda>(box_order, best_order, min_size).
     let sram_size = order_sram_size boxes_start sizes (take e_idx (drop 1 box_order)) in
     if sram_size < min_size then (box_order, take (Suc e_idx) box_order @ drop (Suc e_idx) best_order, sram_size)
     else (box_order, best_order, min_size))"

primrec order_boxes_rec :: "u32 \<Rightarrow> (nat \<Rightarrow> u32 \<times> u32) \<Rightarrow> nat \<Rightarrow> nat \<Rightarrow> order_state \<Rightarrow> order_state" where
  "order_boxes_rec boxes_start sizes e_idx 0 = (\<lambda>st. st)"
| "order_boxes_rec boxes_start sizes e_idx (Suc d) = (\<lambda>st.
     let start = e_idx - d;
         st = (if start = e_idx then order_evaluate boxes_start sizes e_idx st else st) in
     fold (\<lambda>i (box_order, best_order, min_size).
         case order_boxes_rec boxes_start sizes e_idx d (swap_boxes box_order start i, best_order, min_size) of
           (box_order, best_order, min_size) \<Rightarrow> (swap_boxes box_order start i, best_order, min_size))
       [start..<Suc e_idx] st)"

text \<open>
  \<open>vmpu_order_boxes\<close> calls the search with \<open>start = 1\<close> and \<open>end = box_count - 1\<close>; \<open>best\<close> is the
  caller's array. For a single box the search has \<open>start > end\<close> and evaluates nothing.
\<close>

definition vmpu_order_boxes ::
  "UvisorConfig \<Rightarrow> (nat \<Rightarrow> u32 \<times> u32) \<Rightarrow> nat list \<Rightarrow> nat \<Rightarrow> nat list res" where
  "vmpu_order_boxes cfg sizes best box_count =
     (let box_order = [0..<box_count];
          (box_order, best_order, total_sram_size) =
            order_boxes_rec (bss_boxes_start cfg) sizes (box_count - 1) (box_count - 1) (box_order, best, 0xFFFFFFFF);
          available_sram_size = bss_boxes_end cfg - bss_boxes_start cfg in
      if available_sram_size < total_sram_size then Inl (Halt SANITY_CHECK_FAILED)
      else Inr best_order)"

section \<open>The stack region survives switching and faults\<close>

lemma translate_acl_aligned:
  assumes "vmpu_region_translate_acl start sz acl hw = Inr (r, n)"
  shows "region_aligned r"
proof -
  have bits: "5 \<le> unat (vmpu_region_bits sz)"
    by (auto simp: vmpu_region_bits_def mpu_consts Let_def word_less_nat_alt)
  from assms obtain b where b: "5 \<le> b" "region_start r = start" "start AND (push_bit b 1 - 1) = 0"
    using bits by (auto simp: vmpu_region_translate_acl_def mpu_consts Let_def bind_res_Inr_iff not_less split: if_splits prod.splits)
  have "start AND mask 5 = (start AND mask b) AND mask 5"
    using b(1) by (intro bit_word_eqI) (auto simp: bit_simps)
  then show ?thesis using b(2,3) by (simp add: region_aligned_def mask_eq_exp_minus_1)
qed

text \<open>The region table is unchanged, and everything in it is aligned.\<close>

definition same_table :: "mpu_state \<Rightarrow> mpu_state \<Rightarrow> bool" where
  "same_table m m' \<longleftrightarrow> g_mpu_region m' = g_mpu_region m \<and> g_mpu_box_region m' = g_mpu_box_region m \<and>
     g_mpu_region_count m' = g_mpu_region_count m"

definition table_aligned :: "mpu_state \<Rightarrow> bool" where
  "table_aligned m \<longleftrightarrow> (\<forall>r \<in> set (g_mpu_region m). region_aligned r)"

text \<open>What a push keeps: the pinned stack region and the table.\<close>

definition pin_inv :: "mpu_state \<Rightarrow> MpuRegion \<Rightarrow> mpu_state \<Rightarrow> bool" where
  "pin_inv m0 stack m \<longleftrightarrow> pinned m0 stack m \<and> same_table m0 m"

lemma push_same_table:
  assumes "mpu_ok m" "region_aligned r" "vmpu_mpu_push m r p = Inr (b, m')"
  shows "same_table m m'"
proof -
  define q where "q = (if p = 0 then 1 else p)"
  have "vmpu_mpu_push m r p = vmpu_mpu_push m r q" "q \<noteq> 0" by (auto simp: q_def vmpu_mpu_push_def)
  then show ?thesis using vmpu_mpu_push_placed [OF assms(1,2), of q] assms(3) by (auto simp: same_table_def placed_def)
qed

lemma pin_inv_push:
  assumes "pin_inv m0 stack m" "region_aligned r" "p < 255" "vmpu_mpu_push m r p = Inr (b, m')"
  shows "b" "pin_inv m0 stack m'"
proof -
  have ok: "mpu_ok m" using assms(1) by (simp add: pin_inv_def pinned_def)
  show "b" "pin_inv m0 stack m'"
    using pinned_push [of m0 stack m r p] push_same_table [OF ok assms(2,4)] assms
    by (auto simp: pin_inv_def same_table_def)
qed

lemma pin_inv_push_regions:
  assumes "pin_inv m0 stack m" "table_aligned m0" "p < 255" "push_regions n i p m = Inr m'"
  shows "pin_inv m0 stack m'"
  using assms
proof (induction n arbitrary: i m)
  case (Suc n)
  then obtain r b m1 where r: "arr_get (g_mpu_region m) i = Inr r" "vmpu_mpu_push m r p = Inr (b, m1)"
    and rest: "(if b then push_regions n (Suc i) p m1 else Inr m1) = Inr m'"
    by (auto simp: bind_res_Inr_iff)
  have "region_aligned r"
    using r(1) Suc.prems(1,2) by (auto simp: arr_get_Inr table_aligned_def pin_inv_def same_table_def)
  note step = pin_inv_push [OF Suc.prems(1) this Suc.prems(3) r(2)]
  then show ?case using Suc.IH [OF step(2) Suc.prems(2,3)] rest by simp
qed simp

lemma iterate_masks_invariant:
  assumes "\<And>pm i s b s'. P s \<Longrightarrow> f pm i s = Inr (b, s') \<Longrightarrow> P s'" "P s"
    "iterate_masks_loop ws (Some f) backward octets n ii count s = Inr (c, s')"
  shows "P s'"
  using assms(2,3)
proof (induction n arbitrary: ii count s)
  case (Suc n)
  from Suc.prems(2) consider "s' = s" | pm i b where "f pm i s = Inr (b, s')"
    | pm i b s1 ii' count' where "f pm i s = Inr (b, s1)" "iterate_masks_loop ws (Some f) backward octets n ii' count' s1 = Inr (c, s')"
    | ii' count' where "iterate_masks_loop ws (Some f) backward octets n ii' count' s = Inr (c, s')"
    by (auto simp: bind_res_Inr_iff Let_def split: if_splits prod.splits)
  then show ?case using assms(1) Suc.prems(1) Suc.IH by cases blast+
qed simp

lemma pin_inv_page_iterator:
  assumes "pin_inv m0 stack m" "vmpu_mem_push_page_acl_iterator pa pm i m = Inr (b, m')"
  shows "pin_inv m0 stack m'"
  using assms pin_inv_push(2) [OF assms(1) translate_acl_aligned, of _ _ _ _ _ _ 100]
  by (auto simp: vmpu_mem_push_page_acl_iterator_def Let_def bind_res_Inr_iff)

lemma vmpu_switch_pin_inv:
  assumes "mpu_ok (v_mpu st)" "table_aligned (v_mpu st)" "dst \<noteq> 0" "slices_ok (v_mpu st)"
    "regions_of (v_mpu st) (unat dst) = stack # rest" "vmpu_switch st src dst = Inr st'"
  shows "pin_inv (v_mpu st) stack (v_mpu st')"
proof -
  let ?m = "v_mpu st"
  define box where "box = g_mpu_box_region ?m ! unat dst"
  obtain i where i: "slice_regions box = Some i" "slice_count box \<noteq> 0" "g_mpu_region ?m ! i = stack"
    using assms(5) by (auto simp: regions_of_def slice_of_def Let_def box_def [symmetric] map_eq_Cons_conv upt_eq_Cons_conv unat_gt_0 split: option.splits)
  from assms(6) obtain m1 ok region n where m1: "vmpu_mpu_invalidate ?m = Inr m1"
    and get: "vmpu_region_get_for_box m1 dst = Inr (ok, region, n)"
    and rest: "bind_res (case region of None \<Rightarrow> Inl Oob
        | Some i \<Rightarrow> bind_res (arr_get (g_mpu_region m1) i) (\<lambda>stack. bind_res (vmpu_mpu_push m1 stack 255) (\<lambda>(placed, mpu).
              Inr (Some (Suc i), n - 1, mpu))))
       (\<lambda>(region, dst_count, mpu).
         bind_res (page_allocator_iterate_active_page_masks (v_pages st) (active_box st)
           (Some (vmpu_mem_push_page_acl_iterator (v_pages st))) True mpu) (\<lambda>(count, mpu).
         bind_res (push_regions (unat dst_count) (region_index region) 2 mpu) (\<lambda>mpu.
         Inr (st\<lparr>v_mpu := mpu\<rparr>)))) = Inr st'"
    using assms(3) by (auto simp: vmpu_switch_def bind_res_Inr_iff)
  have st1: "same_table ?m m1"
    using vmpu_mpu_invalidate_cleared [OF assms(1)] m1 by (auto simp: same_table_def)
  have "region \<noteq> None" using rest by (cases region) auto
  then have region: "region = Some i"
    using get i st1 by (auto simp: vmpu_region_get_for_box_def same_table_def bind_res_Inr_iff arr_get_Inr box_def split: if_splits)
  from rest obtain stack' b m2 c m3 m4 where r: "arr_get (g_mpu_region m1) i = Inr stack'" "vmpu_mpu_push m1 stack' 255 = Inr (b, m2)"
      "page_allocator_iterate_active_page_masks (v_pages st) (active_box st)
        (Some (vmpu_mem_push_page_acl_iterator (v_pages st))) True m2 = Inr (c, m3)"
      "push_regions (unat (n - 1)) (Suc i) 2 m3 = Inr m4" "st' = st\<lparr>v_mpu := m4\<rparr>"
    unfolding region by (auto simp: bind_res_Inr_iff region_index_def)
  have stack: "stack' = stack" "region_aligned stack"
    using r(1) i(3) st1 assms(2) by (auto simp: arr_get_Inr same_table_def table_aligned_def)
  have ok1: "mpu_ok m1" using vmpu_mpu_invalidate_cleared [OF assms(1)] m1 assms(1) by (auto simp: mpu_ok_def cleared_def)
  have "pin_inv ?m stack m2"
    using invalidate_push_pinned [OF assms(1) stack(2)] m1 r(2) stack(1) st1 push_same_table [OF ok1 stack(2), of 255 b m2]
    by (auto simp: pin_inv_def same_table_def)
  moreover obtain ws octets where "iterate_masks_loop ws (Some (vmpu_mem_push_page_acl_iterator (v_pages st))) True
      octets octets 0 0 m2 = Inr (c, m3)"
    using r(3) by (auto simp: page_allocator_iterate_active_page_masks_def Let_def bind_res_Inr_iff)
  ultimately have "pin_inv ?m stack m3"
    by (rule iterate_masks_invariant [where P = "pin_inv ?m stack", OF pin_inv_page_iterator, rotated 2])
  then show ?thesis using pin_inv_push_regions [OF _ assms(2) _ r(4)] r(5) by simp
qed

lemma fault_recovery_pin_inv:
  assumes "pin_inv m0 stack (v_mpu st)" "table_aligned m0" "vmpu_fault_recovery_mpu st pc sp a fs = Inr (b, st')"
  shows "pin_inv m0 stack (v_mpu st')"
proof -
  have "pin_inv m0 stack m'"
    if "arr_get (g_mpu_region (v_mpu st)) i = Inr r" "vmpu_mpu_push (v_mpu st) r 3 = Inr (p, m')" for i r p m'
  proof -
    have "region_aligned r" using that(1) assms(1,2) by (auto simp: arr_get_Inr pin_inv_def same_table_def table_aligned_def)
    then show ?thesis using pin_inv_push(2) [OF assms(1) _ _ that(2)] by simp
  qed
  then show ?thesis
    using assms(1,3) pin_inv_page_iterator [OF assms(1)]
    by (auto simp: vmpu_fault_recovery_mpu_def bind_res_Inr_iff Let_def split: if_splits option.splits prod.splits)
qed

text \<open>Any number of memory management faults that uVisor recovers from, one after the other.\<close>

inductive recovers :: "v7m_state \<Rightarrow> v7m_state \<Rightarrow> bool" where
  recovers_refl: "recovers st st"
| recovers_step: "recovers st st1 \<Longrightarrow> vmpu_fault_recovery_mpu st1 pc sp fault_addr fault_status = Inr (True, st2) \<Longrightarrow> recovers st st2"


definition example_v7m :: v7m_state where
  "example_v7m = \<lparr>v_mpu = example_mpu, v_pages = example_free_pages, active_box = 1, box_mem_pos = 0\<rparr>"

lemma example_table_aligned: "table_aligned example_mpu"
  by (simp add: table_aligned_def example_mpu_def example_region_def empty_region_def region_aligned_def mask_eq_exp_minus_1)

lemma example_switch_runs: "\<exists>st1. vmpu_switch example_v7m 0 1 = Inr st1"
proof -
  have al: "region_aligned example_region" by (simp add: region_aligned_def example_region_def mask_eq_exp_minus_1)
  obtain m1 m2 where m: "vmpu_mpu_invalidate example_mpu = Inr m1" "vmpu_mpu_push m1 example_region 255 = Inr (True, m2)"
    using invalidate_push_pinned [OF example_mpu_ok al] by blast
  have "same_table example_mpu m1"
    using vmpu_mpu_invalidate_cleared [OF example_mpu_ok] m(1) by (auto simp: same_table_def)
  then show ?thesis
    using m by (simp add: vmpu_switch_def example_v7m_def vmpu_region_get_for_box_def same_table_def UVISOR_MAX_BOXES_def
        page_allocator_iterate_active_page_masks_def example_free_pages_def example_pages_def page_consts)
       (simp add: example_mpu_def)
qed


section \<open>The memory of a box\<close>

lemma acl_sram_region_bits:
  assumes "(unat bss + unat stack) * 8 < 2 ^ 32" "0 < unat stack"
  obtains k where "8 \<le> k" "k \<le> 30" "vmpu_acl_sram_region_size start bss stack =
      (2 ^ k, if start AND mask k \<noteq> 0 then (start AND NOT (mask k)) + 2 ^ k else start)"
    "8 * (unat bss + unat stack) \<le> 6 * 2 ^ k + 5"
proof -
  define arg where "arg = ((stack + bss) * 8) div 6"
  define k where "k = max 8 (unat (vmpu_region_bits arg))"
  have sum: "unat (stack + bss) = unat bss + unat stack"
    using assms(1) by (simp add: unat_word_ariths)
  have arg: "unat arg = (unat bss + unat stack) * 8 div 6"
  proof -
    have "unat ((stack + bss) * 8) = (unat bss + unat stack) * 8"
      using assms(1) sum by (simp only: unat_word_ariths(2)) simp
    then show ?thesis unfolding arg_def unat_div by simp
  qed
  then have "arg \<noteq> 0" using assms(2) by (auto simp: unat_eq_zero [symmetric])
  note b = UVISOR_REGION_BITS_bounds [of arg] region_bits_eq [OF this]
  have "unat arg \<le> 2 ^ 30" using assms(1) arg by simp
  then have "UVISOR_REGION_BITS arg = 5 \<or> (2 :: nat) ^ (UVISOR_REGION_BITS arg - 1) < 2 ^ 30" using b by linarith
  then have "UVISOR_REGION_BITS arg = 5 \<or> UVISOR_REGION_BITS arg - 1 < 30"
    using power_less_imp_less_exp [of "2 :: nat" "UVISOR_REGION_BITS arg - 1" 30] by auto
  then have k30: "k \<le> 30" using b unfolding k_def by auto
  have "unat arg \<le> 2 ^ k"
  proof -
    have "unat arg \<le> 2 ^ unat (vmpu_region_bits arg)" using b by simp
    also have "\<dots> \<le> 2 ^ k" by (rule power_increasing) (auto simp: k_def)
    finally show ?thesis .
  qed
  then have "8 * (unat bss + unat stack) \<le> 6 * 2 ^ k + 5" unfolding arg by linarith
  moreover have "vmpu_acl_sram_region_size start bss stack =
      (2 ^ k, if start AND mask k \<noteq> 0 then (start AND NOT (mask k)) + 2 ^ k else start)"
    by (simp add: vmpu_acl_sram_region_size_def Let_def k_def arg_def max_def mask_eq_exp_minus_1)
  moreover have "8 \<le> k" by (simp add: k_def)
  ultimately show ?thesis using that k30 by blast
qed

lemma align_up_nat:
  fixes start :: u32
  assumes "k < 32" "unat start + 2 ^ k \<le> 2 ^ 32 - 1"
  defines "a \<equiv> (if start AND mask k \<noteq> 0 then (start AND NOT (mask k)) + 2 ^ k else start)"
  shows "2 ^ k dvd unat a" "unat start \<le> unat a" "unat a < unat start + 2 ^ k"
proof -
  have e: "unat start div 2 ^ k * 2 ^ k + unat start mod 2 ^ k = unat start" "unat start mod 2 ^ k < 2 ^ k"
    by (simp_all only: div_mult_mod_eq) simp
  have "unat ((start AND NOT (mask k)) + 2 ^ k) = unat start div 2 ^ k * 2 ^ k + 2 ^ k"
    using e assms(1,2) by (simp add: unat_word_ariths unat_and_not_mask unat_power_2_u32)
  moreover have "0 < unat start mod 2 ^ k" if "\<not> 2 ^ k dvd unat start"
    using that by (simp add: dvd_eq_mod_eq_0)
  ultimately have "2 ^ k dvd unat a \<and> unat start \<le> unat a \<and> unat a < unat start + 2 ^ k" if "\<not> 2 ^ k dvd unat start"
    using that e(1) less_imp_le [OF e(2)] unfolding a_def and_mask_eq_0_iff by (auto simp del: mod_less_divisor mod_le_divisor)
  then show "2 ^ k dvd unat a" "unat start \<le> unat a" "unat a < unat start + 2 ^ k"
    by (cases "2 ^ k dvd unat start"; simp add: a_def and_mask_eq_0_iff)+
qed

definition sram_slots :: "nat \<Rightarrow> nat \<Rightarrow> nat" where
  "sram_slots bss sub = (bss + sub - 1) div sub"

lemma sram_slots_fit:
  assumes "8 * (b + s) \<le> 48 * sub + 5" "0 < s" "0 < sub"
  shows "b \<le> sram_slots b sub * sub" "sram_slots b sub \<le> 6" "sram_slots b sub = 0 \<longleftrightarrow> b = 0"
    "s \<le> (if sram_slots b sub = 0 then 8 else 7 - sram_slots b sub) * sub"
proof -
  let ?k = "sram_slots b sub"
  have sum: "b + s \<le> 6 * sub" using assms(1) by presburger
  have e: "?k * sub + (b + sub - 1) mod sub = b + sub - 1" "(b + sub - 1) mod sub < sub"
    using assms(3) by (simp_all add: sram_slots_def)
  show cover: "b \<le> ?k * sub" using e by linarith
  have upper: "?k * sub < b + sub" using e assms(3) by linarith
  then have "?k * sub < 7 * sub" using sum assms(2,3) by linarith
  then have "?k < 7" by simp
  then show k6: "?k \<le> 6" by simp
  show "?k = 0 \<longleftrightarrow> b = 0" using cover upper by (auto simp: assms(3))
  have "?k * sub + s \<le> 7 * sub" if "?k \<noteq> 0" using upper sum by linarith
  then show "s \<le> (if ?k = 0 then 8 else 7 - ?k) * sub"
    using sum by (auto simp: diff_mult_distrib)
qed

text \<open>
  C39: The memory layout of a secure box. For every size of the BSS sections and of the stack that does
  not overflow the computation, the region of the box is a power of two of at least 256 bytes,
  starts at a multiple of its size above the previous box's region, and its eight subregions hold
  the BSS sections from the bottom (\<open>k\<close> subregions), one subregion whose access is disabled between
  BSS and stack, and a stack of at least the requested size and of 1024 bytes above it. The two underrun
  checks therefore never fail, the stack pointer is 8 bytes below the end of the region, and the
  next box starts after it.
\<close>

theorem vmpu_acl_sram_layout:
  assumes "(unat bss + max 1024 (unat stack)) * 8 < 2 ^ 32"
    "origin = (if box_mem_pos st = 0 then bss_boxes_start cfg else box_mem_pos st)"
    "unat origin + 2 * unat (fst (vmpu_acl_sram_region_size origin bss (UVISOR_MIN_STACK stack))) < 2 ^ 32"
  shows "\<exists>n k pos. 8 \<le> n \<and> (2 :: nat) ^ n dvd unat pos \<and> unat origin \<le> unat pos \<and> unat pos < unat origin + 2 ^ n \<and>
    k \<le> 6 \<and> (k = 0 \<longleftrightarrow> bss = 0) \<and> unat bss \<le> k * (2 ^ n div 8) \<and>
    max 1024 (unat stack) \<le> (if k = 0 then 8 else 7 - k) * (2 ^ n div 8) \<and>
    vmpu_acl_sram cfg counted box_count st box_id bss stack =
      bind_res (vmpu_region_add_static_acl counted box_count (v_mpu st) box_id pos (2 ^ n) UVISOR_TACLDEF_STACK
        (if k = 0 then 0 else 2 ^ k)) (\<lambda>(region_size, mpu).
      Inr (if k = 0 then 0 else pos, pos + 2 ^ n - 8, st\<lparr>v_mpu := mpu, box_mem_pos := pos + region_size\<rparr>))"
proof -
  let ?s = "UVISOR_MIN_STACK stack"
  have s: "unat ?s = max 1024 (unat stack)"
    by (auto simp: UVISOR_MIN_STACK_def UVISOR_MIN_STACK_SIZE_def word_less_nat_alt)
  then have "(unat bss + unat ?s) * 8 < 2 ^ 32" "0 < unat ?s" using assms(1) by auto
  then obtain n where n: "8 \<le> n" "n \<le> 30" and size: "vmpu_acl_sram_region_size origin bss ?s =
      (2 ^ n, if origin AND mask n \<noteq> 0 then (origin AND NOT (mask n)) + 2 ^ n else origin)"
    and fit: "8 * (unat bss + unat ?s) \<le> 6 * 2 ^ n + 5"
    by (rule acl_sram_region_bits)
  define pos where "pos = (if origin AND mask n \<noteq> 0 then (origin AND NOT (mask n)) + 2 ^ n else origin)"
  define sub where "sub = (2 :: nat) ^ n div 8"
  have n8: "(2 :: nat) ^ n = 8 * sub" "0 < sub" "sub < 2 ^ 28"
  proof -
    have "(2 :: nat) ^ n = 8 * 2 ^ (n - 3)" using n(1) power_add [of "2 :: nat" 3 "n - 3"] by simp
    then show "(2 :: nat) ^ n = 8 * sub" "0 < sub" by (simp_all add: sub_def)
    have "(2 :: nat) ^ n \<le> 2 ^ 30" using n(2) by (intro power_increasing) auto
    then show "sub < 2 ^ 28" by (simp add: sub_def)
  qed
  have pos: "2 ^ n dvd unat pos" "unat origin \<le> unat pos" "unat pos < unat origin + 2 ^ n"
    unfolding pos_def using align_up_nat [of n origin] n assms(3) size by simp_all
  define k where "k = sram_slots (unat bss) sub"
  have fits: "8 * (unat bss + unat ?s) \<le> 48 * sub + 5" "0 < unat ?s" using fit n8(1) s by simp_all
  note k = sram_slots_fit [OF fits n8(2), folded k_def]
  define d :: u32 where "d = 2 ^ n div 8"
  have d: "unat d = sub" using n by (simp add: unat_div sub_def d_def)
  have "unat bss \<le> 6 * sub" using fits by presburger
  then have "unat (bss + d - 1) = unat bss + sub - 1"
    using n8 d by (simp add: unat_word_ariths unat_sub_if')
  then have slots: "unat ((bss + d - 1) div d) = k"
    by (simp add: unat_div d k_def sram_slots_def)
  have mul: "unat (of_nat j * d) = j * sub" if "j \<le> 8" for j
  proof -
    have "j * sub \<le> 8 * sub" using that by simp
    also have "\<dots> < 2 ^ 32" using n8(3) by simp
    finally have "j * sub < 2 ^ 32" .
    then show ?thesis using that by (simp add: unat_word_ariths d unat_of_nat_u32)
  qed
  have "vmpu_acl_sram cfg counted box_count st box_id bss stack =
      bind_res (vmpu_region_add_static_acl counted box_count (v_mpu st) box_id pos (2 ^ n) UVISOR_TACLDEF_STACK
        (if k = 0 then 0 else 2 ^ k)) (\<lambda>(region_size, mpu).
      Inr (if k = 0 then 0 else pos, pos + 2 ^ n - 8, st\<lparr>v_mpu := mpu, box_mem_pos := pos + region_size\<rparr>))"
  proof -
    have "\<not> of_int (int k) * d < bss" "\<not> of_int (if int k \<noteq> 0 then 8 - int k - 1 else 8) * d < ?s"
      using mul [of k] mul [of "if k = 0 then 8 else 7 - k"] k by (auto simp: word_less_nat_alt of_nat_diff split: if_splits)
    then show ?thesis
      unfolding vmpu_acl_sram_def Let_def assms(2) [symmetric] size [folded pos_def] prod.case d_def [symmetric] slots
      by (simp cong: if_cong)
  qed
  then show ?thesis using n(1) pos k s by (intro exI [of _ n] exI [of _ k] exI [of _ pos]) (simp add: sub_def unat_eq_zero)
qed

theorem vmpu_acl_sram_layout_witness:
  "\<exists>n k pos f. 8 \<le> n \<and> (2 :: nat) ^ n dvd unat pos \<and> 0x20002000 \<le> unat pos \<and> k \<le> 6 \<and> 100 \<le> k * (2 ^ n div 8) \<and>
    3000 \<le> (7 - k) * (2 ^ n div 8) \<and>
    vmpu_acl_sram example_config False 0 (example_v7m\<lparr>box_mem_pos := 0x20002000\<rparr>) 2 100 3000 =
      bind_res (vmpu_region_add_static_acl False 0 example_mpu 2 pos (2 ^ n) UVISOR_TACLDEF_STACK (2 ^ k)) f"
proof -
  have bits: "vmpu_region_bits 4133 = 13"
    by (simp add: vmpu_region_bits_def vmpu_bits_nat_bits nat_bits.simps mpu_consts)
  have "vmpu_acl_sram_region_size 0x20002000 100 (UVISOR_MIN_STACK 3000) = (0x2000, 0x20002000)"
    by (simp add: vmpu_acl_sram_region_size_def bits UVISOR_MIN_STACK_def UVISOR_MIN_STACK_SIZE_def)
  then show ?thesis
    using vmpu_acl_sram_layout [where bss = 100 and stack = 3000 and origin = "0x20002000" and box_id = 2 and cfg = example_config
        and st = "example_v7m\<lparr>box_mem_pos := 0x20002000\<rparr>" and counted = False and box_count = 0]
    by (simp add: example_v7m_def) (fastforce split: if_splits)
qed

section \<open>Which faults are recovered\<close>

text \<open>The address is in a page that the active box owns, or in a region of the active or the public box.\<close>

definition may_access :: "v7m_state \<Rightarrow> u32 \<Rightarrow> bool" where
  "may_access st a \<longleftrightarrow>
     (\<exists>p < pages (v_pages st). owned (v_pages st) (unat (active_box st)) p \<and> in_page (v_pages st) p a) \<or>
     list_ex (\<lambda>r. region_contains r a) (regions_of (v_mpu st) (unat (active_box st))) \<or>
     list_ex (\<lambda>r. region_contains r a) (regions_of (v_mpu st) 0)"

definition recoverable_status :: "u32 \<Rightarrow> bool" where
  "recoverable_status fs \<longleftrightarrow> fs = SCB_CFSR_MMARVALID_Msk OR SCB_CFSR_DACCVIOL_Msk \<or>
     fs AND (SCB_CFSR_MSTKERR_Msk OR SCB_CFSR_MUNSTKERR_Msk) \<noteq> 0"

lemma fault_find_region_iff:
  assumes "slices_ok (v_mpu st)" "unat (active_box st) < UVISOR_MAX_BOXES"
  shows "\<exists>r. vmpu_fault_find_region st a = Inr r \<and>
    (r \<noteq> None \<longleftrightarrow> list_ex (\<lambda>r. region_contains r a) (regions_of (v_mpu st) (unat (active_box st))) \<or>
      list_ex (\<lambda>r. region_contains r a) (regions_of (v_mpu st) 0)) \<and>
    (\<forall>i. r = Some i \<longrightarrow> i < length (g_mpu_region (v_mpu st)) \<and> region_contains (g_mpu_region (v_mpu st) ! i) a)"
proof -
  let ?m = "v_mpu st"
  let ?find = "\<lambda>b. find (\<lambda>j. region_contains (g_mpu_region ?m ! j) a) (slice_of ?m b)"
  have f: "vmpu_region_find_for_address ?m (active_box st) a = Inr (?find (unat (active_box st)))"
    "vmpu_region_find_for_address ?m 0 a = Inr (?find 0)"
    using find_for_address_eq [OF assms, of a] find_for_address_eq [OF assms(1), of 0 a] by (simp_all add: UVISOR_MAX_BOXES_def)
  define r where "r = (if ?find (unat (active_box st)) \<noteq> None then ?find (unat (active_box st)) else ?find 0)"
  have "vmpu_fault_find_region st a = Inr r" by (simp add: vmpu_fault_find_region_def f r_def)
  moreover have "r \<noteq> None \<longleftrightarrow> list_ex (\<lambda>r. region_contains r a) (regions_of ?m (unat (active_box st))) \<or>
      list_ex (\<lambda>r. region_contains r a) (regions_of ?m 0)"
    unfolding r_def using find_for_address_iff [of ?m a] by auto
  moreover have "i < length (g_mpu_region ?m) \<and> region_contains (g_mpu_region ?m ! i) a"
    if "?find b = Some i" "b < UVISOR_MAX_BOXES" for i b
  proof -
    have "box_slice_ok ?m b" "unat (g_mpu_region_count ?m) \<le> length (g_mpu_region ?m)"
      using assms(1) that(2) by (simp_all add: slices_ok_def)
    moreover have "i \<in> set (slice_of ?m b)" "region_contains (g_mpu_region ?m ! i) a"
      using that(1) by (auto simp: find_Some_iff)
    ultimately show ?thesis by (auto simp: box_slice_ok_def slice_of_def Let_def split: option.splits)
  qed
  ultimately show ?thesis using assms(2) by (auto simp: r_def UVISOR_MAX_BOXES_def split: if_splits)
qed

lemma fault_recovery_mpu_spec:
  assumes "slices_ok (v_mpu st)" "pa_ok (v_pages st)" "unat (active_box st) < UVISOR_MAX_BOXES"
  shows "(if recoverable_status fs \<and> may_access st a
      then \<forall>st'. vmpu_fault_recovery_mpu st pc sp a fs \<noteq> Inr (False, st')
      else vmpu_fault_recovery_mpu st pc sp a fs = Inr (False, st))"
proof -
  obtain rc found where mask: "page_allocator_get_active_mask_for_address (v_pages st) (active_box st) a = Inr (rc, found)"
    "found \<noteq> None \<longleftrightarrow> (\<exists>p < pages (v_pages st). owned (v_pages st) (unat (active_box st)) p \<and> in_page (v_pages st) p a)"
    using active_mask_iff [OF assms(2,3), of a] by blast
  obtain r where region: "vmpu_fault_find_region st a = Inr r"
    "r \<noteq> None \<longleftrightarrow> list_ex (\<lambda>r. region_contains r a) (regions_of (v_mpu st) (unat (active_box st))) \<or>
      list_ex (\<lambda>r. region_contains r a) (regions_of (v_mpu st) 0)"
    using fault_find_region_iff [OF assms(1,3), of a] by blast
  have acc: "may_access st a \<longleftrightarrow> found \<noteq> None \<or> r \<noteq> None"
    using mask(2) region(2) by (simp add: may_access_def)
  show ?thesis
    using acc by (cases found; cases r)
      (auto simp: vmpu_fault_recovery_mpu_def recoverable_status_def [symmetric] mask(1) region(1) Let_def bind_res_Inr_iff)
qed

text \<open>
  C11: uVisor recovers a memory management fault only for an address that the active box may access: one in a
  page that it owns, or in one of its own or of the public box's access control regions. For any
  other address and for any other kind of fault it answers no and changes nothing, and it never answers no
  to a fault on an address that may be accessed.
\<close>

theorem vmpu_fault_recovery_mpu_authorised:
  assumes "slices_ok (v_mpu st)" "pa_ok (v_pages st)" "unat (active_box st) < UVISOR_MAX_BOXES"
  shows "(if recoverable_status fs \<and> may_access st a
      then \<forall>st'. vmpu_fault_recovery_mpu st pc sp a fs \<noteq> Inr (False, st')
      else vmpu_fault_recovery_mpu st pc sp a fs = Inr (False, st))"
  using fault_recovery_mpu_spec [OF assms] .

theorem vmpu_fault_recovery_mpu_authorised_witness:
  "vmpu_fault_recovery_mpu example_v7m 0 0 0x20001000 0x82 = Inr (False, example_v7m) \<and>
   (\<forall>st'. vmpu_fault_recovery_mpu example_v7m 0 0 0x20000480 0x82 \<noteq> Inr (False, st'))"
proof -
  have "regions_of example_mpu 1 = [example_region]" "regions_of example_mpu 0 = []"
    by (simp_all add: regions_of_def slice_of_def example_mpu_def)
  moreover have "\<not> owned example_free_pages 1 p" for p
    by (simp add: owned_def example_free_pages_def)
  ultimately have "\<not> may_access example_v7m 0x20001000" "may_access example_v7m 0x20000480" "recoverable_status 0x82"
    by (simp_all add: may_access_def example_v7m_def region_contains_def example_region_def recoverable_status_def cfsr_masks)
  then show ?thesis
    using vmpu_fault_recovery_mpu_authorised [where st = example_v7m and fs = "0x82" and a = "0x20001000" and pc = 0 and sp = 0]
      vmpu_fault_recovery_mpu_authorised [where st = example_v7m and fs = "0x82" and a = "0x20000480" and pc = 0 and sp = 0]
      example_slices_ok example_pages_ok(2)
    by (simp add: example_v7m_def UVISOR_MAX_BOXES_def)
qed

text \<open>
  A freshly initialised page allocator of the ARMv7-M port is consistent: the pages tile a part of
  the given heap, all of them are free and nobody owns any, and the shift keeps the bits of all pages within
  the 32 bits of the maps.
\<close>

theorem page_allocator_init_armv7m:
  assumes "page_allocator_init vmpu_is_region_size_valid vmpu_round_up_region cfg st h_start h_end ps_ptr sz = Inr st'"
    "unat h_end + 9 * unat sz < 2 ^ 32" "vmpu_is_region_size_valid (sz * 8)"
    "length (g_page_fault_table st) = UVISOR_PAGE_MAX_COUNT"
  shows "pa_ok st' \<and> (\<forall>p < pages st'. \<not> used st' p) \<and> unat h_start \<le> unat (g_page_heap_start st') \<and>
    (0 < pages st' \<longrightarrow> unat (g_page_heap_end st') \<le> unat h_end)"
  using assms by (rule region_geometry.page_allocator_init_ok [OF v7m.region_geometry_axioms])

theorem page_allocator_init_armv7m_witness:
  "\<exists>st'. page_allocator_init vmpu_is_region_size_valid vmpu_round_up_region example_config example_pages
      0x20004000 0x20008000 0x110 1024 = Inr st' \<and> pa_ok st' \<and> pages st' = 16 \<and> \<not> used st' 3"
proof -
  have v: "vmpu_is_region_size_valid 1024" "vmpu_is_region_size_valid (1024 * 8)"
    unfolding region_size_valid_iff by (rule exI [of _ 10], simp, rule exI [of _ 13], simp)
  obtain st' where run: "page_allocator_init vmpu_is_region_size_valid vmpu_round_up_region example_config example_pages
      0x20004000 0x20008000 0x110 1024 = Inr st'" "pages st' = 16"
    using v by (simp add: page_allocator_init_def example_config_def vmpu_public_flash_addr_def vmpu_public_sram_addr_def
        page_consts vmpu_round_up_region_def)
  then show ?thesis
    using page_allocator_init_armv7m [OF run(1)] v by (auto simp: example_pages_def page_consts)
qed

end
