(* ===== verification/Context.thy ===== *)
theory Context
  imports Vmpu_Base Unpriv_Access
begin

text \<open>
  Context switches between boxes, \<^verbatim>\<open>core/system/src/context.c\<close>: the stack of previous states, forging
  and discarding exception stack frames, and switching in and out. The switch of the MPU
  configuration is an argument: \<open>switch active src dst\<close> is \<open>vmpu_switch(src, dst)\<close> while \<open>g_active_box\<close> is
  \<open>active\<close>, on a state \<open>'p\<close> of the port.
\<close>

unbundle bit_operations_syntax

section \<open>State\<close>

datatype TContextSwitchType =
    CONTEXT_SWITCH_FUNCTION_GATEWAY
  | CONTEXT_SWITCH_FUNCTION_ISR
  | CONTEXT_SWITCH_FUNCTION_DEBUG
  | CONTEXT_SWITCH_UNBOUND_THREAD
  | CONTEXT_SWITCH_UNBOUND_FIRST

record TContextPreviousState =
  src_id :: u8
  ctx_type :: TContextSwitchType
  src_sp :: u32

text \<open>The fields of the current state that are kept on ARMv7-M.\<close>

record TContextCurrentState =
  ctx_sp :: u32
  ctx_bss :: u32
  ctx_bss_size :: u32
  ctx_lr :: u32
  remaining_ms :: int
  ctx_msp :: u32
  ctx_msplim :: u32

record context_state =
  g_active_box :: u8
  g_context_previous_states :: "TContextPreviousState list"
  g_context_p :: u32
  g_context_current_states :: "TContextCurrentState list"
  PSP :: u32

definition UVISOR_CONTEXT_MAX_DEPTH :: nat where "UVISOR_CONTEXT_MAX_DEPTH = 16"
definition CONTEXT_SWITCH_EXC_SF_WORDS :: nat where "CONTEXT_SWITCH_EXC_SF_WORDS = 8"
definition CONTEXT_SWITCH_EXC_SF_BYTES :: u32 where "CONTEXT_SWITCH_EXC_SF_BYTES = 32"

lemmas context_consts = UVISOR_CONTEXT_MAX_DEPTH_def CONTEXT_SWITCH_EXC_SF_WORDS_def CONTEXT_SWITCH_EXC_SF_BYTES_def

section \<open>The stack of previous states\<close>

definition set_current_sp :: "context_state \<Rightarrow> u8 \<Rightarrow> u32 \<Rightarrow> context_state res" where
  "set_current_sp st box_id new_sp =
     bind_res (arr_get (g_context_current_states st) (unat box_id)) (\<lambda>cur.
     Inr (st\<lparr>g_context_current_states := (g_context_current_states st)[unat box_id := cur\<lparr>ctx_sp := new_sp\<rparr>]\<rparr>))"

definition context_state_push :: "context_state \<Rightarrow> TContextSwitchType \<Rightarrow> u8 \<Rightarrow> u32 \<Rightarrow> context_state res" where
  "context_state_push st context_type sid ssp =
     (if unat (g_context_p st) \<ge> UVISOR_CONTEXT_MAX_DEPTH then Inl (Halt SANITY_CHECK_FAILED)
      else
        bind_res (arr_set (g_context_previous_states st) (unat (g_context_p st))
          \<lparr>src_id = sid, ctx_type = context_type, src_sp = ssp\<rparr>) (\<lambda>prev.
        set_current_sp (st\<lparr>g_context_previous_states := prev, g_context_p := g_context_p st + 1\<rparr>) sid ssp))"

definition context_state_pop :: "context_state \<Rightarrow> (TContextPreviousState \<times> context_state) res" where
  "context_state_pop st =
     (if g_context_p st = 0 then Inl (Halt SANITY_CHECK_FAILED)
      else
        let st = st\<lparr>g_context_p := g_context_p st - 1\<rparr> in
        bind_res (arr_get (g_context_previous_states st) (unat (g_context_p st))) (\<lambda>prev. Inr (prev, st)))"

definition context_state_previous :: "context_state \<Rightarrow> TContextPreviousState option res" where
  "context_state_previous st =
     (if g_context_p st = 0 then Inr None
      else bind_res (arr_get (g_context_previous_states st) (unat (g_context_p st - 1))) (\<lambda>prev. Inr (Some prev)))"

section \<open>Exception stack frames\<close>

text \<open>\<open>memcpy\<close> of \<open>n\<close> bytes.\<close>

definition mem_copy :: "mem \<Rightarrow> u32 \<Rightarrow> u32 \<Rightarrow> nat \<Rightarrow> mem" where
  "mem_copy m dst src n = (\<lambda>a. if unat (a - dst) < n then m (src + (a - dst)) else m a)"

definition context_forge_exc_sf ::
  "context_state \<Rightarrow> mem \<Rightarrow> u32 \<Rightarrow> u8 \<Rightarrow> u32 \<Rightarrow> u32 \<Rightarrow> u32 \<Rightarrow> nat \<Rightarrow> (u32 \<times> mem) res" where
  "context_forge_exc_sf st m ssp dst_id dst_fn dst_lr xpsr nargs =
     bind_res (arr_get (g_context_current_states st) (unat dst_id)) (\<lambda>cur.
     let dst_sp = ctx_sp cur;
         exc_sf_alignment_words = (if dst_sp AND 0x4 \<noteq> 0 then 1 else 0) :: u32;
         dst_sp = dst_sp - (CONTEXT_SWITCH_EXC_SF_BYTES + exc_sf_alignment_words * 4);
         m = mem_copy m dst_sp ssp (4 * nargs);
         m = write32 m (dst_sp + 16) 0;
         m = write32 m (dst_sp + 20) (dst_lr OR 1);
         m = write32 m (dst_sp + 24) (dst_fn OR 1);
         m = write32 m (dst_sp + 28) (xpsr OR push_bit 9 exc_sf_alignment_words)
     in Inr (dst_sp, m))"

definition context_discard_exc_sf :: "context_state \<Rightarrow> mem \<Rightarrow> u8 \<Rightarrow> u32 \<Rightarrow> context_state res" where
  "context_discard_exc_sf st m dst_id dst_sp =
     (let exc_sf_alignment_words = (if read32 m (dst_sp + 28) AND 0x4 \<noteq> 0 then 1 else 0) :: u32 in
      set_current_sp st dst_id (dst_sp + CONTEXT_SWITCH_EXC_SF_BYTES + exc_sf_alignment_words * 4))"

primrec read_words :: "access \<Rightarrow> mem \<Rightarrow> u32 \<Rightarrow> nat \<Rightarrow> unit res" where
  "read_words acc m a 0 = Inr ()"
| "read_words acc m a (Suc n) = bind_res (vmpu_unpriv_uint32_read acc m a) (\<lambda>_. read_words acc m (a + 4) n)"

definition context_validate_exc_sf :: "access \<Rightarrow> mem \<Rightarrow> u32 \<Rightarrow> u32 res" where
  "context_validate_exc_sf acc m exc_sp =
     bind_res (read_words acc m exc_sp CONTEXT_SWITCH_EXC_SF_WORDS) (\<lambda>_.
     bind_res
       (if exc_sp AND 0x4 \<noteq> 0
        then bind_res (vmpu_unpriv_uint32_read acc m (exc_sp + CONTEXT_SWITCH_EXC_SF_BYTES)) (\<lambda>_. Inr ())
        else Inr ())
       (\<lambda>_. Inr exc_sp))"

text \<open>The offsets of \<open>exception_frame_t\<close>: \<open>lr\<close> is word 5, \<open>retaddr\<close> word 6 and \<open>retpsr\<close> word 7.\<close>

definition xPSR_T_Msk :: u32 where "xPSR_T_Msk = push_bit 24 1"

definition context_forge_initial_frame :: "u32 \<Rightarrow> mem \<Rightarrow> u32 \<Rightarrow> u32 \<Rightarrow> u32 \<times> mem" where
  "context_forge_initial_frame secure_alias_offset m stack_ptr fn =
     (let stack_ptr = stack_ptr - 32;
          s_ns_sp = stack_ptr OR secure_alias_offset;
          m = write32 m (s_ns_sp + 24) (fn AND NOT 1);
          m = write32 m (s_ns_sp + 28) xPSR_T_Msk;
          m = write32 m (s_ns_sp + 20) 0
      in (stack_ptr, m))"

section \<open>Switching\<close>

text \<open>The offsets of \<open>newlib_reent\<close> and \<open>box_id_self\<close> in \<open>UvisorBoxIndex\<close>.\<close>

definition index_newlib_reent :: u32 where "index_newlib_reent = 8"
definition index_box_id_self :: u32 where "index_box_id_self = 32"

lemmas index_offsets = index_newlib_reent_def index_box_id_self_def

definition function_bound :: "TContextSwitchType \<Rightarrow> bool" where
  "function_bound context_type \<longleftrightarrow> context_type = CONTEXT_SWITCH_FUNCTION_GATEWAY \<or>
     context_type = CONTEXT_SWITCH_FUNCTION_ISR \<or> context_type = CONTEXT_SWITCH_FUNCTION_DEBUG"

definition context_switch_in ::
  "UvisorConfig \<Rightarrow> bool \<Rightarrow> u8 \<Rightarrow> (u8 \<Rightarrow> u8 \<Rightarrow> u8 \<Rightarrow> 'p \<Rightarrow> 'p res) \<Rightarrow> TContextSwitchType \<Rightarrow> u8 \<Rightarrow> u32 \<Rightarrow> u32
    \<Rightarrow> context_state \<times> mem \<times> 'p \<Rightarrow> (context_state \<times> mem \<times> 'p) res" where
  "context_switch_in cfg counted box_count switch context_type dst_id ssp dst_sp = (\<lambda>(st, m, port).
     bind_res
       (if \<not> vmpu_is_box_id_valid counted box_count (g_active_box st) then
          if context_type = CONTEXT_SWITCH_UNBOUND_FIRST then Inr dst_id else Inl (Halt SANITY_CHECK_FAILED)
        else Inr (g_active_box st))
       (\<lambda>sid.
     if \<not> vmpu_is_box_id_valid counted box_count dst_id then Inl (Halt SANITY_CHECK_FAILED)
     else
       bind_res
         (if sid \<noteq> dst_id \<or> context_type = CONTEXT_SWITCH_UNBOUND_FIRST then
            bind_res (arr_get (g_context_current_states st) (unat sid)) (\<lambda>src_state.
            let m = write32 m (ctx_bss src_state + index_newlib_reent) (read32 m (newlib_impure_ptr cfg)) in
            bind_res (arr_get (g_context_current_states st) (unat dst_id)) (\<lambda>dst_state.
            let index = ctx_bss dst_state;
                m = write32 m (uvisor_box_context cfg) index;
                st = st\<lparr>g_active_box := dst_id\<rparr>;
                m = write32 m (index + index_box_id_self) (ucast dst_id) in
            bind_res (switch (g_active_box st) sid dst_id port) (\<lambda>port.
            let m = write32 m (newlib_impure_ptr cfg) (read32 m (index + index_newlib_reent)) in
            Inr (st, m, port))))
          else Inr (st, m, port))
         (\<lambda>(st, m, port).
           if function_bound context_type then
             bind_res (context_state_push st context_type sid ssp) (\<lambda>st.
             Inr (st\<lparr>PSP := dst_sp\<rparr>, m, port))
           else Inr (st, m, port))))"

definition context_switch_out ::
  "UvisorConfig \<Rightarrow> (u8 \<Rightarrow> u8 \<Rightarrow> u8 \<Rightarrow> 'p \<Rightarrow> 'p res) \<Rightarrow> TContextSwitchType
    \<Rightarrow> context_state \<times> mem \<times> 'p \<Rightarrow> (TContextPreviousState \<times> context_state \<times> mem \<times> 'p) res" where
  "context_switch_out cfg switch context_type = (\<lambda>(st, m, port).
     if context_type = CONTEXT_SWITCH_UNBOUND_THREAD then Inl (Halt NOT_ALLOWED)
     else
       let dst_id = g_active_box st in
       bind_res (context_state_pop st) (\<lambda>(previous_state, st).
       let sid = src_id previous_state; ssp = src_sp previous_state in
       bind_res
         (if sid \<noteq> dst_id then
            bind_res (arr_get (g_context_current_states st) (unat dst_id)) (\<lambda>dst_state.
            let m = write32 m (ctx_bss dst_state + index_newlib_reent) (read32 m (newlib_impure_ptr cfg));
                st = st\<lparr>g_active_box := sid\<rparr> in
            bind_res (arr_get (g_context_current_states st) (unat sid)) (\<lambda>src_state.
            let index = ctx_bss src_state;
                m = write32 m (uvisor_box_context cfg) index in
            bind_res (switch (g_active_box st) dst_id sid port) (\<lambda>port.
            let m = write32 m (newlib_impure_ptr cfg) (read32 m (index + index_newlib_reent)) in
            Inr (st, m, port))))
          else Inr (st, m, port))
         (\<lambda>(st, m, port).
           Inr (previous_state, if function_bound context_type then st\<lparr>PSP := ssp\<rparr> else st, m, port))))"

section \<open>The state stack is a stack\<close>

text \<open>The abstract view: the previous states, the latest first.\<close>

definition ctx_stack :: "context_state \<Rightarrow> TContextPreviousState list" where
  "ctx_stack st = rev (take (unat (g_context_p st)) (g_context_previous_states st))"

definition ctx_ok :: "u8 \<Rightarrow> context_state \<Rightarrow> bool" where
  "ctx_ok box_count st \<longleftrightarrow> length (g_context_previous_states st) = UVISOR_CONTEXT_MAX_DEPTH \<and>
     unat (g_context_p st) \<le> UVISOR_CONTEXT_MAX_DEPTH \<and> length (g_context_current_states st) = UVISOR_MAX_BOXES \<and>
     unat box_count \<le> UVISOR_MAX_BOXES \<and> g_active_box st < box_count \<and>
     (\<forall>prev \<in> set (ctx_stack st). src_id prev < box_count)"

lemma ctx_ok_box: "ctx_ok n st \<Longrightarrow> b < n \<Longrightarrow> unat b < length (g_context_current_states st)"
  by (auto simp: ctx_ok_def word_less_nat_alt)

lemma ctx_stack_length: "ctx_ok n st \<Longrightarrow> length (ctx_stack st) = unat (g_context_p st)"
  by (simp add: ctx_ok_def ctx_stack_def)

lemma push_spec:
  assumes "ctx_ok n st" "sid < n"
  shows "if length (ctx_stack st) = UVISOR_CONTEXT_MAX_DEPTH
    then context_state_push st ty sid ssp = Inl (Halt SANITY_CHECK_FAILED)
    else \<exists>st'. context_state_push st ty sid ssp = Inr st' \<and>
      ctx_stack st' = \<lparr>src_id = sid, ctx_type = ty, src_sp = ssp\<rparr> # ctx_stack st \<and> g_active_box st' = g_active_box st \<and>
      ctx_sp (g_context_current_states st' ! unat sid) = ssp \<and> ctx_ok n st'"
proof -
  have p: "unat (g_context_p st + 1) = Suc (unat (g_context_p st))" if "unat (g_context_p st) < 16"
    using that by (simp add: unat_word_ariths)
  let ?prev = "\<lparr>src_id = sid, ctx_type = ty, src_sp = ssp\<rparr>"
  have stack: "ctx_stack (st\<lparr>g_context_previous_states := (g_context_previous_states st)[unat (g_context_p st) := ?prev],
      g_context_p := g_context_p st + 1, g_context_current_states := cs\<rparr>) = ?prev # ctx_stack st"
    if "unat (g_context_p st) < 16" for cs
    using that assms(1) by (simp add: ctx_stack_def p take_Suc_conv_app_nth ctx_ok_def context_consts)
  show ?thesis
    using ctx_stack_length [OF assms(1)] ctx_ok_box [OF assms] assms p stack
    by (auto simp: context_state_push_def set_current_sp_def ctx_ok_def context_consts)
qed

lemma pop_spec:
  assumes "ctx_ok n st"
  shows "case ctx_stack st of
      [] \<Rightarrow> context_state_pop st = Inl (Halt SANITY_CHECK_FAILED)
    | prev # rest \<Rightarrow> \<exists>st'. context_state_pop st = Inr (prev, st') \<and> ctx_stack st' = rest \<and> ctx_ok n st' \<and>
        src_id prev < n \<and> st' = st\<lparr>g_context_p := g_context_p st - 1\<rparr>"
proof (cases "g_context_p st = 0")
  case False
  then obtain k where k: "unat (g_context_p st) = Suc k" using not0_implies_Suc [of "unat (g_context_p st)"] by (auto simp: unat_eq_zero)
  then have k': "unat (g_context_p st - 1) = k" using False by (simp add: unat_minus_one)
  have len: "k < length (g_context_previous_states st)" using assms k by (simp add: ctx_ok_def)
  have stack: "ctx_stack st = g_context_previous_states st ! k # ctx_stack (st\<lparr>g_context_p := g_context_p st - 1\<rparr>)"
    using len by (simp add: ctx_stack_def k k' take_Suc_conv_app_nth)
  then show ?thesis
    using False k' len assms k unfolding stack by (auto simp: context_state_pop_def ctx_ok_def stack)
qed (simp add: ctx_stack_def context_state_pop_def)

lemma switch_in_spec:
  assumes "ctx_ok n st"
  shows "case context_switch_in cfg True n switch ty dst ssp dsp (st, m, port) of
      Inl e \<Rightarrow> \<not> dst < n \<and> e = Halt SANITY_CHECK_FAILED \<or>
        function_bound ty \<and> length (ctx_stack st) = UVISOR_CONTEXT_MAX_DEPTH \<and> e = Halt SANITY_CHECK_FAILED \<or>
        switch dst (g_active_box st) dst port = Inl e
    | Inr (st', m', port') \<Rightarrow> dst < n \<and> g_active_box st' = dst \<and> ctx_ok n st' \<and>
        (if function_bound ty then PSP st' = dsp \<and> ctx_sp (g_context_current_states st' ! unat (g_active_box st)) = ssp \<and>
           ctx_stack st' = \<lparr>src_id = g_active_box st, ctx_type = ty, src_sp = ssp\<rparr> # ctx_stack st
         else PSP st' = PSP st \<and> ctx_stack st' = ctx_stack st)"
proof (cases "dst < n")
  case True
  have act: "vmpu_is_box_id_valid True n (g_active_box st)" "vmpu_is_box_id_valid True n dst"
    using assms True by (simp_all add: ctx_ok_def vmpu_is_box_id_valid_def)
  have cur: "unat (g_active_box st) < length (g_context_current_states st)" "unat dst < length (g_context_current_states st)"
    using ctx_ok_box [OF assms] True assms by (auto simp: ctx_ok_def)
  have ok: "ctx_ok n (st\<lparr>g_active_box := dst\<rparr>)" "ctx_stack (st\<lparr>g_active_box := dst\<rparr>) = ctx_stack st"
    using assms True by (auto simp: ctx_ok_def ctx_stack_def)
  have sid: "g_active_box st < n" using assms by (simp add: ctx_ok_def)
  have psp: "ctx_ok n (s\<lparr>PSP := x\<rparr>) = ctx_ok n s" "ctx_stack (s\<lparr>PSP := x\<rparr>) = ctx_stack s" for s x
    by (simp_all add: ctx_ok_def ctx_stack_def)
  have self: "st\<lparr>g_active_box := dst\<rparr> = st" if "g_active_box st = dst" using that by auto
  show ?thesis
    using push_spec [OF ok(1) sid, of ty ssp] push_spec [OF assms sid, of ty ssp] ok assms True self
    by (cases "switch dst (g_active_box st) dst port")
      (auto simp: context_switch_in_def act cur Let_def psp function_bound_def split: if_splits)
qed (simp add: context_switch_in_def vmpu_is_box_id_valid_def assms [unfolded ctx_ok_def])

lemma switch_out_spec:
  assumes "ctx_ok n st" "context_switch_out cfg switch ty (st, m, port) = Inr (prev, st', m', port')"
  shows "ctx_stack st = prev # ctx_stack st'" "g_active_box st' = src_id prev" "ctx_ok n st'"
    "function_bound ty \<Longrightarrow> PSP st' = src_sp prev"
proof -
  obtain rest where stack: "ctx_stack st = prev # rest"
    using pop_spec [OF assms(1)] assms(2)
    by (cases "ctx_stack st") (auto simp: context_switch_out_def Let_def bind_res_Inr_iff split: if_splits)
  define st1 where "st1 = st\<lparr>g_context_p := g_context_p st - 1\<rparr>"
  have pop: "context_state_pop st = Inr (prev, st1)" "ctx_stack st1 = rest" "ctx_ok n st1" "src_id prev < n"
    using pop_spec [OF assms(1)] by (auto simp: stack st1_def)
  have "g_active_box st1 = g_active_box st" by (simp add: st1_def)
  then have "st' = st1\<lparr>g_active_box := src_id prev\<rparr> \<or> st' = st1\<lparr>g_active_box := src_id prev, PSP := src_sp prev\<rparr> \<and> function_bound ty"
    "function_bound ty \<Longrightarrow> PSP st' = src_sp prev"
    using assms(2) pop(1)
    by (auto simp: context_switch_out_def Let_def bind_res_Inr_iff split: if_splits)
  then show "ctx_stack st = prev # ctx_stack st'" "g_active_box st' = src_id prev" "ctx_ok n st'"
    "function_bound ty \<Longrightarrow> PSP st' = src_sp prev"
    using pop stack by (auto simp: ctx_ok_def ctx_stack_def)
qed

text \<open>
  C32: A context switch implements the abstract stack of contexts. When it returns, the destination box
  is valid and active; a switch that is bound to a function has pushed the source box, the type and the source
  stack pointer, recorded that stack pointer as the source box's, and set \<open>PSP\<close>; an unbound switch
  leaves the stack alone. It stops only because the destination is invalid, because the 16 entries of the stack
  are used, or because the MPU switch stops.
\<close>

theorem context_switch_in_refines:
  assumes "ctx_ok n st"
  shows "case context_switch_in cfg True n switch ty dst ssp dsp (st, m, port) of
      Inl e \<Rightarrow> \<not> dst < n \<and> e = Halt SANITY_CHECK_FAILED \<or>
        function_bound ty \<and> length (ctx_stack st) = UVISOR_CONTEXT_MAX_DEPTH \<and> e = Halt SANITY_CHECK_FAILED \<or>
        switch dst (g_active_box st) dst port = Inl e
    | Inr (st', m', port') \<Rightarrow> dst < n \<and> g_active_box st' = dst \<and> ctx_ok n st' \<and>
        (if function_bound ty then PSP st' = dsp \<and> ctx_sp (g_context_current_states st' ! unat (g_active_box st)) = ssp \<and>
           ctx_stack st' = \<lparr>src_id = g_active_box st, ctx_type = ty, src_sp = ssp\<rparr> # ctx_stack st
         else PSP st' = PSP st \<and> ctx_stack st' = ctx_stack st)"
  using assms by (rule switch_in_spec)

section \<open>Nested context switches\<close>

text \<open>
  The contexts that a function-bound switch into a box can go through before it returns: any nesting of switches
  that have been switched out again.
\<close>

inductive nested ::
  "UvisorConfig \<Rightarrow> u8 \<Rightarrow> (u8 \<Rightarrow> u8 \<Rightarrow> u8 \<Rightarrow> 'p \<Rightarrow> 'p res) \<Rightarrow> context_state \<times> mem \<times> 'p \<Rightarrow> context_state \<times> mem \<times> 'p \<Rightarrow> bool"
  for cfg n switch where
  nested_refl: "nested cfg n switch s s"
| nested_call: "function_bound ty \<Longrightarrow> context_switch_in cfg True n switch ty dst ssp dsp s = Inr s1 \<Longrightarrow>
    nested cfg n switch s1 s2 \<Longrightarrow> context_switch_out cfg switch ty' s2 = Inr (prev, s3) \<Longrightarrow>
    nested cfg n switch s3 s4 \<Longrightarrow> nested cfg n switch s s4"

lemma nested_spec:
  assumes "nested cfg n switch s s'" "ctx_ok n (fst s)"
  shows "ctx_ok n (fst s') \<and> ctx_stack (fst s') = ctx_stack (fst s) \<and> g_active_box (fst s') = g_active_box (fst s)"
  using assms
proof (induction rule: nested.induct)
  case (nested_call ty dst ssp dsp s s1 s2 ty' prev s3 s4)
  obtain st m port where s: "s = (st, m, port)" by (cases s)
  obtain st1 m1 port1 where s1: "s1 = (st1, m1, port1)" by (cases s1)
  obtain st2 m2 port2 where s2: "s2 = (st2, m2, port2)" by (cases s2)
  obtain st3 m3 port3 where s3: "s3 = (st3, m3, port3)" by (cases s3)
  have "ctx_ok n st1" "ctx_stack st1 = \<lparr>src_id = g_active_box st, ctx_type = ty, src_sp = ssp\<rparr> # ctx_stack st"
    using switch_in_spec [where cfg = cfg and switch = switch and ty = ty and dst = dst and ssp = ssp and dsp = dsp and m = m and port = port and st = st and n = n]
      nested_call by (auto simp: s s1)
  then have "ctx_ok n st2" "ctx_stack st2 = \<lparr>src_id = g_active_box st, ctx_type = ty, src_sp = ssp\<rparr> # ctx_stack st"
    using nested_call.IH(1) by (auto simp: s1 s2)
  then have "ctx_ok n st3" "ctx_stack st3 = ctx_stack st" "g_active_box st3 = g_active_box st"
    using switch_out_spec [where cfg = cfg and switch = switch and n = n and ty = ty' and st = st2 and m = m2 and port = port2
      and prev = prev and st' = st3 and m' = m3 and port' = port3] nested_call.hyps by (auto simp: s2 s3)
  then show ?case using nested_call.IH(2) by (auto simp: s s3)
qed simp

text \<open>
  C15: Context switches nest. After a switch into a box, any well nested sequence of further switches,
  and the switch out, the box that was active is active again, its stack pointer is back in \<open>PSP\<close>, the
  caller is told the box, type and stack pointer it switched from, and the stack of contexts is as before.
\<close>

theorem context_switch_roundtrip:
  assumes "ctx_ok n st" "function_bound ty" "context_switch_in cfg True n switch ty dst ssp dsp (st, m, port) = Inr s1"
    "nested cfg n switch s1 s2" "context_switch_out cfg switch ty s2 = Inr (prev, st', m', port')"
  shows "g_active_box st' = g_active_box st \<and> PSP st' = ssp \<and> ctx_stack st' = ctx_stack st \<and> ctx_ok n st' \<and>
    prev = \<lparr>src_id = g_active_box st, ctx_type = ty, src_sp = ssp\<rparr>"
proof -
  obtain st1 m1 port1 where s1: "s1 = (st1, m1, port1)" by (cases s1)
  obtain st2 m2 port2 where s2: "s2 = (st2, m2, port2)" by (cases s2)
  have "ctx_ok n st1" "ctx_stack st1 = \<lparr>src_id = g_active_box st, ctx_type = ty, src_sp = ssp\<rparr> # ctx_stack st"
    using switch_in_spec [OF assms(1),where cfg = cfg and switch = switch and ty = ty and dst = dst and ssp = ssp and dsp = dsp and m = m and port = port]
      assms(2,3) by (auto simp: s1)
  then have "ctx_ok n st2" "ctx_stack st2 = \<lparr>src_id = g_active_box st, ctx_type = ty, src_sp = ssp\<rparr> # ctx_stack st"
    using nested_spec [OF assms(4)] by (auto simp: s1 s2)
  then show ?thesis
    using switch_out_spec [where cfg = cfg and switch = switch and n = n and ty = ty and st = st2 and m = m2 and port = port2
      and prev = prev and st' = st' and m' = m' and port' = port'] assms(2,5) by (auto simp: s2)
qed

section \<open>Forged frames\<close>

text \<open>The bytes of the frame at \<open>sp\<close>.\<close>

definition in_frame :: "u32 \<Rightarrow> u32 \<Rightarrow> bool" where
  "in_frame base a \<longleftrightarrow> unat (a - base) < 32"

lemma frame_words_disjoint:
  "read32 (write32 m (a + of_nat (4 * i)) v) (a + of_nat (4 * j)) =
    (if i = j then v else read32 m (a + of_nat (4 * j)))" if "i < 1024" "j < 1024"
proof (cases "i = j")
  case False
  have "read32 (write32 m (a + of_nat (4 * i)) v) (a + of_nat (4 * j)) = read32 m (a + of_nat (4 * j))"
  proof (rule read32_frame)
    fix k :: nat assume k: "k < 4"
    have ne: "a + of_nat (4 * j) + of_nat k \<noteq> a + of_nat (4 * i) + of_nat l" if "l < 4" for l
    proof
      assume "a + of_nat (4 * j) + of_nat k = a + of_nat (4 * i) + of_nat l"
      then have "(of_nat (4 * j + k) :: u32) = of_nat (4 * i + l)" by (simp add: algebra_simps)
      then have "4 * j + k = 4 * i + l"
        using \<open>i < 1024\<close> \<open>j < 1024\<close> k that by (subst (asm) word_of_nat_eq_iff) (simp add: take_bit_nat_eq_self)
      then show False using False k that by presburger
    qed
    show "write32 m (a + of_nat (4 * i)) v (a + of_nat (4 * j) + of_nat k) = m (a + of_nat (4 * j) + of_nat k)"
      using ne [of 0] ne [of 1] ne [of 2] ne [of 3] by (simp add: write32_def)
  qed
  then show ?thesis using False by simp
qed (simp add: read32_write32)

lemma unat_frame_offset: "i < 8 \<Longrightarrow> k < 4 \<Longrightarrow> unat (4 * word_of_nat i + word_of_nat k :: u32) = 4 * i + k"
  using unat_of_nat_u32 [of "4 * i + k"] by simp

lemma frame_write_outside:
  assumes "\<not> in_frame d a" "i < 8"
  shows "write32 m (d + of_nat (4 * i)) v a = m a"
proof -
  have "a \<noteq> d + of_nat (4 * i) + of_nat k" if "k < 4" for k
  proof
    assume "a = d + of_nat (4 * i) + of_nat k"
    then have "unat (a - d) = 4 * i + k"
      using assms(2) that by (simp add: unat_frame_offset)
    then show False using assms that by (simp add: in_frame_def)
  qed
  from this [of 0] this [of 1] this [of 2] this [of 3] show ?thesis by (simp add: write32_def)
qed

lemma frame_copy:
  assumes "i < n" "n \<le> 8"
  shows "read32 (mem_copy m d s (4 * n)) (d + of_nat (4 * i)) = read32 m (s + of_nat (4 * i))"
proof -
  have "mem_copy m d s (4 * n) (d + of_nat (4 * i) + of_nat k) = m (s + of_nat (4 * i) + of_nat k)" if "k < 4" for k
  proof -
    have "unat (4 * word_of_nat i + word_of_nat k :: u32) = 4 * i + k" using assms that by (simp add: unat_frame_offset)
    then show ?thesis using assms that by (simp add: mem_copy_def algebra_simps)
  qed
  from this [of 0] this [of 1] this [of 2] this [of 3] show ?thesis by (simp add: read32_def)
qed

text \<open>
  A forged exception frame. The frame lies directly below the destination box's stack pointer, eight byte
  aligned when that was word aligned (the padding is noted in bit 9 of the stacked \<open>xPSR\<close>); it holds
  the arguments, the return address and the link register with their Thumb bits, and no byte outside
  of it is changed.
\<close>

theorem context_forge_exc_sf_frame:
  assumes "context_forge_exc_sf st m ssp dst fn lr xpsr nargs = Inr (d, m')" "nargs \<le> 4"
  defines "osp \<equiv> ctx_sp (g_context_current_states st ! unat dst)"
  defines "pad \<equiv> (if osp AND 4 \<noteq> 0 then 1 else 0) :: u32"
  shows "d + 32 + 4 * pad = osp \<and> (osp AND 3 = 0 \<longrightarrow> d AND 7 = 0) \<and> (\<forall>a. \<not> in_frame d a \<longrightarrow> m' a = m a) \<and>
    (\<forall>i < nargs. read32 m' (d + of_nat (4 * i)) = read32 m (ssp + of_nat (4 * i))) \<and>
    read32 m' (d + 20) = lr OR 1 \<and> read32 m' (d + 24) = fn OR 1 \<and> read32 m' (d + 28) = xpsr OR push_bit 9 pad"
proof -
  define m1 where "m1 = mem_copy m d ssp (4 * nargs)"
  have d: "d = osp - (32 + pad * 4)"
    and m': "m' = write32 (write32 (write32 (write32 m1 (d + 16) 0) (d + 20) (lr OR 1)) (d + 24) (fn OR 1)) (d + 28) (xpsr OR push_bit 9 pad)"
    using assms(1) unfolding context_forge_exc_sf_def m1_def osp_def pad_def
    by (auto simp: bind_res_Inr_iff arr_get_Inr Let_def context_consts)
  have "d AND 7 = 0" if "osp AND 3 = 0"
  proof -
    have "osp AND 7 = (osp AND 3) OR (osp AND 4)" by (simp flip: bit.conj_disj_distrib)
    moreover have "osp AND 4 = 0 \<or> osp AND 4 = 4"
      using and_power_2 [of osp 2] by auto
    ultimately have "take_bit 3 osp = pad * 4" using that by (auto simp: take_bit_eq_mask mask_eq_exp_minus_1 pad_def)
    then have "unat (take_bit 3 osp) = unat (pad * 4)" by simp
    then have "unat osp mod 8 = 4 * unat pad" by (simp add: unsigned_take_bit_eq) (auto simp: take_bit_eq_mod pad_def split: if_splits)
    moreover have "unat osp = (unat d + (32 + 4 * unat pad)) mod 2 ^ 32"
    proof -
      have "osp = d + (32 + pad * 4)" by (simp add: d)
      moreover have "unat (32 + pad * 4) = 32 + 4 * unat pad" by (auto simp: pad_def)
      ultimately show ?thesis by (simp add: unat_word_ariths mult.commute)
    qed
    ultimately have "(unat d + (32 + 4 * unat pad)) mod 8 = 4 * unat pad" by (simp add: mod_mod_cancel)
    then have "8 dvd unat d" by presburger
    then have "d AND mask 3 = 0" by (simp add: and_mask_eq_0_iff)
    then show ?thesis by (simp add: take_bit_eq_mask mask_eq_exp_minus_1)
  qed
  moreover have "m' a = m a" if "\<not> in_frame d a" for a
    using frame_write_outside [OF that, of 4] frame_write_outside [OF that, of 5] frame_write_outside [OF that, of 6]
      frame_write_outside [OF that, of 7] that assms(2)
    by (auto simp: m' m1_def mem_copy_def in_frame_def)
  moreover have "read32 m' (d + of_nat (4 * i)) = read32 m (ssp + of_nat (4 * i))" if "i < nargs" for i
  proof -
    have "read32 m' (d + of_nat (4 * i)) = read32 m1 (d + of_nat (4 * i))"
      using that assms(2) frame_words_disjoint [of 4 i _ d] frame_words_disjoint [of 5 i _ d] frame_words_disjoint [of 6 i _ d]
        frame_words_disjoint [of 7 i _ d] by (simp add: m')
    then show ?thesis using frame_copy [OF that] assms(2) by (simp add: m1_def)
  qed
  moreover have "read32 m' (d + 20) = lr OR 1" "read32 m' (d + 24) = fn OR 1" "read32 m' (d + 28) = xpsr OR push_bit 9 pad"
    using frame_words_disjoint [of 6 5 _ d] frame_words_disjoint [of 7 5 _ d] frame_words_disjoint [of 7 6 _ d]
    by (simp_all add: m' read32_write32)
  moreover have "d + 32 + 4 * pad = osp" by (simp add: d)
  ultimately show ?thesis by blast
qed

section \<open>Discarding a padded frame\<close>

definition example_contexts :: context_state where
  "example_contexts = \<lparr>g_active_box = 1, g_context_previous_states = replicate 16 \<lparr>src_id = 0, ctx_type = CONTEXT_SWITCH_FUNCTION_GATEWAY, src_sp = 0\<rparr>,
     g_context_p = 0,
     g_context_current_states = replicate 5 \<lparr>ctx_sp = 0x20003004, ctx_bss = 0x20002000, ctx_bss_size = 0, ctx_lr = 0, remaining_ms = 0, ctx_msp = 0, ctx_msplim = 0\<rparr>,
     PSP = 0\<rparr>"

text \<open>
  Discarding a frame does not undo forging it when the frame was padded: the forged frame notes the
  padding in bit 9 of the stacked \<open>xPSR\<close>, and discarding looks at bit 2. Starting from the stack pointer
  \<open>0x20003004\<close>, forging and discarding a frame leaves the box with \<open>0x20003000\<close>.
\<close>

theorem context_discard_exc_sf_loses_padding:
  "\<exists>d m' st'. context_forge_exc_sf example_contexts (\<lambda>_. 0) 0x20001000 1 0x8001 0 xPSR_T_Msk 0 = Inr (d, m') \<and>
    context_discard_exc_sf example_contexts m' 1 d = Inr st' \<and>
    ctx_sp (g_context_current_states example_contexts ! 1) = 0x20003004 \<and> ctx_sp (g_context_current_states st' ! 1) = 0x20003000"
proof -
  have r: "read32 (write32 m a v) a = v" for m a v by (rule read32_write32)
  have "(0x01000200 :: u32) AND 4 = 0" by simp
  then show ?thesis
    using r [where a = "0x20002FFC"]
    by (simp add: context_forge_exc_sf_def context_discard_exc_sf_def set_current_sp_def example_contexts_def context_consts
        xPSR_T_Msk_def Let_def)
qed

theorem context_forge_exc_sf_frame_witness:
  "\<exists>d m'. context_forge_exc_sf example_contexts (\<lambda>_. 0) 0x20001000 1 0x8001 0 xPSR_T_Msk 4 = Inr (d, m') \<and>
    d AND 7 = 0 \<and> read32 m' (d + 24) = 0x8001"
proof -
  obtain d m' where run: "context_forge_exc_sf example_contexts (\<lambda>_. 0) 0x20001000 1 0x8001 0 xPSR_T_Msk 4 = Inr (d, m')"
    by (simp add: context_forge_exc_sf_def example_contexts_def Let_def)
  moreover have "ctx_sp (g_context_current_states example_contexts ! unat (1 :: u8)) = 0x20003004" by (simp add: example_contexts_def)
  ultimately show ?thesis using context_forge_exc_sf_frame [OF run] by auto
qed

lemma example_contexts_ok: "ctx_ok 2 example_contexts"
  by (simp add: ctx_ok_def example_contexts_def context_consts UVISOR_MAX_BOXES_def ctx_stack_def)

theorem context_switch_in_refines_witness:
  "\<exists>st' m' port'. context_switch_in example_config True 2 (\<lambda>_ _ _ p. Inr p) CONTEXT_SWITCH_FUNCTION_GATEWAY 0 0x20003000 0x20004000
      (example_contexts, (\<lambda>_. 0), ()) = Inr (st', m', port') \<and> g_active_box st' = 0 \<and> length (ctx_stack st') = 1"
proof -
  have "ctx_stack example_contexts = []" by (simp add: ctx_stack_def example_contexts_def)
  then show ?thesis
    using context_switch_in_refines [OF example_contexts_ok, where cfg = example_config and switch = "\<lambda>_ _ _ p. Inr p"
      and ty = CONTEXT_SWITCH_FUNCTION_GATEWAY and dst = 0 and ssp = "0x20003000" and dsp = "0x20004000" and m = "\<lambda>_. 0" and port = "()"]
    by (auto simp: context_consts function_bound_def split: sum.splits)
qed

theorem context_switch_roundtrip_witness:
  "\<exists>s1 prev st' m' port'. context_switch_in example_config True 2 (\<lambda>_ _ _ p. Inr p) CONTEXT_SWITCH_FUNCTION_GATEWAY 0 0x20003000 0x20004000
      (example_contexts, (\<lambda>_. 0), ()) = Inr s1 \<and>
    context_switch_out example_config (\<lambda>_ _ _ p. Inr p) CONTEXT_SWITCH_FUNCTION_GATEWAY s1 = Inr (prev, st', m', port') \<and>
    g_active_box st' = 1 \<and> PSP st' = 0x20003000"
proof -
  obtain s1 where run: "context_switch_in example_config True 2 (\<lambda>_ _ _ p. Inr p) CONTEXT_SWITCH_FUNCTION_GATEWAY 0 0x20003000 0x20004000
      (example_contexts, (\<lambda>_. 0), ()) = Inr s1"
    by (simp add: context_switch_in_def example_contexts_def vmpu_is_box_id_valid_def Let_def function_bound_def
        context_state_push_def set_current_sp_def context_consts)
  moreover obtain prev st' m' port' where out:
    "context_switch_out example_config (\<lambda>_ _ _ p. Inr p) CONTEXT_SWITCH_FUNCTION_GATEWAY s1 = Inr (prev, st', m', port')"
    using run by (auto simp: context_switch_in_def context_switch_out_def example_contexts_def vmpu_is_box_id_valid_def Let_def function_bound_def
        context_state_push_def context_state_pop_def set_current_sp_def context_consts)
  ultimately show ?thesis
    using context_switch_roundtrip [OF example_contexts_ok _ run nested_refl out]
    by (auto simp: function_bound_def example_contexts_def)
qed

end
