(* ===== verification/Virq.thy ===== *)
theory Virq
  imports Context
begin

text \<open>
  Virtual interrupts of the ARMv7-M port, \<^verbatim>\<open>core/system/src/core_armv7m/virq.c\<close>: the unprivileged vector
  table, the ownership of interrupts by boxes, the operations a box can ask for, and the gateways
  that run an interrupt handler in the box that owns it.
\<close>

unbundle bit_operations_syntax

section \<open>State\<close>

text \<open>
  The number of interrupts, the slots that uVisor keeps for itself
  (\<open>g_isr_vector[NVIC_OFFSET + irqn] != &isr_default_handler\<close>) and \<open>__NVIC_PRIO_BITS\<close> depend on the
  device and the build.
\<close>

record virq_config =
  NVIC_VECTORS :: nat
  uvisor_owned :: "nat \<Rightarrow> bool"
  NVIC_PRIO_BITS :: nat

record TIsrUVector =
  hdlr :: u32
  was_enabled :: bool
  owner_id :: u8

text \<open>The interrupt controller, as the registers behave: enabled, pending and active bits and priorities.\<close>

record nvic =
  nvic_iser :: "nat \<Rightarrow> bool"
  nvic_ispr :: "nat \<Rightarrow> bool"
  nvic_iabr :: "nat \<Rightarrow> bool"
  nvic_ip :: "nat \<Rightarrow> u8"
  nvic_implemented :: u8
  scb_shp :: "nat \<Rightarrow> u8"
  scb_prigroup :: u32

record virq_state =
  g_virq_vector :: "TIsrUVector list"
  g_irq_disable_all_counter :: "u32 list"
  g_virq_prio_bits :: u8
  NVIC :: nvic
  CONTROL :: u32

definition NVIC_OFFSET :: u32 where "NVIC_OFFSET = 16"
definition UVISOR_NVIC_MIN_PRIORITY :: u32 where "UVISOR_NVIC_MIN_PRIORITY = 2"

definition UVISOR_VIRQ_MAX_PRIORITY :: "virq_config \<Rightarrow> u32" where
  "UVISOR_VIRQ_MAX_PRIORITY vc = push_bit (NVIC_PRIO_BITS vc) 1 - 1 - UVISOR_NVIC_MIN_PRIORITY"

lemmas virq_consts = NVIC_OFFSET_def UVISOR_NVIC_MIN_PRIORITY_def UVISOR_VIRQ_MAX_PRIORITY_def

datatype virq_owner = VIRQ_ISR_OWNER_OTHER | VIRQ_ISR_OWNER_NONE | VIRQ_ISR_OWNER_SELF

section \<open>The interrupt controller\<close>

text \<open>The CMSIS functions for a device interrupt; unimplemented priority bits read as zero.\<close>

definition NVIC_EnableIRQ :: "nat \<Rightarrow> virq_state \<Rightarrow> virq_state" where
  "NVIC_EnableIRQ irqn st = st\<lparr>NVIC := (NVIC st)\<lparr>nvic_iser := (nvic_iser (NVIC st))(irqn := True)\<rparr>\<rparr>"

definition NVIC_DisableIRQ :: "nat \<Rightarrow> virq_state \<Rightarrow> virq_state" where
  "NVIC_DisableIRQ irqn st = st\<lparr>NVIC := (NVIC st)\<lparr>nvic_iser := (nvic_iser (NVIC st))(irqn := False)\<rparr>\<rparr>"

definition NVIC_SetPendingIRQ :: "nat \<Rightarrow> virq_state \<Rightarrow> virq_state" where
  "NVIC_SetPendingIRQ irqn st = st\<lparr>NVIC := (NVIC st)\<lparr>nvic_ispr := (nvic_ispr (NVIC st))(irqn := True)\<rparr>\<rparr>"

definition NVIC_ClearPendingIRQ :: "nat \<Rightarrow> virq_state \<Rightarrow> virq_state" where
  "NVIC_ClearPendingIRQ irqn st = st\<lparr>NVIC := (NVIC st)\<lparr>nvic_ispr := (nvic_ispr (NVIC st))(irqn := False)\<rparr>\<rparr>"

definition priority_register :: "virq_config \<Rightarrow> u32 \<Rightarrow> u8" where
  "priority_register vc priority = ucast (push_bit (8 - NVIC_PRIO_BITS vc) priority AND 0xFF)"

definition NVIC_SetPriority :: "virq_config \<Rightarrow> nat \<Rightarrow> u32 \<Rightarrow> virq_state \<Rightarrow> virq_state" where
  "NVIC_SetPriority vc irqn priority st =
     st\<lparr>NVIC := (NVIC st)\<lparr>nvic_ip := (nvic_ip (NVIC st))(irqn := priority_register vc priority AND nvic_implemented (NVIC st))\<rparr>\<rparr>"

definition NVIC_SetSystemPriority :: "virq_config \<Rightarrow> nat \<Rightarrow> u32 \<Rightarrow> virq_state \<Rightarrow> virq_state" where
  "NVIC_SetSystemPriority vc n priority st =
     st\<lparr>NVIC := (NVIC st)\<lparr>scb_shp := (scb_shp (NVIC st))(n := priority_register vc priority AND nvic_implemented (NVIC st))\<rparr>\<rparr>"

definition NVIC_GetPriority :: "virq_config \<Rightarrow> nat \<Rightarrow> virq_state \<Rightarrow> u32" where
  "NVIC_GetPriority vc irqn st = drop_bit (8 - NVIC_PRIO_BITS vc) (ucast (nvic_ip (NVIC st) irqn))"

section \<open>Ownership\<close>

definition virq_default_check :: "virq_config \<Rightarrow> u32 \<Rightarrow> unit res" where
  "virq_default_check vc irqn =
     (if unat irqn \<ge> NVIC_VECTORS vc then Inl (Halt NOT_ALLOWED)
      else if uvisor_owned vc (unat irqn) then Inl (Halt PERMISSION_DENIED)
      else Inr ())"

definition virq_acl_check :: "virq_config \<Rightarrow> u8 \<Rightarrow> u32 \<Rightarrow> virq_state \<Rightarrow> virq_owner res" where
  "virq_acl_check vc active irqn st =
     bind_res (virq_default_check vc irqn) (\<lambda>_.
     bind_res (arr_get (g_virq_vector st) (unat irqn)) (\<lambda>uv.
     Inr (if owner_id uv = UVISOR_BOX_ID_INVALID then VIRQ_ISR_OWNER_NONE
          else if owner_id uv = active then VIRQ_ISR_OWNER_SELF
          else VIRQ_ISR_OWNER_OTHER)))"

definition update_vector :: "nat \<Rightarrow> (TIsrUVector \<Rightarrow> TIsrUVector) \<Rightarrow> virq_state \<Rightarrow> virq_state" where
  "update_vector irqn f st = st\<lparr>g_virq_vector := (g_virq_vector st)[irqn := f (g_virq_vector st ! irqn)]\<rparr>"

definition virq_isr_register :: "virq_config \<Rightarrow> u8 \<Rightarrow> u32 \<Rightarrow> virq_state \<Rightarrow> virq_state res" where
  "virq_isr_register vc active irqn st =
     bind_res (virq_acl_check vc active irqn st) (\<lambda>owner.
     case owner of
       VIRQ_ISR_OWNER_NONE \<Rightarrow> Inr (update_vector (unat irqn) (owner_id_update (\<lambda>_. active)) st)
     | VIRQ_ISR_OWNER_SELF \<Rightarrow> Inr st
     | VIRQ_ISR_OWNER_OTHER \<Rightarrow> Inl (Halt PERMISSION_DENIED))"

definition virq_acl_add :: "virq_config \<Rightarrow> u8 \<Rightarrow> u8 \<Rightarrow> u32 \<Rightarrow> virq_state \<Rightarrow> virq_state res" where
  "virq_acl_add vc active box_id irqn st =
     bind_res (virq_acl_check vc active irqn st) (\<lambda>owner.
     if owner = VIRQ_ISR_OWNER_OTHER then Inl (Halt PERMISSION_DENIED)
     else Inr (update_vector (unat irqn) (owner_id_update (\<lambda>_. box_id)) st))"

section \<open>The calls of a box\<close>

definition virq_isr_set :: "virq_config \<Rightarrow> u8 \<Rightarrow> u32 \<Rightarrow> u32 \<Rightarrow> virq_state \<Rightarrow> virq_state res" where
  "virq_isr_set vc active irqn vector st =
     bind_res (virq_isr_register vc active irqn st) (\<lambda>st.
     Inr (update_vector (unat irqn) (hdlr_update (\<lambda>_. vector)) st))"

definition virq_isr_get :: "virq_config \<Rightarrow> u8 \<Rightarrow> u32 \<Rightarrow> virq_state \<Rightarrow> (u32 \<times> virq_state) res" where
  "virq_isr_get vc active irqn st =
     bind_res (virq_isr_register vc active irqn st) (\<lambda>st.
     Inr (hdlr (g_virq_vector st ! unat irqn), st))"

definition virq_irq_enable :: "virq_config \<Rightarrow> u8 \<Rightarrow> u32 \<Rightarrow> virq_state \<Rightarrow> virq_state res" where
  "virq_irq_enable vc active irqn st =
     bind_res (virq_isr_register vc active irqn st) (\<lambda>st.
     bind_res (arr_get (g_irq_disable_all_counter st) (unat active)) (\<lambda>counter.
     if counter = 0 then Inr (NVIC_EnableIRQ (unat irqn) st)
     else Inr (update_vector (unat irqn) (was_enabled_update (\<lambda>_. True)) st)))"

definition virq_irq_disable :: "virq_config \<Rightarrow> u8 \<Rightarrow> u32 \<Rightarrow> virq_state \<Rightarrow> virq_state res" where
  "virq_irq_disable vc active irqn st =
     bind_res (virq_isr_register vc active irqn st) (\<lambda>st. Inr (NVIC_DisableIRQ (unat irqn) st))"

text \<open>The bodies of the loops over all interrupts.\<close>

definition disable_all_step :: "u8 \<Rightarrow> nat \<Rightarrow> virq_state \<Rightarrow> virq_state" where
  "disable_all_step active irqn st =
     (if owner_id (g_virq_vector st ! irqn) = active \<and> nvic_iser (NVIC st) irqn
      then NVIC_DisableIRQ irqn (update_vector irqn (was_enabled_update (\<lambda>_. True)) st)
      else update_vector irqn (was_enabled_update (\<lambda>_. False)) st)"

definition enable_all_step :: "u8 \<Rightarrow> nat \<Rightarrow> virq_state \<Rightarrow> virq_state" where
  "enable_all_step active irqn st =
     (if owner_id (g_virq_vector st ! irqn) = active \<and> was_enabled (g_virq_vector st ! irqn)
      then update_vector irqn (was_enabled_update (\<lambda>_. False)) (NVIC_EnableIRQ irqn st)
      else st)"

definition virq_irq_disable_all :: "virq_config \<Rightarrow> u8 \<Rightarrow> virq_state \<Rightarrow> virq_state res" where
  "virq_irq_disable_all vc active st =
     bind_res (arr_get (g_irq_disable_all_counter st) (unat active)) (\<lambda>counter.
     let st = (if counter = 0 then fold (disable_all_step active) [0..<NVIC_VECTORS vc] st else st) in
     if counter < 0xFFFFFFFF - 1
     then Inr (st\<lparr>g_irq_disable_all_counter := (g_irq_disable_all_counter st)[unat active := counter + 1]\<rparr>)
     else Inl (Halt SANITY_CHECK_FAILED))"

definition virq_irq_enable_all :: "virq_config \<Rightarrow> u8 \<Rightarrow> virq_state \<Rightarrow> virq_state res" where
  "virq_irq_enable_all vc active st =
     bind_res (arr_get (g_irq_disable_all_counter st) (unat active)) (\<lambda>counter.
     let st = (if counter = 1 then fold (enable_all_step active) [0..<NVIC_VECTORS vc] st else st) in
     Inr (if counter > 0
          then st\<lparr>g_irq_disable_all_counter := (g_irq_disable_all_counter st)[unat active := counter - 1]\<rparr>
          else st))"

definition virq_irq_pending_clr :: "virq_config \<Rightarrow> u8 \<Rightarrow> u32 \<Rightarrow> virq_state \<Rightarrow> virq_state res" where
  "virq_irq_pending_clr vc active irqn st =
     bind_res (virq_isr_register vc active irqn st) (\<lambda>st. Inr (NVIC_ClearPendingIRQ (unat irqn) st))"

definition virq_irq_pending_set :: "virq_config \<Rightarrow> u8 \<Rightarrow> u32 \<Rightarrow> virq_state \<Rightarrow> virq_state res" where
  "virq_irq_pending_set vc active irqn st =
     bind_res (virq_isr_register vc active irqn st) (\<lambda>st. Inr (NVIC_SetPendingIRQ (unat irqn) st))"

definition virq_irq_pending_get :: "virq_config \<Rightarrow> u8 \<Rightarrow> u32 \<Rightarrow> virq_state \<Rightarrow> (bool \<times> virq_state) res" where
  "virq_irq_pending_get vc active irqn st =
     bind_res (virq_isr_register vc active irqn st) (\<lambda>st. Inr (nvic_ispr (NVIC st) (unat irqn), st))"

definition virq_irq_priority_set :: "virq_config \<Rightarrow> u8 \<Rightarrow> u32 \<Rightarrow> u32 \<Rightarrow> virq_state \<Rightarrow> virq_state res" where
  "virq_irq_priority_set vc active irqn priority st =
     bind_res (virq_isr_register vc active irqn st) (\<lambda>st.
     if priority > UVISOR_VIRQ_MAX_PRIORITY vc then Inl (Halt NOT_ALLOWED)
     else Inr (NVIC_SetPriority vc (unat irqn) (UVISOR_NVIC_MIN_PRIORITY + priority) st))"

definition virq_irq_priority_get :: "virq_config \<Rightarrow> u8 \<Rightarrow> u32 \<Rightarrow> virq_state \<Rightarrow> (u32 \<times> virq_state) res" where
  "virq_irq_priority_get vc active irqn st =
     bind_res (virq_isr_register vc active irqn st) (\<lambda>st.
     Inr (NVIC_GetPriority vc (unat irqn) st - UVISOR_NVIC_MIN_PRIORITY, st))"

text \<open>The answer is \<open>-1\<close> when no interrupt is active; \<open>NVIC_GetActive\<close> is 0 for a system exception.\<close>

definition virq_irq_level_get :: "virq_config \<Rightarrow> access \<Rightarrow> mem \<Rightarrow> u32 \<Rightarrow> virq_state \<Rightarrow> int res" where
  "virq_irq_level_get vc acc m psp st =
     bind_res (vmpu_unpriv_uint32_read acc m (psp + 4 * 7)) (\<lambda>ipsr.
     let irqn = (ipsr AND 0x1FF) - NVIC_OFFSET in
     if ipsr = 0 \<or> sint irqn < 0 \<or> \<not> nvic_iabr (NVIC st) (unat irqn) then Inr (- 1)
     else
       bind_res (virq_default_check vc irqn) (\<lambda>_.
       Inr (sint (NVIC_GetPriority vc (unat irqn) st - UVISOR_NVIC_MIN_PRIORITY))))"

section \<open>The gateways\<close>

text \<open>
  The interrupt enters on the main stack at \<open>svc_sp\<close>; the interrupted box's frame is at the process
  stack pointer. The table is read before the interrupt number is checked, so a number out of range is
  \<open>Oob\<close>.
\<close>

definition virq_gateway_context_switch_in ::
  "UvisorConfig \<Rightarrow> virq_config \<Rightarrow> u8 \<Rightarrow> (u8 \<Rightarrow> u8 \<Rightarrow> u8 \<Rightarrow> 'p \<Rightarrow> 'p res) \<Rightarrow> access \<Rightarrow> u32 \<Rightarrow> u32
    \<Rightarrow> virq_state \<times> context_state \<times> mem \<times> 'p \<Rightarrow> (u32 \<times> virq_state \<times> context_state \<times> mem \<times> 'p) res" where
  "virq_gateway_context_switch_in cfg vc box_count switch acc svc_sp svc_pc = (\<lambda>(st, ctx, m, port).
     let ipsr = read32 m (svc_sp + 28);
         irqn = (ipsr AND 0x1FF) - NVIC_OFFSET in
     bind_res (arr_get (g_virq_vector st) (unat irqn)) (\<lambda>uv.
     let dst_id = owner_id uv; dst_fn = hdlr uv in
     bind_res (virq_default_check vc irqn) (\<lambda>_.
     if dst_fn = 0 then Inl (Halt NOT_ALLOWED)
     else
       bind_res (context_validate_exc_sf acc m (PSP ctx)) (\<lambda>ssp.
       let xpsr = ipsr AND NOT 0x1FF;
           virq_thunk = svc_pc + 2 in
       bind_res (context_forge_exc_sf ctx m ssp dst_id dst_fn virq_thunk xpsr 0) (\<lambda>(dst_sp, m).
       bind_res (context_switch_in cfg True box_count switch CONTEXT_SWITCH_FUNCTION_ISR dst_id ssp dst_sp (ctx, m, port))
         (\<lambda>(ctx, m, port).
       Inr (0, st\<lparr>CONTROL := CONTROL st OR 3\<rparr>, ctx, m, port)))))))"

definition virq_gateway_context_switch_out ::
  "UvisorConfig \<Rightarrow> (u8 \<Rightarrow> u8 \<Rightarrow> u8 \<Rightarrow> 'p \<Rightarrow> 'p res) \<Rightarrow> access \<Rightarrow> u32 \<Rightarrow> u32
    \<Rightarrow> virq_state \<times> context_state \<times> mem \<times> 'p \<Rightarrow> (virq_state \<times> context_state \<times> mem \<times> 'p) res" where
  "virq_gateway_context_switch_out cfg switch acc svc_sp msp = (\<lambda>(st, ctx, m, port).
     bind_res (context_validate_exc_sf acc m svc_sp) (\<lambda>dst_sp.
     let m = write32 m (msp + 24) (read32 m (dst_sp + 24)) in
     bind_res (context_discard_exc_sf ctx m (g_active_box ctx) dst_sp) (\<lambda>ctx.
     bind_res (context_switch_out cfg switch CONTEXT_SWITCH_FUNCTION_ISR (ctx, m, port)) (\<lambda>(prev, ctx, m, port).
     Inr (st\<lparr>CONTROL := CONTROL st AND NOT 2\<rparr>, ctx, m, port)))))"

section \<open>Initialisation\<close>

definition popcount8 :: "u8 \<Rightarrow> nat" where
  "popcount8 w = length (filter (bit w) [0..<8])"

text \<open>
  The number of priority bits is read back from the first priority register, which is then restored.
  The \<open>assert\<close>s are of the debug build. The system handlers are numbered as in \<open>SHP\<close>.
\<close>

definition virq_init :: "virq_config \<Rightarrow> bool \<Rightarrow> (nat \<Rightarrow> u32) \<Rightarrow> virq_state \<Rightarrow> virq_state res" where
  "virq_init vc debug user_vtor st =
     (let prio_bits = of_nat (popcount8 (0xFF AND nvic_implemented (NVIC st))) :: u8;
          st = st\<lparr>g_virq_prio_bits := prio_bits\<rparr>;
          priority_0 = UVISOR_NVIC_MIN_PRIORITY - 2;
          priority_1 = UVISOR_NVIC_MIN_PRIORITY - 1 in
      if debug \<and> \<not> (prio_bits > 0 \<and> prio_bits \<le> 8 \<and> UVISOR_NVIC_MIN_PRIORITY < UVISOR_VIRQ_MAX_PRIORITY vc)
      then Inl Diverge
      else
        let st = fold (\<lambda>(n, priority). NVIC_SetSystemPriority vc n priority)
                [(0, priority_0), (1, priority_0), (2, priority_0), (7, priority_1), (8, UVISOR_NVIC_MIN_PRIORITY),
                 (10, UVISOR_VIRQ_MAX_PRIORITY vc), (11, UVISOR_VIRQ_MAX_PRIORITY vc)] st;
            st = st\<lparr>NVIC := (NVIC st)\<lparr>scb_prigroup := 0\<rparr>\<rparr>
        in Inr (fold (\<lambda>ii st. NVIC_SetPriority vc ii UVISOR_NVIC_MIN_PRIORITY
                   (update_vector ii (\<lambda>uv. uv\<lparr>owner_id := UVISOR_BOX_ID_INVALID, hdlr := user_vtor (ii + 16)\<rparr>) st))
                 [0..<NVIC_VECTORS vc] st))"

section \<open>One box cannot touch another's interrupts\<close>

text \<open>What a box can ask for.\<close>

datatype virq_call =
    IsrSet u32 u32 | IsrGet u32 | IrqEnable u32 | IrqDisable u32 | DisableAll | EnableAll
  | PendingClr u32 | PendingSet u32 | PendingGet u32 | PrioritySet u32 u32 | PriorityGet u32

primrec virq_exec :: "virq_config \<Rightarrow> u8 \<Rightarrow> virq_call \<Rightarrow> virq_state \<Rightarrow> virq_state res" where
  "virq_exec vc active (IsrSet irqn vector) st = virq_isr_set vc active irqn vector st"
| "virq_exec vc active (IsrGet irqn) st = bind_res (virq_isr_get vc active irqn st) (\<lambda>(r, st). Inr st)"
| "virq_exec vc active (IrqEnable irqn) st = virq_irq_enable vc active irqn st"
| "virq_exec vc active (IrqDisable irqn) st = virq_irq_disable vc active irqn st"
| "virq_exec vc active DisableAll st = virq_irq_disable_all vc active st"
| "virq_exec vc active EnableAll st = virq_irq_enable_all vc active st"
| "virq_exec vc active (PendingClr irqn) st = virq_irq_pending_clr vc active irqn st"
| "virq_exec vc active (PendingSet irqn) st = virq_irq_pending_set vc active irqn st"
| "virq_exec vc active (PendingGet irqn) st = bind_res (virq_irq_pending_get vc active irqn st) (\<lambda>(r, st). Inr st)"
| "virq_exec vc active (PrioritySet irqn priority) st = virq_irq_priority_set vc active irqn priority st"
| "virq_exec vc active (PriorityGet irqn) st = bind_res (virq_irq_priority_get vc active irqn st) (\<lambda>(r, st). Inr st)"

lemmas virq_call_defs = virq_isr_set_def virq_isr_get_def virq_irq_enable_def virq_irq_disable_def virq_irq_pending_clr_def
  virq_irq_pending_set_def virq_irq_pending_get_def virq_irq_priority_set_def virq_irq_priority_get_def

lemmas nvic_defs = NVIC_EnableIRQ_def NVIC_DisableIRQ_def NVIC_SetPendingIRQ_def NVIC_ClearPendingIRQ_def NVIC_SetPriority_def
  update_vector_def

text \<open>The calls that boxes make, one after the other, each successful.\<close>

inductive virq_calls :: "virq_config \<Rightarrow> (u8 \<times> virq_call) list \<Rightarrow> virq_state \<Rightarrow> virq_state \<Rightarrow> bool" for vc where
  no_calls: "virq_calls vc [] st st"
| one_call: "virq_exec vc box call st = Inr st1 \<Longrightarrow> virq_calls vc calls st1 st2 \<Longrightarrow> virq_calls vc ((box, call) # calls) st st2"

text \<open>Everything about an interrupt that decides when and where it is handled.\<close>

definition irq_view :: "virq_state \<Rightarrow> nat \<Rightarrow> u8 \<times> u32 \<times> bool \<times> bool \<times> u8" where
  "irq_view st i = (owner_id (g_virq_vector st ! i), hdlr (g_virq_vector st ! i), nvic_iser (NVIC st) i,
     nvic_ispr (NVIC st) i, nvic_ip (NVIC st) i)"

definition virq_ok :: "virq_config \<Rightarrow> virq_state \<Rightarrow> bool" where
  "virq_ok vc st \<longleftrightarrow> length (g_virq_vector st) = NVIC_VECTORS vc \<and> length (g_irq_disable_all_counter st) = UVISOR_MAX_BOXES"

lemma register_spec:
  assumes "virq_isr_register vc active irqn st = Inr st'" "virq_ok vc st"
  shows "virq_ok vc st'" "unat irqn < NVIC_VECTORS vc" "\<not> uvisor_owned vc (unat irqn)"
    "owner_id (g_virq_vector st' ! unat irqn) = active"
    "owner_id (g_virq_vector st ! unat irqn) \<in> {active, UVISOR_BOX_ID_INVALID}"
    "i \<noteq> unat irqn \<Longrightarrow> g_virq_vector st' ! i = g_virq_vector st ! i" "NVIC st' = NVIC st"
    "hdlr (g_virq_vector st' ! i) = hdlr (g_virq_vector st ! i)"
  using assms
  by (auto simp: virq_isr_register_def virq_acl_check_def virq_default_check_def bind_res_Inr_iff arr_get_Inr virq_ok_def
      update_vector_def nth_list_update split: if_splits virq_owner.splits)

lemma disable_all_fold:
  fixes active :: u8 and st :: virq_state
  assumes "distinct irqs" "\<forall>i \<in> set irqs. i < length (g_virq_vector st)"
  defines "st' \<equiv> fold (disable_all_step active) irqs st"
  shows "length (g_virq_vector st') = length (g_virq_vector st) \<and> g_irq_disable_all_counter st' = g_irq_disable_all_counter st \<and>
    nvic_ispr (NVIC st') = nvic_ispr (NVIC st) \<and> nvic_ip (NVIC st') = nvic_ip (NVIC st) \<and>
    (\<forall>i. let mine = i \<in> set irqs \<and> owner_id (g_virq_vector st ! i) = active in
      owner_id (g_virq_vector st' ! i) = owner_id (g_virq_vector st ! i) \<and> hdlr (g_virq_vector st' ! i) = hdlr (g_virq_vector st ! i) \<and>
      (nvic_iser (NVIC st') i \<longleftrightarrow> nvic_iser (NVIC st) i \<and> \<not> mine) \<and>
      (i \<in> set irqs \<longrightarrow> was_enabled (g_virq_vector st' ! i) = (mine \<and> nvic_iser (NVIC st) i)))"
  unfolding st'_def using assms(1,2)
proof (induction irqs arbitrary: st)
  case (Cons j js)
  define st1 where "st1 = disable_all_step active j st"
  have st1: "length (g_virq_vector st1) = length (g_virq_vector st)" "g_irq_disable_all_counter st1 = g_irq_disable_all_counter st"
    "nvic_ispr (NVIC st1) = nvic_ispr (NVIC st)" "nvic_ip (NVIC st1) = nvic_ip (NVIC st)"
    "\<And>i. owner_id (g_virq_vector st1 ! i) = owner_id (g_virq_vector st ! i)" "\<And>i. hdlr (g_virq_vector st1 ! i) = hdlr (g_virq_vector st ! i)"
    "\<And>i. nvic_iser (NVIC st1) i \<longleftrightarrow> nvic_iser (NVIC st) i \<and> \<not> (i = j \<and> owner_id (g_virq_vector st ! i) = active)"
    "\<And>i. was_enabled (g_virq_vector st1 ! i) =
      (if i = j then owner_id (g_virq_vector st ! i) = active \<and> nvic_iser (NVIC st) i else was_enabled (g_virq_vector st ! i))"
    using Cons.prems by (auto simp: st1_def disable_all_step_def nvic_defs nth_list_update)
  have keep: "was_enabled (g_virq_vector (fold (disable_all_step active) js s) ! j) = was_enabled (g_virq_vector s ! j)" for s
    using Cons.prems(1) by (induction js arbitrary: s) (auto simp: disable_all_step_def nvic_defs)
  have "\<forall>i \<in> set js. i < length (g_virq_vector st1)" using Cons.prems st1(1) by simp
  note IH = Cons.IH [OF _ this]
  show ?case
    using IH Cons.prems(1) keep [of st1] st1 by (simp add: st1_def [symmetric] Let_def) blast
qed simp

lemma enable_all_fold:
  fixes active :: u8 and st :: virq_state
  assumes "distinct irqs" "\<forall>i \<in> set irqs. i < length (g_virq_vector st)"
  defines "st' \<equiv> fold (enable_all_step active) irqs st"
  shows "length (g_virq_vector st') = length (g_virq_vector st) \<and> g_irq_disable_all_counter st' = g_irq_disable_all_counter st \<and>
    nvic_ispr (NVIC st') = nvic_ispr (NVIC st) \<and> nvic_ip (NVIC st') = nvic_ip (NVIC st) \<and>
    (\<forall>i. owner_id (g_virq_vector st' ! i) = owner_id (g_virq_vector st ! i) \<and> hdlr (g_virq_vector st' ! i) = hdlr (g_virq_vector st ! i) \<and>
      (nvic_iser (NVIC st') i \<longleftrightarrow> nvic_iser (NVIC st) i \<or>
        i \<in> set irqs \<and> owner_id (g_virq_vector st ! i) = active \<and> was_enabled (g_virq_vector st ! i)))"
  unfolding st'_def using assms(1,2)
proof (induction irqs arbitrary: st)
  case (Cons j js)
  define st1 where "st1 = enable_all_step active j st"
  have st1: "length (g_virq_vector st1) = length (g_virq_vector st)" "g_irq_disable_all_counter st1 = g_irq_disable_all_counter st"
    "nvic_ispr (NVIC st1) = nvic_ispr (NVIC st)" "nvic_ip (NVIC st1) = nvic_ip (NVIC st)"
    "\<And>i. owner_id (g_virq_vector st1 ! i) = owner_id (g_virq_vector st ! i)" "\<And>i. hdlr (g_virq_vector st1 ! i) = hdlr (g_virq_vector st ! i)"
    "\<And>i. nvic_iser (NVIC st1) i \<longleftrightarrow> nvic_iser (NVIC st) i \<or> i = j \<and> owner_id (g_virq_vector st ! i) = active \<and> was_enabled (g_virq_vector st ! i)"
    "\<And>i. i \<noteq> j \<Longrightarrow> was_enabled (g_virq_vector st1 ! i) = was_enabled (g_virq_vector st ! i)"
    using Cons.prems by (auto simp: st1_def enable_all_step_def nvic_defs nth_list_update)
  have "\<forall>i \<in> set js. i < length (g_virq_vector st1)" using Cons.prems st1(1) by simp
  note IH = Cons.IH [OF _ this]
  show ?case
    using IH Cons.prems(1) st1 by (simp add: st1_def [symmetric]) metis
qed simp

lemma upt_vectors: "virq_ok vc st \<Longrightarrow> \<forall>i \<in> set [0..<NVIC_VECTORS vc]. i < length (g_virq_vector st)"
  by (simp add: virq_ok_def)

lemma disable_all_spec:
  assumes "virq_irq_disable_all vc active st = Inr st'" "virq_ok vc st"
  shows "virq_ok vc st'" "owner_id (g_virq_vector st ! i) \<noteq> active \<Longrightarrow> irq_view st' i = irq_view st i"
proof -
  note f = disable_all_fold [OF distinct_upt upt_vectors [OF assms(2)], of active]
  show "virq_ok vc st'"
    using assms f by (auto simp: virq_irq_disable_all_def virq_ok_def bind_res_Inr_iff arr_get_Inr Let_def split: if_splits)
  show "irq_view st' i = irq_view st i" if "owner_id (g_virq_vector st ! i) \<noteq> active"
  proof -
    have "irq_view (fold (disable_all_step active) [0..<NVIC_VECTORS vc] st) i = irq_view st i"
      using f that unfolding irq_view_def Let_def by presburger
    moreover have "irq_view (s\<lparr>g_irq_disable_all_counter := c\<rparr>) i = irq_view s i" for s c by (simp add: irq_view_def)
    ultimately show ?thesis
      using assms(1) by (auto simp: virq_irq_disable_all_def bind_res_Inr_iff Let_def split: if_splits)
  qed
qed

lemma enable_all_spec:
  assumes "virq_irq_enable_all vc active st = Inr st'" "virq_ok vc st"
  shows "virq_ok vc st'" "owner_id (g_virq_vector st ! i) \<noteq> active \<Longrightarrow> irq_view st' i = irq_view st i"
proof -
  note f = enable_all_fold [OF distinct_upt upt_vectors [OF assms(2)], of active]
  show "virq_ok vc st'"
    using assms f by (auto simp: virq_irq_enable_all_def virq_ok_def bind_res_Inr_iff arr_get_Inr Let_def split: if_splits)
  show "irq_view st' i = irq_view st i" if "owner_id (g_virq_vector st ! i) \<noteq> active"
  proof -
    have "irq_view (fold (enable_all_step active) [0..<NVIC_VECTORS vc] st) i = irq_view st i"
      using f that unfolding irq_view_def Let_def by presburger
    moreover have "irq_view (s\<lparr>g_irq_disable_all_counter := c\<rparr>) i = irq_view s i" for s c by (simp add: irq_view_def)
    ultimately show ?thesis
      using assms(1) by (auto simp: virq_irq_enable_all_def bind_res_Inr_iff Let_def split: if_splits)
  qed
qed

text \<open>The calls on one interrupt: register it, then change only that interrupt.\<close>

definition touches :: "nat \<Rightarrow> virq_state \<Rightarrow> virq_state \<Rightarrow> bool" where
  "touches k st st' \<longleftrightarrow> (\<forall>i. i \<noteq> k \<longrightarrow> irq_view st' i = irq_view st i) \<and> length (g_virq_vector st') = length (g_virq_vector st) \<and>
     g_irq_disable_all_counter st' = g_irq_disable_all_counter st \<and>
     owner_id (g_virq_vector st' ! k) = owner_id (g_virq_vector st ! k)"

lemma touches_nvic:
  "touches k st st" "touches k st (NVIC_EnableIRQ k st)" "touches k st (NVIC_DisableIRQ k st)"
  "touches k st (NVIC_SetPendingIRQ k st)" "touches k st (NVIC_ClearPendingIRQ k st)" "touches k st (NVIC_SetPriority vc k p st)"
  by (simp_all add: touches_def nvic_defs irq_view_def)

lemma touches_vector:
  assumes "\<And>uv. owner_id (f uv) = owner_id uv"
  shows "touches k st (update_vector k f st)"
  using assms by (cases "k < length (g_virq_vector st)") (simp_all add: touches_def update_vector_def irq_view_def list_update_beyond)

lemmas touches_intros = touches_nvic touches_vector [of "hdlr_update f" for f, simplified]
  touches_vector [of "was_enabled_update f" for f, simplified]

lemma exec_registers:
  assumes "virq_exec vc active call st = Inr st'" "call \<noteq> DisableAll" "call \<noteq> EnableAll"
  shows "\<exists>irqn st1. virq_isr_register vc active irqn st = Inr st1 \<and> touches (unat irqn) st1 st'"
  using assms
  by (cases call) (auto simp: virq_call_defs bind_res_Inr_iff split: if_splits intro: touches_intros)

lemma exec_frame:
  assumes "virq_exec vc active call st = Inr st'" "virq_ok vc st"
  shows "virq_ok vc st'"
    "owner_id (g_virq_vector st ! i) \<notin> {active, UVISOR_BOX_ID_INVALID} \<Longrightarrow> irq_view st' i = irq_view st i"
proof -
  consider "call = DisableAll" | "call = EnableAll" | "call \<noteq> DisableAll" "call \<noteq> EnableAll" by blast
  then have "virq_ok vc st' \<and> (owner_id (g_virq_vector st ! i) \<notin> {active, UVISOR_BOX_ID_INVALID} \<longrightarrow> irq_view st' i = irq_view st i)"
  proof cases
    case 3
    from exec_registers [OF assms(1) 3] obtain irqn st1 where reg: "virq_isr_register vc active irqn st = Inr st1"
      and t: "touches (unat irqn) st1 st'" by blast
    note r = register_spec [OF reg assms(2)]
    have "virq_ok vc st'" using r(1) t by (simp add: virq_ok_def touches_def)
    moreover have "irq_view st' i = irq_view st i" if "owner_id (g_virq_vector st ! i) \<notin> {active, UVISOR_BOX_ID_INVALID}"
    proof -
      have "i \<noteq> unat irqn" using that r(5) by auto
      then show ?thesis using t r(6,7) by (simp add: touches_def irq_view_def)
    qed
    ultimately show ?thesis by blast
  qed (use assms disable_all_spec enable_all_spec in auto)
  then show "virq_ok vc st'"
    "owner_id (g_virq_vector st ! i) \<notin> {active, UVISOR_BOX_ID_INVALID} \<Longrightarrow> irq_view st' i = irq_view st i" by blast+
qed

text \<open>
  C1: Interrupts are isolated between boxes. Whatever sequence of interrupt calls other boxes make, an
  interrupt that a box owns keeps its owner, its handler, its enabled and pending state and its
  priority.
\<close>

theorem virq_isolation:
  assumes "virq_calls vc calls st st'" "virq_ok vc st" "owner_id (g_virq_vector st ! i) = b" "b \<noteq> UVISOR_BOX_ID_INVALID"
    "b \<notin> fst ` set calls"
  shows "irq_view st' i = irq_view st i"
  using assms
proof (induction rule: virq_calls.induct)
  case (one_call box call st st1 calls st2)
  have "irq_view st1 i = irq_view st i" "virq_ok vc st1"
    using exec_frame [OF one_call.hyps(1) one_call.prems(1)] one_call.prems by auto
  moreover from this(1) have "owner_id (g_virq_vector st1 ! i) = b" using one_call.prems(2) by (simp add: irq_view_def)
  ultimately show ?case using one_call by auto
qed simp

section \<open>Disabling and enabling everything\<close>

text \<open>
  Disabling all interrupts of a box and enabling them again is a round trip. In between no
  interrupt of the box is enabled; afterwards exactly the interrupts are enabled that were enabled
  before. Owners, handlers, pending states and priorities never change, nor do the interrupts of other boxes.
\<close>

theorem virq_disable_enable_all_roundtrip:
  assumes "virq_ok vc st" "unat active < UVISOR_MAX_BOXES" "g_irq_disable_all_counter st ! unat active = 0"
  shows "\<exists>st1 st2. virq_irq_disable_all vc active st = Inr st1 \<and> virq_irq_enable_all vc active st1 = Inr st2 \<and>
    (\<forall>i < NVIC_VECTORS vc. owner_id (g_virq_vector st ! i) = active \<longrightarrow> \<not> nvic_iser (NVIC st1) i) \<and>
    (\<forall>i < NVIC_VECTORS vc. irq_view st2 i = irq_view st i) \<and> g_irq_disable_all_counter st2 = g_irq_disable_all_counter st"
proof -
  let ?N = "[0..<NVIC_VECTORS vc]"
  define s1 where "s1 = fold (disable_all_step active) ?N st"
  define st1 where "st1 = s1\<lparr>g_irq_disable_all_counter := (g_irq_disable_all_counter s1)[unat active := 1]\<rparr>"
  define s2 where "s2 = fold (enable_all_step active) ?N st1"
  define st2 where "st2 = s2\<lparr>g_irq_disable_all_counter := (g_irq_disable_all_counter s2)[unat active := 0]\<rparr>"
  have cnt: "unat active < length (g_irq_disable_all_counter st)" using assms by (simp add: virq_ok_def)
  note d = disable_all_fold [OF distinct_upt upt_vectors [OF assms(1)], of active, folded s1_def]
  have len: "virq_ok vc st1" using assms(1) d by (simp add: virq_ok_def st1_def)
  note e = enable_all_fold [OF distinct_upt upt_vectors [OF len], of active, folded s2_def]
  have "virq_irq_disable_all vc active st = Inr st1"
    using cnt assms(3) d by (simp add: virq_irq_disable_all_def st1_def s1_def)
  moreover have "virq_irq_enable_all vc active st1 = Inr st2"
  proof -
    have "arr_get (g_irq_disable_all_counter st1) (unat active) = Inr 1" using cnt d by (simp add: st1_def)
    then show ?thesis by (simp add: virq_irq_enable_all_def st2_def s2_def Let_def)
  qed
  moreover have "\<not> nvic_iser (NVIC st1) i" if "i < NVIC_VECTORS vc" "owner_id (g_virq_vector st ! i) = active" for i
    using d that by (simp add: st1_def Let_def)
  moreover have "irq_view st2 i = irq_view st i" if "i < NVIC_VECTORS vc" for i
    using d e that by (auto simp: st2_def st1_def irq_view_def Let_def)
  moreover have "g_irq_disable_all_counter st2 = g_irq_disable_all_counter st"
    using d e cnt assms(3) by (simp add: st2_def st1_def list_update_same_conv)
  ultimately show ?thesis by blast
qed

definition example_virq_config :: virq_config where
  "example_virq_config = \<lparr>NVIC_VECTORS = 2, uvisor_owned = (\<lambda>_. False), NVIC_PRIO_BITS = 4\<rparr>"

text \<open>Box 1 owns interrupt 0, box 2 interrupt 1, both enabled.\<close>

definition example_virq :: virq_state where
  "example_virq = \<lparr>g_virq_vector = [\<lparr>hdlr = 0x401, was_enabled = False, owner_id = 1\<rparr>, \<lparr>hdlr = 0x501, was_enabled = False, owner_id = 2\<rparr>],
     g_irq_disable_all_counter = [0, 0, 0, 0, 0], g_virq_prio_bits = 4,
     NVIC = \<lparr>nvic_iser = (\<lambda>_. True), nvic_ispr = (\<lambda>_. False), nvic_iabr = (\<lambda>_. False), nvic_ip = (\<lambda>_. 0x20), nvic_implemented = 0xF0,
       scb_shp = (\<lambda>_. 0), scb_prigroup = 0\<rparr>, CONTROL = 0\<rparr>"

lemma example_virq_ok: "virq_ok example_virq_config example_virq"
  by (simp add: virq_ok_def example_virq_def example_virq_config_def UVISOR_MAX_BOXES_def)

theorem virq_disable_enable_all_roundtrip_witness:
  "\<exists>st1 st2. virq_irq_disable_all example_virq_config 1 example_virq = Inr st1 \<and> \<not> nvic_iser (NVIC st1) 0 \<and>
    virq_irq_enable_all example_virq_config 1 st1 = Inr st2 \<and> irq_view st2 0 = (1, 0x401, True, False, 0x20)"
  using virq_disable_enable_all_roundtrip [OF example_virq_ok, of 1]
  by (auto simp: example_virq_def UVISOR_MAX_BOXES_def irq_view_def example_virq_config_def)

text \<open>
  The state that disabling all interrupts keeps is shared between boxes. When box 1 disables all its
  interrupts, and box 2 disables and enables all of its own before box 1 enables its interrupts again,
  the interrupt of box 1 stays disabled: the loop of box 2 has reset the state of every
  interrupt that it does not own.
\<close>

theorem virq_disable_all_forgets_other_boxes:
  "\<exists>st1 st2 st3 st4. virq_irq_disable_all example_virq_config 1 example_virq = Inr st1 \<and>
    virq_irq_disable_all example_virq_config 2 st1 = Inr st2 \<and> virq_irq_enable_all example_virq_config 2 st2 = Inr st3 \<and>
    virq_irq_enable_all example_virq_config 1 st3 = Inr st4 \<and> g_irq_disable_all_counter st4 = [0, 0, 0, 0, 0] \<and>
    nvic_iser (NVIC example_virq) 0 \<and> \<not> nvic_iser (NVIC st4) 0 \<and> nvic_iser (NVIC st4) 1"
proof -
  have N: "[0..<NVIC_VECTORS example_virq_config] = [0, 1]" by (simp add: example_virq_config_def upt_rec)
  show ?thesis
    by (simp add: virq_irq_disable_all_def virq_irq_enable_all_def N disable_all_step_def enable_all_step_def
        nvic_defs example_virq_def)
qed

theorem virq_isolation_witness:
  "\<exists>st'. virq_calls example_virq_config [(2, IrqDisable 1), (2, DisableAll)] example_virq st' \<and>
    irq_view st' 0 = irq_view example_virq 0"
proof -
  obtain st1 where st1: "virq_exec example_virq_config 2 (IrqDisable 1) example_virq = Inr st1"
    by (simp add: virq_irq_disable_def virq_isr_register_def virq_acl_check_def virq_default_check_def example_virq_config_def
        example_virq_def UVISOR_BOX_ID_INVALID_def)
  moreover obtain st2 where "virq_exec example_virq_config 2 DisableAll st1 = Inr st2"
  proof -
    have "g_irq_disable_all_counter st1 = [0, 0, 0, 0, 0]"
      using st1 by (auto simp: virq_irq_disable_def virq_isr_register_def virq_acl_check_def virq_default_check_def
        example_virq_config_def example_virq_def UVISOR_BOX_ID_INVALID_def NVIC_DisableIRQ_def)
    then show ?thesis using that by (simp add: virq_irq_disable_all_def Let_def)
  qed
  ultimately have run: "virq_calls example_virq_config [(2, IrqDisable 1), (2, DisableAll)] example_virq st2"
    by (blast intro: one_call no_calls)
  then show ?thesis
    using virq_isolation [OF run example_virq_ok, where i = 0 and b = 1]
    by (auto simp: example_virq_def UVISOR_BOX_ID_INVALID_def)
qed

section \<open>Priorities\<close>

lemma priority_register_roundtrip:
  fixes v :: u32
  assumes "b \<le> 8" "unat v < 2 ^ b"
  shows "drop_bit (8 - b) (ucast (ucast (push_bit (8 - b) v AND 0xFF) AND NOT (mask (8 - b)) :: u8)) = v"
proof -
  have high: "n < b" if "bit v n" for n using bit_below_bound [OF that assms(2)] .
  have ff: "(0xFF :: u32) = mask 8" by (simp add: mask_eq_exp_minus_1)
  show ?thesis
    unfolding ff using assms(1) high by (intro bit_word_eqI) (auto simp: bit_simps dest: high)
qed

text \<open>
  Virtual priorities. A priority that a box sets is the one it reads back, and the priority that
  the interrupt gets in hardware is never more urgent than the level \<open>UVISOR_NVIC_MIN_PRIORITY\<close> below
  uVisor's own handlers; a larger value than the maximum is refused.
\<close>

theorem virq_priority_roundtrip:
  assumes "virq_ok vc st" "2 \<le> NVIC_PRIO_BITS vc" "NVIC_PRIO_BITS vc \<le> 8"
    "nvic_implemented (NVIC st) = NOT (mask (8 - NVIC_PRIO_BITS vc))"
    "virq_isr_register vc active irqn st = Inr st0"
  shows "if unat priority \<le> 2 ^ NVIC_PRIO_BITS vc - 3
    then \<exists>st1. virq_irq_priority_set vc active irqn priority st = Inr st1 \<and>
      virq_irq_priority_get vc active irqn st1 = Inr (priority, st1) \<and>
      NVIC_GetPriority vc (unat irqn) st1 = UVISOR_NVIC_MIN_PRIORITY + priority
    else virq_irq_priority_set vc active irqn priority st = Inl (Halt NOT_ALLOWED)"
proof -
  let ?b = "NVIC_PRIO_BITS vc"
  have b: "4 \<le> (2 :: nat) ^ ?b" "(2 :: nat) ^ ?b \<le> 256"
    using power_increasing [OF assms(2), of "2 :: nat"] power_increasing [OF assms(3), of "2 :: nat"] by simp_all
  have "unat (2 ^ ?b :: u32) = 2 ^ ?b" using assms(3) by simp
  then have max: "unat (UVISOR_VIRQ_MAX_PRIORITY vc) = 2 ^ ?b - 3"
    using b by (simp add: virq_consts unat_sub_if')
  note r = register_spec [OF assms(5,1)]
  show ?thesis
  proof (cases "unat priority \<le> 2 ^ ?b - 3")
    case True
    then have v: "unat (UVISOR_NVIC_MIN_PRIORITY + priority) < 2 ^ ?b"
      using b by (simp add: virq_consts unat_word_ariths)
    define st1 where "st1 = NVIC_SetPriority vc (unat irqn) (UVISOR_NVIC_MIN_PRIORITY + priority) st0"
    have set_ok: "virq_irq_priority_set vc active irqn priority st = Inr st1"
      using True max by (simp add: virq_irq_priority_set_def assms(5) st1_def word_less_nat_alt)
    have get: "NVIC_GetPriority vc (unat irqn) st1 = UVISOR_NVIC_MIN_PRIORITY + priority"
      using priority_register_roundtrip [OF assms(3) v] assms(4) r(7)
      by (simp add: NVIC_GetPriority_def st1_def NVIC_SetPriority_def priority_register_def)
    have len: "unat irqn < length (g_virq_vector st1)" using r(1,2) by (simp add: st1_def NVIC_SetPriority_def virq_ok_def)
    have own: "owner_id (g_virq_vector st1 ! unat irqn) = active" using r(4) by (simp add: st1_def NVIC_SetPriority_def)
    have "active \<noteq> UVISOR_BOX_ID_INVALID \<or> update_vector (unat irqn) (owner_id_update (\<lambda>_. active)) st1 = st1"
      using own len by (cases "g_virq_vector st1 ! unat irqn") (auto simp: update_vector_def list_update_same_conv)
    then have "virq_isr_register vc active irqn st1 = Inr st1"
      using len own r(2,3) by (auto simp: virq_isr_register_def virq_acl_check_def virq_default_check_def)
    then have "virq_irq_priority_get vc active irqn st1 = Inr (priority, st1)"
      by (simp add: virq_irq_priority_get_def get)
    then show ?thesis using True set_ok get by auto
  next
    case False
    then show ?thesis using max by (simp add: virq_irq_priority_set_def assms(5) word_less_nat_alt)
  qed
qed

theorem virq_priority_roundtrip_witness:
  "\<exists>st1. virq_irq_priority_set example_virq_config 1 0 5 example_virq = Inr st1 \<and>
    virq_irq_priority_get example_virq_config 1 0 st1 = Inr (5, st1)"
proof -
  have "virq_isr_register example_virq_config 1 0 example_virq = Inr example_virq"
    by (simp add: virq_isr_register_def virq_acl_check_def virq_default_check_def example_virq_config_def
        example_virq_def UVISOR_BOX_ID_INVALID_def)
  then show ?thesis
    using virq_priority_roundtrip [OF example_virq_ok, where irqn = 0 and active = 1 and priority = 5]
    by (auto simp: example_virq_config_def example_virq_def mask_eq_exp_minus_1)
qed

section \<open>Running a handler\<close>

lemma discard_keeps:
  assumes "context_discard_exc_sf ctx m b d = Inr ctx'"
  shows "ctx_ok n ctx \<Longrightarrow> ctx_ok n ctx'" "ctx_stack ctx' = ctx_stack ctx" "g_active_box ctx' = g_active_box ctx"
  using assms
  by (auto simp: context_discard_exc_sf_def set_current_sp_def Let_def bind_res_Inr_iff arr_get_Inr ctx_ok_def ctx_stack_def)

text \<open>
  An interrupt runs in the box that owns it and returns to the box that it interrupted. Entering the
  gateway makes the owner of the interrupt the active box, which is never done for an interrupt that
  uVisor owns or that has no handler, and de-privileges execution; leaving it, after any well nested sequence of other context
  switches, makes the interrupted box active again with its stack pointer in \<open>PSP\<close>.
\<close>

theorem virq_gateway_roundtrip:
  assumes "ctx_ok n ctx"
    "virq_gateway_context_switch_in cfg vc n switch acc svc_sp svc_pc (st, ctx, m, port) = Inr (priv, st1, ctx1, m1, port1)"
    "nested cfg n switch (ctx1, m1, port1) (ctx2, m2, port2)"
    "virq_gateway_context_switch_out cfg switch acc svc_sp' msp (st1, ctx2, m2, port2) = Inr (st3, ctx3, m3, port3)"
  defines "irqn \<equiv> (read32 m (svc_sp + 28) AND 0x1FF) - NVIC_OFFSET"
  shows "g_active_box ctx1 = owner_id (g_virq_vector st ! unat irqn) \<and> \<not> uvisor_owned vc (unat irqn) \<and>
    unat irqn < NVIC_VECTORS vc \<and> hdlr (g_virq_vector st ! unat irqn) \<noteq> 0 \<and> CONTROL st1 AND 1 = 1 \<and>
    g_active_box ctx3 = g_active_box ctx \<and> PSP ctx3 = PSP ctx \<and> ctx_stack ctx3 = ctx_stack ctx"
proof -
  let ?uv = "g_virq_vector st ! unat irqn"
  from assms(2) obtain ssp d m' where enter: "virq_default_check vc irqn = Inr ()" "hdlr ?uv \<noteq> 0" "ssp = PSP ctx"
    "context_switch_in cfg True n switch CONTEXT_SWITCH_FUNCTION_ISR (owner_id ?uv) ssp d (ctx, m', port) = Inr (ctx1, m1, port1)"
    "st1 = st\<lparr>CONTROL := CONTROL st OR 3\<rparr>"
    by (auto simp: virq_gateway_context_switch_in_def irqn_def Let_def bind_res_Inr_iff arr_get_Inr context_validate_exc_sf_def
        split: if_splits)
  have fb: "function_bound CONTEXT_SWITCH_FUNCTION_ISR" by (simp add: function_bound_def)
  have in1: "g_active_box ctx1 = owner_id ?uv" "ctx_ok n ctx1"
    "ctx_stack ctx1 = \<lparr>src_id = g_active_box ctx, ctx_type = CONTEXT_SWITCH_FUNCTION_ISR, src_sp = PSP ctx\<rparr> # ctx_stack ctx"
    using switch_in_spec [OF assms(1), where cfg = cfg and switch = switch and ty = CONTEXT_SWITCH_FUNCTION_ISR
        and dst = "owner_id ?uv" and ssp = ssp and dsp = d and m = m' and port = port] enter(3,4) fb by auto
  have in2: "ctx_ok n ctx2" "ctx_stack ctx2 = ctx_stack ctx1" using nested_spec [OF assms(3)] in1(2) by auto
  from assms(4) obtain ctx2' m2' prev where leave: "context_discard_exc_sf ctx2 m2' (g_active_box ctx2) svc_sp' = Inr ctx2'"
    "context_switch_out cfg switch CONTEXT_SWITCH_FUNCTION_ISR (ctx2', m2', port2) = Inr (prev, ctx3, m3, port3)"
    by (auto simp: virq_gateway_context_switch_out_def Let_def bind_res_Inr_iff context_validate_exc_sf_def split: if_splits)
  note dis = discard_keeps [OF leave(1)]
  note out = switch_out_spec [OF dis(1) [OF in2(1)] leave(2)]
  have "CONTROL st1 AND 1 = 1" by (rule bit_word_eqI) (auto simp: enter(5) bit_simps)
  then show ?thesis
    using out dis(2) in2(2) in1 enter(1,2) fb by (auto simp: virq_default_check_def split: if_splits)
qed

theorem virq_gateway_roundtrip_witness:
  "\<exists>s1 s3. virq_gateway_context_switch_in example_config example_virq_config 2 (\<lambda>_ _ _ p. Inr p) (\<lambda>_ _ _. True) 0x20000000 0x100
      (example_virq, example_contexts, write32 (\<lambda>_. 0) 0x2000001C 16, ()) = Inr (0, s1) \<and>
    virq_gateway_context_switch_out example_config (\<lambda>_ _ _ p. Inr p) (\<lambda>_ _ _. True) 0x20003000 0x20000000 s1 = Inr s3 \<and>
    g_active_box (fst (snd s3)) = 1"
proof -
  let ?m = "write32 (\<lambda>_. 0) 0x2000001C 16 :: mem"
  have irq: "read32 ?m 0x2000001C = 16" by (rule read32_write32)
  have reads: "read_words (\<lambda>_ _ _. True) m a k = Inr ()" for m a k
    by (induction k arbitrary: a) (simp_all add: vmpu_unpriv_uint32_read_def)
  have "\<exists>d m'. context_forge_exc_sf example_contexts ?m 0 1 0x401 0x102 0 0 = Inr (d, m')"
    by (simp add: context_forge_exc_sf_def example_contexts_def Let_def)
  then obtain d m' where forge: "context_forge_exc_sf example_contexts ?m 0 1 0x401 0x102 0 0 = Inr (d, m')" by blast
  define ctx1 where "ctx1 = example_contexts\<lparr>g_context_previous_states := (g_context_previous_states example_contexts)
      [0 := \<lparr>src_id = 1, ctx_type = CONTEXT_SWITCH_FUNCTION_ISR, src_sp = 0\<rparr>], g_context_p := 1,
      g_context_current_states := (g_context_current_states example_contexts)[1 := (g_context_current_states example_contexts ! 1)\<lparr>ctx_sp := 0\<rparr>],
      PSP := d\<rparr>"
  have enter: "context_switch_in example_config True 2 (\<lambda>_ _ _ p. Inr p) CONTEXT_SWITCH_FUNCTION_ISR 1 0 d (example_contexts, m', ())
      = Inr (ctx1, m', ())"
    by (simp add: context_switch_in_def example_contexts_def vmpu_is_box_id_valid_def function_bound_def context_state_push_def
        set_current_sp_def context_consts ctx1_def)
  have run: "virq_gateway_context_switch_in example_config example_virq_config 2 (\<lambda>_ _ _ p. Inr p) (\<lambda>_ _ _. True) 0x20000000 0x100
      (example_virq, example_contexts, ?m, ()) = Inr (0, example_virq\<lparr>CONTROL := 3\<rparr>, ctx1, m', ())"
    using forge enter
    by (simp add: virq_gateway_context_switch_in_def irq example_virq_def example_virq_config_def virq_default_check_def NVIC_OFFSET_def
        context_validate_exc_sf_def reads) (simp add: example_contexts_def)
  obtain s3 where out: "virq_gateway_context_switch_out example_config (\<lambda>_ _ _ p. Inr p) (\<lambda>_ _ _. True) 0x20003000 0x20000000
      (example_virq\<lparr>CONTROL := 3\<rparr>, ctx1, m', ()) = Inr s3"
    by (simp add: virq_gateway_context_switch_out_def context_validate_exc_sf_def reads context_discard_exc_sf_def set_current_sp_def
        context_switch_out_def context_state_pop_def Let_def ctx1_def example_contexts_def context_consts)
  obtain st3 c3 m3 where s3: "s3 = (st3, c3, m3, ())" by (cases s3) auto
  show ?thesis
    using run out virq_gateway_roundtrip [OF example_contexts_ok run nested_refl out [unfolded s3]] s3
    by (auto simp: example_contexts_def)
qed

end
