(* ===== verification/Vmpu_Sanity.thy ===== *)
theory Vmpu_Sanity
  imports Vmpu_Base Unpriv_Access
begin

text \<open>
  The checks that \<^verbatim>\<open>core/vmpu/src/vmpu.c\<close> makes before it trusts the configuration: of the linker symbols
  (\<open>vmpu_check_sanity\<close>), of the configuration table of a box and of its namespace string.
\<close>

unbundle bit_operations_syntax

section \<open>The build\<close>

text \<open>
  What the build and the device fix: the memory origins and offsets, uVisor's own linker symbols and
  the identification of the core. \<open>debug\<close> tells whether \<open>assert\<close> is compiled in; a failing \<open>assert\<close>
  loops forever.
\<close>

record build_config =
  debug :: bool
  FLASH_ORIGIN :: u32
  FLASH_OFFSET :: u32
  SRAM_ORIGIN :: u32
  SRAM_OFFSET :: u32
  UVISOR_SRAM_LENGTH_USED :: u32
  UVISOR_SRAM_LENGTH_PROTECTED :: u32
  SECURE_ALIAS_OFFSET :: u32
  uvisor_bss_start :: u32
  uvisor_bss_end :: u32
  uvisor_data_start :: u32
  uvisor_data_end :: u32
  uvisor_stack_start :: u32
  uvisor_stack_end :: u32
  SCB_CPUID :: u32
  CORE_IMPLEMENTER :: u32
  CORE_ARCHITECTURE :: u32
  CORE_PARTNO :: u32
  CORE_VARIANT_MIN :: u32
  CORE_REVISION_MIN :: u32

definition assert_res :: "build_config \<Rightarrow> bool \<Rightarrow> unit res" where
  "assert_res bc b = (if debug bc \<and> \<not> b then Inl Diverge else Inr ())"

definition halt_unless :: "bool \<Rightarrow> unit res" where
  "halt_unless b = (if b then Inr () else Inl (Halt SANITY_CHECK_FAILED))"

primrec all_res :: "unit res list \<Rightarrow> unit res" where
  "all_res [] = Inr ()"
| "all_res (c # cs) = bind_res c (\<lambda>_. all_res cs)"

lemma all_res_Inr [res_simps]: "all_res cs = Inr u \<longleftrightarrow> (\<forall>c \<in> set cs. c = Inr ())"
  by (induction cs) (auto simp: bind_res_Inr_iff)

lemma check_Inr [res_simps]:
  "assert_res bc b = Inr u \<longleftrightarrow> (debug bc \<longrightarrow> b)" "halt_unless b = Inr u \<longleftrightarrow> b"
  by (auto simp: assert_res_def halt_unless_def)

definition CORE_VERSION_CHECK :: "build_config \<Rightarrow> bool" where
  "CORE_VERSION_CHECK bc \<longleftrightarrow> drop_bit 24 (SCB_CPUID bc AND 0xFF000000) = CORE_IMPLEMENTER bc \<and>
     drop_bit 16 (SCB_CPUID bc AND 0xF0000) = CORE_ARCHITECTURE bc \<and> drop_bit 4 (SCB_CPUID bc AND 0xFFF0) = CORE_PARTNO bc"

definition CORE_REVISION_CHECK :: "build_config \<Rightarrow> bool" where
  "CORE_REVISION_CHECK bc \<longleftrightarrow> drop_bit 20 (SCB_CPUID bc AND 0xF00000) \<ge> CORE_VARIANT_MIN bc \<and>
     SCB_CPUID bc AND 0xF \<ge> CORE_REVISION_MIN bc"

definition UVISOR_GET_S_ALIAS :: "build_config \<Rightarrow> u32 \<Rightarrow> u32" where
  "UVISOR_GET_S_ALIAS bc addr = addr OR SECURE_ALIAS_OFFSET bc"

definition UVISOR_MAGIC :: u32 where "UVISOR_MAGIC = 0x2FE539A6"

section \<open>The linker symbols\<close>

text \<open>Each register gateway pointer of the table is word aligned.\<close>

primrec gateways_aligned :: "mem \<Rightarrow> u32 \<Rightarrow> nat \<Rightarrow> unit res" where
  "gateways_aligned m p 0 = Inr ()"
| "gateways_aligned m p (Suc n) =
     (if read32 m p AND 0x3 \<noteq> 0 then Inl (Halt SANITY_CHECK_FAILED) else gateways_aligned m (p + 4) n)"

definition pointer_count :: "u32 \<Rightarrow> u32 \<Rightarrow> nat" where
  "pointer_count p_start p_end = (if p_start < p_end then (unat (p_end - p_start) + 3) div 4 else 0)"

text \<open>The checks in the order of the source; the boxes are not counted yet when they run.\<close>

definition sanity_checks :: "build_config \<Rightarrow> UvisorConfig \<Rightarrow> mem \<Rightarrow> unit res list" where
  "sanity_checks bc cfg m =
       [halt_unless (cfg_magic cfg = UVISOR_MAGIC),
        assert_res bc (\<not> vmpu_is_box_id_valid False 0 UVISOR_BOX_ID_INVALID),
        assert_res bc (builtin_clz 0 = 32),
        assert_res bc (builtin_clz (push_bit 31 1) = 0),
        assert_res bc (vmpu_bits 0 = 0),
        assert_res bc (vmpu_bits (push_bit 31 1) = 32),
        assert_res bc (vmpu_bits 0x8000 = 16),
        assert_res bc (vmpu_bits 0x8001 = 16),
        assert_res bc (vmpu_bits 1 = 1),
        halt_unless (CORE_VERSION_CHECK bc \<and> CORE_REVISION_CHECK bc),
        assert_res bc (flash_start cfg = FLASH_ORIGIN bc),
        assert_res bc (sram_start cfg = SRAM_ORIGIN bc),
        assert_res bc (flash_start cfg + FLASH_OFFSET bc = main_start cfg),
        assert_res bc (vmpu_public_flash_addr cfg (cfg_mode cfg)),
        assert_res bc (read32 m (cfg_mode cfg) \<le> 2),
        assert_res bc (bss_start cfg = SRAM_ORIGIN bc + SRAM_OFFSET bc),
        assert_res bc (bss_end cfg > bss_start cfg),
        assert_res bc (bss_main_end cfg > bss_main_start cfg),
        assert_res bc (bss_boxes_end cfg > bss_boxes_start cfg),
        assert_res bc (bss_main_start cfg \<ge> bss_boxes_end cfg \<or> bss_main_end cfg \<le> bss_boxes_start cfg),
        assert_res bc (VMPU_REGION_SIZE (bss_main_start cfg) (bss_main_end cfg) = UVISOR_SRAM_LENGTH_USED bc),
        assert_res bc (bss_main_end cfg = SRAM_ORIGIN bc + SRAM_OFFSET bc + UVISOR_SRAM_LENGTH_USED bc),
        assert_res bc (bss_main_end cfg = SRAM_ORIGIN bc + UVISOR_SRAM_LENGTH_PROTECTED bc),
        assert_res bc (page_start cfg \<ge> public_sram_start cfg),
        assert_res bc (page_start cfg \<le> page_end cfg),
        if public_sram_start cfg = sram_start cfg
        then all_res [assert_res bc (page_start cfg \<ge> bss_end cfg), assert_res bc (public_sram_end cfg = sram_end cfg)]
        else assert_res bc (public_sram_start cfg \<ge> sram_end cfg \<or> sram_start cfg \<ge> public_sram_end cfg),
        assert_res bc (uvisor_bss_start bc \<ge> UVISOR_GET_S_ALIAS bc (bss_main_start cfg)),
        assert_res bc (uvisor_bss_end bc \<le> UVISOR_GET_S_ALIAS bc (bss_main_end cfg)),
        assert_res bc (uvisor_data_start bc \<ge> UVISOR_GET_S_ALIAS bc (bss_main_start cfg)),
        assert_res bc (uvisor_data_end bc \<le> UVISOR_GET_S_ALIAS bc (bss_main_end cfg)),
        assert_res bc (uvisor_stack_start bc \<ge> UVISOR_GET_S_ALIAS bc (bss_main_start cfg)),
        assert_res bc (uvisor_stack_end bc \<le> UVISOR_GET_S_ALIAS bc (bss_main_end cfg)),
        assert_res bc (\<not> vmpu_public_flash_addr cfg (secure_start cfg)),
        assert_res bc (\<not> vmpu_public_flash_addr cfg (secure_end cfg)),
        assert_res bc (vmpu_flash_addr cfg (secure_start cfg)),
        assert_res bc (vmpu_flash_addr cfg (secure_end cfg)),
        assert_res bc (secure_start cfg \<le> secure_end cfg),
        assert_res bc (secure_start cfg \<ge> main_end cfg),
        assert_res bc (cfgtbl_ptr_start cfg \<le> cfgtbl_ptr_end cfg),
        assert_res bc (cfgtbl_ptr_start cfg \<ge> secure_start cfg),
        assert_res bc (cfgtbl_ptr_end cfg \<le> secure_end cfg),
        assert_res bc (\<not> vmpu_public_flash_addr cfg (cfgtbl_ptr_start cfg)),
        assert_res bc (\<not> vmpu_public_flash_addr cfg (cfgtbl_ptr_end cfg)),
        assert_res bc (vmpu_flash_addr cfg (cfgtbl_ptr_start cfg)),
        assert_res bc (vmpu_flash_addr cfg (cfgtbl_ptr_end cfg)),
        assert_res bc (register_gateway_ptr_start cfg \<le> register_gateway_ptr_end cfg),
        assert_res bc (register_gateway_ptr_start cfg \<ge> secure_start cfg),
        assert_res bc (register_gateway_ptr_end cfg \<le> secure_end cfg),
        assert_res bc (\<not> vmpu_public_flash_addr cfg (register_gateway_ptr_start cfg)),
        assert_res bc (\<not> vmpu_public_flash_addr cfg (register_gateway_ptr_end cfg)),
        assert_res bc (vmpu_flash_addr cfg (register_gateway_ptr_start cfg)),
        assert_res bc (vmpu_flash_addr cfg (register_gateway_ptr_end cfg)),
        gateways_aligned m (register_gateway_ptr_start cfg)
          (pointer_count (register_gateway_ptr_start cfg) (register_gateway_ptr_end cfg)),
        halt_unless (heap_start cfg \<noteq> 0 \<and> vmpu_public_sram_addr cfg (heap_start cfg)),
        halt_unless (heap_end cfg \<noteq> 0 \<and> vmpu_public_sram_addr cfg (heap_end cfg)),
        halt_unless (\<not> heap_end cfg < heap_start cfg)]"

text \<open>The result is 0, or -1 when uVisor is disabled.\<close>

definition vmpu_check_sanity :: "build_config \<Rightarrow> UvisorConfig \<Rightarrow> mem \<Rightarrow> int res" where
  "vmpu_check_sanity bc cfg m =
     bind_res (all_res (sanity_checks bc cfg m))
       (\<lambda>_. Inr (if cfg_mode cfg = 0 \<or> read32 m (cfg_mode cfg) = 0 then - 1 else 0))"

section \<open>The configuration table of a box\<close>

definition UVISOR_MAX_BOX_NAMESPACE_LENGTH :: nat where "UVISOR_MAX_BOX_NAMESPACE_LENGTH = 37"

text \<open>\<open>namespace_loop\<close> with \<open>n\<close> rounds left looks at the character \<open>37 - n\<close>.\<close>

primrec namespace_loop :: "UvisorConfig \<Rightarrow> mem \<Rightarrow> u32 \<Rightarrow> nat \<Rightarrow> nat \<Rightarrow> unit res" where
  "namespace_loop cfg m ns len 0 = Inl (Halt SANITY_CHECK_FAILED)"
| "namespace_loop cfg m ns len (Suc n) =
     (if \<not> vmpu_public_flash_addr cfg ns \<or> \<not> vmpu_public_flash_addr cfg (ns + of_nat len) then Inl (Halt SANITY_CHECK_FAILED)
      else if m (ns + of_nat len) = 0 then Inr ()
      else if Suc len \<ge> UVISOR_MAX_BOX_NAMESPACE_LENGTH then Inl (Halt SANITY_CHECK_FAILED)
      else if m (ns + of_nat (Suc len)) \<noteq> 0 then namespace_loop cfg m ns (Suc len) n
      else Inr ())"

definition vmpu_check_sanity_box_namespace :: "UvisorConfig \<Rightarrow> mem \<Rightarrow> u32 \<Rightarrow> unit res" where
  "vmpu_check_sanity_box_namespace cfg m ns =
     (if ns = 0 then Inr () else namespace_loop cfg m ns 0 UVISOR_MAX_BOX_NAMESPACE_LENGTH)"

record UvisorBoxConfig =
  box_magic :: u32
  box_version :: u32
  bss_sizes :: "u32 list"
  stack_size :: u32
  lib_config :: u32
  box_namespace :: u32
  acl_list :: u32
  acl_count :: u32

text \<open>The packed structure at an address: 52 bytes, the six BSS sizes from offset 8.\<close>

definition box_config_at :: "mem \<Rightarrow> u32 \<Rightarrow> UvisorBoxConfig" where
  "box_config_at m p = \<lparr>box_magic = read32 m p, box_version = read32 m (p + 4),
     bss_sizes = map (\<lambda>i. read32 m (p + 8 + of_nat (4 * i))) [0..<6], stack_size = read32 m (p + 32),
     lib_config = read32 m (p + 36), box_namespace = read32 m (p + 40), acl_list = read32 m (p + 44), acl_count = read32 m (p + 48)\<rparr>"

definition UVISOR_BSS_SECTIONS_COUNT :: nat where "UVISOR_BSS_SECTIONS_COUNT = 6"
definition UVISOR_BOX_MAGIC :: u32 where "UVISOR_BOX_MAGIC = 0x42CFB66F"
definition UVISOR_BOX_VERSION :: u32 where "UVISOR_BOX_VERSION = 100"

text \<open>\<open>sizeof(UvisorBoxIndex)\<close> is 40. The heap size is the sixth BSS size.\<close>

definition vmpu_check_sanity_box_cfgtbl :: "UvisorConfig \<Rightarrow> mem \<Rightarrow> u8 \<Rightarrow> u32 \<Rightarrow> unit res" where
  "vmpu_check_sanity_box_cfgtbl cfg m box_id p =
     (let box_cfgtbl = box_config_at m p in
      all_res
       [halt_unless (vmpu_flash_addr cfg p \<and> vmpu_flash_addr cfg (p + (52 - 1))),
        halt_unless (box_magic box_cfgtbl = UVISOR_BOX_MAGIC),
        halt_unless (box_version box_cfgtbl = UVISOR_BOX_VERSION),
        halt_unless (\<not> bss_sizes box_cfgtbl ! 0 < 40),
        halt_unless (\<not> (box_id \<noteq> 0 \<and> stack_size box_cfgtbl < UVISOR_MIN_STACK_SIZE)),
        if box_id = 0
        then all_res [halt_unless (stack_size box_cfgtbl = 0), halt_unless (bss_sizes box_cfgtbl ! 5 = 0)]
        else Inr (),
        vmpu_check_sanity_box_namespace cfg m (box_namespace box_cfgtbl)])"

section \<open>What a passed check guarantees\<close>

lemma sanity_passed: "vmpu_check_sanity bc cfg m = Inr r \<Longrightarrow> c \<in> set (sanity_checks bc cfg m) \<Longrightarrow> c = Inr ()"
  by (auto simp: vmpu_check_sanity_def bind_res_Inr_iff all_res_Inr)

lemma sanity_assert: "vmpu_check_sanity bc cfg m = Inr r \<Longrightarrow> debug bc \<Longrightarrow> assert_res bc b \<in> set (sanity_checks bc cfg m) \<Longrightarrow> b"
  using sanity_passed [of bc cfg m r "assert_res bc b"] by (simp add: check_Inr)

lemma sanity_halt: "vmpu_check_sanity bc cfg m = Inr r \<Longrightarrow> halt_unless b \<in> set (sanity_checks bc cfg m) \<Longrightarrow> b"
  using sanity_passed [of bc cfg m r "halt_unless b"] by (simp add: check_Inr)


lemma namespace_loop_iff:
  defines "max_len \<equiv> UVISOR_MAX_BOX_NAMESPACE_LENGTH"
  assumes "len + n = max_len" "0 < n"
  shows "namespace_loop cfg m ns len n =
    (if \<exists>k. len \<le> k \<and> k < max_len \<and> m (ns + of_nat k) = 0 \<and> vmpu_public_flash_addr cfg ns \<and>
         vmpu_public_flash_addr cfg (ns + of_nat len) \<and>
         (\<forall>j. len \<le> j \<and> j < k \<longrightarrow> m (ns + of_nat j) \<noteq> 0 \<and> vmpu_public_flash_addr cfg (ns + of_nat j))
     then Inr () else Inl (Halt SANITY_CHECK_FAILED))"
  (is "_ = (if \<exists>k. ?good len k then _ else _)")
  using assms(2,3)
proof (induction n arbitrary: len)
  case (Suc n)
  let ?good = "\<lambda>len k. len \<le> k \<and> k < max_len \<and> m (ns + of_nat k) = 0 \<and> vmpu_public_flash_addr cfg ns \<and>
         vmpu_public_flash_addr cfg (ns + of_nat len) \<and>
         (\<forall>j. len \<le> j \<and> j < k \<longrightarrow> m (ns + of_nat j) \<noteq> 0 \<and> vmpu_public_flash_addr cfg (ns + of_nat j))"
  show ?case
  proof (cases "vmpu_public_flash_addr cfg ns \<and> vmpu_public_flash_addr cfg (ns + of_nat len) \<and> m (ns + of_nat len) \<noteq> 0 \<and>
      Suc len < max_len \<and> m (ns + of_nat (Suc len)) \<noteq> 0")
    case True
    have "?good len k \<longleftrightarrow> ?good (Suc len) k" for k
    proof
      assume g: "?good len k"
      then have "k \<noteq> len" "k \<noteq> Suc len" using True by auto
      then have "Suc len < k" using g by linarith
      moreover from this have "vmpu_public_flash_addr cfg (ns + of_nat (Suc len))" using g le_SucI [OF order_refl] by blast
      ultimately show "?good (Suc len) k" using g by (auto simp del: of_nat_Suc)
    next
      assume g: "?good (Suc len) k"
      then show "?good len k" using True by (auto simp: less_Suc_eq_le dest: le_neq_implies_less Suc_leI)
    qed
    moreover have "0 < n" "Suc len + n = max_len" using True Suc.prems by auto
    ultimately show ?thesis using Suc.IH [of "Suc len"] True by (simp add: max_len_def)
  next
    case False
    have "?good len len" if "vmpu_public_flash_addr cfg ns" "vmpu_public_flash_addr cfg (ns + of_nat len)" "m (ns + of_nat len) = 0"
      using that Suc.prems by auto
    moreover have "?good len (Suc len)" if "vmpu_public_flash_addr cfg ns" "vmpu_public_flash_addr cfg (ns + of_nat len)"
      "m (ns + of_nat len) \<noteq> 0" "Suc len < max_len" "m (ns + of_nat (Suc len)) = 0"
      using that by (auto simp: less_Suc_eq_le dest: le_antisym)
    moreover have "\<not> ?good len k" if "m (ns + of_nat len) \<noteq> 0" "\<not> Suc len < max_len" for k
      using that Suc.prems by (auto simp: not_less_eq le_Suc_eq dest: le_antisym)
    moreover consider "\<not> (vmpu_public_flash_addr cfg ns \<and> vmpu_public_flash_addr cfg (ns + of_nat len))"
      | "vmpu_public_flash_addr cfg ns" "vmpu_public_flash_addr cfg (ns + of_nat len)" "m (ns + of_nat len) = 0"
      | "vmpu_public_flash_addr cfg ns" "vmpu_public_flash_addr cfg (ns + of_nat len)" "m (ns + of_nat len) \<noteq> 0" "\<not> Suc len < max_len"
      | "vmpu_public_flash_addr cfg ns" "vmpu_public_flash_addr cfg (ns + of_nat len)" "m (ns + of_nat len) \<noteq> 0" "Suc len < max_len"
        "m (ns + of_nat (Suc len)) = 0"
      using False by blast
    then have "namespace_loop cfg m ns len (Suc n) = (if \<exists>k. ?good len k then Inr () else Inl (Halt SANITY_CHECK_FAILED)) "
    proof cases
      case 1
      then have "\<not> (\<exists>k. ?good len k)" by blast
      then show ?thesis using 1 by (simp only: namespace_loop.simps) auto
    next
      case 2
      then have "\<exists>k. ?good len k" using calculation(1) by blast
      then show ?thesis using 2 by (simp only: namespace_loop.simps) simp
    next
      case 3
      then have "\<not> (\<exists>k. ?good len k)" using calculation(3) by blast
      then show ?thesis using 3 by (simp only: namespace_loop.simps max_len_def [symmetric]) simp
    next
      case 4
      then have "\<exists>k. ?good len k" using calculation(2) by blast
      then show ?thesis using 4 by (simp only: namespace_loop.simps max_len_def [symmetric]) simp
    qed
    then show ?thesis .
  qed
qed simp

text \<open>
  The namespace check accepts exactly the anonymous boxes and the strings of at most 36 characters that end
  with a zero byte and whose characters all lie in public flash; any other string halts
  the system. The scan ends after at most 37 characters. The address of the terminating byte of a non-empty string is
  not compared with the public flash.
\<close>

theorem vmpu_check_sanity_box_namespace_iff:
  "vmpu_check_sanity_box_namespace cfg m ns =
    (if ns = 0 \<or> (\<exists>k < UVISOR_MAX_BOX_NAMESPACE_LENGTH. m (ns + of_nat k) = 0 \<and> vmpu_public_flash_addr cfg ns \<and>
         (\<forall>j < k. m (ns + of_nat j) \<noteq> 0 \<and> vmpu_public_flash_addr cfg (ns + of_nat j)))
     then Inr () else Inl (Halt SANITY_CHECK_FAILED))"
  using namespace_loop_iff [of 0 UVISOR_MAX_BOX_NAMESPACE_LENGTH cfg m ns]
  by (simp add: vmpu_check_sanity_box_namespace_def UVISOR_MAX_BOX_NAMESPACE_LENGTH_def conj_ac)

section \<open>Example\<close>

definition example_build :: build_config where
  "example_build = \<lparr>debug = True, FLASH_ORIGIN = 0, FLASH_OFFSET = 0x400, SRAM_ORIGIN = 0x20000000, SRAM_OFFSET = 0,
     UVISOR_SRAM_LENGTH_USED = 0x2000, UVISOR_SRAM_LENGTH_PROTECTED = 0x2000, SECURE_ALIAS_OFFSET = 0,
     uvisor_bss_start = 0x20000000, uvisor_bss_end = 0x20001000, uvisor_data_start = 0x20001000, uvisor_data_end = 0x20001400,
     uvisor_stack_start = 0x20001800, uvisor_stack_end = 0x20002000, SCB_CPUID = 0x410FC241, CORE_IMPLEMENTER = 0x41,
     CORE_ARCHITECTURE = 0xF, CORE_PARTNO = 0xC24, CORE_VARIANT_MIN = 0, CORE_REVISION_MIN = 1\<rparr>"

lemma example_sanity: "vmpu_check_sanity example_build example_config ((\<lambda>_. 0)(0x114 := 2)) = Inr 0"
proof -
  have bits: "vmpu_bits 0x8000 = 16" "vmpu_bits 0x8001 = 16" "vmpu_bits 1 = 1" "vmpu_bits 0 = 0" "vmpu_bits 0x80000000 = 32"
    "builtin_clz 0 = 32" "builtin_clz 0x80000000 = 0"
    by (simp_all add: vmpu_bits_def builtin_clz_def nat_bits.simps)
  have mode: "read32 ((\<lambda>_. 0)(0x114 := 2)) 0x114 = 2" by (simp add: read32_def)
  have count: "pointer_count 0x20108 0x20110 = Suc (Suc 0)" by (simp add: pointer_count_def)
  have "all_res (sanity_checks example_build example_config ((\<lambda>_. 0)(0x114 := 2))) = Inr ()"
    by (simp add: sanity_checks_def example_build_def example_config_def assert_res_def halt_unless_def CORE_VERSION_CHECK_def
        CORE_REVISION_CHECK_def UVISOR_MAGIC_def vmpu_is_box_id_valid_def UVISOR_BOX_ID_INVALID_def UVISOR_MAX_BOXES_def bits mode
        vmpu_public_flash_addr_def vmpu_flash_addr_def vmpu_public_sram_addr_def VMPU_REGION_SIZE_def UVISOR_GET_S_ALIAS_def
        count read32_def)
  then show ?thesis by (simp add: vmpu_check_sanity_def mode example_config_def)
qed


theorem vmpu_check_sanity_box_namespace_iff_witness:
  "vmpu_check_sanity_box_namespace example_config ((\<lambda>_. 0)(0x500 := 97)) 0x500 = Inr () \<and>
   vmpu_check_sanity_box_namespace example_config ((\<lambda>_. 0)(0x20003000 := 97)) 0x20003000 = Inl (Halt SANITY_CHECK_FAILED)"
proof -
  have "\<exists>k < UVISOR_MAX_BOX_NAMESPACE_LENGTH. ((\<lambda>_. 0)(0x500 := 97)) (0x500 + of_nat k :: u32) = (0 :: u8) \<and>
      vmpu_public_flash_addr example_config 0x500 \<and> (\<forall>j < k. ((\<lambda>_. 0)(0x500 := 97)) (0x500 + of_nat j :: u32) \<noteq> (0 :: u8) \<and>
        vmpu_public_flash_addr example_config (0x500 + of_nat j))"
    by (rule exI [of _ 1]) (simp add: UVISOR_MAX_BOX_NAMESPACE_LENGTH_def vmpu_public_flash_addr_def example_config_def)
  moreover have "\<not> vmpu_public_flash_addr example_config 0x20003000" by (simp add: vmpu_public_flash_addr_def example_config_def)
  ultimately show ?thesis
    using vmpu_check_sanity_box_namespace_iff [of example_config "(\<lambda>_. 0)(0x500 := 97)" "0x500"]
      vmpu_check_sanity_box_namespace_iff [of example_config "(\<lambda>_. 0)(0x20003000 := 97)" "0x20003000"]
    by (simp only:) simp
qed

end
