(* ===== verification/Vmpu.thy ===== *)
theory Vmpu
  imports Vmpu_Armv7m Virq Vmpu_Sanity
begin

text \<open>
  Box enumeration, \<^verbatim>\<open>core/vmpu/src/vmpu.c\<close>, on the ARMv7-M port, and \<^verbatim>\<open>core/system/src/box_init.c\<close>: the index of a box, its
  peripherals and its memory, the loop over all boxes, and the namespaces. Two things
  are arguments: \<open>reent_init\<close>, newlib's \<open>_REENT_INIT_PTR\<close>, and \<open>ipc_init\<close>, the
  initialisation of the IPC queues in the memory of a box.
\<close>

unbundle bit_operations_syntax

section \<open>State\<close>

record vmpu_state =
  vm_port :: v7m_state
  vm_ctx :: context_state
  vm_virq :: virq_state
  vm_mem :: mem
  g_vmpu_box_count :: u8
  g_vmpu_boxes_counted :: bool
  SCB_CCR :: u32

text \<open>What the model takes from the build, the linker and other code.\<close>

record vmpu_env =
  env_build :: build_config
  env_cfg :: UvisorConfig
  env_virq :: virq_config
  reent_init :: "u32 \<Rightarrow> mem \<Rightarrow> mem"
  ipc_init :: "u8 \<Rightarrow> context_state \<Rightarrow> mem \<Rightarrow> mem res"

section \<open>The index of a box\<close>

definition UVISOR_BOX_ROUND_4 :: "u32 \<Rightarrow> u32" where
  "UVISOR_BOX_ROUND_4 sz = (sz + 3) AND NOT 3"

text \<open>The offsets in \<open>UvisorBoxIndex\<close>; the pointers to the BSS sections are its first six words.\<close>

definition index_heap :: u32 where "index_heap = 20"
definition index_heap_size :: u32 where "index_heap_size = 24"
definition index_active_heap :: u32 where "index_active_heap = 28"
definition index_config :: u32 where "index_config = 36"

lemmas box_index_offsets = index_heap_def index_heap_size_def index_active_heap_def index_config_def

primrec index_pointers :: "u32 \<Rightarrow> nat \<Rightarrow> u32 list \<Rightarrow> u32 \<times> mem \<Rightarrow> u32 \<times> mem" where
  "index_pointers index i [] st = st"
| "index_pointers index i (s # ss) st =
     (let sz = UVISOR_BOX_ROUND_4 s; box_bss = fst st;
          m = write32 (snd st) (index + of_nat (4 * i)) (if sz \<noteq> 0 then box_bss else 0)
      in index_pointers index (Suc i) ss (box_bss + sz, m))"

definition vmpu_box_index_init :: "vmpu_env \<Rightarrow> u8 \<Rightarrow> u32 \<Rightarrow> u32 \<Rightarrow> mem \<Rightarrow> mem" where
  "vmpu_box_index_init env box_id p start_of_bss m =
     (let cfg = env_cfg env; box_cfgtbl = box_config_at m p; index = start_of_bss;
          (box_bss, m) = index_pointers index 0 (bss_sizes box_cfgtbl) (start_of_bss, m);
          bss_size = box_bss - start_of_bss;
          (heap_size, m) =
            (if box_id = 0
             then (heap_end cfg - heap_start cfg - bss_size, write32 m (index + index_heap) (heap_start cfg + bss_size))
             else (bss_sizes box_cfgtbl ! 5, reent_init env (read32 m (index + index_newlib_reent)) m));
          m = write32 m (index + index_heap_size) heap_size;
          m = write32 m (index + index_active_heap) 0
      in write32 m (index + index_config) p)"

section \<open>Peripherals and memory of a box\<close>

text \<open>An access control list item is 12 bytes: two parameters and the flags.\<close>

primrec configure_acls :: "vmpu_env \<Rightarrow> u8 \<Rightarrow> u32 \<Rightarrow> nat \<Rightarrow> vmpu_state \<Rightarrow> vmpu_state res" where
  "configure_acls env box_id region 0 st = Inr st"
| "configure_acls env box_id region (Suc n) st =
     (let m = vm_mem st; param1 = read32 m region; param2 = read32 m (region + 4); acl = read32 m (region + 8) in
      if \<not> vmpu_public_flash_addr (env_cfg env) region then Inl (Halt SANITY_CHECK_FAILED)
      else
        bind_res
          (if acl AND UVISOR_TACL_IRQ \<noteq> 0
           then bind_res (virq_acl_add (env_virq env) (g_active_box (vm_ctx st)) box_id param1 (vm_virq st)) (\<lambda>virq.
             Inr (st\<lparr>vm_virq := virq\<rparr>))
           else bind_res (vmpu_region_add_static_acl (g_vmpu_boxes_counted st) (g_vmpu_box_count st) (v_mpu (vm_port st)) box_id
               param1 param2 (acl OR UVISOR_TACL_USER) 0) (\<lambda>(n, mpu).
             Inr (st\<lparr>vm_port := (vm_port st)\<lparr>v_mpu := mpu\<rparr>\<rparr>)))
          (configure_acls env box_id (region + 12) n))"

definition vmpu_configure_box_peripherals :: "vmpu_env \<Rightarrow> u8 \<Rightarrow> u32 \<Rightarrow> vmpu_state \<Rightarrow> vmpu_state res" where
  "vmpu_configure_box_peripherals env box_id p st =
     (let box_cfgtbl = box_config_at (vm_mem st) p in
      if acl_list box_cfgtbl \<noteq> 0
      then configure_acls env box_id (acl_list box_cfgtbl) (nat (sint (acl_count box_cfgtbl))) st
      else Inr st)"

definition set_box_state :: "context_state \<Rightarrow> u8 \<Rightarrow> (TContextCurrentState \<Rightarrow> TContextCurrentState) \<Rightarrow> context_state res" where
  "set_box_state ctx box_id f =
     bind_res (arr_get (g_context_current_states ctx) (unat box_id)) (\<lambda>cur.
     Inr (ctx\<lparr>g_context_current_states := (g_context_current_states ctx)[unat box_id := f cur]\<rparr>))"

definition vmpu_configure_box_sram :: "vmpu_env \<Rightarrow> u8 \<Rightarrow> u32 \<Rightarrow> vmpu_state \<Rightarrow> vmpu_state res" where
  "vmpu_configure_box_sram env box_id p st =
     (let box_cfgtbl = box_config_at (vm_mem st) p; bss_size = sum_list (bss_sizes box_cfgtbl) in
      bind_res
        (if box_id = 0 then Inr (heap_start (env_cfg env), PSP (vm_ctx st), vm_port st)
         else vmpu_acl_sram (env_cfg env) (g_vmpu_boxes_counted st) (g_vmpu_box_count st) (vm_port st) box_id bss_size (stack_size box_cfgtbl))
        (\<lambda>(start_of_bss, stack_pointer, port).
          bind_res (set_box_state (vm_ctx st) box_id
            (\<lambda>cur. cur\<lparr>ctx_bss := start_of_bss, ctx_bss_size := bss_size, ctx_sp := stack_pointer\<rparr>)) (\<lambda>ctx.
          let m = zero_range (vm_mem st) start_of_bss bss_size in
          Inr (st\<lparr>vm_port := port, vm_ctx := ctx, vm_mem := vmpu_box_index_init env box_id p start_of_bss m\<rparr>))))"

section \<open>The first state of a box\<close>

definition EXC_RETURN_SPSEL_Msk :: u32 where "EXC_RETURN_SPSEL_Msk = push_bit 2 1"

text \<open>\<open>EXC_RETURN_S_Msk\<close> is 0 on ARMv7-M. The function is the first word of \<open>lib_config\<close>.\<close>

definition box_init :: "vmpu_env \<Rightarrow> u8 \<Rightarrow> u32 \<Rightarrow> vmpu_state \<Rightarrow> vmpu_state res" where
  "box_init env box_id p st =
     bind_res (set_box_state (vm_ctx st) box_id (remaining_ms_update (\<lambda>_. 100))) (\<lambda>ctx.
     bind_res (ipc_init env box_id ctx (vm_mem st)) (\<lambda>m.
     if box_id = 0 then Inr (st\<lparr>vm_ctx := ctx, vm_mem := m\<rparr>)
     else
       bind_res (arr_get (g_context_current_states ctx) (unat box_id)) (\<lambda>state.
       let box_cfgtbl = box_config_at m p;
           box_main = read32 m (lib_config box_cfgtbl);
           msplim = ctx_sp state - stack_size box_cfgtbl;
           (sp, m) = context_forge_initial_frame (SECURE_ALIAS_OFFSET (env_build env)) m (ctx_sp state - 8) box_main in
       bind_res (set_box_state ctx box_id (\<lambda>cur. cur\<lparr>ctx_msplim := msplim, ctx_sp := sp, ctx_msp := sp,
           ctx_lr := 0xFFFFFFFD AND NOT EXC_RETURN_SPSEL_Msk\<rparr>)) (\<lambda>ctx.
       bind_res (assert_res (env_build env) (sp AND 0x7 = 0)) (\<lambda>_.
       Inr (st\<lparr>vm_ctx := ctx, vm_mem := m\<rparr>))))))"

section \<open>All boxes\<close>

text \<open>The switch of the MPU that the context switch uses.\<close>

definition port_switch :: "u8 \<Rightarrow> u8 \<Rightarrow> u8 \<Rightarrow> v7m_state \<Rightarrow> v7m_state res" where
  "port_switch active src dst port = vmpu_switch (port\<lparr>active_box := active\<rparr>) src dst"

definition cfgtbl_ptr :: "vmpu_env \<Rightarrow> mem \<Rightarrow> nat \<Rightarrow> u32" where
  "cfgtbl_ptr env m i = read32 m (cfgtbl_ptr_start (env_cfg env) + of_nat (4 * i))"

primrec init_boxes :: "vmpu_env \<Rightarrow> nat list \<Rightarrow> u8 \<Rightarrow> vmpu_state \<Rightarrow> vmpu_state res" where
  "init_boxes env [] box_id st = Inr st"
| "init_boxes env (index # order) box_id st =
     (let p = cfgtbl_ptr env (vm_mem st) index in
      bind_res (vmpu_check_sanity_box_cfgtbl (env_cfg env) (vm_mem st) box_id p) (\<lambda>_.
      bind_res (vmpu_configure_box_sram env box_id p st) (\<lambda>st.
      bind_res (vmpu_configure_box_peripherals env box_id p st) (\<lambda>st.
      bind_res (box_init env box_id p st) (\<lambda>st.
      init_boxes env order (box_id + 1) st)))))"

text \<open>
  \<open>box_order\<close> is the caller's uninitialised array. The number of boxes is the distance of two
  pointers, cut to 8 bits.
\<close>

definition vmpu_enumerate_boxes :: "vmpu_env \<Rightarrow> nat list \<Rightarrow> vmpu_state \<Rightarrow> vmpu_state res" where
  "vmpu_enumerate_boxes env box_order st =
     (let cfg = env_cfg env; m = vm_mem st;
          count = ucast (word_of_int (sint (cfgtbl_ptr_end cfg - cfgtbl_ptr_start cfg) div 4) :: u32) :: u8;
          st = st\<lparr>g_vmpu_box_count := count\<rparr> in
      if unat count \<ge> UVISOR_MAX_BOXES then Inl (Halt SANITY_CHECK_FAILED)
      else
        let st = st\<lparr>g_vmpu_boxes_counted := True\<rparr>;
            sizes = (\<lambda>i. let c = box_config_at m (cfgtbl_ptr env m i) in (sum_list (bss_sizes c), stack_size c)) in
        bind_res (vmpu_order_boxes cfg sizes box_order (unat count)) (\<lambda>box_order.
        bind_res (init_boxes env (take (unat count) box_order) 0 st) (\<lambda>st.
        bind_res (context_switch_in cfg (g_vmpu_boxes_counted st) (g_vmpu_box_count st) port_switch CONTEXT_SWITCH_UNBOUND_FIRST 0 0 0
            (vm_ctx st, vm_mem st, vm_port st)) (\<lambda>(ctx, m, port).
        Inr (st\<lparr>vm_ctx := ctx, vm_mem := m, vm_port := port\<rparr>)))))"

definition vmpu_init_pre :: "vmpu_env \<Rightarrow> mem \<Rightarrow> int res" where
  "vmpu_init_pre env m = vmpu_check_sanity (env_build env) (env_cfg env) m"

definition vmpu_init_post :: "vmpu_env \<Rightarrow> nat list \<Rightarrow> vmpu_state \<Rightarrow> vmpu_state res" where
  "vmpu_init_post env box_order st =
     (let st = st\<lparr>SCB_CCR := SCB_CCR st OR 1\<rparr> in
      bind_res (vmpu_arch_init (FLASH_ORIGIN (env_build env)) (env_cfg env) (v_mpu (vm_port st))) (\<lambda>mpu.
      vmpu_enumerate_boxes env box_order (st\<lparr>vm_port := (vm_port st)\<lparr>v_mpu := mpu\<rparr>\<rparr>)))"

section \<open>Namespaces\<close>

definition UVISOR_ERROR_INVALID_BOX_ID :: int where "UVISOR_ERROR_INVALID_BOX_ID = - 2"
definition UVISOR_ERROR_BUFFER_TOO_SMALL :: int where "UVISOR_ERROR_BUFFER_TOO_SMALL = - 3"
definition UVISOR_ERROR_BOX_NAMESPACE_ANONYMOUS :: int where "UVISOR_ERROR_BOX_NAMESPACE_ANONYMOUS = - 4"

lemmas namespace_errors = UVISOR_ERROR_INVALID_BOX_ID_def UVISOR_ERROR_BUFFER_TOO_SMALL_def UVISOR_ERROR_BOX_NAMESPACE_ANONYMOUS_def

text \<open>\<open>copy_loop\<close> with \<open>n\<close> rounds left.\<close>

primrec copy_loop :: "access \<Rightarrow> u32 \<Rightarrow> u32 \<Rightarrow> nat \<Rightarrow> nat \<Rightarrow> mem \<Rightarrow> (int \<times> mem) res" where
  "copy_loop acc src dst copied 0 m = Inl (Halt SANITY_CHECK_FAILED)"
| "copy_loop acc src dst copied (Suc n) m =
     bind_res (vmpu_unpriv_uint8_write acc m (dst + of_nat copied) (m (src + of_nat copied))) (\<lambda>m.
     if m (src + of_nat copied) = 0 then Inr (int copied + 1, m)
     else copy_loop acc src dst (Suc copied) n m)"

definition copy_box_namespace :: "access \<Rightarrow> u32 \<Rightarrow> u32 \<Rightarrow> mem \<Rightarrow> (int \<times> mem) res" where
  "copy_box_namespace acc src dst m = copy_loop acc src dst 0 UVISOR_MAX_BOX_NAMESPACE_LENGTH m"

text \<open>
  The box number is an \<open>int\<close> that is cut to 8 bits for the validity check and used in full for
  the table, whose entries are read at 32 bit addresses.
\<close>

definition vmpu_box_namespace_from_id ::
  "UvisorConfig \<Rightarrow> bool \<Rightarrow> u8 \<Rightarrow> access \<Rightarrow> u32 \<Rightarrow> u32 \<Rightarrow> u32 \<Rightarrow> mem \<Rightarrow> (int \<times> mem) res" where
  "vmpu_box_namespace_from_id cfg counted box_count acc box_id dst len m =
     (if \<not> vmpu_is_box_id_valid counted box_count (ucast box_id) then Inr (UVISOR_ERROR_INVALID_BOX_ID, m)
      else if unat len < UVISOR_MAX_BOX_NAMESPACE_LENGTH then Inr (UVISOR_ERROR_BUFFER_TOO_SMALL, m)
      else
        let ns = box_namespace (box_config_at m (read32 m (cfgtbl_ptr_start cfg + 4 * box_id))) in
        if ns = 0 then Inr (UVISOR_ERROR_BOX_NAMESPACE_ANONYMOUS, m)
        else copy_box_namespace acc ns dst m)"

section \<open>Where the sections of a box are\<close>

definition section_start :: "u32 \<Rightarrow> u32 list \<Rightarrow> nat \<Rightarrow> u32" where
  "section_start base sizes i = base + sum_list (map UVISOR_BOX_ROUND_4 (take i sizes))"

lemma index_pointers_spec:
  assumes "i + length ss < 1024"
  shows "fst (index_pointers index i ss (b, m)) = b + sum_list (map UVISOR_BOX_ROUND_4 ss)"
    "j < 1024 \<Longrightarrow> read32 (snd (index_pointers index i ss (b, m))) (index + of_nat (4 * j)) =
      (if i \<le> j \<and> j < i + length ss
       then if UVISOR_BOX_ROUND_4 (ss ! (j - i)) \<noteq> 0 then section_start b ss (j - i) else 0
       else read32 m (index + of_nat (4 * j)))"
  using assms
proof (induction ss arbitrary: i b m)
  case (Cons s ss)
  { case 1 then show ?case using Cons.IH(1) [where i = "Suc i"] by (simp add: Let_def algebra_simps) }
  { case 2
    let ?m = "write32 m (index + of_nat (4 * i)) (if UVISOR_BOX_ROUND_4 s \<noteq> 0 then b else 0)"
    have IH: "read32 (snd (index_pointers index (Suc i) ss (b + UVISOR_BOX_ROUND_4 s, ?m))) (index + of_nat (4 * j)) =
      (if Suc i \<le> j \<and> j < Suc i + length ss
       then if UVISOR_BOX_ROUND_4 (ss ! (j - Suc i)) \<noteq> 0 then section_start (b + UVISOR_BOX_ROUND_4 s) ss (j - Suc i) else 0
       else read32 ?m (index + of_nat (4 * j)))"
      using Cons.IH(2) [where i = "Suc i" and m = ?m and b = "b + UVISOR_BOX_ROUND_4 s"] 2 by simp
    have idx: "read32 ?m (index + of_nat (4 * j)) = (if i = j then if UVISOR_BOX_ROUND_4 s \<noteq> 0 then b else 0 else read32 m (index + of_nat (4 * j)))"
      using 2 by (intro frame_words_disjoint) auto
    have step: "snd (index_pointers index i (s # ss) (b, m)) = snd (index_pointers index (Suc i) ss (b + UVISOR_BOX_ROUND_4 s, ?m))"
      by (simp add: Let_def)
    have sec: "section_start b (s # ss) (Suc k) = section_start (b + UVISOR_BOX_ROUND_4 s) ss k" "section_start b (s # ss) 0 = b" for k
      by (simp_all add: section_start_def)
    show ?case
    proof (cases "Suc i \<le> j")
      case True
      then obtain k where "j - i = Suc k" "j - Suc i = k" by (metis Suc_diff_Suc Suc_le_eq)
      then show ?thesis unfolding step IH idx using True sec by auto
    next
      case False
      then show ?thesis unfolding step IH idx using sec(2) by auto
    qed }
qed auto

lemma section_start_nat:
  assumes "unat b + sum_list (map (unat \<circ> UVISOR_BOX_ROUND_4) ss) < 2 ^ 32"
  shows "unat (section_start b ss i) = unat b + sum_list (map (unat \<circ> UVISOR_BOX_ROUND_4) (take i ss))"
  using assms
proof (induction ss arbitrary: b i)
  case (Cons s ss)
  have sum: "unat (b + UVISOR_BOX_ROUND_4 s) = unat b + unat (UVISOR_BOX_ROUND_4 s)"
    using Cons.prems by (simp add: unat_word_ariths)
  show ?case
  proof (cases i)
    case (Suc k)
    have "section_start b (s # ss) i = section_start (b + UVISOR_BOX_ROUND_4 s) ss k"
      by (simp add: section_start_def Suc)
    then show ?thesis using Cons.IH [of "b + UVISOR_BOX_ROUND_4 s" k] Cons.prems sum by (simp add: Suc)
  qed (simp add: section_start_def)
qed (simp add: section_start_def)

lemma section_start_ordered:
  assumes "unat b + sum_list (map (unat \<circ> UVISOR_BOX_ROUND_4) ss) < 2 ^ 32" "i < j" "j < length ss"
  shows "unat (section_start b ss i) + unat (UVISOR_BOX_ROUND_4 (ss ! i)) \<le> unat (section_start b ss j)"
proof -
  have "take j ss = take i ss @ ss ! i # take (j - Suc i) (drop (Suc i) ss)"
    using assms(2,3) by (metis Cons_nth_drop_Suc Suc_diff_Suc add_diff_inverse_nat less_trans not_less_iff_gr_or_eq take_Suc_Cons take_add)
  then show ?thesis using section_start_nat [OF assms(1)] by simp
qed

lemma ROUND_4_ge: "unat s \<le> 2 ^ 32 - 4 \<Longrightarrow> unat s \<le> unat (UVISOR_BOX_ROUND_4 s) \<and> 4 dvd unat (UVISOR_BOX_ROUND_4 s)"
proof -
  assume le: "unat s \<le> 2 ^ 32 - 4"
  have "UVISOR_BOX_ROUND_4 s = (s + 3) AND NOT (mask 2)" by (simp add: UVISOR_BOX_ROUND_4_def mask_eq_exp_minus_1)
  then have "unat (UVISOR_BOX_ROUND_4 s) = unat (s + 3) div 4 * 4" using unat_and_not_mask [of "s + 3" 2] by simp
  moreover have "unat (s + 3) = unat s + 3" using le by (simp add: unat_word_ariths)
  ultimately show ?thesis by simp
qed

lemma index_write:
  assumes "j < 1024" "i < 1024"
  shows "read32 (write32 m (index + of_nat (4 * i)) v) (index + of_nat (4 * j)) = (if i = j then v else read32 m (index + of_nat (4 * j)))"
  using assms by (intro frame_words_disjoint) auto

lemma box_index_init_words:
  assumes reent: "box_id \<noteq> 0 \<Longrightarrow> read32 (reent_init env q m1) (start + of_nat (4 * j)) = read32 m1 (start + of_nat (4 * j))"
    and j: "j < 10"
    and m_ptr: "m1 = snd (index_pointers start 0 (bss_sizes (box_config_at m p)) (start, m))"
    and q: "q = read32 m1 (start + index_newlib_reent)"
  fixes cfg bss_total
  defines "cfg \<equiv> box_config_at m p"
  defines "bss_total \<equiv> sum_list (map UVISOR_BOX_ROUND_4 (bss_sizes cfg))"
  shows "read32 (vmpu_box_index_init env box_id p start m) (start + of_nat (4 * j)) =
    (if j = 9 then p else if j = 7 then 0
     else if j = 6 then if box_id = 0 then heap_end (env_cfg env) - heap_start (env_cfg env) - bss_total else bss_sizes cfg ! 5
     else if j = 5 \<and> box_id = 0 then heap_start (env_cfg env) + bss_total
     else read32 m1 (start + of_nat (4 * j)))"
proof -
  obtain b where ip: "index_pointers start 0 (bss_sizes cfg) (start, m) = (b, m1)"
    unfolding m_ptr cfg_def by (metis prod.collapse)
  have "length (bss_sizes cfg) = 6" by (simp add: cfg_def box_config_at_def)
  then have b: "b = start + bss_total"
    using index_pointers_spec(1) [where index = start and i = 0 and ss = "bss_sizes cfg" and b = start and m = m] ip
    by (simp add: bss_total_def)
  define a where "a = start + of_nat (4 * j)"
  have words: "read32 (write32 m (start + 20) v) a = (if j = 5 then v else read32 m a)"
    "read32 (write32 m (start + 24) v) a = (if j = 6 then v else read32 m a)"
    "read32 (write32 m (start + 28) v) a = (if j = 7 then v else read32 m a)"
    "read32 (write32 m (start + 36) v) a = (if j = 9 then v else read32 m a)" for m v
    using index_write [of j 5 m start v] index_write [of j 6 m start v] index_write [of j 7 m start v] index_write [of j 9 m start v] j
    by (simp_all add: a_def)
  show ?thesis
    unfolding vmpu_box_index_init_def Let_def cfg_def [symmetric] ip a_def [symmetric]
    using reent b by (simp add: words box_index_offsets q a_def [symmetric] del: of_nat_mult)
qed

text \<open>
  \<open>vmpu_box_index_init\<close> writes the index of a box. Its section pointers are the starts of
  consecutive, disjoint sections (NULL for an empty one) whose sizes are rounded up to a multiple of four; the public box, which
  has no heap section, gets what is left of the heap after its sections; the index also
  holds the heap size, no active heap and the address of the configuration. It is assumed that
  newlib's initialiser leaves the index alone and that the sections do not wrap around.
\<close>

theorem vmpu_box_index_init_layout:
  assumes reent: "\<And>q m j. j < 10 \<Longrightarrow> unat start + 40 \<le> unat q \<Longrightarrow>
        read32 (reent_init env q m) (start + of_nat (4 * j)) = read32 m (start + of_nat (4 * j))"
    and index: "40 \<le> UVISOR_BOX_ROUND_4 (bss_sizes (box_config_at m p) ! 0)"
    and newlib: "box_id \<noteq> 0 \<Longrightarrow> UVISOR_BOX_ROUND_4 (bss_sizes (box_config_at m p) ! 2) \<noteq> 0"
    and fits: "unat start + sum_list (map (unat \<circ> UVISOR_BOX_ROUND_4) (bss_sizes (box_config_at m p))) < 2 ^ 32"
  defines "sizes \<equiv> bss_sizes (box_config_at m p)"
  defines "bss_total \<equiv> sum_list (map UVISOR_BOX_ROUND_4 (bss_sizes (box_config_at m p)))"
  defines "ptr \<equiv> \<lambda>i. read32 (vmpu_box_index_init env box_id p start m) (start + of_nat (4 * i))"
  shows "(\<forall>i < 6. (if box_id = 0 \<and> i = 5 then ptr i = heap_start (env_cfg env) + bss_total
                   else ptr i = (if UVISOR_BOX_ROUND_4 (sizes ! i) \<noteq> 0 then section_start start sizes i else 0)))
    \<and> (\<forall>i j. i < j \<and> j < 6 \<longrightarrow> unat (section_start start sizes i) + unat (UVISOR_BOX_ROUND_4 (sizes ! i)) \<le> unat (section_start start sizes j))
    \<and> ptr 6 = (if box_id = 0 then heap_end (env_cfg env) - (heap_start (env_cfg env) + bss_total) else sizes ! 5)
    \<and> ptr 7 = 0 \<and> ptr 9 = p"
proof -
  have len: "length sizes = 6" by (simp add: sizes_def box_config_at_def)
  let ?m1 = "snd (index_pointers start 0 sizes (start, m))"
  have sections: "read32 (snd (index_pointers start 0 sizes (start, m))) (start + of_nat (4 * i))
      = (if UVISOR_BOX_ROUND_4 (sizes ! i) \<noteq> 0 then section_start start sizes i else 0)" if "i < 6" for i
    using index_pointers_spec(2) [where index = start and i = 0 and ss = sizes and b = start and m = m and j = i] that len by simp
  have order: "unat (section_start start sizes i) + unat (UVISOR_BOX_ROUND_4 (sizes ! i)) \<le> unat (section_start start sizes j)"
    if "i < j \<and> j < 6" for i j
    using section_start_ordered [OF fits [folded sizes_def], of i j] that len by simp
  have q: "unat start + 40 \<le> unat (read32 ?m1 (start + index_newlib_reent))" if "box_id \<noteq> 0"
    using sections [of 2] order [of 0 2] newlib [OF that] index
    by (simp add: sizes_def index_offsets section_start_def word_le_nat_alt)
  note word = box_index_init_words [where env = env and start = start and m = m and p = p and box_id = box_id,
      OF reent, folded sizes_def bss_total_def, OF _ q _ refl refl, folded sizes_def]
  have ptrs: "if box_id = 0 \<and> i = 5 then ptr i = heap_start (env_cfg env) + bss_total
      else ptr i = (if UVISOR_BOX_ROUND_4 (sizes ! i) \<noteq> 0 then section_start start sizes i else 0)" if "i < 6" for i
  proof -
    have "ptr i = (if i = 5 \<and> box_id = 0 then heap_start (env_cfg env) + bss_total else read32 ?m1 (start + of_nat (4 * i)))"
      unfolding ptr_def using word [of i] that by simp
    then show ?thesis using sections [OF that] by auto
  qed
  have rest: "ptr 6 = (if box_id = 0 then heap_end (env_cfg env) - (heap_start (env_cfg env) + bss_total) else sizes ! 5)"
    "ptr 7 = 0" "ptr 9 = p"
    using word [of 6] word [of 7] word [of 9] by (simp_all add: ptr_def algebra_simps)
  show ?thesis using ptrs order rest by blast
qed

section \<open>Namespaces are copied, and nothing else is written\<close>

lemma copy_loop_confined:
  assumes "copy_loop acc src dst copied n m = Inr (r, m')" "m' a \<noteq> m a" "copied + n \<le> 1024"
  shows "acc True a 1 \<and> unat (a - dst) < copied + n"
  using assms
proof (induction n arbitrary: copied m)
  case (Suc n)
  let ?d = "dst + of_nat copied"
  let ?m = "write8 m ?d (m (src + of_nat copied))"
  have acc: "acc True ?d 1" using Suc.prems(1) by (auto simp: vmpu_unpriv_uint8_write_def split: if_splits)
  show ?case
  proof (cases "m' a = ?m a")
    case True
    then have "a = ?d" using Suc.prems(2) by (auto simp: write8_def split: if_splits)
    then show ?thesis using acc Suc.prems(3) by (simp add: unat_of_nat_u32)
  next
    case False
    then have "copy_loop acc src dst (Suc copied) n ?m = Inr (r, m')"
      using Suc.prems(1) acc by (auto simp: vmpu_unpriv_uint8_write_def split: if_splits)
    then show ?thesis using Suc.IH [of "Suc copied" ?m] False Suc.prems(3) by auto
  qed
qed simp

text \<open>
  \<open>vmpu_box_namespace_from_id\<close> changes memory only in the first 37 bytes of the buffer
  that the caller gave, and there only bytes that the caller itself may write; when it reports an error
  it changes nothing.
\<close>

theorem vmpu_box_namespace_from_id_confined:
  assumes "vmpu_box_namespace_from_id cfg counted box_count acc box_id dst len m = Inr (r, m')" "m' a \<noteq> m a"
  shows "0 < r \<and> acc True a 1 \<and> unat (a - dst) < UVISOR_MAX_BOX_NAMESPACE_LENGTH \<and> UVISOR_MAX_BOX_NAMESPACE_LENGTH \<le> unat len"
proof -
  obtain ns where run: "copy_loop acc ns dst 0 UVISOR_MAX_BOX_NAMESPACE_LENGTH m = Inr (r, m')" and len: "UVISOR_MAX_BOX_NAMESPACE_LENGTH \<le> unat len"
    using assms by (auto simp: vmpu_box_namespace_from_id_def copy_box_namespace_def Let_def split: if_splits)
  have "0 < r" if "copy_loop acc ns dst c n m = Inr (r, m')" for c n m
    using that by (induction n arbitrary: c m) (auto simp: bind_res_Inr_iff split: if_splits)
  then show ?thesis using copy_loop_confined [OF run assms(2)] run len by (simp add: UVISOR_MAX_BOX_NAMESPACE_LENGTH_def)
qed

text \<open>The string at \<open>src\<close> with \<open>len\<close> characters, and the buffer that is apart from it.\<close>

definition c_string :: "mem \<Rightarrow> u32 \<Rightarrow> nat \<Rightarrow> bool" where
  "c_string m src len \<longleftrightarrow> (\<forall>j < len. m (src + of_nat j) \<noteq> 0) \<and> m (src + of_nat len) = 0"

definition apart :: "u32 \<Rightarrow> u32 \<Rightarrow> nat \<Rightarrow> bool" where
  "apart src dst n \<longleftrightarrow> (\<forall>i < n. \<forall>j < n. src + of_nat i \<noteq> dst + of_nat j)"

lemma copy_loop_copies:
  assumes str: "c_string m src len" and apart: "apart src dst (Suc len)"
    and acc: "\<And>j. j \<le> len \<Longrightarrow> acc True (dst + of_nat j) 1"
    and "copied \<le> len" "len < copied + n" "len < 1024"
    and src: "\<And>j. j \<le> len \<Longrightarrow> m' (src + of_nat j) = m (src + of_nat j)"
  shows "\<exists>m1. copy_loop acc src dst copied n m' = Inr (int len + 1, m1) \<and>
    (\<forall>j. copied \<le> j \<and> j \<le> len \<longrightarrow> m1 (dst + of_nat j) = m (src + of_nat j)) \<and>
    (\<forall>j. j < copied \<longrightarrow> m1 (dst + of_nat j) = m' (dst + of_nat j))"
  using assms(4-)
proof (induction n arbitrary: copied m')
  case (Suc n)
  let ?m = "write8 m' (dst + of_nat copied) (m' (src + of_nat copied))"
  have w: "vmpu_unpriv_uint8_write acc m' (dst + of_nat copied) (m' (src + of_nat copied)) = Inr ?m"
    using acc [of copied] Suc.prems(1) by (simp add: vmpu_unpriv_uint8_write_def)
  have src: "?m (src + of_nat j) = m (src + of_nat j)" if "j \<le> len" for j
    using apart that Suc.prems by (simp add: write8_def apart_def)
  have dst: "?m (dst + of_nat j) = (if j = copied then m (src + of_nat copied) else m' (dst + of_nat j))" if "j \<le> len" for j
    using that Suc.prems by (auto simp: write8_def word_of_nat_eq_iff take_bit_nat_eq_self)
  show ?case
  proof (cases "copied = len")
    case True
    have "copy_loop acc src dst copied (Suc n) m' = Inr (int copied + 1, ?m)"
      using str src [of len] w [unfolded True] unfolding True by (simp add: c_string_def)
    then show ?thesis using dst True by auto
  next
    case False
    then have "m (src + of_nat copied) \<noteq> 0" using str Suc.prems(1) by (simp add: c_string_def)
    then have step: "copy_loop acc src dst copied (Suc n) m' = copy_loop acc src dst (Suc copied) n ?m"
      using src [of copied] Suc.prems(1) by (simp add: w)
    obtain m1 where m1: "copy_loop acc src dst (Suc copied) n ?m = Inr (int len + 1, m1)"
      "\<And>j. Suc copied \<le> j \<Longrightarrow> j \<le> len \<Longrightarrow> m1 (dst + of_nat j) = m (src + of_nat j)"
      "\<And>j. j < Suc copied \<Longrightarrow> m1 (dst + of_nat j) = ?m (dst + of_nat j)"
      using Suc.IH [of "Suc copied" ?m] src Suc.prems False by (auto simp del: of_nat_Suc)
    have "m1 (dst + of_nat j) = m (src + of_nat j)" if "copied \<le> j" "j \<le> len" for j
      using m1(2,3) [of j] dst [of j] that by (cases "j = copied") auto
    moreover have "m1 (dst + of_nat j) = m' (dst + of_nat j)" if "j < copied" for j
      using m1(3) [of j] dst [of j] that Suc.prems(1) by auto
    ultimately show ?thesis using m1(1) step by auto
  qed
qed simp

text \<open>
  When the box number is valid, the buffer is long enough and the box has a namespace of at most 36
  characters, \<open>vmpu_box_namespace_from_id\<close> returns the number of characters including the
  NUL, and the caller's buffer holds the namespace.
\<close>

theorem vmpu_box_namespace_from_id_copies:
  assumes "vmpu_is_box_id_valid counted box_count (ucast box_id)" "UVISOR_MAX_BOX_NAMESPACE_LENGTH \<le> unat buffer_len"
    and "ns = box_namespace (box_config_at m (read32 m (cfgtbl_ptr_start cfg + 4 * box_id)))" "ns \<noteq> 0"
    and "c_string m ns len" "len < UVISOR_MAX_BOX_NAMESPACE_LENGTH" "apart ns dst (Suc len)"
    and "\<And>j. j \<le> len \<Longrightarrow> acc True (dst + of_nat j) 1"
  shows "\<exists>m'. vmpu_box_namespace_from_id cfg counted box_count acc box_id dst buffer_len m = Inr (int len + 1, m') \<and>
    c_string m' dst len \<and> (\<forall>j \<le> len. m' (dst + of_nat j) = m (ns + of_nat j))"
proof -
  obtain m1 where "copy_loop acc ns dst 0 UVISOR_MAX_BOX_NAMESPACE_LENGTH m = Inr (int len + 1, m1)"
    "\<forall>j. 0 \<le> j \<and> j \<le> len \<longrightarrow> m1 (dst + of_nat j) = m (ns + of_nat j)"
    using copy_loop_copies [where m = m and m' = m and src = ns and dst = dst and acc = acc and copied = 0 and
        len = len and n = UVISOR_MAX_BOX_NAMESPACE_LENGTH] assms(5-8)
    by (auto simp: UVISOR_MAX_BOX_NAMESPACE_LENGTH_def)
  then show ?thesis using assms(1-5)
    by (auto simp: vmpu_box_namespace_from_id_def copy_box_namespace_def c_string_def Let_def)
qed

section \<open>The enumeration keeps the boxes apart\<close>

text \<open>
  The state while boxes are being set up, before the first one is entered: \<open>b\<close> is the next box. An interrupt belongs to
  nobody or to a box that has been set up.
\<close>

definition enumerating :: "vmpu_env \<Rightarrow> u8 \<Rightarrow> vmpu_state \<Rightarrow> bool" where
  "enumerating env b st \<longleftrightarrow> slices_ok (v_mpu (vm_port st)) \<and> virq_ok (env_virq env) (vm_virq st) \<and>
     length (g_context_current_states (vm_ctx st)) = UVISOR_MAX_BOXES \<and>
     length (g_context_previous_states (vm_ctx st)) = UVISOR_CONTEXT_MAX_DEPTH \<and> g_context_p (vm_ctx st) = 0 \<and>
     g_active_box (vm_ctx st) = UVISOR_BOX_ID_INVALID \<and> g_vmpu_boxes_counted st \<and> unat (g_vmpu_box_count st) < UVISOR_MAX_BOXES \<and>
     (\<forall>i < NVIC_VECTORS (env_virq env). owner_id (g_virq_vector (vm_virq st) ! i) = UVISOR_BOX_ID_INVALID \<or>
        owner_id (g_virq_vector (vm_virq st) ! i) < b)"

text \<open>What the setup of box \<open>b\<close> leaves alone: the regions of the other boxes, the interrupts that already have an owner, and the counters.\<close>

definition keeps_others :: "vmpu_env \<Rightarrow> u8 \<Rightarrow> vmpu_state \<Rightarrow> vmpu_state \<Rightarrow> bool" where
  "keeps_others env b st st' \<longleftrightarrow>
     (\<forall>c < UVISOR_MAX_BOXES. c < unat b \<longrightarrow> regions_of (v_mpu (vm_port st')) c = regions_of (v_mpu (vm_port st)) c) \<and>
     (\<forall>i < NVIC_VECTORS (env_virq env). owner_id (g_virq_vector (vm_virq st) ! i) \<noteq> UVISOR_BOX_ID_INVALID \<longrightarrow>
        owner_id (g_virq_vector (vm_virq st') ! i) = owner_id (g_virq_vector (vm_virq st) ! i)) \<and>
     g_vmpu_box_count st' = g_vmpu_box_count st"

lemma keeps_others_refl [simp]: "keeps_others env b st st"
  by (simp add: keeps_others_def)

lemma keeps_others_trans: "keeps_others env b st st1 \<Longrightarrow> keeps_others env b st1 st2 \<Longrightarrow> keeps_others env b st st2"
  by (simp add: keeps_others_def)

lemma keeps_others_mono: "keeps_others env c st st' \<Longrightarrow> b \<le> c \<Longrightarrow> keeps_others env b st st'"
  by (auto simp: keeps_others_def word_le_nat_alt)

lemma enumerating_mono: "enumerating env b st \<Longrightarrow> b \<le> c \<Longrightarrow> enumerating env c st"
  unfolding enumerating_def by (meson order.strict_trans2)

lemma keeps_others_port:
  assumes "vmpu_region_add_static_acl (g_vmpu_boxes_counted st) (g_vmpu_box_count st) (v_mpu (vm_port st)) b start sz acl hw = Inr (n, mpu)"
    "enumerating env c st" "v_mpu port = mpu" "b < c"
  shows "enumerating env c (st\<lparr>vm_port := port\<rparr>) \<and> keeps_others env b st (st\<lparr>vm_port := port\<rparr>)"
  using add_static_acl_spec [where st = "v_mpu (vm_port st)" and box_count = "g_vmpu_box_count st" and counted = "g_vmpu_boxes_counted st"
      and box_id = b and start = start and sz = sz and acl = acl and hw = hw] assms
  by (auto simp: enumerating_def keeps_others_def)

lemma keeps_others_virq:
  assumes "virq_acl_add (env_virq env) (g_active_box (vm_ctx st)) b irqn (vm_virq st) = Inr virq" "enumerating env c st" "b < c"
  shows "enumerating env c (st\<lparr>vm_virq := virq\<rparr>) \<and> keeps_others env b st (st\<lparr>vm_virq := virq\<rparr>)"
  using assms
  by (auto simp: virq_acl_add_def virq_acl_check_def res_simps enumerating_def keeps_others_def virq_ok_def update_vector_def
      nth_list_update_at split: if_splits)

lemma configure_acls_keeps:
  assumes "configure_acls env b region n st = Inr st'" "enumerating env c st" "b < c"
  shows "enumerating env c st' \<and> keeps_others env b st st'"
  using assms
proof (induction n arbitrary: region st)
  case (Suc n)
  let ?acl = "read32 (vm_mem st) (region + 8)"
  from Suc.prems(1) obtain st1 where st1: "configure_acls env b (region + 12) n st1 = Inr st'"
    and "enumerating env c st1 \<and> keeps_others env b st st1"
  proof (cases "?acl AND UVISOR_TACL_IRQ \<noteq> 0")
    case True
    then show ?thesis using Suc.prems keeps_others_virq [OF _ Suc.prems(2,3)] that
      by (auto simp: Let_def res_simps split: if_splits)
  next
    case False
    then show ?thesis using Suc.prems keeps_others_port [OF _ Suc.prems(2) _ Suc.prems(3)] that
      by (fastforce simp: Let_def res_simps split: if_splits)
  qed
  then show ?case using Suc.IH [OF st1 _ Suc.prems(3)] keeps_others_trans by blast
qed simp

lemma set_box_state_keeps:
  assumes "set_box_state ctx b f = Inr ctx'"
  shows "length (g_context_current_states ctx') = length (g_context_current_states ctx) \<and>
    g_context_previous_states ctx' = g_context_previous_states ctx \<and> g_context_p ctx' = g_context_p ctx \<and> g_active_box ctx' = g_active_box ctx"
  using assms by (auto simp: set_box_state_def res_simps)

lemma acl_sram_adds:
  assumes "vmpu_acl_sram cfg counted box_count port0 b bss stack = Inr (start, sp, port)"
  shows "\<exists>start sz acl hw n. vmpu_region_add_static_acl counted box_count (v_mpu port0) b start sz acl hw = Inr (n, v_mpu port)"
  using assms by (fastforce simp: vmpu_acl_sram_def Let_def res_simps split: if_splits prod.splits)

lemma configure_box_sram_keeps:
  assumes "vmpu_configure_box_sram env b p st = Inr st'" "enumerating env c st" "b < c"
  shows "enumerating env c st' \<and> keeps_others env b st st'"
proof -
  let ?mem = "if b = 0 then Inr (heap_start (env_cfg env), PSP (vm_ctx st), vm_port st)
      else vmpu_acl_sram (env_cfg env) (g_vmpu_boxes_counted st) (g_vmpu_box_count st) (vm_port st) b
        (sum_list (bss_sizes (box_config_at (vm_mem st) p))) (stack_size (box_config_at (vm_mem st) p))"
  obtain r where "?mem = Inr r"
    using assms(1) by (simp only: vmpu_configure_box_sram_def Let_def bind_res_Inr_iff) blast
  then obtain start sp port where mem: "?mem = Inr (start, sp, port)" by (cases r rule: prod_cases3) simp
  then obtain f ctx m where run: "set_box_state (vm_ctx st) b f = Inr ctx"
    and st': "st' = st\<lparr>vm_port := port, vm_ctx := ctx, vm_mem := m\<rparr>"
    using assms(1) by (auto simp: vmpu_configure_box_sram_def Let_def bind_res_Inr_iff)
  have "enumerating env c (st\<lparr>vm_port := port\<rparr>) \<and> keeps_others env b st (st\<lparr>vm_port := port\<rparr>)"
  proof (cases "b = 0")
    case False
    then show ?thesis using mem acl_sram_adds keeps_others_port [OF _ assms(2) refl assms(3)] by (simp only: if_False) blast
  qed (use mem assms(2) in \<open>auto simp: enumerating_def keeps_others_def\<close>)
  then show ?thesis
    using set_box_state_keeps [OF run] by (simp add: st' enumerating_def keeps_others_def)
qed

lemma box_init_keeps:
  assumes "box_init env b p st = Inr st'" "enumerating env c st"
  shows "enumerating env c st' \<and> keeps_others env b st st'"
proof -
  obtain ctx1 m where ctx1: "set_box_state (vm_ctx st) b (remaining_ms_update (\<lambda>_. 100)) = Inr ctx1"
    and "(st' = st\<lparr>vm_ctx := ctx1, vm_mem := m\<rparr>) \<or>
      (\<exists>f ctx. set_box_state ctx1 b f = Inr ctx \<and> st' = st\<lparr>vm_ctx := ctx, vm_mem := m\<rparr>)"
    using assms(1) by (cases "b = 0") (auto simp: box_init_def Let_def bind_res_Inr_iff case_prod_unfold)
  then consider "st' = st\<lparr>vm_ctx := ctx1, vm_mem := m\<rparr>"
    | f ctx where "set_box_state ctx1 b f = Inr ctx" "st' = st\<lparr>vm_ctx := ctx, vm_mem := m\<rparr>" by blast
  then show ?thesis using assms(2) set_box_state_keeps [OF ctx1]
    by cases (auto simp: enumerating_def keeps_others_def dest!: set_box_state_keeps)
qed

lemma configure_box_peripherals_keeps:
  assumes "vmpu_configure_box_peripherals env b p st = Inr st'" "enumerating env c st" "b < c"
  shows "enumerating env c st' \<and> keeps_others env b st st'"
  using assms configure_acls_keeps [OF _ assms(2,3)] by (auto simp: vmpu_configure_box_peripherals_def Let_def split: if_splits)

lemma init_boxes_keeps:
  assumes "init_boxes env order b st = Inr st'" "enumerating env b st" "unat b + length order < 256"
  shows "enumerating env (b + of_nat (length order)) st' \<and> keeps_others env b st st'"
  using assms
proof (induction order arbitrary: b st)
  case (Cons index order)
  have lt: "b < b + 1" using Cons.prems(3) by (simp add: word_less_nat_alt unat_word_ariths)
  have b1: "unat (b + 1) = unat b + 1" using Cons.prems(3) by (simp add: unat_word_ariths)
  obtain s1 s2 s3 p where run: "vmpu_configure_box_sram env b p st = Inr s1" "vmpu_configure_box_peripherals env b p s1 = Inr s2"
    "box_init env b p s2 = Inr s3" "init_boxes env order (b + 1) s3 = Inr st'"
    using Cons.prems(1) by (auto simp: Let_def res_simps)
  have e0: "enumerating env (b + 1) st" using enumerating_mono [OF Cons.prems(2)] lt by simp
  note s1 = configure_box_sram_keeps [OF run(1) e0 lt]
  note s2 = configure_box_peripherals_keeps [OF run(2) s1 [THEN conjunct1] lt]
  note s3 = box_init_keeps [OF run(3) s2 [THEN conjunct1]]
  have "enumerating env (b + 1 + of_nat (length order)) st' \<and> keeps_others env (b + 1) s3 st'"
    using Cons.IH [OF run(4) s3 [THEN conjunct1]] Cons.prems(3) b1 by simp
  then show ?case using s1 s2 s3 keeps_others_trans keeps_others_mono [of env "b + 1" s3 st' b] lt
    by (auto simp: algebra_simps)
qed simp


lemma first_switch:
  assumes "context_switch_in cfg True n port_switch CONTEXT_SWITCH_UNBOUND_FIRST 0 ssp dsp (ctx, m, port) = Inr (ctx', m', port')"
    "g_active_box ctx = UVISOR_BOX_ID_INVALID" "n \<le> UVISOR_BOX_ID_INVALID"
  shows "0 < n \<and> ctx' = ctx\<lparr>g_active_box := 0\<rparr>"
  using assms
  by (auto simp: context_switch_in_def vmpu_is_box_id_valid_def Let_def bind_res_Inr_iff function_bound_def
      split: if_splits)


section \<open>Examples\<close>

text \<open>A configuration at \<open>0x1000\<close> with an index of 40 bytes, sections of 6, 16 and 64 bytes, and a heap of 100 bytes.\<close>

definition example_box_mem :: mem where
  "example_box_mem = (\<lambda>_. 0)(0x1008 := 40, 0x100C := 6, 0x1010 := 16, 0x1018 := 64, 0x101C := 100)"

definition example_env :: vmpu_env where
  "example_env = \<lparr>env_build = example_build, env_cfg = example_config, env_virq = example_virq_config,
     reent_init = (\<lambda>q m. m(q := 1)), ipc_init = (\<lambda>_ _ m. Inr m)\<rparr>"

lemma example_box_sizes: "bss_sizes (box_config_at example_box_mem 0x1000) = [40, 6, 16, 0, 64, 100]"
  by (simp add: box_config_at_def example_box_mem_def read32_def upt_rec)

lemma example_reent:
  assumes "j < 10" "0x20000028 \<le> unat q"
  shows "read32 (reent_init example_env q m) (0x20000000 + of_nat (4 * j)) = read32 m (0x20000000 + of_nat (4 * j))"
proof (rule read32_frame)
  fix k :: nat assume "k < 4"
  then have "unat (0x20000000 + of_nat (4 * j + k) :: u32) = 0x20000000 + (4 * j + k)"
    using assms(1) unat_of_nat_u32 [of "0x20000000 + (4 * j + k)"] by (simp add: algebra_simps)
  then have "0x20000000 + of_nat (4 * j + k) \<noteq> q" using assms \<open>k < 4\<close> by auto
  then show "reent_init example_env q m (0x20000000 + of_nat (4 * j) + of_nat k) = m (0x20000000 + of_nat (4 * j) + of_nat k)"
    by (simp add: example_env_def algebra_simps)
qed

theorem vmpu_box_index_init_layout_witness:
  "map (\<lambda>i. read32 (vmpu_box_index_init example_env 1 0x1000 0x20000000 example_box_mem) (0x20000000 + of_nat (4 * i))) [0..<6] =
     [0x20000000, 0x20000028, 0x20000030, 0, 0x20000040, 0x20000080]"
proof -
  have starts: "(if UVISOR_BOX_ROUND_4 ([40, 6, 16, 0, 64, 100] ! i) \<noteq> 0 then section_start 0x20000000 [40, 6, 16, 0, 64, 100] i else 0) =
      [0x20000000, 0x20000028, 0x20000030, 0, 0x20000040, 0x20000080] ! i" if "i < 6" for i
  proof -
    consider "i = 0" | "i = 1" | "i = 2" | "i = 3" | "i = 4" | "i = 5" using \<open>i < 6\<close> by linarith
    then show ?thesis by cases (simp_all add: section_start_def UVISOR_BOX_ROUND_4_def)
  qed
  have "\<forall>i < 6. read32 (vmpu_box_index_init example_env 1 0x1000 0x20000000 example_box_mem) (0x20000000 + of_nat (4 * i)) =
      (if UVISOR_BOX_ROUND_4 ([40, 6, 16, 0, 64, 100] ! i) \<noteq> 0 then section_start 0x20000000 [40, 6, 16, 0, 64, 100] i else 0)"
    using vmpu_box_index_init_layout [where env = example_env and start = "0x20000000" and m = example_box_mem and p = "0x1000" and box_id = 1,
      unfolded example_box_sizes, THEN conjunct1] example_reent
    by (simp add: UVISOR_BOX_ROUND_4_def)
  then show ?thesis using starts by (intro nth_equalityI) (simp_all del: of_nat_mult)
qed

text \<open>Box 1 of the example, and the table entry 256 that is not one, have the namespace \<open>"ab"\<close>.\<close>

definition example_ns_mem :: mem where
  "example_ns_mem = (\<lambda>_. 0)(0x20104 := 0x00, 0x20105 := 0x02, 0x20106 := 0x02, 0x20500 := 0x00, 0x20501 := 0x02, 0x20502 := 0x02,
     0x20229 := 0x04, 0x400 := 97, 0x401 := 98)"

lemma example_ns:
  "box_namespace (box_config_at example_ns_mem (read32 example_ns_mem 0x20104)) = 0x400"
  "box_namespace (box_config_at example_ns_mem (read32 example_ns_mem 0x20500)) = 0x400"
  "c_string example_ns_mem 0x400 2" "apart 0x400 0x20003000 3"
proof -
  have e: "read32 example_ns_mem 0x20104 = 0x20200" "read32 example_ns_mem 0x20500 = 0x20200" "read32 example_ns_mem 0x20228 = 0x400"
    by (simp_all add: read32_def example_ns_mem_def)
  then show "box_namespace (box_config_at example_ns_mem (read32 example_ns_mem 0x20104)) = 0x400"
    "box_namespace (box_config_at example_ns_mem (read32 example_ns_mem 0x20500)) = 0x400"
    by (simp_all add: box_config_at_def)
  show "c_string example_ns_mem 0x400 2"
    using less_2_cases by (fastforce simp: c_string_def example_ns_mem_def)
  have three: "i = 0 \<or> i = 1 \<or> i = 2" if "i < 3" for i :: nat using that by linarith
  show "apart 0x400 0x20003000 3"
    unfolding apart_def by (intro allI impI) (drule three, drule three, auto)
qed

lemma example_copy:
  "\<exists>m'. copy_box_namespace (\<lambda>_ _ _. True) 0x400 0x20003000 example_ns_mem = Inr (3, m') \<and> m' 0x20003000 = 97 \<and> m' 0x20003001 = 98"
proof -
  obtain m1 where m1: "copy_loop (\<lambda>_ _ _. True) 0x400 0x20003000 0 UVISOR_MAX_BOX_NAMESPACE_LENGTH example_ns_mem = Inr (3, m1)"
    "\<And>j. j \<le> 2 \<Longrightarrow> m1 (0x20003000 + of_nat j) = example_ns_mem (0x400 + of_nat j)"
    using copy_loop_copies [where m = example_ns_mem and m' = example_ns_mem and src = "0x400" and dst = "0x20003000" and
        acc = "\<lambda>_ _ _. True" and copied = 0 and len = 2 and n = UVISOR_MAX_BOX_NAMESPACE_LENGTH] example_ns
    by (auto simp: UVISOR_MAX_BOX_NAMESPACE_LENGTH_def)
  then show ?thesis using m1(2) [of 0] m1(2) [of 1] by (auto simp: copy_box_namespace_def example_ns_mem_def)
qed

theorem vmpu_box_namespace_from_id_copies_witness:
  "\<exists>m'. vmpu_box_namespace_from_id example_config True 2 (\<lambda>_ _ _. True) 1 0x20003000 37 example_ns_mem = Inr (3, m') \<and> c_string m' 0x20003000 2"
  using vmpu_box_namespace_from_id_copies [where cfg = example_config and counted = True and box_count = 2 and acc = "\<lambda>_ _ _. True"
      and box_id = 1 and dst = "0x20003000" and buffer_len = 37 and m = example_ns_mem and ns = "0x400" and len = 2]
    example_ns
  by (auto simp: example_config_def vmpu_is_box_id_valid_def UVISOR_MAX_BOX_NAMESPACE_LENGTH_def)

theorem vmpu_box_namespace_from_id_confined_witness:
  "\<exists>m'. vmpu_box_namespace_from_id example_config True 2 (\<lambda>_ _ _. True) 1 0x20003000 37 example_ns_mem = Inr (3, m') \<and>
    m' 0x20003025 = example_ns_mem 0x20003025"
proof -
  obtain m' where run: "vmpu_box_namespace_from_id example_config True 2 (\<lambda>_ _ _. True) 1 0x20003000 37 example_ns_mem = Inr (3, m')"
    using example_copy by (auto simp: vmpu_box_namespace_from_id_def UVISOR_MAX_BOX_NAMESPACE_LENGTH_def vmpu_is_box_id_valid_def
        example_config_def example_ns)
  then show ?thesis
    using vmpu_box_namespace_from_id_confined [OF run, of "0x20003025"] by (auto simp: UVISOR_MAX_BOX_NAMESPACE_LENGTH_def)
qed

text \<open>
  The check of the box number looks at its lowest 8 bits only: with two boxes, the number
  256 is accepted, the word 256 entries behind the start of the table is taken for a pointer to a configuration, and the
  string it leads to is copied.
\<close>

theorem vmpu_box_namespace_from_id_reads_past_table:
  "cfgtbl_ptr_end example_config < cfgtbl_ptr_start example_config + 4 * 256 \<and>
   (\<exists>m'. vmpu_box_namespace_from_id example_config True 2 (\<lambda>_ _ _. True) 256 0x20003000 37 example_ns_mem = Inr (3, m') \<and>
     m' 0x20003000 = 97 \<and> m' 0x20003001 = 98)"
  using example_copy by (auto simp: vmpu_box_namespace_from_id_def UVISOR_MAX_BOX_NAMESPACE_LENGTH_def vmpu_is_box_id_valid_def
      example_config_def example_ns)

text \<open>
  A system that has only the public box. The memory for the boxes is as large as \<open>vmpu_order_boxes\<close> needs it to be for one box.
\<close>

definition example_one_env :: vmpu_env where
  "example_one_env = example_env\<lparr>env_cfg := example_config\<lparr>cfgtbl_ptr_end := 0x20104, bss_boxes_start := 0, bss_boxes_end := 0xFFFFFFFF\<rparr>\<rparr>"

definition example_one_mem :: mem where
  "example_one_mem = (\<lambda>_. 0)(0x20102 := 2, 0x20000 := 0x6F, 0x20001 := 0xB6, 0x20002 := 0xCF, 0x20003 := 0x42, 0x20004 := 100, 0x20008 := 40)"

definition example_vmpu :: vmpu_state where
  "example_vmpu = \<lparr>vm_port = example_v7m, vm_ctx = example_contexts\<lparr>g_active_box := UVISOR_BOX_ID_INVALID\<rparr>,
     vm_virq = example_virq\<lparr>g_virq_vector := replicate 2 \<lparr>hdlr = 0, was_enabled = False, owner_id = UVISOR_BOX_ID_INVALID\<rparr>\<rparr>,
     vm_mem = example_one_mem, g_vmpu_box_count = 1, g_vmpu_boxes_counted = True, SCB_CCR = 0\<rparr>"

lemma example_enumerating: "enumerating example_env 0 example_vmpu" "enumerating example_one_env 0 (example_vmpu\<lparr>g_vmpu_box_count := 0, g_vmpu_boxes_counted := True\<rparr>)"
  by (simp_all add: enumerating_def example_vmpu_def example_v7m_def example_slices_ok example_env_def example_one_env_def virq_ok_def example_virq_def
      example_virq_config_def UVISOR_MAX_BOXES_def example_contexts_def context_consts nth_Cons')

lemma example_one_config:
  "cfgtbl_ptr example_one_env example_one_mem 0 = 0x20000"
  "box_config_at example_one_mem 0x20000 = \<lparr>box_magic = UVISOR_BOX_MAGIC, box_version = UVISOR_BOX_VERSION, bss_sizes = [40, 0, 0, 0, 0, 0],
     stack_size = 0, lib_config = 0, box_namespace = 0, acl_list = 0, acl_count = 0\<rparr>"
proof -
  have "read32 example_one_mem 0x20000 = UVISOR_BOX_MAGIC" "read32 example_one_mem 0x20100 = 0x20000"
    by (simp_all add: read32_def example_one_mem_def UVISOR_BOX_MAGIC_def)
  then show "cfgtbl_ptr example_one_env example_one_mem 0 = 0x20000"
    "box_config_at example_one_mem 0x20000 = \<lparr>box_magic = UVISOR_BOX_MAGIC, box_version = UVISOR_BOX_VERSION, bss_sizes = [40, 0, 0, 0, 0, 0],
     stack_size = 0, lib_config = 0, box_namespace = 0, acl_list = 0, acl_count = 0\<rparr>"
    by (simp_all add: cfgtbl_ptr_def example_one_env_def example_env_def example_config_def box_config_at_def UVISOR_BOX_VERSION_def upt_rec)
       (simp_all add: read32_def example_one_mem_def)
qed

lemma index_write_outside:
  assumes "40 \<le> unat (a - index)" "i < 10"
  shows "write32 m (index + of_nat (4 * i)) v a = m a"
proof -
  have "a \<noteq> index + of_nat (4 * i) + of_nat k" if "k < 4" for k
  proof
    assume "a = index + of_nat (4 * i) + of_nat k"
    then have "a - index = of_nat (4 * i + k)" by simp
    then show False using assms that unat_of_nat_u32 [of "4 * i + k"] by simp
  qed
  from this [of 0] this [of 1] this [of 2] this [of 3] show ?thesis by (simp add: write32_def)
qed

lemma index_pointers_outside:
  "40 \<le> unat (a - index) \<Longrightarrow> i + length ss \<le> 10 \<Longrightarrow> snd (index_pointers index i ss (b, m)) a = m a"
proof (induction ss arbitrary: i b m)
  case (Cons s ss)
  then show ?case using index_write_outside [OF Cons.prems(1), of i] by (simp add: Let_def del: of_nat_mult)
qed simp

lemma public_index_init_outside:
  assumes "40 \<le> unat (a - start)"
  shows "vmpu_box_index_init env 0 p start m a = m a"
  using index_pointers_outside [OF assms, of 0 "bss_sizes (box_config_at m p)" start m] assms
    index_write_outside [OF assms, of 5] index_write_outside [OF assms, of 6] index_write_outside [OF assms, of 7] index_write_outside [OF assms, of 9]
  by (simp add: vmpu_box_index_init_def Let_def case_prod_unfold box_index_offsets box_config_at_def)

lemma example_one_runs:
  assumes "vm_mem st = example_one_mem" "vm_ctx st = example_contexts\<lparr>g_active_box := UVISOR_BOX_ID_INVALID\<rparr>"
  shows "\<exists>ctx m. init_boxes example_one_env [0] 0 st = Inr (st\<lparr>vm_ctx := ctx, vm_mem := m\<rparr>) \<and>
    ctx = (vm_ctx st)\<lparr>g_context_current_states := g_context_current_states ctx\<rparr> \<and> length (g_context_current_states ctx) = 5"
proof -
  define m where "m = vmpu_box_index_init example_one_env 0 0x20000 0x20008000 (zero_range example_one_mem 0x20008000 40)"
  have acl: "acl_list (box_config_at m 0x20000) = 0"
    by (simp add: m_def box_config_at_def read32_def public_index_init_outside) (simp add: zero_range_def example_one_mem_def)
  have sanity: "vmpu_check_sanity_box_cfgtbl (env_cfg example_one_env) example_one_mem 0 0x20000 = Inr ()"
    by (simp add: vmpu_check_sanity_box_cfgtbl_def example_one_config vmpu_check_sanity_box_namespace_def halt_unless_def
        vmpu_flash_addr_def example_one_env_def example_env_def example_config_def)
  have env: "heap_start (env_cfg example_one_env) = 0x20008000" "ipc_init example_one_env = (\<lambda>_ _ m. Inr m)"
    and states: "length (g_context_current_states example_contexts) = 5"
    by (simp_all add: example_one_env_def example_env_def example_config_def example_contexts_def)
  then have get: "arr_get (g_context_current_states example_contexts) 0 = Inr (g_context_current_states example_contexts ! 0)"
    by simp
  define cur where "cur = (g_context_current_states example_contexts ! 0)\<lparr>ctx_bss := 0x20008000, ctx_bss_size := 40,
    ctx_sp := PSP example_contexts, remaining_ms := 100\<rparr>"
  have "init_boxes example_one_env [0] 0 st =
      Inr (st\<lparr>vm_ctx := (vm_ctx st)\<lparr>g_context_current_states := (g_context_current_states example_contexts)[0 := cur]\<rparr>, vm_mem := m\<rparr>)"
    using assms acl states
    by (simp add: example_one_config sanity vmpu_configure_box_sram_def vmpu_configure_box_peripherals_def box_init_def set_box_state_def
        Let_def env m_def [symmetric] get cur_def)
  then show ?thesis using states by auto
qed


lemma example_public_switch: "\<exists>port. vmpu_switch (example_v7m\<lparr>active_box := 0\<rparr>) 0 0 = Inr port"
proof -
  obtain m1 where m1: "vmpu_mpu_invalidate example_mpu = Inr m1" using vmpu_mpu_invalidate_cleared [OF example_mpu_ok] by blast
  then have "same_table example_mpu m1"
    using vmpu_mpu_invalidate_cleared [OF example_mpu_ok] by (auto simp: same_table_def)
  then show ?thesis using m1
    by (simp add: vmpu_switch_def example_v7m_def vmpu_region_get_for_box_def same_table_def UVISOR_MAX_BOXES_def
        page_allocator_iterate_active_page_masks_def example_free_pages_def example_pages_def page_consts)
       (simp add: example_mpu_def)
qed


end
