(* ===== verification/Fault_Handler.thy ===== *)
theory Fault_Handler
  imports Vmpu
begin

text \<open>
  Faults of a box on ARMv7-M: the emulation of a faulting load or store, \<open>vmpu_fault_recovery_bus\<close> of
  \<^verbatim>\<open>core/vmpu/src/vmpu.c\<close>, and the handler of the system exceptions, \<open>vmpu_sys_mux_handler\<close> of
  \<^verbatim>\<open>core/vmpu/src/mpu_armv7m/vmpu_armv7m.c\<close>. The accesses that the box itself may make are the
  argument \<open>acc\<close>; the emulated access is privileged and always done.
\<close>

unbundle bit_operations_syntax

section \<open>Emulated accesses\<close>

definition UVISOR_NOP_CNT :: u32 where "UVISOR_NOP_CNT = 2 + 3"

definition VMPU_OPCODE16_LOWER_R0_R1_MASK :: u16 where "VMPU_OPCODE16_LOWER_R0_R1_MASK = 0x01"
definition VMPU_OPCODE16_LOWER_R0_R0_MASK :: u16 where "VMPU_OPCODE16_LOWER_R0_R0_MASK = 0x00"
definition VMPU_OPCODE16_UPPER_STR_MASK :: u16 where "VMPU_OPCODE16_UPPER_STR_MASK = 0x60"
definition VMPU_OPCODE16_UPPER_STRH_MASK :: u16 where "VMPU_OPCODE16_UPPER_STRH_MASK = 0x80"
definition VMPU_OPCODE16_UPPER_STRB_MASK :: u16 where "VMPU_OPCODE16_UPPER_STRB_MASK = 0x70"
definition VMPU_OPCODE16_UPPER_LDR_MASK :: u16 where "VMPU_OPCODE16_UPPER_LDR_MASK = 0x68"
definition VMPU_OPCODE16_UPPER_LDRH_MASK :: u16 where "VMPU_OPCODE16_UPPER_LDRH_MASK = 0x88"
definition VMPU_OPCODE16_UPPER_LDRB_MASK :: u16 where "VMPU_OPCODE16_UPPER_LDRB_MASK = 0x78"

lemmas opcode_masks = VMPU_OPCODE16_LOWER_R0_R1_MASK_def VMPU_OPCODE16_LOWER_R0_R0_MASK_def VMPU_OPCODE16_UPPER_STR_MASK_def
  VMPU_OPCODE16_UPPER_STRH_MASK_def VMPU_OPCODE16_UPPER_STRB_MASK_def VMPU_OPCODE16_UPPER_LDR_MASK_def
  VMPU_OPCODE16_UPPER_LDRH_MASK_def VMPU_OPCODE16_UPPER_LDRB_MASK_def

definition SCB_CFSR_IMPRECISERR_Msk :: u32 where "SCB_CFSR_IMPRECISERR_Msk = push_bit 10 1"

text \<open>
  One round of the loop: the access is refused, the opcode is none of the six, or the access has been done. The argument \<open>find_acl\<close> is
  \<open>vmpu_fault_find_acl\<close> of the port, in its current state.
\<close>

datatype bus_round = Bus_Refused | Bus_Other | Bus_Done mem

definition bus_opcode :: "access \<Rightarrow> (u32 \<Rightarrow> u32 \<Rightarrow> u32 res) \<Rightarrow> u32 \<Rightarrow> u16 \<Rightarrow> mem \<Rightarrow> bus_round res" where
  "bus_opcode acc find_acl sp opcode m =
     (let upper = drop_bit 8 opcode in
      if opcode AND 0xFF = VMPU_OPCODE16_LOWER_R0_R1_MASK then
        bind_res (vmpu_unpriv_uint32_read acc m sp) (\<lambda>r0.
        bind_res (vmpu_unpriv_uint32_read acc m (sp + 4)) (\<lambda>r1.
        bind_res (find_acl r0 4) (\<lambda>acl.
        Inr (if acl AND UVISOR_TACL_UWRITE = 0 then Bus_Refused
             else if upper = VMPU_OPCODE16_UPPER_STR_MASK then Bus_Done (write32 m r0 r1)
             else if upper = VMPU_OPCODE16_UPPER_STRH_MASK then Bus_Done (write16 m r0 (ucast r1))
             else if upper = VMPU_OPCODE16_UPPER_STRB_MASK then Bus_Done (write8 m r0 (ucast r1))
             else Bus_Other))))
      else if opcode AND 0xFF = VMPU_OPCODE16_LOWER_R0_R0_MASK then
        bind_res (vmpu_unpriv_uint32_read acc m sp) (\<lambda>r0.
        bind_res (find_acl r0 4) (\<lambda>acl.
        if acl AND UVISOR_TACL_UREAD = 0 then Inr Bus_Refused
        else
          case (if upper = VMPU_OPCODE16_UPPER_LDR_MASK then Some (read32 m r0)
                else if upper = VMPU_OPCODE16_UPPER_LDRH_MASK then Some (ucast (read16 m r0))
                else if upper = VMPU_OPCODE16_UPPER_LDRB_MASK then Some (ucast (read8 m r0))
                else None) of
            None \<Rightarrow> Inr Bus_Other
          | Some r1 \<Rightarrow> bind_res (vmpu_unpriv_uint32_write acc m sp r1) (\<lambda>m. Inr (Bus_Done m))))
      else Inr Bus_Other)"

text \<open>The loop, with \<open>n\<close> rounds left: the number of opcodes read and the memory, or nothing when the fault is not recovered.\<close>

primrec bus_loop :: "access \<Rightarrow> (u32 \<Rightarrow> u32 \<Rightarrow> u32 res) \<Rightarrow> u32 \<Rightarrow> u32 \<Rightarrow> u32 \<Rightarrow> nat \<Rightarrow> mem \<Rightarrow> (u32 \<times> mem) option res" where
  "bus_loop acc find_acl pc sp cnt 0 m = Inr None"
| "bus_loop acc find_acl pc sp cnt (Suc n) m =
     bind_res (vmpu_unpriv_uint16_read acc m (pc - push_bit 1 cnt)) (\<lambda>opcode.
     bind_res (bus_opcode acc find_acl sp opcode m) (\<lambda>r.
     case r of
       Bus_Refused \<Rightarrow> Inr None
     | Bus_Other \<Rightarrow> bus_loop acc find_acl pc sp (cnt + 1) n m
     | Bus_Done m \<Rightarrow> Inr (Some (cnt + 1, m))))"

definition vmpu_fault_recovery_bus ::
  "UvisorConfig \<Rightarrow> access \<Rightarrow> (u32 \<Rightarrow> u32 \<Rightarrow> u32 res) \<Rightarrow> u32 \<Rightarrow> u32 \<Rightarrow> u32 \<Rightarrow> u32 \<Rightarrow> mem \<Rightarrow> (int \<times> mem) res" where
  "vmpu_fault_recovery_bus cfg acc find_acl pc sp fault_addr fault_status m =
     (if \<not> vmpu_public_flash_addr cfg pc then Inl (Halt NOT_ALLOWED)
      else
        let rounds =
          (if fault_status = SCB_CFSR_MMARVALID_Msk OR SCB_CFSR_DACCVIOL_Msk then Some 1
           else if fault_status = drop_bit 8 SCB_CFSR_IMPRECISERR_Msk then Some (unat UVISOR_NOP_CNT)
           else None) in
        case rounds of
          None \<Rightarrow> Inr (- 1, m)
        | Some n \<Rightarrow>
            bind_res (bus_loop acc find_acl pc sp 0 n m) (\<lambda>r.
            case r of
              None \<Rightarrow> Inr (- 1, m)
            | Some (cnt, m) \<Rightarrow>
                bind_res (vmpu_unpriv_uint32_write acc m (sp + push_bit 2 6) (pc + push_bit 1 (UVISOR_NOP_CNT + 2 - cnt))) (\<lambda>m.
                Inr (0, m))))"

section \<open>System exceptions\<close>

text \<open>The registers that the handler reads; bits of the status registers are cleared by writing ones.\<close>

record fault_regs =
  IPSR :: u32
  MMFSR :: u8
  MMFAR :: u32
  BFSR :: u8
  BFAR :: u32
  PSP_reg :: u32

definition EXC_FROM_PSP :: "u32 \<Rightarrow> bool" where
  "EXC_FROM_PSP lr \<longleftrightarrow> lr AND EXC_RETURN_SPSEL_Msk \<noteq> 0"

definition vmpu_sys_mux_handler ::
  "UvisorConfig \<Rightarrow> access \<Rightarrow> u32 \<Rightarrow> u32 \<Rightarrow> fault_regs \<times> v7m_state \<times> mem \<Rightarrow> (u32 \<times> fault_regs \<times> v7m_state \<times> mem) res" where
  "vmpu_sys_mux_handler cfg acc lr msp = (\<lambda>(regs, port, m).
     let ipsr = int (unat (IPSR regs AND 0x1FF)) - 16;
         from_psp = EXC_FROM_PSP lr;
         sp = (if from_psp then PSP_reg regs else msp) in
     if ipsr = - 14 then Inl (Halt NOT_IMPLEMENTED)
     else if ipsr = - 13 then Inl (Halt FAULT_HARD)
     else if ipsr = - 12 then
       (let fault_status = ucast (MMFSR regs) in
        bind_res
          (if fault_status AND (SCB_CFSR_MSTKERR_Msk OR SCB_CFSR_MUNSTKERR_Msk) \<noteq> 0 then Inr (0, sp)
           else
             bind_res (if from_psp then vmpu_unpriv_uint32_read acc m (sp + 6 * 4) else Inr (read32 m (msp + 6 * 4))) (\<lambda>pc.
             Inr (pc, MMFAR regs)))
          (\<lambda>(pc, fault_addr).
            bind_res (vmpu_fault_recovery_mpu port pc sp fault_addr fault_status) (\<lambda>(recovered, port).
            let regs = regs\<lparr>MMFSR := MMFSR regs AND NOT (ucast fault_status)\<rparr> in
            if recovered then Inr (lr, regs, port, m)
            else Inl (Halt PERMISSION_DENIED))))
     else if ipsr = - 11 then
       (if from_psp then
          bind_res (vmpu_unpriv_uint32_read acc m (sp + 6 * 4)) (\<lambda>pc.
          let fault_status = ucast (BFSR regs) in
          bind_res (vmpu_fault_recovery_bus cfg acc (vmpu_fault_find_acl port) pc sp (BFAR regs) fault_status m) (\<lambda>(rc, m).
          if rc = 0 then Inr (lr, regs\<lparr>BFSR := BFSR regs AND NOT (ucast fault_status)\<rparr>, port, m)
          else Inl (Halt PERMISSION_DENIED)))
        else Inl (Halt PERMISSION_DENIED))
     else if ipsr = - 10 then Inl (Halt FAULT_USAGE)
     else if ipsr = - 5 then Inl (Halt NOT_IMPLEMENTED)
     else if ipsr = - 4 then Inl (Halt FAULT_DEBUG)
     else if ipsr = - 2 then Inl (Halt NOT_IMPLEMENTED)
     else if ipsr = - 1 then Inl (Halt NOT_IMPLEMENTED)
     else Inl (Halt NOT_ALLOWED))"

section \<open>What an emulated access can change\<close>

definition in_word :: "u32 \<Rightarrow> u32 \<Rightarrow> bool" where
  "in_word a base \<longleftrightarrow> unat (a - base) < 4"

lemma write_changes:
  "write32 m b v a \<noteq> m a \<Longrightarrow> in_word a b" "write16 m b h a \<noteq> m a \<Longrightarrow> in_word a b" "write8 m b c a \<noteq> m a \<Longrightarrow> in_word a b"
  by (auto simp: in_word_def write32_def write16_def write8_def split: if_splits)

text \<open>The stores that the emulation may do: to the address in \<open>r0\<close> if the access control list lets the box write it, and to the stacked \<open>r0\<close>.\<close>

definition store_granted :: "access \<Rightarrow> (u32 \<Rightarrow> u32 \<Rightarrow> u32 res) \<Rightarrow> u32 \<Rightarrow> mem \<Rightarrow> u32 \<Rightarrow> bool" where
  "store_granted acc find_acl sp m a \<longleftrightarrow>
     in_word a (read32 m sp) \<and> (\<exists>acl. find_acl (read32 m sp) 4 = Inr acl \<and> acl AND UVISOR_TACL_UWRITE \<noteq> 0) \<or>
     in_word a sp \<and> acc True sp 4"

lemma bus_opcode_confined:
  assumes "bus_opcode acc find_acl sp opcode m = Inr (Bus_Done m')" "m' a \<noteq> m a"
  shows "store_granted acc find_acl sp m a"
  using assms
  by (auto dest: write_changes simp: bus_opcode_def Let_def bind_res_Inr_iff vmpu_unpriv_uint32_read_def vmpu_unpriv_uint32_write_def store_granted_def
      split: if_splits option.splits)

lemma bus_loop_confined:
  assumes "bus_loop acc find_acl pc sp cnt n m = Inr (Some (c, m'))"
  shows "(m' a \<noteq> m a \<longrightarrow> store_granted acc find_acl sp m a) \<and> (\<exists>k. 0 < k \<and> k \<le> n \<and> c = cnt + of_nat k)"
  using assms
proof (induction n arbitrary: cnt)
  case (Suc n)
  obtain opcode r where r: "bus_opcode acc find_acl sp opcode m = Inr r"
    "(case r of Bus_Refused \<Rightarrow> Inr None | Bus_Other \<Rightarrow> bus_loop acc find_acl pc sp (cnt + 1) n m | Bus_Done m \<Rightarrow> Inr (Some (cnt + 1, m))) = Inr (Some (c, m'))"
    using Suc.prems by (auto simp: bind_res_Inr_iff)
  show ?case
  proof (cases r)
    case Bus_Other
    then obtain k where "m' a \<noteq> m a \<longrightarrow> store_granted acc find_acl sp m a" "0 < k" "k \<le> n" "c = cnt + 1 + of_nat k"
      using Suc.IH [of "cnt + 1"] r(2) by auto
    then show ?thesis by (intro conjI exI [of _ "Suc k"]) auto
  next
    case (Bus_Done m1)
    then show ?thesis using r bus_opcode_confined [of acc find_acl sp opcode m m' a] by (auto intro!: exI [of _ 1])
  qed (use r in simp)
qed simp

lemma recovery_bus_spec:
  assumes "vmpu_fault_recovery_bus cfg acc find_acl pc sp fault_addr fault_status m = Inr (rc, m')"
  shows "vmpu_public_flash_addr cfg pc \<and> (rc = 0 \<or> rc = - 1 \<and> m' = m) \<and>
    (m' a \<noteq> m a \<longrightarrow> store_granted acc find_acl sp m a \<or> in_word a (sp + 24) \<and> acc True (sp + 24) 4) \<and>
    (rc = 0 \<longrightarrow> fault_status \<in> {0x82, 0x04} \<and> (\<exists>k. 0 < k \<and> k \<le> 5 \<and> read32 m' (sp + 24) = pc + of_nat (2 * (7 - k))))"
proof -
  have pc: "vmpu_public_flash_addr cfg pc" using assms by (auto simp: vmpu_fault_recovery_bus_def split: if_splits)
  have masks: "SCB_CFSR_MMARVALID_Msk OR SCB_CFSR_DACCVIOL_Msk = 0x82" "drop_bit 8 SCB_CFSR_IMPRECISERR_Msk = 4" "unat UVISOR_NOP_CNT = 5"
    by (simp_all add: cfsr_masks SCB_CFSR_IMPRECISERR_Msk_def UVISOR_NOP_CNT_def)
  show ?thesis
  proof (cases "rc = 0")
    case True
    define n :: nat where "n = (if fault_status = 0x82 then 1 else 5)"
    then have fs: "fault_status \<in> {0x82, 0x04}" "n \<le> 5"
      and "bind_res (bus_loop acc find_acl pc sp 0 n m) (\<lambda>r. case r of None \<Rightarrow> Inr (- 1, m) | Some (cnt, m) \<Rightarrow>
        bind_res (vmpu_unpriv_uint32_write acc m (sp + 24) (pc + push_bit 1 (UVISOR_NOP_CNT + 2 - cnt))) (\<lambda>m. Inr (0, m))) = Inr (rc, m')"
      using assms True by (auto simp: vmpu_fault_recovery_bus_def masks simp del: bus_loop.simps split: if_splits)
    then obtain r where "bus_loop acc find_acl pc sp 0 n m = Inr r" "(case r of None \<Rightarrow> Inr (- 1, m) | Some (cnt, m) \<Rightarrow>
        bind_res (vmpu_unpriv_uint32_write acc m (sp + 24) (pc + push_bit 1 (UVISOR_NOP_CNT + 2 - cnt))) (\<lambda>m. Inr (0, m))) = Inr (rc, m')"
      by (auto simp only: bind_res_Inr_iff)
    then obtain c m1 where run: "bus_loop acc find_acl pc sp 0 n m = Inr (Some (c, m1))"
      and w: "acc True (sp + 24) 4" "m' = write32 m1 (sp + 24) (pc + push_bit 1 (UVISOR_NOP_CNT + 2 - c))"
      using True by (cases r) (auto simp: vmpu_unpriv_uint32_write_def split: if_splits)
    obtain k where k: "0 < k" "k \<le> n" "c = of_nat k" using bus_loop_confined [OF run] by auto
    then have "push_bit 1 (UVISOR_NOP_CNT + 2 - c) = (of_nat (2 * (7 - k)) :: u32)"
      using fs(2) by (simp add: UVISOR_NOP_CNT_def push_bit_eq_mult of_nat_diff)
    moreover have "m' a \<noteq> m a \<Longrightarrow> store_granted acc find_acl sp m a \<or> in_word a (sp + 24)"
      using bus_loop_confined [OF run, of a] write_changes(1) w(2) by metis
    ultimately show ?thesis using pc fs k w True by (auto simp: read32_write32 intro!: exI [of _ k])
  next
    case False
    then show ?thesis using assms pc by (auto simp: vmpu_fault_recovery_bus_def Let_def bind_res_Inr_iff split: if_splits option.splits)
  qed
qed

text \<open>
  C5: The emulation of a faulting access changes memory only where the access control list lets the active box write, at the address that
  was in \<open>r0\<close>, and in the two words of the exception frame (the stacked \<open>r0\<close> and return address) that the
  box itself may write. If the fault is not recovered nothing is changed. The box continues after the instruction.
\<close>

theorem vmpu_fault_recovery_bus_confined:
  assumes "vmpu_fault_recovery_bus cfg acc find_acl pc sp fault_addr fault_status m = Inr (rc, m')"
  shows "vmpu_public_flash_addr cfg pc \<and> (rc = 0 \<or> rc = - 1 \<and> m' = m) \<and>
    (\<forall>a. m' a \<noteq> m a \<longrightarrow> store_granted acc find_acl sp m a \<or> in_word a (sp + 24) \<and> acc True (sp + 24) 4) \<and>
    (rc = 0 \<longrightarrow> (\<exists>k. 0 < k \<and> k \<le> 5 \<and> read32 m' (sp + 24) = pc + of_nat (2 * (7 - k))))"
  using recovery_bus_spec [OF assms] by blast


section \<open>Example\<close>

text \<open>A box stores 5 to the system control register: \<open>str r1, [r0]\<close> is at \<open>0x1000\<close>, its frame at \<open>0x20003000\<close>.\<close>

definition example_fault_mem :: mem where
  "example_fault_mem = (\<lambda>_. 0)(0x1000 := 1, 0x1001 := 0x60, 0x20003000 := 0x10, 0x20003001 := 0xED, 0x20003003 := 0xE0, 0x20003004 := 5,
     0x20003019 := 0x10)"

definition example_fault_regs :: fault_regs where
  "example_fault_regs = \<lparr>IPSR = 5, MMFSR = 0, MMFAR = 0, BFSR = 0x82, BFAR = 0xE000ED10, PSP_reg = 0x20003000\<rparr>"

lemma example_bus_recovery:
  "vmpu_fault_recovery_bus example_config (\<lambda>_ _ _. True) (vmpu_fault_find_acl example_v7m) 0x1000 0x20003000 0xE000ED10 0x82 example_fault_mem =
    Inr (0, write32 (write32 example_fault_mem 0xE000ED10 5) 0x20003018 0x100C)"
proof -
  have reads: "read16 example_fault_mem 0x1000 = 0x6001" "read32 example_fault_mem 0x20003000 = 0xE000ED10" "read32 example_fault_mem 0x20003004 = 5"
    by (simp_all add: read16_def read32_def example_fault_mem_def)
  show ?thesis
    by (simp add: vmpu_fault_recovery_bus_def vmpu_public_flash_addr_def example_config_def cfsr_masks vmpu_unpriv_uint16_read_def
        vmpu_unpriv_uint32_read_def vmpu_unpriv_uint32_write_def bus_opcode_def reads opcode_masks vmpu_fault_find_acl_def SCB_SCR_ADDRESS_def
        tacl_flags UVISOR_NOP_CNT_def)
qed

theorem vmpu_fault_recovery_bus_confined_witness:
  "\<exists>m'. vmpu_fault_recovery_bus example_config (\<lambda>_ _ _. True) (vmpu_fault_find_acl example_v7m) 0x1000 0x20003000 0xE000ED10 0x82 example_fault_mem = Inr (0, m') \<and>
    m' 0x20003008 = 0"
  using example_bus_recovery vmpu_fault_recovery_bus_confined [OF example_bus_recovery]
  by (auto simp: write32_def example_fault_mem_def)


end
