(* ===== verification/Box_Order.thy ===== *)
theory Box_Order
  imports Vmpu_Armv7m "HOL-Library.Multiset"
begin

text \<open>
  The order in which the secure boxes are placed in SRAM, \<open>vmpu_order_boxes\<close> of
  \<^verbatim>\<open>core/vmpu/src/mpu_armv7m/vmpu_armv7m.c\<close>. The search swaps boxes in place and undoes the swaps; it is shown to try every order
  of the secure boxes and to return the best one.
\<close>

section \<open>One search over a set of orders\<close>

text \<open>
  From a state with the order \<open>bo\<close>, the best order \<open>best\<close> so far and its size, a search over the orders \<open>S\<close> restores
  \<open>bo\<close> and ends with an order of \<open>S\<close> if that is smaller.
\<close>

definition searched :: "(nat list \<Rightarrow> u32) \<Rightarrow> nat \<Rightarrow> nat list set \<Rightarrow> order_state \<Rightarrow> order_state \<Rightarrow> bool" where
  "searched sz n S st st' \<longleftrightarrow> (case (st, st') of ((bo, best, mn), (bo', best', mn')) \<Rightarrow>
     bo' = bo \<and> mn' \<le> mn \<and> (\<forall>ys \<in> S. mn' \<le> sz ys) \<and>
     (mn' = mn \<and> best' = best \<or> (\<exists>ys \<in> S. sz ys = mn' \<and> mn' < mn \<and> best' = ys @ drop n best)))"

lemma searched_none: "searched sz n {} st st"
  by (cases st) (simp add: searched_def)

lemma searched_union:
  assumes "searched sz n S st st1" "searched sz n T st1 st2" "\<forall>ys \<in> S. length ys = n"
  shows "searched sz n (S \<union> T) st st2"
proof -
  obtain bo best mn best1 mn1 best2 mn2 where st: "st = (bo, best, mn)" "st1 = (bo, best1, mn1)" "st2 = (bo, best2, mn2)"
    using assms(1,2) by (cases st, cases st1, cases st2) (auto simp: searched_def)
  have "mn2 \<le> mn1" "mn1 \<le> mn" using assms(1,2) by (auto simp: searched_def st)
  moreover have "drop n best1 = drop n best" if "\<not> (mn1 = mn \<and> best1 = best)"
    using that assms(1,3) by (auto simp: searched_def st)
  ultimately show ?thesis
    using assms(1,2) by (auto simp: searched_def st) force+
qed

lemma searched_fold:
  assumes step: "\<And>i best mn. i \<in> set is \<Longrightarrow> searched sz n (S i) (bo, best, mn) (f i (bo, best, mn))"
    and len: "\<And>i ys. i \<in> set is \<Longrightarrow> ys \<in> S i \<Longrightarrow> length ys = n"
  shows "searched sz n (\<Union>i \<in> set is. S i) (bo, best, mn) (fold f is (bo, best, mn))"
  using assms
proof (induction "is" arbitrary: best mn)
  case (Cons i "is")
  obtain best1 mn1 where s1: "f i (bo, best, mn) = (bo, best1, mn1)"
    using Cons.prems(1) [of i best mn] by (cases "f i (bo, best, mn)") (auto simp: searched_def)
  have "searched sz n (S i) (bo, best, mn) (bo, best1, mn1)" using Cons.prems(1) [of i best mn] s1 by simp
  moreover have "searched sz n (\<Union>i \<in> set is. S i) (bo, best1, mn1) (fold f is (bo, best1, mn1))"
    using Cons.IH [of best1 mn1] Cons.prems by (metis list.set_intros(2))
  moreover have "\<forall>ys \<in> S i. length ys = n" using Cons.prems(2) by (metis list.set_intros(1))
  ultimately show ?case using searched_union s1 by fastforce
qed (simp add: searched_none)

section \<open>The orders that agree with a given one up to an index\<close>

definition completions :: "nat \<Rightarrow> nat list \<Rightarrow> nat list set" where
  "completions k bo = {take k bo @ zs | zs. mset zs = mset (drop k bo)}"

lemma completions_all [simp]: "length bo \<le> k \<Longrightarrow> completions k bo = {bo}"
  by (auto simp: completions_def)

lemma completions_length: "ys \<in> completions k bo \<Longrightarrow> length ys = length bo"
  by (auto simp: completions_def dest: mset_eq_length)

lemma swap_boxes_simps [simp]:
  assumes "k \<le> i" "i < length bo"
  shows "length (swap_boxes bo k i) = length bo" "take k (swap_boxes bo k i) = take k bo" "swap_boxes bo k i ! k = bo ! i"
    "swap_boxes (swap_boxes bo k i) k i = bo"
  using assms by (auto simp: swap_boxes_def nth_list_update list_eq_iff_nth_eq)

lemma mset_swap_boxes:
  assumes "k \<le> i" "i < length bo"
  shows "mset (drop k (swap_boxes bo k i)) = mset (drop k bo)"
proof -
  have "drop k (swap_boxes bo k i) = (drop k bo)[i - k := drop k bo ! 0, 0 := drop k bo ! (i - k)]"
    using assms by (simp add: swap_boxes_def drop_update_swap list_update_swap)
       (metis (no_types, lifting) add.right_neutral diff_self_eq_0 drop_update_swap le_add_diff_inverse le_refl list_update_swap)
  then show ?thesis using mset_swap [of 0 "drop k bo" "i - k"] assms by simp
qed

lemma completions_Suc:
  assumes "k < length bo"
  shows "completions k bo = (\<Union>i \<in> {k..<length bo}. completions (Suc k) (swap_boxes bo k i))"
proof -
  have tk: "take (Suc k) (swap_boxes bo k i) = take k bo @ [bo ! i]"
    and ms: "mset (drop k bo) = add_mset (bo ! i) (mset (drop (Suc k) (swap_boxes bo k i)))" if "k \<le> i" "i < length bo" for i
  proof -
    show "take (Suc k) (swap_boxes bo k i) = take k bo @ [bo ! i]" using that assms by (simp add: take_Suc_conv_app_nth)
    have "drop k (swap_boxes bo k i) = bo ! i # drop (Suc k) (swap_boxes bo k i)"
      using Cons_nth_drop_Suc [of k "swap_boxes bo k i"] that by simp
    then show "mset (drop k bo) = add_mset (bo ! i) (mset (drop (Suc k) (swap_boxes bo k i)))"
      using mset_swap_boxes [OF that] by simp
  qed
  show ?thesis
  proof (intro set_eqI iffI)
    fix ys assume "ys \<in> completions k bo"
    then obtain zs where zs: "ys = take k bo @ zs" "mset zs = mset (drop k bo)" by (auto simp: completions_def)
    then obtain z zs' where z: "zs = z # zs'" using assms by (cases zs) auto
    then have "z \<in> set (drop k bo)" using zs(2) by (metis list.set_intros(1) mset_eq_setD)
    then obtain j where "j < length bo - k" "z = bo ! (k + j)" by (auto simp: in_set_conv_nth)
    then have i: "k \<le> k + j" "k + j < length bo" "z = bo ! (k + j)" by auto
    then have "ys = take (Suc k) (swap_boxes bo k (k + j)) @ zs'" "mset zs' = mset (drop (Suc k) (swap_boxes bo k (k + j)))"
      using zs z tk [OF i(1,2)] ms [OF i(1,2)] by auto
    then show "ys \<in> (\<Union>i \<in> {k..<length bo}. completions (Suc k) (swap_boxes bo k i))"
      using i by (auto simp: completions_def)
  next
    fix ys assume "ys \<in> (\<Union>i \<in> {k..<length bo}. completions (Suc k) (swap_boxes bo k i))"
    then show "ys \<in> completions k bo" using tk ms by (fastforce simp: completions_def)
  qed
qed

lemma max_word_less: "w \<noteq> 0xFFFFFFFF \<Longrightarrow> w < (0xFFFFFFFF :: u32)"
proof -
  have "(- 1 :: u32) = 0xFFFFFFFF" by simp
  then show "w \<noteq> 0xFFFFFFFF \<Longrightarrow> w < 0xFFFFFFFF" using word_order.not_eq_extremum [of w] by metis
qed

section \<open>The search tries every order\<close>

lemma searched_evaluate:
  assumes "length bo = Suc e"
  shows "searched (\<lambda>ys. order_sram_size start sizes (take e (drop 1 ys))) (Suc e) {bo} (bo, best, mn)
    (order_evaluate start sizes e (bo, best, mn))"
  using assms by (auto simp: searched_def order_evaluate_def Let_def)

lemma order_boxes_rec_searched:
  assumes "length bo = Suc e" "d < Suc e" "0 < d"
  shows "searched (\<lambda>ys. order_sram_size start sizes (take e (drop 1 ys))) (Suc e) (completions (Suc e - d) bo) (bo, best, mn)
    (order_boxes_rec start sizes e d (bo, best, mn))"
  using assms
proof (induction d arbitrary: bo best mn)
  case (Suc d)
  let ?sz = "\<lambda>ys. order_sram_size start sizes (take e (drop 1 ys))"
  let ?f = "\<lambda>i (box_order, best_order, min_size).
    case order_boxes_rec start sizes e d (swap_boxes box_order (e - d) i, best_order, min_size) of
      (box_order, best_order, min_size) \<Rightarrow> (swap_boxes box_order (e - d) i, best_order, min_size)"
  show ?case
  proof (cases "d = 0")
    case True
    obtain best' mn' where ev: "order_evaluate start sizes e (bo, best, mn) = (bo, best', mn')"
      by (cases "order_sram_size start sizes (take e (drop 1 bo)) < mn") (auto simp: order_evaluate_def Let_def)
    have "order_boxes_rec start sizes e (Suc d) (bo, best, mn) = order_evaluate start sizes e (bo, best, mn)"
      using True Suc.prems(1) by (simp add: ev)
    moreover have "completions (Suc e - Suc d) bo = {bo}"
      using completions_Suc [of e bo] Suc.prems(1) True by (simp add: atLeastLessThanSuc swap_boxes_def)
    ultimately show ?thesis using searched_evaluate [OF Suc.prems(1)] by simp
  next
    case False
    have step: "searched ?sz (Suc e) (completions (Suc (e - d)) (swap_boxes bo (e - d) i)) (bo, b, mn) (?f i (bo, b, mn))"
      if i: "i \<in> set [e - d..<Suc e]" for i b mn
    proof -
      let ?bo = "swap_boxes bo (e - d) i"
      have ok: "e - d \<le> i" "i < length bo" using i Suc.prems(1) by auto
      have "searched ?sz (Suc e) (completions (Suc e - d) ?bo) (?bo, b, mn) (order_boxes_rec start sizes e d (?bo, b, mn))"
        using Suc.IH [of ?bo b mn] Suc.prems ok False by simp
      moreover have "Suc e - d = Suc (e - d)" using Suc.prems by simp
      ultimately show ?thesis using ok by (auto simp: searched_def split: prod.splits)
    qed
    have "e - d \<noteq> e" using False Suc.prems by simp
    then have "order_boxes_rec start sizes e (Suc d) (bo, best, mn) = fold ?f [e - d..<Suc e] (bo, best, mn)"
      by (simp add: Let_def)
    moreover have "length ys = Suc e" if "i \<in> set [e - d..<Suc e]" "ys \<in> completions (Suc (e - d)) (swap_boxes bo (e - d) i)" for i ys
      using completions_length [OF that(2)] Suc.prems(1) by (simp add: swap_boxes_def)
    moreover have "searched ?sz (Suc e) (\<Union>i \<in> set [e - d..<Suc e]. completions (Suc (e - d)) (swap_boxes bo (e - d) i))
        (bo, best, mn) (fold ?f [e - d..<Suc e] (bo, best, mn))"
      by (rule searched_fold [where f = ?f, OF step]) (assumption, rule calculation(2))
    moreover have "completions (Suc e - Suc d) bo = (\<Union>i \<in> set [e - d..<Suc e]. completions (Suc (e - d)) (swap_boxes bo (e - d) i))"
      using completions_Suc [of "e - d" bo] Suc.prems(1) by (simp del: upt_Suc)
    ultimately show ?thesis by (simp only:)
  qed
qed simp



text \<open>
  With only the public box the search evaluates nothing, the best size keeps its initial value, and the system halts for lack of memory,
  whatever the configuration.
\<close>

theorem vmpu_order_boxes_public_only_halts:
  "vmpu_order_boxes cfg sizes best 1 = (if bss_boxes_end cfg - bss_boxes_start cfg = 0xFFFFFFFF then Inr best else Inl (Halt SANITY_CHECK_FAILED))"
  using max_word_less [of "bss_boxes_end cfg - bss_boxes_start cfg"] by (simp add: vmpu_order_boxes_def)

end
