(* ===== verification/Mpu_Armv8m.thy ===== *)
theory Mpu_Armv8m
  imports Mpu_Armv7m Pool_Queue Vmpu_Sanity
begin

text \<open>
  The driver of the ARMv8-M security attribution unit, \<^verbatim>\<open>core/vmpu/src/mpu_armv8m/vmpu_armv8m_mpu.c\<close>. Its functions have the names of the
  ARMv7-M driver and are marked with \<open>_v8m\<close> here. A region of the unit opens memory to non-secure code.
\<close>

unbundle bit_operations_syntax

section \<open>State\<close>

definition SAU_ACL_COUNT :: nat where "SAU_ACL_COUNT = 64"
definition ARMv8M_SAU_REGIONS :: u8 where "ARMv8M_SAU_REGIONS = 8"
definition ARMv8M_SAU_REGIONS_STATIC :: u8 where "ARMv8M_SAU_REGIONS_STATIC = 4"
definition ARMv8M_SAU_REGIONS_MAX :: u8 where "ARMv8M_SAU_REGIONS_MAX = ARMv8M_SAU_REGIONS"
definition SAU_RLAR_ENABLE_Msk :: u32 where "SAU_RLAR_ENABLE_Msk = 1"
definition SAU_RLAR_NSC_Msk :: u32 where "SAU_RLAR_NSC_Msk = push_bit 1 1"
definition SAU_CTRL_ENABLE_Msk :: u32 where "SAU_CTRL_ENABLE_Msk = 1"

lemmas sau_consts = SAU_ACL_COUNT_def ARMv8M_SAU_REGIONS_def ARMv8M_SAU_REGIONS_STATIC_def ARMv8M_SAU_REGIONS_MAX_def
  SAU_RLAR_ENABLE_Msk_def SAU_RLAR_NSC_Msk_def SAU_CTRL_ENABLE_Msk_def

text \<open>The variables of the driver, and the registers of the unit with one base and limit per region.\<close>

record sau_state =
  sau_region_count :: u16
  sau_region :: "MpuRegion list"
  sau_box_region :: "MpuRegionSlice list"
  sau_slot :: u8
  sau_priority :: "u8 list"
  SAU_TYPE :: u32
  SAU_CTRL :: u32
  SAU_RNR :: u32
  sau_rbar :: "u32 list"
  sau_rlar :: "u32 list"

definition SAU_RLAR :: "u32 \<Rightarrow> u32 \<Rightarrow> u32" where
  "SAU_RLAR config addr = config OR ((addr - 1) AND NOT (32 - 1))"

definition write_SAU :: "sau_state \<Rightarrow> u8 \<Rightarrow> u32 \<Rightarrow> u32 \<Rightarrow> sau_state res" where
  "write_SAU st slot rbar rlar =
     bind_res (arr_set (sau_rbar st) (unat slot) rbar) (\<lambda>rbars.
     bind_res (arr_set (sau_rlar st) (unat slot) rlar) (\<lambda>rlars.
     Inr (st\<lparr>SAU_RNR := ucast slot, sau_rbar := rbars, sau_rlar := rlars\<rparr>)))"

section \<open>Sizes and alignment\<close>

definition vmpu_is_region_size_valid_v8m :: "u32 \<Rightarrow> bool" where
  "vmpu_is_region_size_valid_v8m sz =
     (let masked_size = sz AND NOT 31 in
      if masked_size < 32 \<or> push_bit 29 1 < masked_size then False else masked_size = sz)"

definition vmpu_round_up_region_v8m :: "u32 \<Rightarrow> u32 \<Rightarrow> u32" where
  "vmpu_round_up_region_v8m addr sz =
     (if \<not> vmpu_is_region_size_valid_v8m sz then 0
      else let rounded_addr = addr + 31 in if rounded_addr < addr then 0 else rounded_addr AND NOT 31)"

section \<open>Access control lists\<close>

definition vmpu_map_acl_v8m :: "u32 \<Rightarrow> u32" where
  "vmpu_map_acl_v8m acl = (if acl AND UVISOR_TACL_UACL \<noteq> 0 then SAU_RLAR_ENABLE_Msk else 0)"

text \<open>The first argument is the region as it was; a failed translation leaves it as it is and returns 0.\<close>

definition vmpu_region_translate_acl_v8m :: "MpuRegion \<Rightarrow> u32 \<Rightarrow> u32 \<Rightarrow> u32 \<Rightarrow> u32 \<Rightarrow> MpuRegion \<times> u32" where
  "vmpu_region_translate_acl_v8m region start sz acl acl_hw_spec =
     (let sz' = (if sz mod 32 \<noteq> 0 then
             if acl AND UVISOR_TACL_SIZE_ROUND_DOWN \<noteq> 0 then Some (UVISOR_ROUND32_DOWN sz)
             else if acl AND UVISOR_TACL_SIZE_ROUND_UP \<noteq> 0 then Some (UVISOR_ROUND32_UP sz)
             else None
           else Some sz) in
      case sz' of
        None \<Rightarrow> (region, 0)
      | Some sz \<Rightarrow>
          if start mod 32 \<noteq> 0 then (region, 0)
          else (\<lparr>region_start = start, region_end = start + sz,
                 region_config = vmpu_map_acl_v8m acl OR (acl_hw_spec AND SAU_RLAR_NSC_Msk), region_acl = acl\<rparr>, sz))"

definition vmpu_region_add_static_acl_v8m ::
  "bool \<Rightarrow> u8 \<Rightarrow> sau_state \<Rightarrow> u8 \<Rightarrow> u32 \<Rightarrow> u32 \<Rightarrow> u32 \<Rightarrow> u32 \<Rightarrow> (u32 \<times> sau_state) res" where
  "vmpu_region_add_static_acl_v8m counted box_count st box_id start sz acl acl_hw_spec =
     (if unat (sau_region_count st) \<ge> SAU_ACL_COUNT then Inl (Halt SANITY_CHECK_FAILED)
      else if \<not> vmpu_is_box_id_valid counted box_count box_id then Inl (Halt SANITY_CHECK_FAILED)
      else
        bind_res (arr_get (sau_box_region st) (unat box_id)) (\<lambda>box.
        let regions = (case slice_regions box of None \<Rightarrow> unat (sau_region_count st) | Some i \<Rightarrow> i);
            i = regions + unat (slice_count box) in
        bind_res (arr_get (sau_region st) i) (\<lambda>region.
        if region_config region \<noteq> 0 then Inl (Halt SANITY_CHECK_FAILED)
        else
          let (region, rounded_size) = vmpu_region_translate_acl_v8m region start sz acl acl_hw_spec in
          bind_res (arr_set (sau_region st) i region) (\<lambda>regs.
          Inr (rounded_size,
            st\<lparr>sau_region := regs,
               sau_box_region := (sau_box_region st)[unat box_id := \<lparr>slice_regions = Some regions, slice_count = slice_count box + 1\<rparr>],
               sau_region_count := sau_region_count st + 1\<rparr>)))))"

definition vmpu_region_get_for_box_v8m :: "sau_state \<Rightarrow> u8 \<Rightarrow> (bool \<times> nat option \<times> u32) res" where
  "vmpu_region_get_for_box_v8m st box_id =
     (if sau_region_count st = 0 then Inr (False, None, 0)
      else if unat box_id < UVISOR_MAX_BOXES then
        bind_res (arr_get (sau_box_region st) (unat box_id)) (\<lambda>box.
        Inr (True, if slice_count box \<noteq> 0 then slice_regions box else None, slice_count box))
      else Inr (False, None, 0))"

definition value_in_range :: "u32 \<Rightarrow> u32 \<Rightarrow> u32 \<Rightarrow> bool" where
  "value_in_range start end_addr v \<longleftrightarrow> start \<le> v \<and> v < end_addr"

definition vmpu_region_find_for_address_v8m :: "sau_state \<Rightarrow> u8 \<Rightarrow> u32 \<Rightarrow> nat option res" where
  "vmpu_region_find_for_address_v8m st box_id address =
     bind_res (arr_get (sau_box_region st) (unat box_id)) (\<lambda>box.
     case slice_regions box of
       None \<Rightarrow> if slice_count box = 0 then Inr None else Inl Oob
     | Some i \<Rightarrow> find_region_loop (sau_region st) address i (unat (slice_count box)))"

section \<open>Checking a buffer\<close>

definition vmpu_region_is_ns :: "u32 \<Rightarrow> bool" where
  "vmpu_region_is_ns rlar \<longleftrightarrow> rlar AND SAU_RLAR_NSC_Msk = 0 \<and> rlar AND SAU_RLAR_ENABLE_Msk = SAU_RLAR_ENABLE_Msk"

definition static_region_holds :: "sau_state \<Rightarrow> u32 \<Rightarrow> u32 \<Rightarrow> nat \<Rightarrow> bool" where
  "static_region_holds st start_addr end_addr slot \<longleftrightarrow>
     (let rlar = sau_rlar st ! slot; rbar = sau_rbar st ! slot; start = rbar AND NOT 0x1F; end = rlar OR 0x1F in
      vmpu_region_is_ns rlar \<and> value_in_range start end start_addr \<and> value_in_range start end end_addr)"

definition vmpu_buffer_access_is_ok_static :: "sau_state \<Rightarrow> u32 \<Rightarrow> u32 \<Rightarrow> bool" where
  "vmpu_buffer_access_is_ok_static st start_addr end_addr =
     list_ex (static_region_holds st start_addr end_addr) [0..<unat ARMv8M_SAU_REGIONS_STATIC]"

text \<open>The last part of \<open>vmpu_buffer_access_is_ok\<close>, the search in the regions of the box.\<close>

definition buffer_in_box_region :: "build_config \<Rightarrow> sau_state \<Rightarrow> u8 \<Rightarrow> u32 \<Rightarrow> u32 \<Rightarrow> bool res" where
  "buffer_in_box_region bc st box_id start_addr end_addr =
     bind_res (assert_res bc (start_addr \<le> end_addr)) (\<lambda>_.
     if start_addr > end_addr then Inr False
     else
       bind_res (vmpu_region_find_for_address_v8m st box_id start_addr) (\<lambda>region.
       case region of
         None \<Rightarrow> Inr False
       | Some i \<Rightarrow>
           bind_res (arr_get (sau_region st) i) (\<lambda>region.
           Inr (value_in_range (region_start region) (region_end region) end_addr \<and> vmpu_region_is_ns (region_config region)))))"

definition vmpu_buffer_access_is_ok :: "build_config \<Rightarrow> sau_state \<Rightarrow> u8 \<Rightarrow> u32 \<Rightarrow> u32 \<Rightarrow> bool res" where
  "vmpu_buffer_access_is_ok bc st box_id addr sz =
     (let start_addr = UVISOR_GET_NS_ALIAS (SECURE_ALIAS_OFFSET bc) addr; end_addr = start_addr + sz - 1;
          public = (if vmpu_buffer_access_is_ok_static st start_addr end_addr then Inr True
                    else buffer_in_box_region bc st 0 start_addr end_addr) in
      if box_id = 0 then public
      else
        bind_res public (\<lambda>ok.
        if ok then Inr True else buffer_in_box_region bc st box_id start_addr end_addr))"

section \<open>Hardware regions\<close>

definition vmpu_mpu_init_v8m :: "sau_state \<Rightarrow> sau_state res" where
  "vmpu_mpu_init_v8m st =
     (let st = st\<lparr>SAU_CTRL := 0\<rparr> in
      if ucast ARMv8M_SAU_REGIONS \<noteq> SAU_TYPE st AND 0xFF then Inl (Halt SANITY_CHECK_FAILED) else Inr st)"

definition vmpu_mpu_lock_v8m :: "sau_state \<Rightarrow> sau_state" where
  "vmpu_mpu_lock_v8m st = st\<lparr>SAU_CTRL := SAU_CTRL_ENABLE_Msk\<rparr>"

definition vmpu_sau_add_region :: "sau_state \<Rightarrow> MpuRegion \<Rightarrow> u8 \<Rightarrow> u8 \<Rightarrow> sau_state res" where
  "vmpu_sau_add_region st region slot priority =
     bind_res (write_SAU st slot (region_start region) (SAU_RLAR (region_config region) (region_end region))) (\<lambda>st.
     bind_res (arr_set (sau_priority st) (unat slot) priority) (\<lambda>prio.
     Inr (st\<lparr>sau_priority := prio\<rparr>)))"

text \<open>The region is a local variable without initial value, the argument \<open>garbage\<close>.\<close>

definition vmpu_mpu_set_static_acl_v8m ::
  "MpuRegion \<Rightarrow> sau_state \<Rightarrow> u8 \<Rightarrow> u32 \<Rightarrow> u32 \<Rightarrow> u32 \<Rightarrow> u32 \<Rightarrow> (u32 \<times> sau_state) res" where
  "vmpu_mpu_set_static_acl_v8m garbage st index start sz acl acl_hw_spec =
     (if index \<ge> ARMv8M_SAU_REGIONS_STATIC then Inl (Halt SANITY_CHECK_FAILED)
      else
        let (region, rounded_size) = vmpu_region_translate_acl_v8m garbage start sz acl acl_hw_spec in
        bind_res (vmpu_sau_add_region st region index 255) (\<lambda>st. Inr (rounded_size, st)))"

primrec invalidate_slots :: "nat list \<Rightarrow> sau_state \<Rightarrow> sau_state res" where
  "invalidate_slots [] st = Inr st"
| "invalidate_slots (slot # slots) st =
     bind_res (write_SAU st (of_nat slot) 0 0) (\<lambda>st.
     bind_res (arr_set (sau_priority st) slot 0) (\<lambda>prio.
     invalidate_slots slots (st\<lparr>sau_priority := prio\<rparr>)))"

definition vmpu_mpu_invalidate_v8m :: "sau_state \<Rightarrow> sau_state res" where
  "vmpu_mpu_invalidate_v8m st =
     invalidate_slots [unat ARMv8M_SAU_REGIONS_STATIC..<unat ARMv8M_SAU_REGIONS_MAX] (st\<lparr>sau_slot := ARMv8M_SAU_REGIONS_STATIC\<rparr>)"

definition next_slot :: "u8 \<Rightarrow> u8" where
  "next_slot slot = (if slot + 1 \<ge> ARMv8M_SAU_REGIONS_MAX then ARMv8M_SAU_REGIONS_STATIC else slot + 1)"

primrec sau_push_loop :: "nat \<Rightarrow> sau_state \<Rightarrow> MpuRegion \<Rightarrow> u8 \<Rightarrow> u8 \<Rightarrow> (bool \<times> sau_state) res" where
  "sau_push_loop 0 st region priority start_slot = Inl Diverge"
| "sau_push_loop (Suc fuel) st region priority start_slot =
     (let st = st\<lparr>sau_slot := next_slot (sau_slot st)\<rparr> in
      bind_res (arr_get (sau_priority st) (unat (sau_slot st))) (\<lambda>prio.
      if prio < priority then
        bind_res (vmpu_sau_add_region st region (sau_slot st) priority) (\<lambda>st. Inr (True, st))
      else if sau_slot st \<noteq> start_slot then sau_push_loop fuel st region priority start_slot
      else Inr (False, st)))"

definition vmpu_mpu_push_v8m :: "sau_state \<Rightarrow> MpuRegion \<Rightarrow> u8 \<Rightarrow> (bool \<times> sau_state) res" where
  "vmpu_mpu_push_v8m st region priority =
     (let priority = (if priority = 0 then 1 else priority); start_slot = sau_slot st in
      bind_res (sau_push_loop (Suc (unat ARMv8M_SAU_REGIONS)) st region priority start_slot) (\<lambda>(placed, st).
      if placed then Inr (True, st)
      else
        let st = st\<lparr>sau_slot := next_slot (sau_slot st)\<rparr> in
        bind_res (vmpu_sau_add_region st region (sau_slot st) priority) (\<lambda>st. Inr (True, st))))"

section \<open>The contract of region sizes\<close>

lemma not_31: "(NOT 31 :: u32) = NOT (mask 5)"
  by (simp add: mask_eq_exp_minus_1)

lemma region_size_valid_v8m_iff:
  "vmpu_is_region_size_valid_v8m sz \<longleftrightarrow> 32 \<le> unat sz \<and> unat sz \<le> 2 ^ 29 \<and> 32 dvd unat sz"
proof -
  have "unat (sz AND NOT (mask 5)) = unat sz div 32 * 32" using unat_and_not_mask [of sz 5] by simp
  moreover have "unat sz div 32 * 32 = unat sz \<longleftrightarrow> 32 dvd unat sz" by presburger
  moreover have "sz AND NOT (mask 5) = sz \<longleftrightarrow> unat (sz AND NOT (mask 5)) = unat sz" by (simp add: unat_eq_iff)
  ultimately show ?thesis
    unfolding vmpu_is_region_size_valid_v8m_def Let_def not_31
    by (auto simp: word_less_nat_alt not_less)
qed

lemma round_up_region_v8m_nat:
  assumes "vmpu_is_region_size_valid_v8m sz"
  shows "unat (vmpu_round_up_region_v8m addr sz) = (if unat addr + 31 < 2 ^ 32 then (unat addr + 31) div 32 * 32 else 0)"
proof (cases "unat addr + 31 < 2 ^ 32")
  case True
  then have "unat (addr + 31) = unat addr + 31" by (simp add: unat_word_ariths)
  moreover from this have "\<not> addr + 31 < addr" by (simp add: word_less_nat_alt)
  ultimately show ?thesis using assms True unat_and_not_mask [of "addr + 31" 5]
    unfolding vmpu_round_up_region_v8m_def Let_def not_31 by simp
next
  case False
  then have "unat (addr + 31) = unat addr + 31 - 2 ^ 32" using unat_u32_lt [of addr] by (simp add: unat_word_ariths mod_if)
  then have "addr + 31 < addr" using False unat_u32_lt [of addr] by (simp add: word_less_nat_alt)
  then show ?thesis using False assms by (simp add: vmpu_round_up_region_v8m_def Let_def)
qed

interpretation v8m: region_geometry vmpu_is_region_size_valid_v8m vmpu_round_up_region_v8m
proof
  fix sz addr
  show "vmpu_is_region_size_valid_v8m sz \<Longrightarrow> 32 \<le> unat sz \<and> unat sz \<le> 2 ^ 29" by (simp add: region_size_valid_v8m_iff)
  show "\<not> vmpu_is_region_size_valid_v8m sz \<Longrightarrow> vmpu_round_up_region_v8m addr sz = 0" by (simp add: vmpu_round_up_region_v8m_def)
  have up: "unat addr \<le> (unat addr + 31) div 32 * 32" "(unat addr + 31) div 32 * 32 < unat addr + 32" by presburger+
  show "unat addr \<le> unat (vmpu_round_up_region_v8m addr sz) \<and> unat (vmpu_round_up_region_v8m addr sz) < unat addr + unat sz"
    if "vmpu_is_region_size_valid_v8m sz" "unat addr + unat sz \<le> 2 ^ 32"
    using round_up_region_v8m_nat [OF that(1), of addr] up that by (auto simp: region_size_valid_v8m_iff)
  show "unat addr \<le> unat (vmpu_round_up_region_v8m addr sz) \<and> unat (vmpu_round_up_region_v8m addr sz) < unat addr + unat sz"
    if "vmpu_round_up_region_v8m addr sz \<noteq> 0"
  proof -
    have "vmpu_is_region_size_valid_v8m sz" using that by (auto simp: vmpu_round_up_region_v8m_def split: if_splits)
    moreover have "unat (vmpu_round_up_region_v8m addr sz) \<noteq> 0" using that by (simp add: unat_eq_zero)
    ultimately show ?thesis
      using round_up_region_v8m_nat [of sz addr] up by (auto simp: region_size_valid_v8m_iff split: if_splits)
  qed
qed

section \<open>Accepted buffers are accessible\<close>

definition sau_regions_of :: "sau_state \<Rightarrow> u8 \<Rightarrow> MpuRegion list" where
  "sau_regions_of st b = (let box = sau_box_region st ! unat b in
     case slice_regions box of None \<Rightarrow> [] | Some i \<Rightarrow> take (unat (slice_count box)) (drop i (sau_region st)))"

text \<open>Non-secure code of the box may access the addresses from \<open>lo\<close> to \<open>hi\<close>, the end excluded.\<close>

definition ns_range :: "sau_state \<Rightarrow> u8 \<Rightarrow> u32 \<Rightarrow> u32 \<Rightarrow> bool" where
  "ns_range st box_id lo hi \<longleftrightarrow>
     (\<exists>slot < 4. vmpu_region_is_ns (sau_rlar st ! slot) \<and> lo = sau_rbar st ! slot AND NOT 0x1F \<and> hi = sau_rlar st ! slot OR 0x1F) \<or>
     (\<exists>r \<in> set (sau_regions_of st box_id) \<union> set (sau_regions_of st 0). vmpu_region_is_ns (region_config r) \<and> lo = region_start r \<and> hi = region_end r)"

lemma find_region_loop_Some:
  "find_region_loop rs a i n = Inr (Some j) \<Longrightarrow> rs ! j \<in> set (take n (drop i rs)) \<and> j < length rs \<and> region_contains (rs ! j) a"
proof (induction n arbitrary: i)
  case (Suc n)
  then have i: "i < length rs" by (auto simp: res_simps)
  show ?case
  proof (cases "region_contains (rs ! i) a")
    case True
    then show ?thesis using Suc.prems i by (auto simp: take_Suc hd_drop_conv_nth)
  next
    case False
    then have "rs ! j \<in> set (take n (drop (Suc i) rs)) \<and> j < length rs \<and> region_contains (rs ! j) a"
      using Suc.IH [of "Suc i"] Suc.prems i by simp
    then show ?thesis using i by (auto simp: Cons_nth_drop_Suc [symmetric])
  qed
qed simp

lemma buffer_in_box_region_True:
  assumes "buffer_in_box_region bc st b s e = Inr True"
  shows "s \<le> e \<and> (\<exists>r \<in> set (sau_regions_of st b). vmpu_region_is_ns (region_config r) \<and> region_start r \<le> s \<and> e < region_end r)"
proof -
  obtain j where j: "vmpu_region_find_for_address_v8m st b s = Inr (Some j)" "s \<le> e"
    and r: "value_in_range (region_start (sau_region st ! j)) (region_end (sau_region st ! j)) e" "vmpu_region_is_ns (region_config (sau_region st ! j))"
    using assms by (auto simp: buffer_in_box_region_def res_simps split: if_splits option.splits)
  then have "sau_region st ! j \<in> set (sau_regions_of st b)" "region_contains (sau_region st ! j) s"
    by (auto simp: vmpu_region_find_for_address_v8m_def res_simps sau_regions_of_def Let_def split: option.splits if_splits
        dest!: find_region_loop_Some)
  then show ?thesis using j r by (auto simp: value_in_range_def region_contains_def)
qed

text \<open>
  C31: When \<open>vmpu_buffer_access_is_ok\<close> accepts a buffer that does not wrap around the address space, every byte of it lies in one range that is open to non-secure
  code: a static region, or a region of the box or of the public box.
\<close>

theorem vmpu_buffer_access_is_ok_sound:
  fixes bc addr start
  defines "start \<equiv> UVISOR_GET_NS_ALIAS (SECURE_ALIAS_OFFSET bc) addr"
  assumes ok: "vmpu_buffer_access_is_ok bc st box_id addr sz = Inr True"
    and size: "0 < sz" "unat start + unat sz \<le> 2 ^ 32"
  shows "\<exists>lo hi. ns_range st box_id lo hi \<and> (\<forall>k < unat sz. lo \<le> start + of_nat k \<and> start + of_nat k < hi)"
proof -
  let ?e = "start + sz - 1"
  have e: "unat ?e = unat start + unat sz - 1"
  proof -
    have "unat (sz - 1) = unat sz - 1" "0 < unat sz" using size(1) unat_minus_one [of sz] by (auto simp: word_less_nat_alt unat_gt_0)
    then have "unat (start + (sz - 1)) = unat start + (unat sz - 1)" using size(2) by (simp add: unat_word_ariths)
    then show ?thesis using \<open>0 < unat sz\<close> by (simp add: algebra_simps)
  qed
  have inside: "start \<le> start + of_nat k \<and> start + of_nat k \<le> ?e" if "k < unat sz" for k
  proof -
    have "unat (of_nat k :: u32) = k" using that unat_u32_lt [of sz] by (intro unat_of_nat_u32) simp
    then have "unat (start + of_nat k) = unat start + k" using that size(2) by (simp add: unat_word_ariths)
    then show ?thesis using that e by (simp add: word_le_nat_alt)
  qed
  obtain lo hi where "ns_range st box_id lo hi" "lo \<le> start" "?e < hi"
  proof (cases "vmpu_buffer_access_is_ok_static st start ?e")
    case True
    then obtain slot where "slot < 4" "static_region_holds st start ?e slot"
      by (auto simp: vmpu_buffer_access_is_ok_static_def list_ex_iff sau_consts)
    then show ?thesis using that by (auto simp: static_region_holds_def Let_def value_in_range_def ns_range_def)
  next
    case False
    then have "buffer_in_box_region bc st 0 start ?e = Inr True \<or> buffer_in_box_region bc st box_id start ?e = Inr True"
      using ok by (auto simp: vmpu_buffer_access_is_ok_def start_def [symmetric] Let_def res_simps split: if_splits)
    then obtain r where "r \<in> set (sau_regions_of st box_id) \<union> set (sau_regions_of st 0)" "vmpu_region_is_ns (region_config r)"
      "region_start r \<le> start" "?e < region_end r" using buffer_in_box_region_True by blast
    then show ?thesis using that [of "region_start r" "region_end r"] by (auto simp: ns_range_def)
  qed
  then show ?thesis using inside by (meson order.strict_trans1 order.trans)
qed

section \<open>Examples\<close>

text \<open>
  The static region 0 opens the flash from \<open>0x0\<close> to \<open>0x1FFF\<close>, and the stack of a box is in slot 5 with the highest
  priority.
\<close>

definition example_sau :: sau_state where
  "example_sau = \<lparr>sau_region_count = 0, sau_region = replicate 64 \<lparr>region_start = 0, region_end = 0, region_config = 0, region_acl = 0\<rparr>,
     sau_box_region = replicate 5 \<lparr>slice_regions = None, slice_count = 0\<rparr>, sau_slot = 4,
     sau_priority = [255, 255, 255, 255, 3, 255, 3, 3], SAU_TYPE = 8, SAU_CTRL = 1, SAU_RNR = 0,
     sau_rbar = [0x0, 0, 0, 0, 0, 0x20001000, 0, 0], sau_rlar = [0x1FE1, 0, 0, 0, 0, 0x20001FE1, 0, 0]\<rparr>"

lemma example_sau_static: "vmpu_buffer_access_is_ok_static example_sau s e \<longleftrightarrow> s < 0x1FFF \<and> e < 0x1FFF"
  by (auto simp: vmpu_buffer_access_is_ok_static_def static_region_holds_def example_sau_def sau_consts upt_rec vmpu_region_is_ns_def value_in_range_def)

theorem vmpu_buffer_access_is_ok_sound_witness:
  "\<exists>lo hi. vmpu_buffer_access_is_ok example_build example_sau 0 0x100 16 = Inr True \<and> ns_range example_sau 0 lo hi \<and> lo \<le> 0x10F \<and> 0x10F < hi"
proof -
  have ok: "vmpu_buffer_access_is_ok example_build example_sau 0 0x100 16 = Inr True"
    by (simp add: vmpu_buffer_access_is_ok_def UVISOR_GET_NS_ALIAS_def example_build_def example_sau_static)
  have "UVISOR_GET_NS_ALIAS (SECURE_ALIAS_OFFSET example_build) 0x100 = 0x100" by (simp add: UVISOR_GET_NS_ALIAS_def example_build_def)
  then obtain lo hi where "ns_range example_sau 0 lo hi" "\<forall>k < unat (16 :: u32). lo \<le> 0x100 + of_nat k \<and> 0x100 + of_nat k < hi"
    using vmpu_buffer_access_is_ok_sound [OF ok] by auto
  moreover from this(2) have "lo \<le> 0x10F \<and> 0x10F < hi" by (auto dest!: spec [of _ 15])
  ultimately show ?thesis using ok by blast
qed

text \<open>
  The static regions are searched before it is checked that the buffer does not wrap around: a buffer of almost 4 GB that starts in a static
  region and ends just before its start is accepted, although almost none of it is open.
\<close>

theorem vmpu_buffer_access_is_ok_accepts_wrap:
  "vmpu_buffer_access_is_ok example_build example_sau 1 0x100 0xFFFFFFF0 = Inr True \<and> \<not> (\<exists>lo hi. ns_range example_sau 1 lo hi \<and> lo \<le> 0x20000000 \<and> 0x20000000 < hi)"
proof
  show "vmpu_buffer_access_is_ok example_build example_sau 1 0x100 0xFFFFFFF0 = Inr True"
    by (simp add: vmpu_buffer_access_is_ok_def UVISOR_GET_NS_ALIAS_def example_build_def example_sau_static)
  have "slot = 0 \<or> slot = 1 \<or> slot = 2 \<or> slot = 3" if "slot < 4" for slot :: nat using that by linarith
  moreover have "sau_regions_of example_sau 1 = []" "sau_regions_of example_sau 0 = []" by (simp_all add: sau_regions_of_def example_sau_def)
  ultimately show "\<not> (\<exists>lo hi. ns_range example_sau 1 lo hi \<and> lo \<le> 0x20000000 \<and> 0x20000000 < hi)"
    by (force simp: ns_range_def vmpu_region_is_ns_def sau_consts example_sau_def)
qed

text \<open>
  When no slot has a lower priority, the next slot is taken, even one with the highest priority: pushing an ordinary region evicts the stack of
  the box, where the comment in the source excludes it.
\<close>

theorem vmpu_mpu_push_v8m_evicts_pinned:
  "\<exists>st. vmpu_mpu_push_v8m example_sau \<lparr>region_start = 0x20004000, region_end = 0x20004020, region_config = 1, region_acl = 0\<rparr> 3 = Inr (True, st) \<and>
    sau_priority example_sau ! 5 = 255 \<and> sau_rbar example_sau ! 5 = 0x20001000 \<and> sau_rbar st ! 5 = 0x20004000"
proof -
  have sizes: "ARMv8M_SAU_REGIONS_MAX = 8" "ARMv8M_SAU_REGIONS_STATIC = 4"
    "unat ARMv8M_SAU_REGIONS = Suc (Suc (Suc (Suc (Suc (Suc (Suc (Suc 0)))))))" by (simp_all add: sau_consts)
  show ?thesis by (simp add: vmpu_mpu_push_v8m_def example_sau_def sizes next_slot_def vmpu_sau_add_region_def write_SAU_def)
qed

end
