(* ===== verification/Kinetis_Aips.thy ===== *)
theory Kinetis_Aips
  imports Vmpu_Base
begin

text \<open>
  The peripheral bridges of the Kinetis port, \<^verbatim>\<open>core/vmpu/src/mpu_kinetis/vmpu_kinetis_aips.c\<close>: which box may use which peripheral slot of 4 kB, and the
  switch of the access control registers between boxes.
\<close>

unbundle bit_operations_syntax

section \<open>State\<close>

definition AIPS0_BASE :: u32 where "AIPS0_BASE = 0x40000000"
definition AIPS1_BASE :: u32 where "AIPS1_BASE = 0x40080000"
definition AIPSx_SLOT_SIZE :: u32 where "AIPSx_SLOT_SIZE = 0x1000"
definition AIPSx_SLOT_MAX :: nat where "AIPSx_SLOT_MAX = 0xFE"
definition AIPSx_DWORDS :: nat where "AIPSx_DWORDS = (AIPSx_SLOT_MAX + 31) div 32"
definition PACRx_DEFAULT_MASK :: u32 where "PACRx_DEFAULT_MASK = 0x44444444"

lemmas aips_consts = AIPS0_BASE_def AIPS1_BASE_def AIPSx_SLOT_SIZE_def AIPSx_SLOT_MAX_def AIPSx_DWORDS_def PACRx_DEFAULT_MASK_def

definition UVISOR_TACLDEF_PERIPH :: u32 where
  "UVISOR_TACLDEF_PERIPH = UVISOR_TACL_PERIPHERAL OR UVISOR_TACL_UREAD OR UVISOR_TACL_UWRITE OR UVISOR_TACL_SREAD OR UVISOR_TACL_SWRITE OR UVISOR_TACL_SIZE_ROUND_UP"

text \<open>The bit maps of the slots per box, of all used and of all exclusive slots, and the registers by address.\<close>

record aips_state =
  g_aipsx_box :: "u32 list list"
  g_aipsx_all :: "u32 list"
  g_aipsx_exc :: "u32 list"
  PACR :: "u32 \<Rightarrow> u32"

section \<open>Adding peripherals\<close>

text \<open>\<open>map[i] |= t\<close>.\<close>

definition or_word :: "u32 list \<Rightarrow> nat \<Rightarrow> u32 \<Rightarrow> u32 list res" where
  "or_word ws i t = bind_res (arr_get ws i) (\<lambda>w. arr_set ws i (w OR t))"

primrec or_boxes :: "nat list \<Rightarrow> u32 list list \<Rightarrow> nat \<Rightarrow> u32 \<Rightarrow> u32 list list res" where
  "or_boxes [] boxes i t = Inr boxes"
| "or_boxes (b # bs) boxes i t =
     bind_res (arr_get boxes b) (\<lambda>ws.
     bind_res (or_word ws i t) (\<lambda>ws.
     or_boxes bs (boxes[b := ws]) i t))"

text \<open>One round of the loop; the result is \<open>None\<close> when the slot is taken, the error \<open>-7\<close>.\<close>

definition aips_claim :: "u8 \<Rightarrow> u8 \<Rightarrow> u32 \<Rightarrow> u8 \<Rightarrow> aips_state \<Rightarrow> aips_state option res" where
  "aips_claim box_count box_id acl aips_slot st =
     (let i = unat aips_slot div 32; t = push_bit (unat aips_slot mod 32) 1 in
      bind_res (arr_get (g_aipsx_exc st) i) (\<lambda>exc.
      bind_res (arr_get (g_aipsx_all st) i) (\<lambda>all_slots.
      if exc AND t \<noteq> 0 \<or> all_slots AND t \<noteq> 0 \<and> acl AND UVISOR_TACL_SHARED = 0 then Inr None
      else
        bind_res (or_word (g_aipsx_all st) i t) (\<lambda>all_map.
        bind_res (or_boxes (if box_id \<noteq> 0 then [unat box_id] else [0..<unat box_count]) (g_aipsx_box st) i t) (\<lambda>boxes.
        bind_res (if acl AND UVISOR_TACL_SHARED = 0 then or_word (g_aipsx_exc st) i t else Inr (g_aipsx_exc st)) (\<lambda>exc_map.
        Inr (Some (st\<lparr>g_aipsx_all := all_map, g_aipsx_box := boxes, g_aipsx_exc := exc_map\<rparr>))))))))"

text \<open>
  \<open>while(slot_count--)\<close>, for a count that is not negative; the slot wraps around as an 8 bit number. The flag says whether the loop came to its end.
\<close>

primrec aips_claims :: "nat \<Rightarrow> u8 \<Rightarrow> u8 \<Rightarrow> u32 \<Rightarrow> u8 \<Rightarrow> aips_state \<Rightarrow> (bool \<times> aips_state) res" where
  "aips_claims 0 box_count box_id acl aips_slot st = Inr (True, st)"
| "aips_claims (Suc n) box_count box_id acl aips_slot st =
     bind_res (aips_claim box_count box_id acl aips_slot st) (\<lambda>claimed.
     case claimed of
       None \<Rightarrow> Inr (False, st)
     | Some st \<Rightarrow> aips_claims n box_count box_id acl (aips_slot + 1) st)"

text \<open>
  A negative count is never 0 again. When 256 rounds have passed, every slot was claimed and none was taken, so that the following rounds
  find the same and the loop does not end.
\<close>

definition aips_claim_loop :: "int \<Rightarrow> u8 \<Rightarrow> u8 \<Rightarrow> u32 \<Rightarrow> u8 \<Rightarrow> aips_state \<Rightarrow> (bool \<times> aips_state) res" where
  "aips_claim_loop slot_count box_count box_id acl aips_slot st =
     (if slot_count \<ge> 0 then aips_claims (nat slot_count) box_count box_id acl aips_slot st
      else
        bind_res (aips_claims 256 box_count box_id acl aips_slot st) (\<lambda>(ended, st).
        if ended then Inl Diverge else Inr (False, st)))"

definition vmpu_aips_add :: "u8 \<Rightarrow> u8 \<Rightarrow> u32 \<Rightarrow> u32 \<Rightarrow> u32 \<Rightarrow> aips_state \<Rightarrow> (int \<times> aips_state) res" where
  "vmpu_aips_add box_count box_id start sz acl st =
     (if \<not> (start \<ge> AIPS0_BASE \<and> start < AIPS0_BASE + 0xFE * AIPSx_SLOT_SIZE) then Inr (0, st)
      else if acl AND UVISOR_TACL_UWRITE = 0 then Inr (- 2, st)
      else
        let address = start - AIPS0_BASE; aips_slot = ucast (drop_bit 12 address) :: u8 in
        if unat aips_slot > AIPSx_SLOT_MAX then Inr (- 3, st)
        else
          let base = AIPS0_BASE OR push_bit 12 (ucast aips_slot) in
          if base \<noteq> start then Inr (- 4, st)
          else if sz mod AIPSx_SLOT_SIZE \<noteq> 0 \<and> acl AND UVISOR_TACL_SIZE_ROUND_UP = 0 then Inr (- 5, st)
          else
            let slot_count = int (unat (ucast (drop_bit 12 (base + sz + 4095)) :: u8)) in
            if slot_count > int AIPSx_SLOT_MAX then Inr (- 6, st)
            else
              bind_res (aips_claim_loop (slot_count - int (unat aips_slot)) box_count box_id acl aips_slot st) (\<lambda>(ended, st).
              if ended then Inr (1, st) else Inr (- 7, st)))"

section \<open>Looking up an access\<close>

definition vmpu_fault_find_acl_aips :: "aips_state \<Rightarrow> u8 \<Rightarrow> u32 \<Rightarrow> u32 \<Rightarrow> u32 res" where
  "vmpu_fault_find_acl_aips st active fault_addr sz =
     (let aips_slot = drop_bit 12 (fault_addr - AIPS0_BASE) in
      if unat aips_slot > AIPSx_SLOT_MAX then Inr 0
      else
        let base = AIPS0_BASE OR push_bit 12 aips_slot in
        if sz > 4 \<or> fault_addr + sz > base + AIPSx_SLOT_SIZE then Inr 0
        else
          bind_res (arr_get (g_aipsx_box st) (unat active)) (\<lambda>dst_acl.
          bind_res (arr_get dst_acl (unat aips_slot div 32)) (\<lambda>w.
          if w AND push_bit (unat aips_slot mod 32) 1 \<noteq> 0 then Inr UVISOR_TACLDEF_PERIPH else Inr 0)))"

section \<open>Switching boxes\<close>

text \<open>The inner loop over 8 peripherals: the value and the rest of \<open>dst_acl\<close>.\<close>

primrec pacr_loop :: "nat \<Rightarrow> u32 \<Rightarrow> u32 \<Rightarrow> u32 \<times> u32" where
  "pacr_loop 0 pacr dst_acl = (pacr, dst_acl)"
| "pacr_loop (Suc k) pacr dst_acl = pacr_loop k (push_bit 4 pacr OR push_bit 2 (dst_acl AND 1)) (drop_bit 1 dst_acl)"

text \<open>The loop over 4 consecutive registers, of which \<open>j\<close> are left.\<close>

primrec pacr_word_loop :: "nat \<Rightarrow> u32 \<Rightarrow> u32 \<Rightarrow> u32 \<Rightarrow> (u32 \<Rightarrow> u32) \<Rightarrow> u32 \<times> (u32 \<Rightarrow> u32)" where
  "pacr_word_loop 0 mod_acl dst_acl ppacr regs = (ppacr, regs)"
| "pacr_word_loop (Suc j) mod_acl dst_acl ppacr regs =
     (let (dst_acl, regs) =
        (if (ucast mod_acl :: u8) = 0 then (drop_bit 8 dst_acl, regs)
         else let (pacr, dst_acl) = pacr_loop 8 0 dst_acl in (dst_acl, regs(ppacr := pacr XOR PACRx_DEFAULT_MASK)))
      in pacr_word_loop j (drop_bit 8 mod_acl) dst_acl (ppacr + 4) regs)"

text \<open>One round for the word \<open>i\<close> of the bit maps; a register is 4 bytes, so \<open>ppacr += 4\<close> adds 16 to the address.\<close>

definition aips_switch_word :: "u8 \<Rightarrow> u8 \<Rightarrow> u32 list \<Rightarrow> u32 list \<Rightarrow> nat \<Rightarrow> u32 \<times> (u32 \<Rightarrow> u32) \<Rightarrow> u32 \<times> (u32 \<Rightarrow> u32)" where
  "aips_switch_word src_box dst_box src_map dst_map i = (\<lambda>(ppacr, regs).
     let dst_acl = dst_map ! i; src_acl = src_map ! i;
         ppacr = (if i = 1 \<or> i = 5 then ppacr + 16 else if i = 4 then AIPS1_BASE + 0x20 else ppacr);
         mod_acl = (if src_box = dst_box then 0xFFFFFFFF else src_acl XOR dst_acl)
     in if mod_acl = 0 then (ppacr + 16, regs) else pacr_word_loop 4 mod_acl dst_acl ppacr regs)"

definition vmpu_aips_switch :: "u8 \<Rightarrow> u8 \<Rightarrow> aips_state \<Rightarrow> aips_state res" where
  "vmpu_aips_switch src_box dst_box st =
     bind_res (arr_get (g_aipsx_box st) (unat src_box)) (\<lambda>src_map.
     bind_res (arr_get (g_aipsx_box st) (unat dst_box)) (\<lambda>dst_map.
     if length src_map < AIPSx_DWORDS \<or> length dst_map < AIPSx_DWORDS then Inl Oob
     else Inr (st\<lparr>PACR := snd (fold (aips_switch_word src_box dst_box src_map dst_map) [0..<AIPSx_DWORDS] (AIPS0_BASE + 0x20, PACR st))\<rparr>)))"

section \<open>The registers after a switch\<close>

text \<open>The value of a register for the 8 peripherals in the lowest byte of a bit map.\<close>

definition pacr_value :: "u32 \<Rightarrow> u32" where
  "pacr_value w = fst (pacr_loop 8 0 w) XOR PACRx_DEFAULT_MASK"

lemma pacr_loop_rest: "snd (pacr_loop n pacr w) = drop_bit n w"
  by (induction n arbitrary: pacr w) (simp_all add: drop_bit_drop_bit)

lemma pacr_loop_bit:
  assumes "n \<le> 8" "m < 32"
  shows "bit (fst (pacr_loop n pacr w)) m \<longleftrightarrow> (if m < 4 * n then m mod 4 = 2 \<and> bit w (n - 1 - m div 4) else bit pacr (m - 4 * n))"
  using assms(1)
proof (induction n arbitrary: pacr w)
  case (Suc n)
  let ?p = "push_bit 4 pacr OR push_bit 2 (w AND 1)"
  have IH: "bit (fst (pacr_loop (Suc n) pacr w)) m \<longleftrightarrow>
      (if m < 4 * n then m mod 4 = 2 \<and> bit (drop_bit 1 w) (n - 1 - m div 4) else bit ?p (m - 4 * n))"
    using Suc.IH [of ?p "drop_bit 1 w"] Suc.prems by simp
  consider "m < 4 * n" | "4 * n \<le> m" "m < 4 * Suc n" | "4 * Suc n \<le> m" by linarith
  then show ?case
  proof cases
    case 1
    then have "m div 4 < n" by (simp add: less_mult_imp_div_less mult.commute)
    then have "Suc (n - 1 - m div 4) = n - m div 4" by simp
    then show ?thesis using 1 IH by (simp add: bit_drop_bit_eq)
  next
    case 2
    then obtain d where d: "m = 4 * n + d" "d < 4" using le_Suc_ex by (metis add_less_cancel_left mult_Suc_right add.commute)
    then have "m div 4 = n" "m mod 4 = d" by simp_all
    moreover have "d = 0 \<or> d = 1 \<or> d = 2 \<or> d = 3" using d(2) by linarith
    then have "bit ?p d \<longleftrightarrow> d = 2 \<and> bit w 0" by (elim disjE) (simp_all add: bit_simps bit_iff_odd [of "4 :: u32"] flip: One_nat_def)
    ultimately show ?thesis using 2 IH d by simp
  next
    case 3
    then obtain e where e: "m = 4 * Suc n + e" using le_Suc_ex by blast
    then have "m - 4 * n = 4 + e" "m - 4 * Suc n = e" "4 + e < 32" using assms(2) by simp_all
    moreover from this(3) have "bit ?p (4 + e) = bit pacr e" by (simp add: bit_or_iff bit_push_bit_iff bit_and_iff bit_1_iff del: push_bit_and)
    ultimately show ?thesis using 3 IH by simp
  qed
qed simp

text \<open>Bit 2 of the field of a peripheral protects it from unprivileged accesses.\<close>

lemma pacr_value_bit:
  assumes "k < 8"
  shows "bit (pacr_value w) (4 * (7 - k) + 2) \<longleftrightarrow> \<not> bit w k"
proof -
  have m: "4 * (7 - k) + 2 < 32" "(4 * (7 - k) + 2) div 4 = 7 - k" "(4 * (7 - k) + 2) mod 4 = 2"
    using assms mod_mult_self1 [of 2 "7 - k" 4] div_mult_self1 [of 4 2 "7 - k"] by (simp_all add: add.commute mult.commute)
  have "bit (fst (pacr_loop 8 0 w)) (4 * (7 - k) + 2) = bit w k" using pacr_loop_bit [of 8 "4 * (7 - k) + 2" 0 w] assms m by simp
  moreover have "bit PACRx_DEFAULT_MASK (4 * j + 2)" if "j < 8" for j
  proof -
    have "j = 0 \<or> j = 1 \<or> j = 2 \<or> j = 3 \<or> j = 4 \<or> j = 5 \<or> j = 6 \<or> j = 7" using that by linarith
    then show ?thesis by (auto simp: PACRx_DEFAULT_MASK_def bit_iff_odd)
  qed
  ultimately show ?thesis using assms by (simp add: pacr_value_def bit_xor_iff)
qed

lemma pacr_value_cong:
  assumes "(ucast w :: u8) = ucast w'"
  shows "pacr_value w = pacr_value w'"
proof -
  have w: "bit w k = bit w' k" if "k < 8" for k
    using arg_cong [OF assms, of "\<lambda>x. bit x k"] that by (simp add: bit_ucast_iff)
  have "bit (fst (pacr_loop 8 0 w)) m = bit (fst (pacr_loop 8 0 w')) m" if "m < 32" for m
    using pacr_loop_bit [OF order.refl that, of 0] w [of "8 - 1 - m div 4"] that by simp
  then have "fst (pacr_loop 8 0 w) = fst (pacr_loop 8 0 w')" by (intro bit_word_eqI) simp
  then show ?thesis by (simp add: pacr_value_def)
qed

text \<open>The byte \<open>j\<close> of a word, and the loop over the four registers of a word of the bit map.\<close>

abbreviation byte_of :: "u32 \<Rightarrow> nat \<Rightarrow> u8" where
  "byte_of w j \<equiv> ucast (drop_bit (8 * j) w)"

lemma pacr_word_loop_spec:
  "pacr_word_loop n mod_acl dst_acl ppacr regs = (ppacr', regs') \<Longrightarrow> n \<le> 4 \<Longrightarrow>
    ppacr' = ppacr + 4 * of_nat n \<and>
    (\<forall>j < n. regs' (ppacr + 4 * of_nat j) = (if byte_of mod_acl j = 0 then regs (ppacr + 4 * of_nat j) else pacr_value (drop_bit (8 * j) dst_acl))) \<and>
    (\<forall>a. (\<forall>j < n. a \<noteq> ppacr + 4 * of_nat j) \<longrightarrow> regs' a = regs a)"
proof (induction n arbitrary: mod_acl dst_acl ppacr regs)
  case (Suc n)
  define regs1 where "regs1 = (if (ucast mod_acl :: u8) = 0 then regs else regs(ppacr := pacr_value dst_acl))"
  have loop: "pacr_word_loop n (drop_bit 8 mod_acl) (drop_bit 8 dst_acl) (ppacr + 4) regs1 = (ppacr', regs')"
    using Suc.prems(1) pacr_loop_rest [of 8 0 dst_acl]
    by (simp add: regs1_def pacr_value_def Let_def split: if_splits prod.splits)
  have shift: "ppacr + 4 + 4 * of_nat j = ppacr + 4 * of_nat (Suc j)" for j :: nat by simp
  note IH = Suc.IH [OF loop, unfolded shift drop_bit_drop_bit]
  have apart: "ppacr + 4 * of_nat (Suc j) \<noteq> ppacr" if "j < 4" for j :: nat
  proof -
    have "j = 0 \<or> j = 1 \<or> j = 2 \<or> j = 3" using that by linarith
    then show ?thesis by auto
  qed
  have idx: "8 + 8 * j = 8 * Suc j" "8 * j + 8 = 8 * Suc j" for j :: nat by simp_all
  have zero: "regs' ppacr = regs1 ppacr" using IH apart Suc.prems(2) by fastforce
  show ?case
  proof (intro conjI allI impI)
    show "ppacr' = ppacr + 4 * of_nat (Suc n)" using IH Suc.prems(2) by simp
    fix j assume "j < Suc n"
    show "regs' (ppacr + 4 * of_nat j) = (if byte_of mod_acl j = 0 then regs (ppacr + 4 * of_nat j) else pacr_value (drop_bit (8 * j) dst_acl))"
    proof (cases j)
      case 0
      then show ?thesis using zero by (simp add: regs1_def)
    next
      case (Suc i)
      then show ?thesis using IH apart [of i] \<open>j < Suc n\<close> \<open>Suc n \<le> 4\<close> by (simp add: regs1_def idx del: of_nat_Suc mult_Suc_right)
    qed
  next
    fix a assume a: "\<forall>j < Suc n. a \<noteq> ppacr + 4 * of_nat j"
    have "\<forall>j < n. a \<noteq> ppacr + 4 * of_nat (Suc j)" "a \<noteq> ppacr" using a by (auto dest: spec [of _ 0])
    then show "regs' a = regs a" using IH Suc.prems(2) by (simp add: regs1_def)
  qed
qed simp

text \<open>The address of the first of the four registers of word \<open>i\<close>: \<open>PACRA\<close>, \<open>PACRE\<close>, \<open>PACRI\<close> and \<open>PACRM\<close> of each bridge.\<close>

definition pacr_base :: "nat \<Rightarrow> u32" where
  "pacr_base i = (if i < 4 then AIPS0_BASE else AIPS1_BASE) + [0x20, 0x40, 0x50, 0x60] ! (i mod 4)"

definition pacr_at :: "nat \<Rightarrow> nat \<Rightarrow> u32" where
  "pacr_at i j = pacr_base i + 4 * of_nat j"

lemma less_8_cases: "i < 8 \<longleftrightarrow> i = 0 \<or> i = 1 \<or> i = 2 \<or> i = 3 \<or> i = 4 \<or> i = 5 \<or> i = 6 \<or> i = (7 :: nat)"
  by linarith

lemma less_4_cases: "i < 4 \<longleftrightarrow> i = 0 \<or> i = 1 \<or> i = 2 \<or> i = (3 :: nat)"
  by linarith

lemma pacr_bases:
  "pacr_base 0 = 0x40000020" "pacr_base 1 = 0x40000040" "pacr_base 2 = 0x40000050" "pacr_base 3 = 0x40000060"
  "pacr_base 4 = 0x40080020" "pacr_base 5 = 0x40080040" "pacr_base 6 = 0x40080050" "pacr_base 7 = 0x40080060" "pacr_base (Suc 0) = 0x40000040"
  by (simp_all add: pacr_base_def aips_consts)

lemma pacr_at_apart:
  assumes "i < 8" "i' < 8" "j < 4" "j' < 4" "i \<noteq> i'"
  shows "pacr_at i j \<noteq> pacr_at i' j'"
proof -
  have block: "drop_bit 4 (pacr_at i j) = drop_bit 4 (pacr_base i)" if "i < 8" "j < 4" for i j
  proof -
    have "pacr_base i \<in> {0x40000020, 0x40000040, 0x40000050, 0x40000060, 0x40080020, 0x40080040, 0x40080050, 0x40080060}"
      using \<open>i < 8\<close> unfolding less_8_cases by (elim disjE) (simp_all add: pacr_bases)
    moreover have "(4 * of_nat j :: u32) \<in> {0, 4, 8, 12}" using \<open>j < 4\<close> unfolding less_4_cases by auto
    ultimately show ?thesis unfolding pacr_at_def by (elim insertE emptyE) simp_all
  qed
  have "distinct (map (\<lambda>i. drop_bit 4 (pacr_base i)) [0, 1, 2, 3, 4, 5, 6, 7])" by (simp add: pacr_bases)
  then have "inj_on (\<lambda>i. drop_bit 4 (pacr_base i)) {..<8}"
    unfolding distinct_map by (rule conjunct2 [THEN inj_on_subset]) (auto simp: less_8_cases)
  then have "drop_bit 4 (pacr_base i) \<noteq> drop_bit 4 (pacr_base i')"
    using assms(1,2,5) unfolding inj_on_def by auto
  then show ?thesis using block [OF assms(1,3)] block [OF assms(2,4)] by metis
qed

text \<open>The registers of the first \<open>n\<close> words allow what the bit map says.\<close>

definition pacr_shows :: "u32 list \<Rightarrow> nat \<Rightarrow> (u32 \<Rightarrow> u32) \<Rightarrow> bool" where
  "pacr_shows ws n regs \<longleftrightarrow> (\<forall>i < n. \<forall>j < 4. regs (pacr_at i j) = pacr_value (drop_bit (8 * j) (ws ! i)))"

lemma switch_word_pointer:
  assumes "n < 8" "ppacr = (if n = 0 then AIPS0_BASE + 0x20 else pacr_base (n - 1) + 16)"
  shows "(if n = 1 \<or> n = 5 then ppacr + 16 else if n = 4 then AIPS1_BASE + 0x20 else ppacr) = pacr_base n"
  using assms unfolding less_8_cases by (elim disjE) (simp_all add: pacr_bases aips_consts)

lemma byte_xor: "byte_of (w XOR w') j = 0 \<Longrightarrow> byte_of w j = byte_of w' j"
proof -
  assume "byte_of (w XOR w') j = 0"
  then have "byte_of w j XOR byte_of w' j = 0" by (simp add: drop_bit_xor unsigned_xor_eq)
  then have "byte_of w j XOR (byte_of w j XOR byte_of w' j) = byte_of w j" by simp
  then show ?thesis by (simp add: xor.assoc [symmetric])
qed

lemma byte_ones: "j < 4 \<Longrightarrow> byte_of 0xFFFFFFFF j \<noteq> 0"
proof -
  assume "j < 4"
  moreover have "(0xFFFFFFFF :: u32) = - 1" by simp
  ultimately have "bit (byte_of 0xFFFFFFFF j) 0" by (simp only: bit_ucast_iff bit_drop_bit_eq bit_minus_1_iff) simp
  then show ?thesis by auto
qed

lemma aips_switch_word_spec:
  assumes n: "n < 8" "ppacr = (if n = 0 then AIPS0_BASE + 0x20 else pacr_base (n - 1) + 16)"
    and regs: "src \<noteq> dst \<Longrightarrow> j < 4 \<Longrightarrow> regs (pacr_at n j) = pacr_value (drop_bit (8 * j) (src_map ! n))"
    and run: "aips_switch_word src dst src_map dst_map n (ppacr, regs) = (ppacr', regs')" and j: "j < 4"
  shows "ppacr' = pacr_base n + 16" "regs' (pacr_at n j) = pacr_value (drop_bit (8 * j) (dst_map ! n))"
    "(\<forall>j < 4. a \<noteq> pacr_at n j) \<Longrightarrow> regs' a = regs a"
proof -
  define m where "m = (if src = dst then 0xFFFFFFFF else src_map ! n XOR dst_map ! n)"
  have run': "(if m = 0 then (pacr_base n + 16, regs) else pacr_word_loop 4 m (dst_map ! n) (pacr_base n) regs) = (ppacr', regs')"
    using run unfolding aips_switch_word_def prod.case Let_def switch_word_pointer [OF n] m_def .
  have keep: "regs (pacr_at n j) = pacr_value (drop_bit (8 * j) (dst_map ! n))" if "byte_of m j = 0"
  proof -
    have "src \<noteq> dst"
    proof
      assume "src = dst"
      then have "m = 0xFFFFFFFF" by (simp only: m_def if_True simp_thms)
      then show False using that byte_ones [OF j] by (simp only: simp_thms)
    qed
    then show ?thesis using regs [OF _ j] pacr_value_cong [of "drop_bit (8 * j) (src_map ! n)" "drop_bit (8 * j) (dst_map ! n)"]
        byte_xor [where w = "src_map ! n" and w' = "dst_map ! n" and j = j] that by (simp add: m_def)
  qed
  have all: "ppacr' = pacr_base n + 16 \<and> regs' (pacr_at n j) = (if byte_of m j = 0 then regs (pacr_at n j) else pacr_value (drop_bit (8 * j) (dst_map ! n))) \<and>
      ((\<forall>j < 4. a \<noteq> pacr_at n j) \<longrightarrow> regs' a = regs a)"
  proof (cases "m = 0")
    case False
    then show ?thesis
      using pacr_word_loop_spec [of 4 m "dst_map ! n" "pacr_base n" regs ppacr' regs'] run' j by (simp add: pacr_at_def)
  qed (use run' in auto)
  then show "ppacr' = pacr_base n + 16" "regs' (pacr_at n j) = pacr_value (drop_bit (8 * j) (dst_map ! n))"
    "(\<forall>j < 4. a \<noteq> pacr_at n j) \<Longrightarrow> regs' a = regs a"
    using keep by auto
qed

lemma aips_switch_fold:
  assumes "src \<noteq> dst \<Longrightarrow> pacr_shows src_map 8 regs" "n \<le> 8"
  shows "\<exists>ppacr' regs'. fold (aips_switch_word src dst src_map dst_map) [0..<n] (AIPS0_BASE + 0x20, regs) = (ppacr', regs') \<and>
    ppacr' = (if n = 0 then AIPS0_BASE + 0x20 else pacr_base (n - 1) + 16) \<and> pacr_shows dst_map n regs' \<and>
    (\<forall>a. (\<forall>i < n. \<forall>j < 4. a \<noteq> pacr_at i j) \<longrightarrow> regs' a = regs a)"
  using assms(2)
proof (induction n)
  case (Suc n)
  then obtain p r where pr: "fold (aips_switch_word src dst src_map dst_map) [0..<n] (AIPS0_BASE + 0x20, regs) = (p, r)"
    and p: "p = (if n = 0 then AIPS0_BASE + 0x20 else pacr_base (n - 1) + 16)" and r: "pacr_shows dst_map n r"
    and same: "\<forall>a. (\<forall>i < n. \<forall>j < 4. a \<noteq> pacr_at i j) \<longrightarrow> r a = regs a"
    by auto
  obtain p' r' where step: "aips_switch_word src dst src_map dst_map n (p, r) = (p', r')" by (cases "aips_switch_word src dst src_map dst_map n (p, r)")
  have n: "n < 8" using Suc.prems by simp
  have "r (pacr_at n j) = regs (pacr_at n j)" if "j < 4" for j using same pacr_at_apart [OF n _ that] n by (auto simp: order.strict_trans)
  then have src: "r (pacr_at n j) = pacr_value (drop_bit (8 * j) (src_map ! n))" if "src \<noteq> dst" "j < 4" for j
    using assms(1) that n by (simp add: pacr_shows_def)
  note spec = aips_switch_word_spec [OF n p src step]
  have "r' (pacr_at i j) = pacr_value (drop_bit (8 * j) (dst_map ! i))" if "i < Suc n" "j < 4" for i j
  proof (cases "i = n")
    case False
    then have "r' (pacr_at i j) = r (pacr_at i j)" using that n pacr_at_apart [of i n j] by (intro spec(3) [of 0]) auto
    then show ?thesis using r that False by (simp add: pacr_shows_def)
  qed (use spec(2) that in simp)
  moreover have "r' a = regs a" if "\<forall>i < Suc n. \<forall>j < 4. a \<noteq> pacr_at i j" for a using spec(3) [of 0 a] same that by simp
  ultimately show ?case using pr step spec(1) [of 0] by (auto simp: pacr_shows_def)
qed (simp add: pacr_shows_def)

text \<open>Slot \<open>s\<close> in a bit map, and its protection in the registers.\<close>

definition slot_in :: "u32 list \<Rightarrow> nat \<Rightarrow> bool" where
  "slot_in ws s \<longleftrightarrow> bit (ws ! (s div 32)) (s mod 32)"

definition slot_protected :: "(u32 \<Rightarrow> u32) \<Rightarrow> nat \<Rightarrow> bool" where
  "slot_protected regs s \<longleftrightarrow> bit (regs (pacr_at (s div 32) (s mod 32 div 8))) (4 * (7 - s mod 8) + 2)"

definition aips_ok :: "aips_state \<Rightarrow> bool" where
  "aips_ok st \<longleftrightarrow> length (g_aipsx_box st) = UVISOR_MAX_BOXES \<and> (\<forall>b < UVISOR_MAX_BOXES. length (g_aipsx_box st ! b) = 8) \<and>
     length (g_aipsx_all st) = 8 \<and> length (g_aipsx_exc st) = 8 \<and>
     (\<forall>b < UVISOR_MAX_BOXES. \<forall>s < 256. slot_in (g_aipsx_box st ! b) s \<longrightarrow> slot_in (g_aipsx_all st) s)"

lemma pacr_shows_slots:
  assumes "pacr_shows ws 8 regs" "s < 256"
  shows "slot_protected regs s \<longleftrightarrow> \<not> slot_in ws s"
proof -
  have "s div 32 < 8" "s mod 32 div 8 < 4" using assms(2) by (simp_all add: less_mult_imp_div_less)
  then have "slot_protected regs s \<longleftrightarrow> \<not> bit (drop_bit (8 * (s mod 32 div 8)) (ws ! (s div 32))) (s mod 8)"
    using assms(1) pacr_value_bit [of "s mod 8"] by (simp add: slot_protected_def pacr_shows_def)
  moreover have "8 * (s mod 32 div 8) + s mod 8 = s mod 32"
    using mult_div_mod_eq [of 8 "s mod 32"] mod_mod_cancel [of 8 32 s] by simp
  ultimately show ?thesis by (simp add: slot_in_def bit_drop_bit_eq)
qed

lemma aips_switch_shows:
  assumes ok: "aips_ok st" and boxes: "unat src < UVISOR_MAX_BOXES" "unat dst < UVISOR_MAX_BOXES"
    and shown: "src \<noteq> dst \<Longrightarrow> pacr_shows (g_aipsx_box st ! unat src) 8 (PACR st)"
  shows "\<exists>regs. vmpu_aips_switch src dst st = Inr (st\<lparr>PACR := regs\<rparr>) \<and> pacr_shows (g_aipsx_box st ! unat dst) 8 regs \<and>
    (\<forall>s < 256. slot_protected regs s \<longleftrightarrow> \<not> slot_in (g_aipsx_box st ! unat dst) s) \<and>
    (\<forall>a. (\<forall>i < 8. \<forall>j < 4. a \<noteq> pacr_at i j) \<longrightarrow> regs a = PACR st a)"
proof -
  have words: "AIPSx_DWORDS = 8" by (simp add: aips_consts)
  obtain p regs where "fold (aips_switch_word src dst (g_aipsx_box st ! unat src) (g_aipsx_box st ! unat dst)) [0..<8] (AIPS0_BASE + 0x20, PACR st) = (p, regs)"
      "pacr_shows (g_aipsx_box st ! unat dst) 8 regs" "\<forall>a. (\<forall>i < 8. \<forall>j < 4. a \<noteq> pacr_at i j) \<longrightarrow> regs a = PACR st a"
    using aips_switch_fold [where src = src and dst = dst and n = 8, OF shown order.refl] by blast
  moreover from this(1) have "vmpu_aips_switch src dst st = Inr (st\<lparr>PACR := regs\<rparr>)"
    using ok boxes by (simp add: vmpu_aips_switch_def words aips_ok_def)
  ultimately show ?thesis using pacr_shows_slots by blast
qed

text \<open>
  C28: The incremental update of the peripheral access registers is equivalent to writing all of them. When the registers show the bit map of the box that is switched
  from (or the switch is from a box to itself, which initialises them), they show the bit map of the other box afterwards: a peripheral slot is open to
  unprivileged code exactly when the box has it. No other register and no bit map changes.
\<close>

theorem vmpu_aips_switch_correct:
  assumes ok: "aips_ok st" and boxes: "unat src < UVISOR_MAX_BOXES" "unat dst < UVISOR_MAX_BOXES"
    and shown: "src \<noteq> dst \<Longrightarrow> pacr_shows (g_aipsx_box st ! unat src) 8 (PACR st)"
  shows "\<exists>regs. vmpu_aips_switch src dst st = Inr (st\<lparr>PACR := regs\<rparr>) \<and> pacr_shows (g_aipsx_box st ! unat dst) 8 regs \<and>
    (\<forall>s < 256. slot_protected regs s \<longleftrightarrow> \<not> slot_in (g_aipsx_box st ! unat dst) s) \<and>
    (\<forall>a. (\<forall>i < 8. \<forall>j < 4. a \<noteq> pacr_at i j) \<longrightarrow> regs a = PACR st a)"
  using assms by (rule aips_switch_shows)

section \<open>Exclusive peripherals\<close>

lemma or_word_spec:
  assumes "s0 < 256" "length ws = 8"
  shows "\<exists>ws'. or_word ws (s0 div 32) (push_bit (s0 mod 32) 1) = Inr ws' \<and> length ws' = 8 \<and>
    (\<forall>s < 256. slot_in ws' s \<longleftrightarrow> slot_in ws s \<or> s = s0)"
proof -
  have i: "s0 div 32 < length ws" using assms by (simp add: less_mult_imp_div_less)
  have "s = s0" if "s div 32 = s0 div 32" "s mod 32 = s0 mod 32" for s using that by (metis div_mult_mod_eq)
  moreover have "bit (push_bit (s0 mod 32) 1 :: u32) k \<longleftrightarrow> k = s0 mod 32" for k by (auto simp: bit_simps)
  ultimately show ?thesis using i assms by (auto simp: or_word_def slot_in_def nth_list_update bit_or_iff)
qed

lemma or_boxes_spec:
  assumes "s0 < 256" "\<forall>b \<in> set bs. b < length boxes" "\<forall>b < length boxes. length (boxes ! b) = 8"
  shows "\<exists>boxes'. or_boxes bs boxes (s0 div 32) (push_bit (s0 mod 32) 1) = Inr boxes' \<and> length boxes' = length boxes \<and> (\<forall>b < length boxes. length (boxes' ! b) = 8) \<and>
    (\<forall>b < length boxes. \<forall>s < 256. slot_in (boxes' ! b) s \<longleftrightarrow> slot_in (boxes ! b) s \<or> s = s0 \<and> b \<in> set bs)"
  using assms(2,3)
proof (induction bs arbitrary: boxes)
  case (Cons b bs)
  obtain ws where ws: "or_word (boxes ! b) (s0 div 32) (push_bit (s0 mod 32) 1) = Inr ws" "length ws = 8"
      "\<forall>s < 256. slot_in ws s \<longleftrightarrow> slot_in (boxes ! b) s \<or> s = s0"
    using or_word_spec [OF assms(1), of "boxes ! b"] Cons.prems by auto
  obtain boxes' where "or_boxes bs (boxes[b := ws]) (s0 div 32) (push_bit (s0 mod 32) 1) = Inr boxes'" "length boxes' = length boxes"
      "\<forall>c < length boxes. length (boxes' ! c) = 8"
      "\<forall>c < length boxes. \<forall>s < 256. slot_in (boxes' ! c) s \<longleftrightarrow> slot_in (boxes[b := ws] ! c) s \<or> s = s0 \<and> c \<in> set bs"
  proof -
    have "\<forall>c < length (boxes[b := ws]). length (boxes[b := ws] ! c) = 8" "\<forall>c \<in> set bs. c < length (boxes[b := ws])"
      using Cons.prems ws(2) by (auto simp: nth_list_update)
    then show ?thesis using Cons.IH [of "boxes[b := ws]"] that unfolding length_list_update by blast
  qed
  then show ?case using ws Cons.prems by (auto simp: nth_list_update)
qed simp

lemma and_bit: "w AND push_bit k 1 \<noteq> 0 \<longleftrightarrow> bit w k" if "k < 32" for w :: u32
  using that by (auto simp: push_bit_eq_mult and_power_2)

definition claimers :: "u8 \<Rightarrow> u8 \<Rightarrow> nat set" where
  "claimers box_count box_id = (if box_id \<noteq> 0 then {unat box_id} else {..<unat box_count})"

text \<open>One round takes a slot that is free, or used but not exclusive when the claim is shared.\<close>

lemma aips_claim_spec:
  assumes ok: "aips_ok st" and box: "unat box_id < UVISOR_MAX_BOXES" "unat box_count \<le> UVISOR_MAX_BOXES"
  shows "if slot_in (g_aipsx_exc st) (unat slot) \<or> slot_in (g_aipsx_all st) (unat slot) \<and> acl AND UVISOR_TACL_SHARED = 0
    then aips_claim box_count box_id acl slot st = Inr None
    else \<exists>st'. aips_claim box_count box_id acl slot st = Inr (Some st') \<and> aips_ok st' \<and> PACR st' = PACR st \<and>
      (\<forall>s < 256. slot_in (g_aipsx_exc st') s \<longleftrightarrow> slot_in (g_aipsx_exc st) s \<or> s = unat slot \<and> acl AND UVISOR_TACL_SHARED = 0) \<and>
      (\<forall>b < UVISOR_MAX_BOXES. \<forall>s < 256. slot_in (g_aipsx_box st' ! b) s \<longleftrightarrow> slot_in (g_aipsx_box st ! b) s \<or> s = unat slot \<and> b \<in> claimers box_count box_id)"
proof -
  let ?i = "unat slot div 32" let ?t = "push_bit (unat slot mod 32) 1 :: u32" let ?free = "acl AND UVISOR_TACL_SHARED = 0"
  let ?bs = "if box_id \<noteq> 0 then [unat box_id] else [0..<unat box_count]"
  have s0: "unat slot < 256" by (rule unat_u8_lt)
  then have i: "?i < 8" by (simp add: less_mult_imp_div_less)
  have st: "length (g_aipsx_all st) = 8" "length (g_aipsx_exc st) = 8" "length (g_aipsx_box st) = UVISOR_MAX_BOXES"
    "\<forall>b < UVISOR_MAX_BOXES. length (g_aipsx_box st ! b) = 8"
    "\<forall>b < UVISOR_MAX_BOXES. \<forall>s < 256. slot_in (g_aipsx_box st ! b) s \<longrightarrow> slot_in (g_aipsx_all st) s"
    using ok by (simp_all add: aips_ok_def)
  have taken: "(g_aipsx_exc st ! ?i) AND ?t \<noteq> 0 \<longleftrightarrow> slot_in (g_aipsx_exc st) (unat slot)" "(g_aipsx_all st ! ?i) AND ?t \<noteq> 0 \<longleftrightarrow> slot_in (g_aipsx_all st) (unat slot)"
    unfolding slot_in_def by (rule and_bit, simp)+
  obtain all' where all': "or_word (g_aipsx_all st) ?i ?t = Inr all'" "length all' = 8" "\<forall>s < 256. slot_in all' s \<longleftrightarrow> slot_in (g_aipsx_all st) s \<or> s = unat slot"
    using or_word_spec [OF s0 st(1)] by blast
  obtain exc' where exc': "(if ?free then or_word (g_aipsx_exc st) ?i ?t else Inr (g_aipsx_exc st)) = Inr exc'" "length exc' = 8"
      "\<forall>s < 256. slot_in exc' s \<longleftrightarrow> slot_in (g_aipsx_exc st) s \<or> s = unat slot \<and> ?free"
    using or_word_spec [OF s0 st(2)] st(2) by (cases ?free) auto
  have bs: "\<forall>b \<in> set ?bs. b < length (g_aipsx_box st)" "set ?bs = claimers box_count box_id" using box st(3) by (auto simp: claimers_def)
  obtain boxes' where boxes': "or_boxes ?bs (g_aipsx_box st) ?i ?t = Inr boxes'" "length boxes' = UVISOR_MAX_BOXES" "\<forall>b < UVISOR_MAX_BOXES. length (boxes' ! b) = 8"
      "\<forall>b < UVISOR_MAX_BOXES. \<forall>s < 256. slot_in (boxes' ! b) s \<longleftrightarrow> slot_in (g_aipsx_box st ! b) s \<or> s = unat slot \<and> b \<in> claimers box_count box_id"
    using or_boxes_spec [OF s0 bs(1)] st(3,4) unfolding bs(2) by auto
  have run: "aips_claim box_count box_id acl slot st = (if slot_in (g_aipsx_exc st) (unat slot) \<or> slot_in (g_aipsx_all st) (unat slot) \<and> ?free then Inr None
      else Inr (Some (st\<lparr>g_aipsx_all := all', g_aipsx_box := boxes', g_aipsx_exc := exc'\<rparr>)))"
    unfolding aips_claim_def Let_def using i st(1,2) taken all'(1) boxes'(1) exc'(1) by (simp only: arr_get_in bind_res.simps)
  moreover have "aips_ok (st\<lparr>g_aipsx_all := all', g_aipsx_box := boxes', g_aipsx_exc := exc'\<rparr>)"
    using st(5) all' boxes' exc' by (auto simp: aips_ok_def)
  ultimately show ?thesis using exc'(3) boxes'(4) by simp
qed

text \<open>Exclusive slots stay exclusive, and the same boxes have them.\<close>

definition keeps_exclusive :: "aips_state \<Rightarrow> aips_state \<Rightarrow> bool" where
  "keeps_exclusive st st' \<longleftrightarrow> (\<forall>s < 256. slot_in (g_aipsx_exc st) s \<longrightarrow>
     slot_in (g_aipsx_exc st') s \<and> (\<forall>b < UVISOR_MAX_BOXES. slot_in (g_aipsx_box st' ! b) s \<longleftrightarrow> slot_in (g_aipsx_box st ! b) s))"

lemma keeps_exclusive_refl: "keeps_exclusive st st"
  by (simp add: keeps_exclusive_def)

lemma keeps_exclusive_trans: "keeps_exclusive st st1 \<Longrightarrow> keeps_exclusive st1 st2 \<Longrightarrow> keeps_exclusive st st2"
  by (simp add: keeps_exclusive_def)

text \<open>The slot is exclusive, and exactly the given boxes have it.\<close>

definition owned_by :: "aips_state \<Rightarrow> nat set \<Rightarrow> nat \<Rightarrow> bool" where
  "owned_by st bs s \<longleftrightarrow> slot_in (g_aipsx_exc st) s \<and> (\<forall>b < UVISOR_MAX_BOXES. slot_in (g_aipsx_box st ! b) s \<longleftrightarrow> b \<in> bs)"

lemma keeps_owned: "keeps_exclusive st st' \<Longrightarrow> owned_by st bs s \<Longrightarrow> s < 256 \<Longrightarrow> owned_by st' bs s"
  by (simp add: keeps_exclusive_def owned_by_def)

lemma aips_claims_spec:
  assumes "aips_ok st" "unat box_id < UVISOR_MAX_BOXES" "unat box_count \<le> UVISOR_MAX_BOXES"
  shows "\<exists>e st'. aips_claims n box_count box_id acl slot st = Inr (e, st') \<and> aips_ok st' \<and> keeps_exclusive st st' \<and> PACR st' = PACR st \<and>
    (e \<and> acl AND UVISOR_TACL_SHARED = 0 \<longrightarrow> (\<forall>k < n. owned_by st' (claimers box_count box_id) (unat (slot + of_nat k)))) \<and>
    (acl AND UVISOR_TACL_SHARED \<noteq> 0 \<and> (\<forall>s < 256. \<not> slot_in (g_aipsx_exc st) s) \<longrightarrow> e)"
  using assms(1)
proof (induction n arbitrary: slot st)
  case 0
  then show ?case by (auto simp: keeps_exclusive_refl)
next
  case (Suc n)
  let ?free = "acl AND UVISOR_TACL_SHARED = 0" let ?C = "claimers box_count box_id"
  have s0: "unat slot < 256" by (rule unat_u8_lt)
  note claim = aips_claim_spec [OF Suc.prems assms(2,3), of slot acl]
  show ?case
  proof (cases "slot_in (g_aipsx_exc st) (unat slot) \<or> slot_in (g_aipsx_all st) (unat slot) \<and> ?free")
    case True
    then show ?thesis using claim Suc.prems s0 by (auto simp: keeps_exclusive_refl)
  next
    case False
    then obtain st1 where st1: "aips_claim box_count box_id acl slot st = Inr (Some st1)" "aips_ok st1" "PACR st1 = PACR st"
        "\<forall>s < 256. slot_in (g_aipsx_exc st1) s \<longleftrightarrow> slot_in (g_aipsx_exc st) s \<or> s = unat slot \<and> ?free"
        "\<forall>b < UVISOR_MAX_BOXES. \<forall>s < 256. slot_in (g_aipsx_box st1 ! b) s \<longleftrightarrow> slot_in (g_aipsx_box st ! b) s \<or> s = unat slot \<and> b \<in> ?C"
      using claim by auto
    have keep: "keeps_exclusive st st1" using st1(4,5) False by (auto simp: keeps_exclusive_def)
    have own: "owned_by st1 ?C (unat slot)" if ?free
      using that st1(4,5) False s0 Suc.prems by (auto simp: owned_by_def aips_ok_def)
    obtain e st' where st': "aips_claims n box_count box_id acl (slot + 1) st1 = Inr (e, st')" "aips_ok st'" "keeps_exclusive st1 st'" "PACR st' = PACR st1"
        "e \<and> ?free \<longrightarrow> (\<forall>k < n. owned_by st' ?C (unat (slot + 1 + of_nat k)))"
        "acl AND UVISOR_TACL_SHARED \<noteq> 0 \<and> (\<forall>s < 256. \<not> slot_in (g_aipsx_exc st1) s) \<longrightarrow> e"
      using Suc.IH [OF st1(2), of "slot + 1"] by blast
    have "owned_by st' ?C (unat (slot + of_nat k))" if "e" ?free "k < Suc n" for k
    proof (cases k)
      case 0
      then show ?thesis using keeps_owned [OF st'(3) own [OF that(2)] s0] by simp
    next
      case (Suc j)
      then show ?thesis using st'(5) that by (simp add: add.assoc)
    qed
    then show ?thesis using st1 st' keeps_exclusive_trans [OF keep st'(3)] by auto
  qed
qed

lemma aips_claim_loop_spec:
  assumes "aips_ok st" "unat box_id < UVISOR_MAX_BOXES" "unat box_count \<le> UVISOR_MAX_BOXES"
    "aips_claim_loop slot_count box_count box_id acl slot st = Inr (e, st')"
  shows "aips_ok st' \<and> keeps_exclusive st st' \<and>
    (e \<and> acl AND UVISOR_TACL_SHARED = 0 \<longrightarrow> (\<forall>k < nat slot_count. owned_by st' (claimers box_count box_id) (unat (slot + of_nat k))))"
  using aips_claims_spec [OF assms(1-3), of "nat slot_count" acl slot] aips_claims_spec [OF assms(1-3), of 256 acl slot] assms(4)
  by (auto simp: aips_claim_loop_def bind_res_Inr_iff split: if_splits)

lemma aips_add_spec:
  assumes ok: "aips_ok st" "unat box_id < UVISOR_MAX_BOXES" "unat box_count \<le> UVISOR_MAX_BOXES"
    and add: "vmpu_aips_add box_count box_id start sz acl st = Inr (r, st')"
  shows "aips_ok st'" "keeps_exclusive st st'"
    "r = 1 \<Longrightarrow> acl AND UVISOR_TACL_SHARED = 0 \<Longrightarrow> unat (ucast (drop_bit 12 (start - AIPS0_BASE)) :: u8) \<le> s \<Longrightarrow>
      s < unat (ucast (drop_bit 12 (start + sz + 4095)) :: u8) \<Longrightarrow> owned_by st' (claimers box_count box_id) s"
proof -
  let ?slot = "ucast (drop_bit 12 (start - AIPS0_BASE)) :: u8" let ?stop = "ucast (drop_bit 12 (start + sz + 4095)) :: u8"
  have cases: "st' = st \<and> r \<noteq> 1 \<or> (\<exists>e. aips_claim_loop (int (unat ?stop) - int (unat ?slot)) box_count box_id acl ?slot st = Inr (e, st') \<and> (r = 1 \<longrightarrow> e))"
    using add by (auto simp: vmpu_aips_add_def Let_def bind_res_Inr_iff split: if_splits)
  then show "aips_ok st'" "keeps_exclusive st st'" using ok aips_claim_loop_spec [OF ok] keeps_exclusive_refl by blast+
  assume r: "r = 1" "acl AND UVISOR_TACL_SHARED = 0" "unat ?slot \<le> s" "s < unat ?stop"
  then obtain k where k: "s = unat ?slot + k" using le_Suc_ex by blast
  have "unat (?slot + of_nat k) = s"
    using k r(4) unat_u8_lt [of ?stop] by (simp add: unat_word_ariths)
  then show "owned_by st' (claimers box_count box_id) s"
  proof -
    obtain e where loop: "aips_claim_loop (int (unat ?stop) - int (unat ?slot)) box_count box_id acl ?slot st = Inr (e, st')" "e" using cases r(1) by blast
    have "k < nat (int (unat ?stop) - int (unat ?slot))" using k r(4) by linarith
    then show ?thesis using aips_claim_loop_spec [OF ok loop(1)] loop(2) r(2) \<open>unat (?slot + of_nat k) = s\<close> by metis
  qed
qed

text \<open>Any number of further calls, for any boxes, whatever they return.\<close>

inductive aips_adds :: "aips_state \<Rightarrow> aips_state \<Rightarrow> bool" where
  no_adds: "aips_adds st st"
| more_adds: "aips_adds st st1 \<Longrightarrow> unat box_id < UVISOR_MAX_BOXES \<Longrightarrow> unat box_count \<le> UVISOR_MAX_BOXES \<Longrightarrow>
    vmpu_aips_add box_count box_id start sz acl st1 = Inr (r, st2) \<Longrightarrow> aips_adds st st2"

lemma aips_adds_keep: "aips_adds st st' \<Longrightarrow> aips_ok st \<Longrightarrow> aips_ok st' \<and> keeps_exclusive st st'"
  by (induction rule: aips_adds.induct) (auto intro: keeps_exclusive_refl keeps_exclusive_trans aips_add_spec)

text \<open>
  C20: A peripheral that a secure box has successfully claimed without sharing it belongs to that box alone: after any number of further claims by any boxes,
  successful or not, it is still in the map of that box, and in the map of no other.
\<close>

theorem vmpu_aips_add_exclusive:
  assumes "aips_ok st" "unat box_id < UVISOR_MAX_BOXES" "unat box_count \<le> UVISOR_MAX_BOXES" "box_id \<noteq> 0"
    "vmpu_aips_add box_count box_id start sz acl st = Inr (1, st1)" "acl AND UVISOR_TACL_SHARED = 0"
    "unat (ucast (drop_bit 12 (start - AIPS0_BASE)) :: u8) \<le> s" "s < unat (ucast (drop_bit 12 (start + sz + 4095)) :: u8)" "aips_adds st1 st2"
  shows "\<forall>b < UVISOR_MAX_BOXES. slot_in (g_aipsx_box st2 ! b) s \<longleftrightarrow> b = unat box_id"
proof -
  note add = aips_add_spec [OF assms(1-3,5)]
  have "owned_by st1 (claimers box_count box_id) s" by (rule add(3) [OF refl assms(6-8)])
  moreover have "s < 256" using assms(8) unat_u8_lt order.strict_trans by blast
  ultimately have "owned_by st2 (claimers box_count box_id) s" using aips_adds_keep [OF assms(9) add(1)] keeps_owned by blast
  then show ?thesis using assms(4) by (simp add: owned_by_def claimers_def)
qed

text \<open>
  The number of slots is computed with 8 bits and then made negative by subtracting the first slot, when the end of the range wraps around: a shared claim of that kind
  loops forever, the limit on the number of slots having no effect.
\<close>

theorem vmpu_aips_add_never_ends:
  assumes ok: "aips_ok st" "unat box_id < UVISOR_MAX_BOXES" "unat box_count \<le> UVISOR_MAX_BOXES"
    and free: "\<forall>s < 256. \<not> slot_in (g_aipsx_exc st) s"
  shows "vmpu_aips_add box_count box_id 0x40010000 0xF8000 (UVISOR_TACL_UWRITE OR UVISOR_TACL_SHARED) st = Inl Diverge"
proof -
  have shared: "(UVISOR_TACL_UWRITE OR UVISOR_TACL_SHARED) AND UVISOR_TACL_SHARED \<noteq> 0" "(UVISOR_TACL_UWRITE OR UVISOR_TACL_SHARED) AND UVISOR_TACL_UWRITE \<noteq> 0"
    by (simp_all add: tacl_flags)
  then obtain st' where "aips_claims 256 box_count box_id (UVISOR_TACL_UWRITE OR UVISOR_TACL_SHARED) 16 st = Inr (True, st')"
    using aips_claims_spec [OF ok, of 256 "UVISOR_TACL_UWRITE OR UVISOR_TACL_SHARED" 16] free by auto
  then have "aips_claim_loop (- 8) box_count box_id (UVISOR_TACL_UWRITE OR UVISOR_TACL_SHARED) 16 st = Inl Diverge"
    by (simp only: aips_claim_loop_def) simp
  then show ?thesis using shared(2) by (simp add: vmpu_aips_add_def aips_consts Let_def)
qed

section \<open>Examples\<close>

text \<open>Nothing is claimed, and all peripherals are protected.\<close>

definition example_aips :: aips_state where
  "example_aips = \<lparr>g_aipsx_box = replicate 5 (replicate 8 0), g_aipsx_all = replicate 8 0, g_aipsx_exc = replicate 8 0, PACR = (\<lambda>_. 0x44444444)\<rparr>"

lemma slot_in_empty: "s < 256 \<Longrightarrow> \<not> slot_in (replicate 8 0) s"
  by (simp add: slot_in_def less_mult_imp_div_less)

lemma example_aips_ok: "aips_ok example_aips"
  by (simp add: aips_ok_def example_aips_def UVISOR_MAX_BOXES_def slot_in_empty)

theorem vmpu_aips_switch_correct_witness:
  "\<exists>regs. vmpu_aips_switch 0 1 example_aips = Inr (example_aips\<lparr>PACR := regs\<rparr>) \<and> slot_protected regs 7"
proof -
  have "pacr_loop n 0 0 = (0, 0)" for n by (induction n) simp_all
  then have "pacr_value 0 = 0x44444444" by (simp add: pacr_value_def PACRx_DEFAULT_MASK_def)
  then have "pacr_shows (g_aipsx_box example_aips ! unat (0 :: u8)) 8 (PACR example_aips)" by (simp add: pacr_shows_def example_aips_def)
  then obtain regs where "vmpu_aips_switch 0 1 example_aips = Inr (example_aips\<lparr>PACR := regs\<rparr>)"
      "\<forall>s < 256. slot_protected regs s \<longleftrightarrow> \<not> slot_in (g_aipsx_box example_aips ! unat (1 :: u8)) s"
    using vmpu_aips_switch_correct [OF example_aips_ok, of 0 1] by (auto simp: UVISOR_MAX_BOXES_def)
  moreover from this(2) have "slot_protected regs 7" using slot_in_empty [of 7] by (simp add: example_aips_def)
  ultimately show ?thesis by blast
qed

theorem vmpu_aips_add_exclusive_witness:
  "\<exists>st. vmpu_aips_add 3 2 0x40005000 0x1000 UVISOR_TACL_UWRITE example_aips = Inr (1, st) \<and> slot_in (g_aipsx_box st ! 2) 5 \<and> \<not> slot_in (g_aipsx_box st ! 1) 5"
proof -
  have "\<exists>st. aips_claim_loop 1 3 2 UVISOR_TACL_UWRITE 5 example_aips = Inr (True, st)"
    by (simp add: aips_claim_loop_def aips_claim_def or_word_def example_aips_def tacl_flags Let_def)
  then obtain st where st: "vmpu_aips_add 3 2 0x40005000 0x1000 UVISOR_TACL_UWRITE example_aips = Inr (1, st)"
    by (auto simp: vmpu_aips_add_def aips_consts Let_def tacl_flags)
  have "\<forall>b < UVISOR_MAX_BOXES. slot_in (g_aipsx_box st ! b) 5 \<longleftrightarrow> b = unat (2 :: u8)"
    by (rule vmpu_aips_add_exclusive [OF example_aips_ok _ _ _ st _ _ _ no_adds]) (simp_all add: UVISOR_MAX_BOXES_def tacl_flags aips_consts)
  then show ?thesis using st by (simp add: UVISOR_MAX_BOXES_def)
qed

end
