(* ===== verification/Mpu_Kinetis.thy ===== *)
theory Mpu_Kinetis
  imports Mpu_Armv8m Page_Allocator Kinetis_Aips
begin

text \<open>
  The driver of the Kinetis memory protection unit, \<^verbatim>\<open>core/vmpu/src/mpu_kinetis/vmpu_kinetis_mpu.c\<close>, and the memory part of the port,
  \<^verbatim>\<open>vmpu_kinetis_mem.c\<close>: the region table, which admits no overlaps, the twelve hardware regions, and the switch of the regions between boxes. Names that
  the other ports have too are marked with \<open>_kinetis\<close>.
\<close>

unbundle bit_operations_syntax

section \<open>State\<close>

definition UVISOR_MAX_ACLS :: nat where "UVISOR_MAX_ACLS = 16"
definition UVISOR_TACL_BACKGROUND :: u32 where "UVISOR_TACL_BACKGROUND = 0x7D0"
definition K64F_MPU_REGIONS_STATIC :: u8 where "K64F_MPU_REGIONS_STATIC = 3"
definition K64F_MPU_REGIONS_MAX :: u8 where "K64F_MPU_REGIONS_MAX = 12"

lemmas kinetis_consts = UVISOR_MAX_ACLS_def UVISOR_TACL_BACKGROUND_def K64F_MPU_REGIONS_STATIC_def K64F_MPU_REGIONS_MAX_def

text \<open>A hardware region of four words.\<close>

record MPU_Region =
  STARTADDR :: u32
  ENDADDR :: u32
  PERMISSIONS :: u32
  CONTROL_word :: u32

record kinetis_state =
  kin_region_count :: u16
  kin_region :: "MpuRegion list"
  kin_box_region :: "MpuRegionSlice list"
  kin_slot :: u8
  kin_priority :: "u8 list"
  MPU_WORD :: "MPU_Region list"
  MPU_RGDAAC0 :: u32
  kin_SHCSR :: u32
  kin_aips :: aips_state

section \<open>Sizes and alignment\<close>

definition vmpu_is_region_size_valid_kinetis :: "u32 \<Rightarrow> bool" where
  "vmpu_is_region_size_valid_kinetis sz =
     (let masked_size = sz AND NOT 31 in
      if masked_size < 32 \<or> push_bit 29 1 < masked_size then False else masked_size = sz)"

definition vmpu_round_up_region_kinetis :: "u32 \<Rightarrow> u32 \<Rightarrow> u32" where
  "vmpu_round_up_region_kinetis addr sz =
     (if \<not> vmpu_is_region_size_valid_kinetis sz then 0
      else let rounded_addr = addr + 31 in if rounded_addr < addr then 0 else rounded_addr AND NOT 31)"

lemma kinetis_geometry: "vmpu_is_region_size_valid_kinetis = vmpu_is_region_size_valid_v8m" "vmpu_round_up_region_kinetis = vmpu_round_up_region_v8m"
  by (simp_all add: fun_eq_iff vmpu_is_region_size_valid_kinetis_def vmpu_is_region_size_valid_v8m_def vmpu_round_up_region_kinetis_def vmpu_round_up_region_v8m_def)

interpretation kinetis: region_geometry vmpu_is_region_size_valid_kinetis vmpu_round_up_region_kinetis
  unfolding kinetis_geometry by (rule v8m.region_geometry_axioms)

section \<open>Access control lists\<close>

definition vmpu_map_acl_kinetis :: "u32 \<Rightarrow> u32 \<Rightarrow> u32" where
  "vmpu_map_acl_kinetis acl acl_hw_spec =
     (let perm = (if acl AND UVISOR_TACL_USER \<noteq> 0 then acl AND UVISOR_TACL_UACL else 0);
          perm = perm OR (acl_hw_spec AND NOT 0x3F);
          sacl = acl AND UVISOR_TACL_SACL in
      if drop_bit 3 sacl = perm then perm OR push_bit 3 3
      else if sacl = UVISOR_TACL_SREAD OR UVISOR_TACL_SWRITE OR UVISOR_TACL_SEXECUTE then perm OR push_bit 3 0
      else if sacl = UVISOR_TACL_SREAD OR UVISOR_TACL_SEXECUTE then perm OR push_bit 3 1
      else if sacl = UVISOR_TACL_SREAD OR UVISOR_TACL_SWRITE then perm OR push_bit 3 2
      else 0)"

text \<open>The first argument is the region as it was; a failed translation leaves it as it is and returns 0.\<close>

definition vmpu_region_translate_acl_kinetis :: "MpuRegion \<Rightarrow> u32 \<Rightarrow> u32 \<Rightarrow> u32 \<Rightarrow> u32 \<Rightarrow> MpuRegion \<times> u32" where
  "vmpu_region_translate_acl_kinetis region start sz acl acl_hw_spec =
     (let sz' = (if sz mod 32 \<noteq> 0 then
             if acl AND UVISOR_TACL_SIZE_ROUND_DOWN \<noteq> 0 then Some (UVISOR_ROUND32_DOWN sz)
             else if acl AND UVISOR_TACL_SIZE_ROUND_UP \<noteq> 0 then Some (UVISOR_ROUND32_UP sz)
             else None
           else Some sz) in
      case sz' of
        None \<Rightarrow> (region, 0)
      | Some sz \<Rightarrow>
          if start mod 32 \<noteq> 0 then (region, 0)
          else (\<lparr>region_start = start, region_end = start + sz, region_config = vmpu_map_acl_kinetis acl acl_hw_spec, region_acl = acl\<rparr>, sz))"

definition vmpu_mem_overlap :: "u32 \<Rightarrow> u32 \<Rightarrow> u32 \<Rightarrow> u32 \<Rightarrow> bool" where
  "vmpu_mem_overlap s1 e1 s2 e2 \<longleftrightarrow> s1 > e1 \<or> s2 > e2 \<or> s1 \<le> s2 \<and> e1 > s2 \<or> s1 < e2 \<and> e1 \<ge> e2 \<or> s1 \<ge> s2 \<and> e1 \<le> e2"

text \<open>The loop over the used part of the table: an overlap is found that is not permitted.\<close>

definition overlap_refused :: "MpuRegion list \<Rightarrow> u32 \<Rightarrow> u32 \<Rightarrow> u32 \<Rightarrow> bool" where
  "overlap_refused regions start end_addr acl \<longleftrightarrow>
     list_ex (\<lambda>region. vmpu_mem_overlap start end_addr (region_start region) (region_end region) \<and>
       \<not> (region_acl region AND UVISOR_TACL_SHARED \<noteq> 0 \<and> acl AND UVISOR_TACL_SHARED \<noteq> 0)) regions"

definition vmpu_region_add_static_acl_internal ::
  "bool \<Rightarrow> u8 \<Rightarrow> kinetis_state \<Rightarrow> u8 \<Rightarrow> u32 \<Rightarrow> u32 \<Rightarrow> u32 \<Rightarrow> u32 \<Rightarrow> (u32 \<times> kinetis_state) res" where
  "vmpu_region_add_static_acl_internal counted box_count st box_id start sz acl acl_hw_spec =
     (if sz = 0 \<or> acl AND (UVISOR_TACL_UACL OR UVISOR_TACL_SACL) = 0 then Inr (1, st)
      else if unat (kin_region_count st) \<ge> UVISOR_MAX_ACLS then Inl (Halt SANITY_CHECK_FAILED)
      else if \<not> vmpu_is_box_id_valid counted box_count box_id then Inl (Halt SANITY_CHECK_FAILED)
      else if overlap_refused (take (unat (kin_region_count st)) (kin_region st)) start (start + sz) acl then Inr (0, st)
      else
        bind_res (arr_get (kin_box_region st) (unat box_id)) (\<lambda>box.
        let regions = (case slice_regions box of None \<Rightarrow> unat (kin_region_count st) | Some i \<Rightarrow> i);
            i = regions + unat (slice_count box) in
        bind_res (arr_get (kin_region st) i) (\<lambda>region.
        if region_config region \<noteq> 0 then Inl (Halt SANITY_CHECK_FAILED)
        else
          let (region, rounded_size) = vmpu_region_translate_acl_kinetis region start sz acl acl_hw_spec in
          bind_res (arr_set (kin_region st) i region) (\<lambda>regs.
          Inr (rounded_size,
            st\<lparr>kin_region := regs,
               kin_box_region := (kin_box_region st)[unat box_id := \<lparr>slice_regions = Some regions, slice_count = slice_count box + 1\<rparr>],
               kin_region_count := kin_region_count st + 1\<rparr>)))))"

definition vmpu_region_add_static_acl_kinetis ::
  "bool \<Rightarrow> u8 \<Rightarrow> kinetis_state \<Rightarrow> u8 \<Rightarrow> u32 \<Rightarrow> u32 \<Rightarrow> u32 \<Rightarrow> u32 \<Rightarrow> (u32 \<times> kinetis_state) res" where
  "vmpu_region_add_static_acl_kinetis counted box_count st box_id start sz acl acl_hw_spec =
     (if \<not> vmpu_is_box_id_valid counted box_count box_id then Inl (Halt SANITY_CHECK_FAILED)
      else if start AND 0x1F \<noteq> 0 then Inl (Halt SANITY_CHECK_FAILED)
      else
        bind_res
          (if acl AND UVISOR_TACL_PERIPHERAL \<noteq> 0 then
             bind_res (vmpu_aips_add box_count box_id start sz acl (kin_aips st)) (\<lambda>(r, aips).
             Inr (r, sz, st\<lparr>kin_aips := aips\<rparr>))
           else
             bind_res (vmpu_region_add_static_acl_internal counted box_count st box_id start sz
               ((acl AND UVISOR_TACLDEF_STACK) OR UVISOR_TACL_STACK OR UVISOR_TACL_USER) acl_hw_spec) (\<lambda>(sz, st).
             Inr (if sz \<noteq> 0 then 1 else 0, sz, st)))
          (\<lambda>(r, sz, st).
            if r = 0 then Inl (Halt NOT_ALLOWED)
            else if r < 0 then Inl (Halt SANITY_CHECK_FAILED)
            else Inr (sz, st)))"

definition vmpu_region_get_for_box_kinetis :: "kinetis_state \<Rightarrow> u8 \<Rightarrow> (bool \<times> nat option \<times> u32) res" where
  "vmpu_region_get_for_box_kinetis st box_id =
     (if kin_region_count st = 0 then Inl (Halt SANITY_CHECK_FAILED)
      else if unat box_id < UVISOR_MAX_BOXES then
        bind_res (arr_get (kin_box_region st) (unat box_id)) (\<lambda>box.
        Inr (True, if slice_count box \<noteq> 0 then slice_regions box else None, slice_count box))
      else Inr (False, None, 0))"

definition vmpu_region_find_for_address_kinetis :: "kinetis_state \<Rightarrow> u8 \<Rightarrow> u32 \<Rightarrow> nat option res" where
  "vmpu_region_find_for_address_kinetis st box_id address =
     bind_res (arr_get (kin_box_region st) (unat box_id)) (\<lambda>box.
     case slice_regions box of
       None \<Rightarrow> if slice_count box = 0 then Inr None else Inl Oob
     | Some i \<Rightarrow> find_region_loop (kin_region st) address i (unat (slice_count box)))"

section \<open>Hardware regions\<close>

definition vmpu_mpu_init_kinetis :: "kinetis_state \<Rightarrow> kinetis_state" where
  "vmpu_mpu_init_kinetis st = st\<lparr>kin_SHCSR := kin_SHCSR st OR 0x70000\<rparr>"

definition vmpu_mpu_lock_kinetis :: "kinetis_state \<Rightarrow> kinetis_state" where
  "vmpu_mpu_lock_kinetis st = st\<lparr>MPU_RGDAAC0 := UVISOR_TACL_BACKGROUND\<rparr>"

text \<open>The four words of a region and its priority.\<close>

definition place_region :: "kinetis_state \<Rightarrow> MpuRegion \<Rightarrow> u8 \<Rightarrow> u8 \<Rightarrow> kinetis_state res" where
  "place_region st region slot priority =
     bind_res (arr_set (MPU_WORD st) (unat slot) \<lparr>STARTADDR = region_start region, ENDADDR = region_end region, PERMISSIONS = region_config region, CONTROL_word = 1\<rparr>) (\<lambda>words.
     bind_res (arr_set (kin_priority st) (unat slot) priority) (\<lambda>prio.
     Inr (st\<lparr>MPU_WORD := words, kin_priority := prio\<rparr>)))"

definition vmpu_mpu_set_static_acl_kinetis ::
  "MpuRegion \<Rightarrow> kinetis_state \<Rightarrow> u8 \<Rightarrow> u32 \<Rightarrow> u32 \<Rightarrow> u32 \<Rightarrow> u32 \<Rightarrow> (u32 \<times> kinetis_state) res" where
  "vmpu_mpu_set_static_acl_kinetis garbage st index start sz acl acl_hw_spec =
     (if index \<ge> K64F_MPU_REGIONS_STATIC then Inl (Halt SANITY_CHECK_FAILED)
      else
        let (region, rounded_size) = vmpu_region_translate_acl_kinetis garbage start sz acl acl_hw_spec in
        bind_res (place_region st region index 255) (\<lambda>st. Inr (rounded_size, st)))"

primrec invalidate_words :: "nat list \<Rightarrow> kinetis_state \<Rightarrow> kinetis_state res" where
  "invalidate_words [] st = Inr st"
| "invalidate_words (slot # slots) st =
     bind_res (arr_get (MPU_WORD st) slot) (\<lambda>word.
     bind_res (arr_set (MPU_WORD st) slot (word\<lparr>CONTROL_word := 0\<rparr>)) (\<lambda>words.
     bind_res (arr_set (kin_priority st) slot 0) (\<lambda>prio.
     invalidate_words slots (st\<lparr>MPU_WORD := words, kin_priority := prio\<rparr>))))"

definition vmpu_mpu_invalidate_kinetis :: "kinetis_state \<Rightarrow> kinetis_state res" where
  "vmpu_mpu_invalidate_kinetis st =
     invalidate_words [unat K64F_MPU_REGIONS_STATIC..<unat K64F_MPU_REGIONS_MAX] (st\<lparr>kin_slot := K64F_MPU_REGIONS_STATIC\<rparr>)"

text \<open>\<open>if (++g_mpu_slot > K64F_MPU_REGIONS_MAX) g_mpu_slot = K64F_MPU_REGIONS_STATIC\<close>.\<close>

definition next_slot_kinetis :: "u8 \<Rightarrow> u8" where
  "next_slot_kinetis slot = (if slot + 1 > K64F_MPU_REGIONS_MAX then K64F_MPU_REGIONS_STATIC else slot + 1)"

text \<open>The result is the slot to take when no slot has a lower priority, or nothing when the region was placed.\<close>

primrec kinetis_push_loop :: "nat \<Rightarrow> kinetis_state \<Rightarrow> MpuRegion \<Rightarrow> u8 \<Rightarrow> u8 \<Rightarrow> (u8 option \<times> kinetis_state) res" where
  "kinetis_push_loop 0 st region priority start_slot = Inl Diverge"
| "kinetis_push_loop (Suc fuel) st region priority start_slot =
     bind_res (arr_get (kin_priority st) (unat (kin_slot st))) (\<lambda>prio.
     let viable_slot = kin_slot st in
     if prio < priority then
       bind_res (place_region st region (kin_slot st) priority) (\<lambda>st.
       Inr (None, st\<lparr>kin_slot := next_slot_kinetis (kin_slot st)\<rparr>))
     else
       let st = st\<lparr>kin_slot := next_slot_kinetis (kin_slot st)\<rparr> in
       if kin_slot st \<noteq> start_slot then kinetis_push_loop fuel st region priority start_slot
       else Inr (Some viable_slot, st))"

text \<open>The slots are those from 3 to 12, so the loop ends after at most 10 rounds.\<close>

definition vmpu_mpu_push_kinetis :: "kinetis_state \<Rightarrow> MpuRegion \<Rightarrow> u8 \<Rightarrow> (bool \<times> kinetis_state) res" where
  "vmpu_mpu_push_kinetis st region priority =
     (let priority = (if priority = 0 then 1 else priority); start_slot = kin_slot st in
      bind_res (kinetis_push_loop 10 st region priority start_slot) (\<lambda>(viable, st).
      case viable of
        None \<Rightarrow> Inr (True, st)
      | Some viable_slot \<Rightarrow> bind_res (place_region st region viable_slot priority) (\<lambda>st. Inr (True, st))))"

section \<open>Memory of the boxes\<close>

definition vmpu_mem_push_page_acl_iterator_kinetis :: "u32 \<Rightarrow> u32 \<Rightarrow> u8 \<Rightarrow> kinetis_state \<Rightarrow> (bool \<times> kinetis_state) res" where
  "vmpu_mem_push_page_acl_iterator_kinetis start_addr end_addr page st =
     vmpu_mpu_push_kinetis st \<lparr>region_start = start_addr, region_end = end_addr, region_config = 0x1E, region_acl = 0\<rparr> 100"

definition vmpu_mem_push_page_acl :: "u8 \<Rightarrow> u32 \<Rightarrow> u32 \<Rightarrow> kinetis_state \<Rightarrow> (int \<times> kinetis_state) res" where
  "vmpu_mem_push_page_acl active start_addr end_addr st =
     (if start_addr AND 0x1F \<noteq> 0 \<or> end_addr AND 0x1F \<noteq> 0 then Inr (- 1, st)
      else
        bind_res (vmpu_mem_push_page_acl_iterator_kinetis start_addr end_addr active st) (\<lambda>(continue, st).
        Inr (0, st)))"

primrec push_regions_kinetis :: "nat \<Rightarrow> nat \<Rightarrow> u8 \<Rightarrow> kinetis_state \<Rightarrow> kinetis_state res" where
  "push_regions_kinetis 0 i priority st = Inr st"
| "push_regions_kinetis (Suc count) i priority st =
     bind_res (arr_get (kin_region st) i) (\<lambda>region.
     bind_res (vmpu_mpu_push_kinetis st region priority) (\<lambda>(placed, st).
     if placed then push_regions_kinetis count (Suc i) priority st else Inr st))"

text \<open>A null pointer comes with the count 0. A box number out of range leaves the count without a value: that is \<open>Oob\<close>.\<close>

definition vmpu_mem_switch :: "page_allocator \<Rightarrow> u8 \<Rightarrow> kinetis_state \<Rightarrow> u8 \<Rightarrow> u8 \<Rightarrow> kinetis_state res" where
  "vmpu_mem_switch pa active st src_box dst_box =
     bind_res (vmpu_mpu_invalidate_kinetis st) (\<lambda>st.
     bind_res
       (if dst_box \<noteq> 0 then
          bind_res (vmpu_region_get_for_box_kinetis st dst_box) (\<lambda>(ok, region, dst_count).
          if \<not> ok then Inl Oob
          else push_regions_kinetis (unat dst_count) (case region of None \<Rightarrow> 0 | Some i \<Rightarrow> i) 255 st)
        else Inr st)
       (\<lambda>st.
         bind_res (page_allocator_iterate_active_pages pa active (Some vmpu_mem_push_page_acl_iterator_kinetis) False st) (\<lambda>(count, st).
         Inr st)))"

definition MPU_RGDn_WORD2_M3UM_READ :: u32 where "MPU_RGDn_WORD2_M3UM_READ = push_bit 20 1"
definition MPU_RGDn_WORD2_M3UM_WRITE :: u32 where "MPU_RGDn_WORD2_M3UM_WRITE = push_bit 19 1"
definition MPU_RGDn_WORD2_M2UM_READ :: u32 where "MPU_RGDn_WORD2_M2UM_READ = push_bit 14 1"
definition MPU_RGDn_WORD2_M2UM_WRITE :: u32 where "MPU_RGDn_WORD2_M2UM_WRITE = push_bit 13 1"

text \<open>\<open>garbage\<close> gives the initial value of the local variable in each of the two calls.\<close>

definition vmpu_mem_init :: "u32 \<Rightarrow> UvisorConfig \<Rightarrow> (nat \<Rightarrow> MpuRegion) \<Rightarrow> kinetis_state \<Rightarrow> kinetis_state res" where
  "vmpu_mem_init flash_origin cfg garbage st =
     bind_res (vmpu_mpu_set_static_acl_kinetis (garbage 0) st 1 flash_origin (secure_end cfg - flash_origin)
       (UVISOR_TACL_SREAD OR UVISOR_TACL_SEXECUTE OR UVISOR_TACL_UREAD OR UVISOR_TACL_UEXECUTE OR UVISOR_TACL_USER)
       (MPU_RGDn_WORD2_M3UM_READ OR MPU_RGDn_WORD2_M2UM_READ)) (\<lambda>(n, st).
     bind_res (vmpu_mpu_set_static_acl_kinetis (garbage 1) st 2 (page_end cfg) (sram_end cfg - page_end cfg)
       (UVISOR_TACL_SREAD OR UVISOR_TACL_SWRITE OR UVISOR_TACL_UREAD OR UVISOR_TACL_UWRITE OR UVISOR_TACL_UEXECUTE OR UVISOR_TACL_USER)
       (MPU_RGDn_WORD2_M3UM_READ OR MPU_RGDn_WORD2_M2UM_READ OR MPU_RGDn_WORD2_M3UM_WRITE OR MPU_RGDn_WORD2_M2UM_WRITE)) (\<lambda>(n, st).
     Inr st))"

section \<open>Memory of different boxes is apart\<close>

definition regions_apart :: "MpuRegion \<Rightarrow> MpuRegion \<Rightarrow> bool" where
  "regions_apart r r' \<longleftrightarrow> region_end r \<le> region_start r' \<or> region_end r' \<le> region_start r"

lemma mem_overlap_apart: "\<not> vmpu_mem_overlap s1 e1 s2 e2 \<Longrightarrow> e1 \<le> s2 \<or> e2 \<le> s1"
  by (auto simp: vmpu_mem_overlap_def)

lemma regions_apart_sym: "regions_apart r r' \<longleftrightarrow> regions_apart r' r"
  by (auto simp: regions_apart_def)

lemma regions_apart_contains: "regions_apart r r' \<Longrightarrow> region_contains r a \<Longrightarrow> \<not> region_contains r' a"
  by (auto simp: regions_apart_def region_contains_def)

definition kin_slice :: "kinetis_state \<Rightarrow> nat \<Rightarrow> nat list" where
  "kin_slice st b = (let box = kin_box_region st ! b in
     case slice_regions box of None \<Rightarrow> [] | Some i \<Rightarrow> [i..<i + unat (slice_count box)])"

definition kin_slice_in :: "kinetis_state \<Rightarrow> nat \<Rightarrow> bool" where
  "kin_slice_in st b \<longleftrightarrow> (let box = kin_box_region st ! b in
     case slice_regions box of None \<Rightarrow> slice_count box = 0 | Some i \<Rightarrow> i + unat (slice_count box) \<le> unat (kin_region_count st))"

text \<open>The well-formed region tables: every box has a range of the used entries of its own, and the used entries do not overlap.\<close>

definition kinetis_table_ok :: "kinetis_state \<Rightarrow> bool" where
  "kinetis_table_ok st \<longleftrightarrow> length (kin_region st) = UVISOR_MAX_ACLS \<and> length (kin_box_region st) = UVISOR_MAX_BOXES \<and>
     unat (kin_region_count st) \<le> UVISOR_MAX_ACLS \<and>
     (\<forall>i < unat (kin_region_count st). region_config (kin_region st ! i) \<noteq> 0) \<and>
     (\<forall>b < UVISOR_MAX_BOXES. kin_slice_in st b) \<and>
     (\<forall>b < UVISOR_MAX_BOXES. \<forall>b' < UVISOR_MAX_BOXES. b \<noteq> b' \<longrightarrow> set (kin_slice st b) \<inter> set (kin_slice st b') = {}) \<and>
     (\<forall>i < unat (kin_region_count st). \<forall>j < unat (kin_region_count st). i \<noteq> j \<longrightarrow> regions_apart (kin_region st ! i) (kin_region st ! j))"

text \<open>The rights that are entered in the table, and whether the hardware can express them.\<close>

definition stack_rights :: "u32 \<Rightarrow> u32" where
  "stack_rights acl = (acl AND UVISOR_TACLDEF_STACK) OR UVISOR_TACL_STACK OR UVISOR_TACL_USER"

definition rights_supported :: "u32 \<Rightarrow> u32 \<Rightarrow> bool" where
  "rights_supported acl hw \<longleftrightarrow> acl AND UVISOR_TACL_PERIPHERAL \<noteq> 0 \<or> vmpu_map_acl_kinetis (stack_rights acl) hw \<noteq> 0"

lemma stack_rights_flags:
  "stack_rights acl AND UVISOR_TACL_SHARED = 0" "stack_rights acl AND UVISOR_TACL_SIZE_ROUND_DOWN = 0" "stack_rights acl AND UVISOR_TACL_SIZE_ROUND_UP = 0"
  by (simp_all add: stack_rights_def UVISOR_TACLDEF_STACK_def tacl_defs bit.conj_disj_distrib2 and.assoc)

lemma kin_slice_in_bound: "kin_slice_in st b \<Longrightarrow> i \<in> set (kin_slice st b) \<Longrightarrow> i < unat (kin_region_count st)"
  by (auto simp: kin_slice_in_def kin_slice_def Let_def split: option.splits)

lemma translate_stack_rights:
  "start AND 0x1F = 0 \<Longrightarrow> vmpu_region_translate_acl_kinetis r start sz (stack_rights acl) hw =
    (if sz mod 32 \<noteq> 0 then (r, 0) else (\<lparr>region_start = start, region_end = start + sz, region_config = vmpu_map_acl_kinetis (stack_rights acl) hw, region_acl = stack_rights acl\<rparr>, sz))"
proof -
  have "start mod 32 = start AND 0x1F" using take_bit_eq_mod [of 5 start] by (simp add: take_bit_eq_mask mask_eq_exp_minus_1)
  then show "start AND 0x1F = 0 \<Longrightarrow> ?thesis" by (simp add: vmpu_region_translate_acl_kinetis_def Let_def stack_rights_flags)
qed

text \<open>A successful call leaves the table as it is, or appends one region that overlaps with none of the others.\<close>

lemma add_static_acl_kinetis_cases:
  assumes add: "vmpu_region_add_static_acl_kinetis counted box_count st b start sz acl hw = Inr (n, st')" and ok: "kinetis_table_ok st" and hw: "rights_supported acl hw"
  obtains "kin_region st' = kin_region st" "kin_box_region st' = kin_box_region st" "kin_region_count st' = kin_region_count st"
  | box first r where "unat b < UVISOR_MAX_BOXES" "box = kin_box_region st ! unat b" "unat (kin_region_count st) < UVISOR_MAX_ACLS"
    "first = (case slice_regions box of None \<Rightarrow> unat (kin_region_count st) | Some i \<Rightarrow> i)" "first + unat (slice_count box) = unat (kin_region_count st)"
    "r = \<lparr>region_start = start, region_end = start + sz, region_config = vmpu_map_acl_kinetis (stack_rights acl) hw, region_acl = stack_rights acl\<rparr>"
    "region_config r \<noteq> 0" "\<forall>i < unat (kin_region_count st). regions_apart r (kin_region st ! i)"
    "st' = st\<lparr>kin_region := (kin_region st)[unat (kin_region_count st) := r],
       kin_box_region := (kin_box_region st)[unat b := \<lparr>slice_regions = Some first, slice_count = slice_count box + 1\<rparr>], kin_region_count := kin_region_count st + 1\<rparr>"
proof (cases "acl AND UVISOR_TACL_PERIPHERAL = 0")
  case False
  then show ?thesis using add that(1) by (auto simp: vmpu_region_add_static_acl_kinetis_def res_simps split: if_splits)
next
  case True
  let ?n = "unat (kin_region_count st)" and ?box = "kin_box_region st ! unat b"
  let ?first = "case slice_regions ?box of None \<Rightarrow> ?n | Some i \<Rightarrow> i"
  have lens: "length (kin_region st) = UVISOR_MAX_ACLS" "length (kin_box_region st) = UVISOR_MAX_BOXES" using ok by (auto simp: kinetis_table_ok_def)
  obtain k where start: "start AND 0x1F = 0" and k: "vmpu_region_add_static_acl_internal counted box_count st b start sz (stack_rights acl) hw = Inr (k, st')" "k \<noteq> 0"
    using add True unfolding stack_rights_def by (auto simp: vmpu_region_add_static_acl_kinetis_def res_simps split: if_splits)
  show ?thesis
  proof (cases "sz = 0 \<or> stack_rights acl AND (UVISOR_TACL_UACL OR UVISOR_TACL_SACL) = 0")
    case True
    then show ?thesis using k that(1) by (auto simp: vmpu_region_add_static_acl_internal_def)
  next
    case False
    have b: "unat b < UVISOR_MAX_BOXES" and n: "?n < UVISOR_MAX_ACLS" and free: "region_config (kin_region st ! (?first + unat (slice_count ?box))) = 0"
      and apart: "\<not> overlap_refused (take ?n (kin_region st)) start (start + sz) (stack_rights acl)"
      using k False lens by (auto simp: vmpu_region_add_static_acl_internal_def res_simps Let_def not_le split: if_splits prod.splits)
    have "kin_slice_in st (unat b)" using ok b by (simp add: kinetis_table_ok_def)
    then have "?first + unat (slice_count ?box) \<le> ?n" by (auto simp: kin_slice_in_def Let_def split: option.splits)
    moreover have "\<not> ?first + unat (slice_count ?box) < ?n" using ok free unfolding kinetis_table_ok_def by blast
    ultimately have at: "?first + unat (slice_count ?box) = ?n" by linarith
    let ?r = "\<lparr>region_start = start, region_end = start + sz, region_config = vmpu_map_acl_kinetis (stack_rights acl) hw, region_acl = stack_rights acl\<rparr>"
    have st': "st' = st\<lparr>kin_region := (kin_region st)[?n := ?r],
       kin_box_region := (kin_box_region st)[unat b := \<lparr>slice_regions = Some ?first, slice_count = slice_count ?box + 1\<rparr>], kin_region_count := kin_region_count st + 1\<rparr>"
      using k False apart n lens b at free
      by (clarsimp simp: vmpu_region_add_static_acl_internal_def Let_def translate_stack_rights [OF start] split: if_splits)
    have "\<forall>i < ?n. \<not> vmpu_mem_overlap start (start + sz) (region_start (kin_region st ! i)) (region_end (kin_region st ! i))"
      using apart n lens by (simp add: overlap_refused_def list_ex_length stack_rights_flags)
    then have "\<forall>i < ?n. regions_apart ?r (kin_region st ! i)" using mem_overlap_apart by (simp add: regions_apart_def)
    moreover have "region_config ?r \<noteq> 0" using hw \<open>acl AND UVISOR_TACL_PERIPHERAL = 0\<close> by (simp add: rights_supported_def)
    ultimately show ?thesis using that(2) [OF b refl n refl at refl _ _ st'] by blast
  qed
qed

lemma kin_slice_appended:
  assumes "b < length (kin_box_region st)" "box = kin_box_region st ! b" "first = (case slice_regions box of None \<Rightarrow> unat (kin_region_count st) | Some i \<Rightarrow> i)"
    "first + unat (slice_count box) = unat (kin_region_count st)" "unat (kin_region_count st) < UVISOR_MAX_ACLS" "kin_slice_in st b"
    "kin_box_region st' = (kin_box_region st)[b := \<lparr>slice_regions = Some first, slice_count = slice_count box + 1\<rparr>]" "kin_region_count st' = kin_region_count st + 1"
  shows "kin_slice st' b = kin_slice st b @ [unat (kin_region_count st)]" "kin_slice_in st' b"
    "unat (kin_region_count st') = Suc (unat (kin_region_count st))"
proof -
  have count: "unat (slice_count box + 1) = Suc (unat (slice_count box))" "unat (kin_region_count st + 1) = Suc (unat (kin_region_count st))"
    using assms(4,5) by (simp_all add: unat_word_ariths kinetis_consts)
  then show "kin_slice_in st' b" "unat (kin_region_count st') = Suc (unat (kin_region_count st))"
    using assms by (simp_all add: kin_slice_in_def Let_def)
  have "[first..<first + Suc (unat (slice_count box))] = [first..<first + unat (slice_count box)] @ [unat (kin_region_count st)]"
    using assms(4) by simp
  then show "kin_slice st' b = kin_slice st b @ [unat (kin_region_count st)]"
    using assms count by (auto simp: kin_slice_def kin_slice_in_def Let_def split: option.splits)
qed

lemma kin_slice_cong:
  "kin_box_region st' ! b = kin_box_region st ! b \<Longrightarrow> kin_slice st' b = kin_slice st b"
  "kin_box_region st' ! b = kin_box_region st ! b \<Longrightarrow> unat (kin_region_count st) \<le> unat (kin_region_count st') \<Longrightarrow> kin_slice_in st b \<Longrightarrow> kin_slice_in st' b"
  by (auto simp: kin_slice_def kin_slice_in_def Let_def split: option.splits)

lemma add_static_acl_kinetis_table_ok:
  assumes "vmpu_region_add_static_acl_kinetis counted box_count st b start sz acl hw = Inr (n, st')" "kinetis_table_ok st" "rights_supported acl hw"
  shows "kinetis_table_ok st'"
  using assms
proof (cases rule: add_static_acl_kinetis_cases)
  case 1
  have "kin_slice st' b = kin_slice st b" "kin_slice_in st b \<Longrightarrow> kin_slice_in st' b" for b using kin_slice_cong [of st' b st] 1 by simp_all
  then show ?thesis using assms(2) 1 by (simp add: kinetis_table_ok_def)
next
  case (2 box first r)
  let ?n = "unat (kin_region_count st)"
  have ok: "length (kin_region st) = UVISOR_MAX_ACLS" "length (kin_box_region st) = UVISOR_MAX_BOXES"
    "\<forall>i < ?n. region_config (kin_region st ! i) \<noteq> 0" "\<forall>b < UVISOR_MAX_BOXES. kin_slice_in st b"
    "\<forall>b < UVISOR_MAX_BOXES. \<forall>b' < UVISOR_MAX_BOXES. b \<noteq> b' \<longrightarrow> set (kin_slice st b) \<inter> set (kin_slice st b') = {}"
    "\<forall>i < ?n. \<forall>j < ?n. i \<noteq> j \<longrightarrow> regions_apart (kin_region st ! i) (kin_region st ! j)"
    using assms(2) by (simp_all add: kinetis_table_ok_def)
  have new: "kin_slice st' (unat b) = kin_slice st (unat b) @ [?n]" "kin_slice_in st' (unat b)" "unat (kin_region_count st') = Suc ?n"
    using kin_slice_appended [of "unat b" st box first st'] 2 ok(2,4) by simp_all
  have other: "kin_slice st' c = kin_slice st c" "c < UVISOR_MAX_BOXES \<Longrightarrow> kin_slice_in st' c" if "c \<noteq> unat b" for c
    using kin_slice_cong [of st' c st] that 2(9) ok(4) new(3) by simp_all
  have fresh: "?n \<notin> set (kin_slice st c)" if "c < UVISOR_MAX_BOXES" for c using kin_slice_in_bound ok(4) that by blast
  have regs: "kin_region st' ! i = (if i = ?n then r else kin_region st ! i)" if "i \<le> ?n" for i using 2(3,9) ok(1) that by simp
  have "\<forall>b < UVISOR_MAX_BOXES. kin_slice_in st' b" using new(2) other(2) by metis
  moreover have "set (kin_slice st' c) \<inter> set (kin_slice st' c') = {}" if "c < UVISOR_MAX_BOXES" "c' < UVISOR_MAX_BOXES" "c \<noteq> c'" for c c'
    using that ok(5) new(1) other(1) fresh by (cases "c = unat b"; cases "c' = unat b") auto
  moreover have "regions_apart (kin_region st' ! i) (kin_region st' ! j)" if "i \<le> ?n" "j \<le> ?n" "i \<noteq> j" for i j
    using that ok(6) 2(8) regs regions_apart_sym by (auto simp: le_less)
  moreover have "region_config (kin_region st' ! i) \<noteq> 0" if "i \<le> ?n" for i using that ok(3) 2(7) regs by (auto simp: le_less)
  ultimately show ?thesis using 2(3,9) new(3) ok(1,2) by (simp add: kinetis_table_ok_def less_Suc_eq_le)
qed

inductive kinetis_adds :: "kinetis_state \<Rightarrow> kinetis_state \<Rightarrow> bool" where
  adds_none: "kinetis_adds st st"
| adds_more: "kinetis_adds st st1 \<Longrightarrow> vmpu_region_add_static_acl_kinetis counted box_count st1 b start sz acl hw = Inr (n, st2) \<Longrightarrow> rights_supported acl hw \<Longrightarrow>
    kinetis_adds st st2"

lemma kinetis_adds_table_ok: "kinetis_adds st st' \<Longrightarrow> kinetis_table_ok st \<Longrightarrow> kinetis_table_ok st'"
  by (induction rule: kinetis_adds.induct) (auto intro: add_static_acl_kinetis_table_ok)

lemma find_for_address_kinetis_eq:
  assumes "kinetis_table_ok st" "unat b < UVISOR_MAX_BOXES"
  shows "vmpu_region_find_for_address_kinetis st b a = Inr (find (\<lambda>j. region_contains (kin_region st ! j) a) (kin_slice st (unat b)))"
proof -
  have "kin_slice_in st (unat b)" using assms by (simp add: kinetis_table_ok_def)
  then show ?thesis using assms
    by (auto simp: vmpu_region_find_for_address_kinetis_def kinetis_table_ok_def kin_slice_in_def kin_slice_def Let_def find_region_loop_find split: option.splits)
qed


section \<open>Switching the memory of boxes\<close>

definition hw_region :: "MpuRegion \<Rightarrow> MPU_Region" where
  "hw_region r = \<lparr>STARTADDR = region_start r, ENDADDR = region_end r, PERMISSIONS = region_config r, CONTROL_word = 1\<rparr>"

definition page_region :: "page_allocator \<Rightarrow> nat \<Rightarrow> MpuRegion" where
  "page_region pa p = (let start = g_page_heap_start pa + of_nat p * g_page_size pa in
     \<lparr>region_start = start, region_end = start + g_page_size pa, region_config = 0x1E, region_acl = 0\<rparr>)"

text \<open>
  The regions \<open>rs\<close> were pushed since the slots were invalidated in \<open>st0\<close>: they are in the slots from 3 on in that order, the other slots of boxes
  are disabled, and nothing else of the state is changed.
\<close>

definition pushed :: "kinetis_state \<Rightarrow> MpuRegion list \<Rightarrow> kinetis_state \<Rightarrow> bool" where
  "pushed st0 rs st \<longleftrightarrow> length rs \<le> 9 \<and> kin_slot st = 3 + of_nat (length rs) \<and> length (MPU_WORD st) = 12 \<and> length (kin_priority st) = 12 \<and>
     (\<forall>k < length rs. MPU_WORD st ! (3 + k) = hw_region (rs ! k)) \<and>
     (\<forall>i < 12. 3 + length rs \<le> i \<longrightarrow> CONTROL_word (MPU_WORD st ! i) = 0 \<and> kin_priority st ! i = 0) \<and>
     (\<forall>i < 3. MPU_WORD st ! i = MPU_WORD st0 ! i \<and> kin_priority st ! i = kin_priority st0 ! i) \<and>
     st\<lparr>MPU_WORD := [], kin_priority := [], kin_slot := 0\<rparr> = st0\<lparr>MPU_WORD := [], kin_priority := [], kin_slot := 0\<rparr>"

lemma pushed_push:
  assumes st: "pushed st0 rs st" and room: "length rs < 9" and p: "0 < p"
  shows "\<exists>st'. vmpu_mpu_push_kinetis st r p = Inr (True, st') \<and> pushed st0 (rs @ [r]) st'"
proof -
  let ?s = "3 + length rs"
  let ?st = "st\<lparr>MPU_WORD := (MPU_WORD st)[?s := hw_region r], kin_priority := (kin_priority st)[?s := p], kin_slot := next_slot_kinetis (kin_slot st)\<rparr>"
  have slot: "unat (kin_slot st) = ?s" using st room by (simp add: pushed_def unat_word_ariths unat_of_nat)
  have free: "kin_priority st ! ?s = 0" "length (kin_priority st) = 12" "length (MPU_WORD st) = 12" using st room by (auto simp: pushed_def)
  have "vmpu_mpu_push_kinetis st r p = Inr (True, ?st)"
    using slot free room p by (simp add: vmpu_mpu_push_kinetis_def place_region_def hw_region_def numeral_eq_Suc word_gt_0)
  moreover have "\<not> K64F_MPU_REGIONS_MAX < kin_slot st + 1"
    using slot room by (simp add: kinetis_consts word_less_nat_alt unat_word_ariths)
  then have "next_slot_kinetis (kin_slot st) = kin_slot st + 1" by (simp add: next_slot_kinetis_def)
  then have "next_slot_kinetis (kin_slot st) = 3 + of_nat (length (rs @ [r]))" using st by (simp add: pushed_def)
  then have "pushed st0 (rs @ [r]) ?st"
    using st room by (auto simp: pushed_def nth_append nth_list_update less_Suc_eq)
  ultimately show ?thesis by blast
qed

text \<open>
  The comparison that should wrap the slot around admits slot 12. With all nine slots taken, the next region is written behind the last hardware region, and its priority
  is read and written behind the end of the array.
\<close>

theorem vmpu_mpu_push_kinetis_out_of_range:
  assumes "pushed st0 rs st" "length rs = 9"
  shows "vmpu_mpu_push_kinetis st r p = Inl Oob"
proof -
  have "unat (kin_slot st) = 12" "length (kin_priority st) = 12" using assms by (auto simp: pushed_def)
  then show ?thesis by (simp add: vmpu_mpu_push_kinetis_def numeral_eq_Suc arr_get_def)
qed

lemma invalidate_words_spec:
  assumes "\<forall>i \<in> set slots. i < 12" "length (MPU_WORD st) = 12" "length (kin_priority st) = 12"
  shows "\<exists>st'. invalidate_words slots st = Inr st' \<and> length (MPU_WORD st') = 12 \<and> length (kin_priority st') = 12 \<and>
    (\<forall>i < 12. if i \<in> set slots then CONTROL_word (MPU_WORD st' ! i) = 0 \<and> kin_priority st' ! i = 0
      else MPU_WORD st' ! i = MPU_WORD st ! i \<and> kin_priority st' ! i = kin_priority st ! i) \<and>
    st'\<lparr>MPU_WORD := [], kin_priority := []\<rparr> = st\<lparr>MPU_WORD := [], kin_priority := []\<rparr>"
  using assms
proof (induction slots arbitrary: st)
  case (Cons slot slots)
  let ?st = "st\<lparr>MPU_WORD := (MPU_WORD st)[slot := (MPU_WORD st ! slot)\<lparr>CONTROL_word := 0\<rparr>], kin_priority := (kin_priority st)[slot := 0]\<rparr>"
  obtain st' where st': "invalidate_words slots ?st = Inr st'" "length (MPU_WORD st') = 12" "length (kin_priority st') = 12"
    "\<forall>i < 12. if i \<in> set slots then CONTROL_word (MPU_WORD st' ! i) = 0 \<and> kin_priority st' ! i = 0
      else MPU_WORD st' ! i = MPU_WORD ?st ! i \<and> kin_priority st' ! i = kin_priority ?st ! i"
    "st'\<lparr>MPU_WORD := [], kin_priority := []\<rparr> = ?st\<lparr>MPU_WORD := [], kin_priority := []\<rparr>"
    using Cons.IH [of ?st] Cons.prems by auto
  have "if i \<in> set (slot # slots) then CONTROL_word (MPU_WORD st' ! i) = 0 \<and> kin_priority st' ! i = 0
      else MPU_WORD st' ! i = MPU_WORD st ! i \<and> kin_priority st' ! i = kin_priority st ! i" if "i < 12" for i
    using st'(4) [rule_format, OF that] that Cons.prems by (cases "i = slot"; cases "i \<in> set slots") simp_all
  then show ?case using st' Cons.prems by auto
qed simp

lemma pushed_invalidate:
  assumes "length (MPU_WORD st) = 12" "length (kin_priority st) = 12"
  shows "\<exists>st'. vmpu_mpu_invalidate_kinetis st = Inr st' \<and> pushed st [] st'"
proof -
  obtain st' where st': "invalidate_words [3..<12] (st\<lparr>kin_slot := 3\<rparr>) = Inr st'" "length (MPU_WORD st') = 12" "length (kin_priority st') = 12"
    "\<forall>i < 12. if i \<in> set [3..<12] then CONTROL_word (MPU_WORD st' ! i) = 0 \<and> kin_priority st' ! i = 0
      else MPU_WORD st' ! i = MPU_WORD (st\<lparr>kin_slot := 3\<rparr>) ! i \<and> kin_priority st' ! i = kin_priority (st\<lparr>kin_slot := 3\<rparr>) ! i"
    "st'\<lparr>MPU_WORD := [], kin_priority := []\<rparr> = st\<lparr>kin_slot := 3\<rparr>\<lparr>MPU_WORD := [], kin_priority := []\<rparr>"
    using invalidate_words_spec [of "[3..<12]" "st\<lparr>kin_slot := 3\<rparr>"] assms by auto
  have rest: "kin_slot st' = 3" "st'\<lparr>MPU_WORD := [], kin_priority := [], kin_slot := 0\<rparr> = st\<lparr>MPU_WORD := [], kin_priority := [], kin_slot := 0\<rparr>"
    using st'(5) by (auto dest: arg_cong [where f = kin_slot] arg_cong [where f = "\<lambda>s. s\<lparr>kin_slot := 0\<rparr>"])
  then have "pushed st [] st'" using st'(2-4) by (auto simp: pushed_def split: if_splits)
  moreover have "vmpu_mpu_invalidate_kinetis st = Inr st'" using st'(1) by (simp add: vmpu_mpu_invalidate_kinetis_def kinetis_consts)
  ultimately show ?thesis by blast
qed

lemma pushed_same:
  assumes "pushed st0 rs st"
  shows "kin_region st = kin_region st0" "kin_box_region st = kin_box_region st0" "kin_region_count st = kin_region_count st0"
    "kin_aips st = kin_aips st0"
proof -
  have eq: "st\<lparr>MPU_WORD := [], kin_priority := [], kin_slot := 0\<rparr> = st0\<lparr>MPU_WORD := [], kin_priority := [], kin_slot := 0\<rparr>" using assms by (simp add: pushed_def)
  show "kin_region st = kin_region st0" using arg_cong [OF eq, of kin_region] by simp
  show "kin_box_region st = kin_box_region st0" using arg_cong [OF eq, of kin_box_region] by simp
  show "kin_region_count st = kin_region_count st0" using arg_cong [OF eq, of kin_region_count] by simp
  show "kin_aips st = kin_aips st0" using arg_cong [OF eq, of kin_aips] by simp
qed

lemma pushed_regions:
  assumes "pushed st0 rs st" "i + n \<le> length (kin_region st0)" "length rs + n \<le> 9" "0 < p"
  shows "\<exists>st'. push_regions_kinetis n i p st = Inr st' \<and> pushed st0 (rs @ map (nth (kin_region st0)) [i..<i + n]) st'"
  using assms
proof (induction n arbitrary: i rs st)
  case (Suc n)
  have regs: "kin_region st = kin_region st0" by (rule pushed_same [OF Suc.prems(1)])
  obtain st1 where st1: "vmpu_mpu_push_kinetis st (kin_region st0 ! i) p = Inr (True, st1)" "pushed st0 (rs @ [kin_region st0 ! i]) st1"
    using pushed_push [OF Suc.prems(1), of p] Suc.prems(3,4) by auto
  obtain st2 where "push_regions_kinetis n (Suc i) p st1 = Inr st2"
    "pushed st0 ((rs @ [kin_region st0 ! i]) @ map (nth (kin_region st0)) [Suc i..<Suc i + n]) st2"
    using Suc.IH [OF st1(2), of "Suc i"] Suc.prems by auto
  moreover have "[i..<i + Suc n] = i # [Suc i..<Suc i + n]" by (simp add: upt_conv_Cons)
  ultimately show ?case using st1(1) regs Suc.prems(2) by simp
qed simp

definition owned_pages :: "page_allocator \<Rightarrow> nat \<Rightarrow> nat list \<Rightarrow> nat list" where
  "owned_pages pa b ps = filter (owned pa b) ps"

lemma pushed_pages:
  assumes pa: "pa_ok pa" "unat b < UVISOR_MAX_BOXES" and st: "pushed st0 rs st" and n: "unat ii + n \<le> pages pa"
    and room: "length rs + length (owned_pages pa (unat b) [unat ii..<unat ii + n]) \<le> 9"
  shows "\<exists>count st'. iterate_pages_loop pa (g_page_owner_map pa ! unat b) (Some vmpu_mem_push_page_acl_iterator_kinetis) False n ii c st = Inr (count, st') \<and>
    pushed st0 (rs @ map (page_region pa) (owned_pages pa (unat b) [unat ii..<unat ii + n])) st'"
  using st n room
proof (induction n arbitrary: ii c rs st)
  case 0
  then show ?case by (simp add: owned_pages_def)
next
  case (Suc n)
  have maps: "maps_ok pa" using pa(1) by (simp add: pa_ok_def)
  have ii: "unat ii < pages pa" using Suc.prems(2) by simp
  have "unat ii + unat (g_page_map_shift pa) < 32" "length (g_page_owner_map pa ! unat b) = 1"
    using page_small [OF maps ii] pa(2) maps by (auto simp: maps_ok_def)
  then have get: "page_allocator_map_get (g_page_map_shift pa) (g_page_owner_map pa ! unat b) ii = Inr (owned pa (unat b) (unat ii))"
    by (simp add: map_get_bit owned_def)
  have "unat ii < 255" using ii page_small [OF maps ii] by simp
  then have next_ii: "unat (ii + 1) = Suc (unat ii)" by (simp add: unat_word_ariths)
  have range: "[unat ii..<unat ii + Suc n] = unat ii # [Suc (unat ii)..<Suc (unat ii) + n]" by (simp add: upt_conv_Cons)
  note step = Suc.IH [of _ _ "ii + 1", unfolded next_ii]
  show ?case
  proof (cases "owned pa (unat b) (unat ii)")
    case True
    let ?start = "g_page_heap_start pa + g_page_size pa * ucast ii"
    have "page_region pa (unat ii) = \<lparr>region_start = ?start, region_end = ?start + g_page_size pa, region_config = 0x1E, region_acl = 0\<rparr>"
      by (simp add: page_region_def Let_def mult.commute)
    then obtain st1 where st1: "vmpu_mem_push_page_acl_iterator_kinetis ?start (?start + g_page_size pa) ii st = Inr (True, st1)" "pushed st0 (rs @ [page_region pa (unat ii)]) st1"
      using pushed_push [OF Suc.prems(1), of 100 "page_region pa (unat ii)"] Suc.prems(3) True unfolding range
      by (auto simp: vmpu_mem_push_page_acl_iterator_kinetis_def owned_pages_def)
    show ?thesis using step [OF st1(2), of "c + 1"] get True st1(1) Suc.prems(2,3) unfolding range by (auto simp: owned_pages_def)
  next
    case False
    then show ?thesis using step [OF Suc.prems(1), of c] get Suc.prems(2,3) unfolding range by (auto simp: owned_pages_def)
  qed
qed

definition kin_regions_of :: "kinetis_state \<Rightarrow> u8 \<Rightarrow> MpuRegion list" where
  "kin_regions_of st b = map (nth (kin_region st)) (kin_slice st (unat b))"

lemma pushed_box_regions:
  assumes st: "pushed st0 rs st" and ok: "kinetis_table_ok st0" "kin_region_count st0 \<noteq> 0" "unat b < UVISOR_MAX_BOXES"
    and room: "length rs + length (kin_regions_of st0 b) \<le> 9"
  shows "\<exists>region n st'. vmpu_region_get_for_box_kinetis st b = Inr (True, region, n) \<and>
    push_regions_kinetis (unat n) (case region of None \<Rightarrow> 0 | Some i \<Rightarrow> i) 255 st = Inr st' \<and> pushed st0 (rs @ kin_regions_of st0 b) st'"
proof -
  let ?box = "kin_box_region st0 ! unat b"
  have len: "unat b < length (kin_box_region st0)" "unat (kin_region_count st0) \<le> length (kin_region st0)" using ok by (auto simp: kinetis_table_ok_def)
  have get: "vmpu_region_get_for_box_kinetis st b = Inr (True, if slice_count ?box \<noteq> 0 then slice_regions ?box else None, slice_count ?box)"
    using pushed_same [OF st] ok(2,3) len(1) by (simp add: vmpu_region_get_for_box_kinetis_def)
  have slice: "kin_slice_in st0 (unat b)" using ok(1,3) by (simp add: kinetis_table_ok_def)
  show ?thesis
  proof (cases "slice_count ?box = 0")
    case True
    then have "kin_regions_of st0 b = []" by (simp add: kin_regions_of_def kin_slice_def Let_def split: option.split)
    then show ?thesis using get True st by simp
  next
    case False
    then obtain i where i: "slice_regions ?box = Some i" "i + unat (slice_count ?box) \<le> unat (kin_region_count st0)"
      using slice by (auto simp: kin_slice_in_def Let_def split: option.splits)
    then have "kin_regions_of st0 b = map (nth (kin_region st0)) [i..<i + unat (slice_count ?box)]" by (simp add: kin_regions_of_def kin_slice_def)
    then show ?thesis using pushed_regions [OF st, of i "unat (slice_count ?box)" 255] get False i room len(2) by simp
  qed
qed

lemma mem_switch_pushed:
  fixes st :: kinetis_state and pa :: page_allocator and dst active :: u8 and rs :: "MpuRegion list"
  defines "rs \<equiv> (if dst = 0 then [] else kin_regions_of st dst) @ map (page_region pa) (owned_pages pa (unat active) [0..<pages pa])"
  assumes ok: "kinetis_table_ok st" "kin_region_count st \<noteq> 0" "length (MPU_WORD st) = 12" "length (kin_priority st) = 12" "pa_ok pa"
    and boxes: "unat dst < UVISOR_MAX_BOXES" "unat active < UVISOR_MAX_BOXES" and room: "length rs \<le> 9"
  shows "\<exists>st'. vmpu_mem_switch pa active st src dst = Inr st' \<and> pushed st rs st'"
proof -
  let ?box = "if dst = 0 then [] else kin_regions_of st dst" and ?pages = "owned_pages pa (unat active) [0..<pages pa]"
  obtain st1 where st1: "vmpu_mpu_invalidate_kinetis st = Inr st1" "pushed st [] st1" using pushed_invalidate ok(3,4) by blast
  obtain st2 where st2: "pushed st ?box st2"
    "(if dst \<noteq> 0 then bind_res (vmpu_region_get_for_box_kinetis st1 dst) (\<lambda>(ok, region, dst_count).
        if \<not> ok then Inl Oob else push_regions_kinetis (unat dst_count) (case region of None \<Rightarrow> 0 | Some i \<Rightarrow> i) 255 st1) else Inr st1) = Inr st2"
  proof (cases "dst = 0")
    case False
    then show ?thesis using pushed_box_regions [OF st1(2) ok(1,2) boxes(1)] room that unfolding rs_def by auto
  qed (use st1(2) that in simp)
  obtain count st3 where st3: "iterate_pages_loop pa (g_page_owner_map pa ! unat active) (Some vmpu_mem_push_page_acl_iterator_kinetis) False (pages pa) 0 0 st2 = Inr (count, st3)"
    "pushed st (?box @ map (page_region pa) ?pages) st3"
    using pushed_pages [OF ok(5) boxes(2) st2(1), of 0 "pages pa" 0] room unfolding rs_def by auto
  have "unat active < length (g_page_owner_map pa)" using ok(5) boxes(2) by (simp add: pa_ok_def maps_ok_def)
  then have "vmpu_mem_switch pa active st src dst = Inr st3"
    using st1(1) st2(2) st3(1) by (simp add: vmpu_mem_switch_def page_allocator_iterate_active_pages_def)
  then show ?thesis using st3(2) unfolding rs_def by blast
qed

section \<open>Examples\<close>

definition no_region :: MpuRegion where
  "no_region = \<lparr>region_start = 0, region_end = 0, region_config = 0, region_acl = 0\<rparr>"

text \<open>No regions are registered, and all slots are free.\<close>

definition example_kinetis :: kinetis_state where
  "example_kinetis = \<lparr>kin_region_count = 0, kin_region = replicate 16 no_region, kin_box_region = replicate 5 \<lparr>slice_regions = None, slice_count = 0\<rparr>,
     kin_slot = 3, kin_priority = replicate 12 0, MPU_WORD = replicate 12 \<lparr>STARTADDR = 0, ENDADDR = 0, PERMISSIONS = 0, CONTROL_word = 0\<rparr>,
     MPU_RGDAAC0 = 0, kin_SHCSR = 0, kin_aips = example_aips\<rparr>"

definition example_kinetis_region :: "u32 \<Rightarrow> MpuRegion" where
  "example_kinetis_region start = \<lparr>region_start = start, region_end = start + 0x100, region_config = 0x1E, region_acl = 0x876\<rparr>"

text \<open>Boxes 1 and 2 have a region each.\<close>

definition example_two_regions :: kinetis_state where
  "example_two_regions = example_kinetis\<lparr>kin_region_count := 2, kin_region := (replicate 16 no_region)[0 := example_kinetis_region 0x20000000, 1 := example_kinetis_region 0x20000100],
     kin_box_region := (replicate 5 \<lparr>slice_regions = None, slice_count = 0\<rparr>)[1 := \<lparr>slice_regions = Some 0, slice_count = 1\<rparr>, 2 := \<lparr>slice_regions = Some 1, slice_count = 1\<rparr>]\<rparr>"

lemma example_kinetis_ok: "kinetis_table_ok example_kinetis"
  by (simp add: kinetis_table_ok_def example_kinetis_def kinetis_consts UVISOR_MAX_BOXES_def kin_slice_def kin_slice_in_def)

lemma replicate_16: "replicate 16 x = [x, x, x, x, x, x, x, x, x, x, x, x, x, x, x, x]"
  by (simp add: numeral_eq_Suc)

lemma example_kinetis_adds:
  "\<exists>st. vmpu_region_add_static_acl_kinetis False 3 example_kinetis 1 0x20000000 0x100 UVISOR_TACLDEF_STACK 0 = Inr (0x100, st) \<and>
    vmpu_region_add_static_acl_kinetis False 3 st 2 0x20000100 0x100 UVISOR_TACLDEF_STACK 0 = Inr (0x100, example_two_regions)"
  by (simp add: vmpu_region_add_static_acl_kinetis_def vmpu_region_add_static_acl_internal_def vmpu_is_box_id_valid_def UVISOR_MAX_BOXES_def example_kinetis_def
      overlap_refused_def vmpu_mem_overlap_def vmpu_region_translate_acl_kinetis_def vmpu_map_acl_kinetis_def UVISOR_TACLDEF_STACK_def tacl_defs kinetis_consts
      example_two_regions_def example_kinetis_region_def no_region_def Let_def replicate_16)

lemma example_two_regions_reached: "kinetis_adds example_kinetis example_two_regions"
proof -
  have "rights_supported UVISOR_TACLDEF_STACK 0" by (simp add: rights_supported_def vmpu_map_acl_kinetis_def stack_rights_def UVISOR_TACLDEF_STACK_def tacl_defs Let_def)
  then show ?thesis using example_kinetis_adds by (meson kinetis_adds.intros)
qed


text \<open>
  Rights that the hardware cannot express are entered as an empty configuration, which is taken for a free entry: the next region of box 1 overwrites the entry of box 2,
  and box 2 gets the memory of box 1.
\<close>

theorem vmpu_region_add_static_acl_kinetis_overwrites:
  "\<exists>st st1 st2. vmpu_region_add_static_acl_kinetis False 3 example_kinetis 1 0x20000000 0x100 UVISOR_TACLDEF_STACK 0 = Inr (0x100, st) \<and>
    vmpu_region_add_static_acl_kinetis False 3 st 2 0x20000100 0x100 (UVISOR_TACL_UREAD OR UVISOR_TACL_UWRITE OR UVISOR_TACL_SREAD) 0 = Inr (0x100, st1) \<and>
    vmpu_region_add_static_acl_kinetis False 3 st1 1 0x20000200 0x100 UVISOR_TACLDEF_STACK 0 = Inr (0x100, st2) \<and>
    vmpu_region_find_for_address_kinetis st2 2 0x20000210 = Inr (Some 1)"
  by (simp add: vmpu_region_add_static_acl_kinetis_def vmpu_region_add_static_acl_internal_def vmpu_is_box_id_valid_def UVISOR_MAX_BOXES_def example_kinetis_def
      overlap_refused_def vmpu_mem_overlap_def vmpu_region_translate_acl_kinetis_def vmpu_map_acl_kinetis_def UVISOR_TACLDEF_STACK_def tacl_defs kinetis_consts
      vmpu_region_find_for_address_kinetis_def region_contains_def no_region_def Let_def replicate_16)

end
