(* ===== verification/Vmpu_Armv8m.thy ===== *)
theory Vmpu_Armv8m
  imports Mpu_Armv8m Page_Allocator Fault_Handler
begin

text \<open>
  The ARMv8-M port, \<^verbatim>\<open>core/vmpu/src/mpu_armv8m/vmpu_armv8m.c\<close>, on top of the driver of the security attribution unit: recovering from secure
  faults, switching the regions between boxes, the memory of a box and the static regions. Names that the ARMv7-M port has too are marked with \<open>_v8m\<close>.
\<close>

unbundle bit_operations_syntax

section \<open>State\<close>

text \<open>The driver, the page allocator, \<open>g_active_box\<close> and the static offset of \<open>vmpu_acl_sram\<close>.\<close>

record v8m_state =
  v8_sau :: sau_state
  v8_pages :: page_allocator
  v8_active_box :: u8
  v8_box_mem_pos :: u32

section \<open>Faults\<close>

definition vmpu_fault_find_region_v8m :: "v8m_state \<Rightarrow> u32 \<Rightarrow> nat option res" where
  "vmpu_fault_find_region_v8m st fault_addr =
     bind_res
       (if v8_active_box st \<noteq> 0 then vmpu_region_find_for_address_v8m (v8_sau st) (v8_active_box st) fault_addr
        else Inr None)
       (\<lambda>region.
         if region \<noteq> None then Inr region
         else vmpu_region_find_for_address_v8m (v8_sau st) 0 fault_addr)"

definition vmpu_fault_find_acl_v8m :: "v8m_state \<Rightarrow> u32 \<Rightarrow> u32 \<Rightarrow> u32 res" where
  "vmpu_fault_find_acl_v8m st fault_addr sz =
     (if fault_addr = SCB_SCR_ADDRESS then Inr (UVISOR_TACL_UWRITE OR UVISOR_TACL_UREAD)
      else
        let fault_addr =
          (if fault_addr \<ge> VMPU_PERIPH_BITBAND_START \<and> fault_addr \<le> VMPU_PERIPH_BITBAND_END
           then VMPU_PERIPH_BITBAND_ALIAS_TO_ADDR fault_addr
           else if fault_addr \<ge> VMPU_SRAM_BITBAND_START \<and> fault_addr \<le> VMPU_SRAM_BITBAND_END
           then VMPU_SRAM_BITBAND_ALIAS_TO_ADDR fault_addr
           else fault_addr) in
        bind_res (vmpu_fault_find_region_v8m st fault_addr) (\<lambda>region.
        case region of
          None \<Rightarrow> Inr 0
        | Some i \<Rightarrow>
            bind_res (arr_get (sau_region (v8_sau st)) i) (\<lambda>region.
            if fault_addr + sz > region_end region then Inr 0
            else Inr (region_acl region))))"

definition vmpu_mem_push_page_acl_iterator_v8m :: "u32 \<Rightarrow> u32 \<Rightarrow> u8 \<Rightarrow> sau_state \<Rightarrow> (bool \<times> sau_state) res" where
  "vmpu_mem_push_page_acl_iterator_v8m start_addr end_addr page sau =
     vmpu_mpu_push_v8m sau \<lparr>region_start = start_addr, region_end = end_addr, region_config = 1, region_acl = 0\<rparr> 100"

text \<open>The result is whether the fault was recovered; the program counter, the stack pointer and the status are not used.\<close>

definition vmpu_fault_recovery_mpu_v8m :: "v8m_state \<Rightarrow> u32 \<Rightarrow> u32 \<Rightarrow> u32 \<Rightarrow> u32 \<Rightarrow> (bool \<times> v8m_state) res" where
  "vmpu_fault_recovery_mpu_v8m st pc sp fault_addr fault_status =
     bind_res (page_allocator_get_active_region_for_address (v8_pages st) (v8_active_box st) fault_addr) (\<lambda>(rc, found).
     case found of
       Some (start_addr, end_addr, page) \<Rightarrow>
         bind_res (page_allocator_register_fault (v8_pages st) page) (\<lambda>pa.
         bind_res (vmpu_mem_push_page_acl_iterator_v8m start_addr end_addr (v8_active_box st) (v8_sau st)) (\<lambda>(continue, sau).
         Inr (True, st\<lparr>v8_pages := pa, v8_sau := sau\<rparr>)))
     | None \<Rightarrow>
         bind_res (vmpu_fault_find_region_v8m st fault_addr) (\<lambda>region.
         case region of
           None \<Rightarrow> Inr (False, st)
         | Some i \<Rightarrow>
             bind_res (arr_get (sau_region (v8_sau st)) i) (\<lambda>region.
             bind_res (vmpu_mpu_push_v8m (v8_sau st) region 3) (\<lambda>(placed, sau).
             Inr (True, st\<lparr>v8_sau := sau\<rparr>)))))"

text \<open>
  An access on behalf of a box. The answer of the \<open>TTA\<close> instruction for an address depends on the registers of the unit and is the
  argument \<open>tta\<close>.
\<close>

definition vmpu_unpriv_access_v8m ::
  "(sau_state \<Rightarrow> u32 \<Rightarrow> u32) \<Rightarrow> v8m_state \<Rightarrow> mem \<Rightarrow> u32 \<Rightarrow> u32 \<Rightarrow> u32 \<Rightarrow> (u32 \<times> mem \<times> v8m_state) res" where
  "vmpu_unpriv_access_v8m tta st m addr sz data =
     vmpu_unpriv_access (\<lambda>st. tta (v8_sau st)) (\<lambda>addr st. vmpu_fault_recovery_mpu_v8m st 0 0 addr 0) st m addr sz data"

section \<open>System exceptions\<close>

definition SAU_SFSR_AUVIOL_Msk :: u32 where "SAU_SFSR_AUVIOL_Msk = push_bit 3 1"
definition SAU_SFSR_SFARVALID_Msk :: u32 where "SAU_SFSR_SFARVALID_Msk = push_bit 6 1"
definition EXC_RETURN_S_Msk :: u32 where "EXC_RETURN_S_Msk = push_bit 6 1"
definition EXC_RETURN_Mode_Msk :: u32 where "EXC_RETURN_Mode_Msk = push_bit 3 1"

definition EXC_FROM_S :: "u32 \<Rightarrow> bool" where "EXC_FROM_S lr \<longleftrightarrow> lr AND EXC_RETURN_S_Msk \<noteq> 0"
definition EXC_FROM_NP :: "u32 \<Rightarrow> bool" where "EXC_FROM_NP lr \<longleftrightarrow> lr AND EXC_RETURN_Mode_Msk \<noteq> 0"

text \<open>The registers that the handler reads; bits of the status register are cleared by writing ones.\<close>

record v8m_fault_regs =
  IPSR_v8m :: u32
  SFSR :: u32
  SFAR :: u32
  PSP_S :: u32
  PSP_NS :: u32
  MSP_NS :: u32

definition exception_sp_v8m :: "v8m_fault_regs \<Rightarrow> u32 \<Rightarrow> u32 \<Rightarrow> u32" where
  "exception_sp_v8m regs lr msp_s =
     (if EXC_FROM_S lr then if EXC_FROM_NP lr then if EXC_FROM_PSP lr then PSP_S regs else msp_s else msp_s
      else if EXC_FROM_NP lr then if EXC_FROM_PSP lr then PSP_NS regs else MSP_NS regs else MSP_NS regs)"

definition vmpu_sys_mux_handler_v8m ::
  "(sau_state \<Rightarrow> u32 \<Rightarrow> u32) \<Rightarrow> u32 \<Rightarrow> u32 \<Rightarrow> v8m_fault_regs \<times> v8m_state \<times> mem
    \<Rightarrow> (u32 \<times> v8m_fault_regs \<times> v8m_state \<times> mem) res" where
  "vmpu_sys_mux_handler_v8m tta lr msp_s = (\<lambda>(regs, st, m).
     let ipsr = int (unat (IPSR_v8m regs AND 0x1FF)) - 16;
         sp = exception_sp_v8m regs lr msp_s in
     if ipsr = - 14 then Inl (Halt NOT_IMPLEMENTED)
     else if ipsr = - 13 then Inl (Halt FAULT_HARD)
     else if ipsr = - 12 then Inl (Halt FAULT_MEMMANAGE)
     else if ipsr = - 11 then Inl (Halt FAULT_BUS)
     else if ipsr = - 10 then Inl (Halt FAULT_USAGE)
     else if ipsr = - 9 then
       (let fault_status = SFSR regs in
        if fault_status AND (SAU_SFSR_AUVIOL_Msk OR SAU_SFSR_SFARVALID_Msk) = SAU_SFSR_AUVIOL_Msk OR SAU_SFSR_SFARVALID_Msk then
          bind_res (vmpu_unpriv_access_v8m tta st m (sp + 6 * 4) (UVISOR_UNPRIV_ACCESS_READ 4) 0) (\<lambda>(pc, m, st).
          bind_res (vmpu_fault_recovery_mpu_v8m st pc sp (SFAR regs) fault_status) (\<lambda>(recovered, st).
          if recovered then Inr (lr, regs\<lparr>SFSR := SFSR regs AND NOT fault_status\<rparr>, st, m)
          else Inl (Halt PERMISSION_DENIED)))
        else Inl (Halt PERMISSION_DENIED))
     else if ipsr = - 5 then Inl (Halt NOT_IMPLEMENTED)
     else if ipsr = - 4 then Inl (Halt FAULT_DEBUG)
     else if ipsr = - 2 then Inl (Halt NOT_IMPLEMENTED)
     else if ipsr = - 1 then Inl (Halt NOT_IMPLEMENTED)
     else Inl (Halt NOT_ALLOWED))"

section \<open>Switching boxes\<close>

text \<open>\<open>while (dst_count-- && vmpu_mpu_push(region++, priority))\<close>.\<close>

primrec push_regions_v8m :: "nat \<Rightarrow> nat \<Rightarrow> u8 \<Rightarrow> sau_state \<Rightarrow> sau_state res" where
  "push_regions_v8m 0 i priority sau = Inr sau"
| "push_regions_v8m (Suc count) i priority sau =
     bind_res (arr_get (sau_region sau) i) (\<lambda>region.
     bind_res (vmpu_mpu_push_v8m sau region priority) (\<lambda>(placed, sau).
     if placed then push_regions_v8m count (Suc i) priority sau else Inr sau))"

text \<open>
  For the public box the count is 0 until its own regions are looked up, so the pointer is not used before. A secure box without regions
  would push the region at a null pointer: that is \<open>Oob\<close>.
\<close>

definition vmpu_switch_v8m :: "v8m_state \<Rightarrow> u8 \<Rightarrow> u8 \<Rightarrow> v8m_state res" where
  "vmpu_switch_v8m st src_box dst_box =
     bind_res (vmpu_mpu_invalidate_v8m (v8_sau st)) (\<lambda>sau.
     bind_res
       (if dst_box \<noteq> 0 then
          bind_res (vmpu_region_get_for_box_v8m sau dst_box) (\<lambda>(ok, region, dst_count).
          case region of
            None \<Rightarrow> Inl Oob
          | Some i \<Rightarrow>
              bind_res (arr_get (sau_region sau) i) (\<lambda>stack.
              bind_res (vmpu_mpu_push_v8m sau stack 255) (\<lambda>(placed, sau).
              Inr (Suc i, dst_count - 1, sau))))
        else Inr (0, 0, sau))
       (\<lambda>(i, dst_count, sau).
         bind_res (page_allocator_iterate_active_pages (v8_pages st) (v8_active_box st)
           (Some vmpu_mem_push_page_acl_iterator_v8m) False sau) (\<lambda>(count, sau).
         bind_res (push_regions_v8m (unat dst_count) i 2 sau) (\<lambda>sau.
         bind_res
           (if dst_box = 0 then
              bind_res (vmpu_region_get_for_box_v8m sau 0) (\<lambda>(ok, region, dst_count).
              push_regions_v8m (unat dst_count) (region_index region) 1 sau)
            else Inr sau)
           (\<lambda>sau. Inr (st\<lparr>v8_sau := sau\<rparr>))))))"

section \<open>Box memory\<close>

definition UVISOR_STACK_BAND_SIZE :: u32 where "UVISOR_STACK_BAND_SIZE = 128"

text \<open>\<open>UVISOR_REGION_ROUND_UP\<close> of the ports other than ARMv7-M.\<close>

definition UVISOR_REGION_ROUND_UP_32 :: "u32 \<Rightarrow> u32" where "UVISOR_REGION_ROUND_UP_32 x = UVISOR_ROUND32_UP x"

text \<open>\<open>g_box_mem_pos\<close>, set when the first box is loaded.\<close>

definition acl_sram_start_v8m :: "UvisorConfig \<Rightarrow> v8m_state \<Rightarrow> u32" where
  "acl_sram_start_v8m cfg st =
     (if v8_box_mem_pos st = 0 then UVISOR_REGION_ROUND_UP_32 (bss_boxes_start cfg) + UVISOR_STACK_BAND_SIZE else v8_box_mem_pos st)"

text \<open>The results are the start of the BSS sections, the stack pointer and the new state.\<close>

definition vmpu_acl_sram_v8m ::
  "build_config \<Rightarrow> UvisorConfig \<Rightarrow> bool \<Rightarrow> u8 \<Rightarrow> v8m_state \<Rightarrow> u8 \<Rightarrow> u32 \<Rightarrow> u32 \<Rightarrow> (u32 \<times> u32 \<times> v8m_state) res" where
  "vmpu_acl_sram_v8m bc cfg counted box_count st box_id bss_sz stack_sz =
     (let pos = acl_sram_start_v8m cfg st;
          stack_sz = UVISOR_REGION_ROUND_UP_32 (UVISOR_MIN_STACK stack_sz) in
      bind_res (vmpu_region_add_static_acl_v8m counted box_count (v8_sau st) box_id pos stack_sz UVISOR_TACLDEF_STACK 0) (\<lambda>(n, sau).
      let pos = pos + stack_sz;
          stack_pointer = pos;
          pos = pos + UVISOR_STACK_BAND_SIZE in
      bind_res (assert_res bc (bss_sz \<noteq> 0)) (\<lambda>_.
      let bss_sz = UVISOR_REGION_ROUND_UP_32 bss_sz;
          bss_start = pos in
      bind_res (vmpu_region_add_static_acl_v8m counted box_count sau box_id pos bss_sz UVISOR_TACLDEF_DATA 0) (\<lambda>(n, sau).
      Inr (bss_start, stack_pointer, st\<lparr>v8_sau := sau, v8_box_mem_pos := pos + (bss_sz + UVISOR_STACK_BAND_SIZE)\<rparr>)))))"

section \<open>Static regions\<close>

definition SCB_AIRCR_VECTKEY :: u32 where "SCB_AIRCR_VECTKEY = 0x5FA"
definition SCB_AIRCR_ENDIANESS_Msk :: u32 where "SCB_AIRCR_ENDIANESS_Msk = push_bit 15 1"
definition SCB_AIRCR_PRIS_Msk :: u32 where "SCB_AIRCR_PRIS_Msk = push_bit 14 1"
definition SCB_AIRCR_PRIGROUP_Msk :: u32 where "SCB_AIRCR_PRIGROUP_Msk = push_bit 8 7"
definition SCB_SHCSR_SECUREFAULTENA_Msk :: u32 where "SCB_SHCSR_SECUREFAULTENA_Msk = push_bit 19 1"
definition SCB_SHCSR_USGFAULTENA_Msk :: u32 where "SCB_SHCSR_USGFAULTENA_Msk = push_bit 18 1"
definition SCB_SHCSR_BUSFAULTENA_Msk :: u32 where "SCB_SHCSR_BUSFAULTENA_Msk = push_bit 17 1"
definition SCB_SHCSR_MEMFAULTENA_Msk :: u32 where "SCB_SHCSR_MEMFAULTENA_Msk = push_bit 16 1"

text \<open>The values written to \<open>AIRCR\<close> and \<open>SHCSR\<close>.\<close>

definition arch_init_aircr :: "u32 \<Rightarrow> u32" where
  "arch_init_aircr aircr = push_bit 16 SCB_AIRCR_VECTKEY OR (aircr AND SCB_AIRCR_ENDIANESS_Msk) OR SCB_AIRCR_PRIS_Msk OR push_bit 13 0 OR
     (aircr AND SCB_AIRCR_PRIGROUP_Msk) OR push_bit 2 0 OR push_bit 1 0"

definition arch_init_shcsr :: "u32 \<Rightarrow> u32" where
  "arch_init_shcsr shcsr = shcsr OR (SCB_SHCSR_SECUREFAULTENA_Msk OR SCB_SHCSR_USGFAULTENA_Msk OR SCB_SHCSR_BUSFAULTENA_Msk OR SCB_SHCSR_MEMFAULTENA_Msk)"

text \<open>
  The linker symbols of the entry points are the arguments \<open>entry_start\<close> and \<open>entry_end\<close>; \<open>garbage\<close> gives the initial value of the local variable in each
  of the four calls. The registers are \<open>AIRCR\<close> and \<open>SHCSR\<close>.
\<close>

definition vmpu_arch_init_v8m ::
  "UvisorConfig \<Rightarrow> u32 \<Rightarrow> u32 \<Rightarrow> (nat \<Rightarrow> MpuRegion) \<Rightarrow> u32 \<times> u32 \<times> sau_state \<Rightarrow> (u32 \<times> u32 \<times> sau_state) res" where
  "vmpu_arch_init_v8m cfg entry_start entry_end garbage = (\<lambda>(aircr, shcsr, sau).
     let aircr = arch_init_aircr aircr;
         shcsr = arch_init_shcsr shcsr;
         open_acl = UVISOR_TACL_UEXECUTE OR UVISOR_TACL_UREAD OR UVISOR_TACL_UWRITE in
     bind_res (vmpu_mpu_init_v8m sau) (\<lambda>sau.
     bind_res (vmpu_mpu_set_static_acl_v8m (garbage 0) sau 0 (flash_start cfg) (entry_start - flash_start cfg) open_acl 0) (\<lambda>(n, sau).
     bind_res (vmpu_mpu_set_static_acl_v8m (garbage 1) sau 1 entry_start (entry_end - entry_start)
       (UVISOR_TACL_SEXECUTE OR UVISOR_TACL_UEXECUTE) 2) (\<lambda>(n, sau).
     bind_res (vmpu_mpu_set_static_acl_v8m (garbage 2) sau 2 entry_end (flash_end cfg - entry_end) open_acl 0) (\<lambda>(n, sau).
     bind_res (vmpu_mpu_set_static_acl_v8m (garbage 3) sau 3 (page_end cfg) (sram_end cfg - page_end cfg) open_acl 0) (\<lambda>(n, sau).
     Inr (aircr, shcsr, vmpu_mpu_lock_v8m sau)))))))"

section \<open>The order of the boxes\<close>

definition vmpu_order_boxes_v8m :: "nat list \<Rightarrow> nat \<Rightarrow> nat list" where
  "vmpu_order_boxes_v8m best_order box_count = fold (\<lambda>i order. order[i := i]) [0..<box_count] best_order"

section \<open>Pushing a region\<close>

text \<open>The shape of the driver's state.\<close>

definition sau_ok :: "sau_state \<Rightarrow> bool" where
  "sau_ok s \<longleftrightarrow> length (sau_rbar s) = 8 \<and> length (sau_rlar s) = 8 \<and> length (sau_priority s) = 8 \<and> sau_slot s \<in> {4, 5, 6, 7}"

text \<open>The table of regions and the static regions are as in \<open>s0\<close>, and every other region of the unit is disabled or satisfies \<open>G\<close>.\<close>

definition sau_inv :: "(u32 \<Rightarrow> u32 \<Rightarrow> bool) \<Rightarrow> sau_state \<Rightarrow> sau_state \<Rightarrow> bool" where
  "sau_inv G s0 s \<longleftrightarrow> sau_ok s \<and>
     sau_region s = sau_region s0 \<and> sau_box_region s = sau_box_region s0 \<and> sau_region_count s = sau_region_count s0 \<and>
     take 4 (sau_rbar s) = take 4 (sau_rbar s0) \<and> take 4 (sau_rlar s) = take 4 (sau_rlar s0) \<and>
     (\<forall>slot. 4 \<le> slot \<and> slot < 8 \<longrightarrow> sau_rlar s ! slot = 0 \<or> G (sau_rbar s ! slot) (sau_rlar s ! slot))"

abbreviation region_open :: "(u32 \<Rightarrow> u32 \<Rightarrow> bool) \<Rightarrow> MpuRegion \<Rightarrow> bool" where
  "region_open G r \<equiv> G (region_start r) (SAU_RLAR (region_config r) (region_end r))"

lemma next_slot_values [simp]: "next_slot 4 = 5" "next_slot 5 = 6" "next_slot 6 = 7" "next_slot 7 = 4"
  by (simp_all add: next_slot_def sau_consts)

lemma next_slot_range: "slot \<in> {4, 5, 6, 7} \<Longrightarrow> next_slot slot \<in> {4, 5, 6, 7}"
  by auto

lemma next_slot_cycle: "slot \<in> {4, 5, 6, 7} \<Longrightarrow> (next_slot ^^ Suc 3) slot = slot"
  by (auto simp: numeral_3_eq_3)

lemma sau_inv_add:
  assumes "sau_inv G s0 s" "region_open G r"
  shows "\<exists>s'. vmpu_sau_add_region s r (sau_slot s) priority = Inr s' \<and> sau_inv G s0 s' \<and> sau_slot s' = sau_slot s"
proof -
  have slot: "4 \<le> unat (sau_slot s)" "unat (sau_slot s) < 8" using assms(1) by (auto simp: sau_inv_def sau_ok_def)
  then show ?thesis using assms
    by (auto simp: vmpu_sau_add_region_def write_SAU_def sau_inv_def sau_ok_def nth_list_update)
qed

lemma sau_inv_slot: "sau_inv G s0 s \<Longrightarrow> sau_inv G s0 (s\<lparr>sau_slot := next_slot (sau_slot s)\<rparr>)"
  using next_slot_range by (auto simp: sau_inv_def sau_ok_def)

lemma sau_inv_push_loop:
  assumes "sau_inv G s0 s" "region_open G r" "(next_slot ^^ Suc k) (sau_slot s) = start" "k < fuel"
  shows "\<exists>b s'. sau_push_loop fuel s r priority start = Inr (b, s') \<and> sau_inv G s0 s'"
  using assms
proof (induction fuel arbitrary: s k)
  case (Suc fuel)
  let ?s = "s\<lparr>sau_slot := next_slot (sau_slot s)\<rparr>"
  have inv: "sau_inv G s0 ?s" by (rule sau_inv_slot [OF Suc.prems(1)])
  then have len: "unat (next_slot (sau_slot s)) < length (sau_priority s)" by (auto simp: sau_inv_def sau_ok_def)
  obtain s' where add: "vmpu_sau_add_region ?s r (next_slot (sau_slot s)) priority = Inr s'" "sau_inv G s0 s'"
    using sau_inv_add [OF inv Suc.prems(2), of priority] by auto
  show ?case
  proof (cases "next_slot (sau_slot s) = start")
    case True
    then show ?thesis using inv len add by (auto simp: Let_def)
  next
    case False
    then obtain j where j: "k = Suc j" using Suc.prems(3) by (cases k) auto
    then have "(next_slot ^^ Suc j) (sau_slot ?s) = start" using Suc.prems(3) by (simp only: funpow_Suc_right o_apply) simp
    then show ?thesis using Suc.IH [OF inv Suc.prems(2), of j] Suc.prems(4) len add False j by (auto simp: Let_def)
  qed
qed simp

lemma sau_inv_push:
  assumes "sau_inv G s0 s" "region_open G r"
  shows "\<exists>s'. vmpu_mpu_push_v8m s r priority = Inr (True, s') \<and> sau_inv G s0 s'"
proof -
  have "sau_slot s \<in> {4, 5, 6, 7}" using assms(1) by (simp add: sau_inv_def sau_ok_def)
  then obtain b s1 where loop: "sau_push_loop (Suc (unat ARMv8M_SAU_REGIONS)) s r (if priority = 0 then 1 else priority) (sau_slot s) = Inr (b, s1)"
      "sau_inv G s0 s1"
    using sau_inv_push_loop [OF assms next_slot_cycle, of "Suc (unat ARMv8M_SAU_REGIONS)" "if priority = 0 then 1 else priority"]
    by (auto simp: ARMv8M_SAU_REGIONS_def)
  obtain s2 where "vmpu_sau_add_region (s1\<lparr>sau_slot := next_slot (sau_slot s1)\<rparr>) r (next_slot (sau_slot s1)) (if priority = 0 then 1 else priority) = Inr s2"
      "sau_inv G s0 s2"
    using sau_inv_add [OF sau_inv_slot [OF loop(2)] assms(2)] by auto
  then show ?thesis
    using loop(2) unfolding vmpu_mpu_push_v8m_def Let_def loop(1) by (cases b) simp_all
qed

lemma sau_inv_invalidate:
  assumes "sau_ok s"
  shows "\<exists>s'. vmpu_mpu_invalidate_v8m s = Inr s' \<and> sau_inv G s s'"
proof -
  have list: "[unat ARMv8M_SAU_REGIONS_STATIC..<unat ARMv8M_SAU_REGIONS_MAX] = [4, 5, 6, 7]" by (simp add: sau_consts upt_rec)
  have "slot = 4 \<or> slot = 5 \<or> slot = 6 \<or> slot = 7" if "4 \<le> slot" "slot < 8" for slot :: nat using that by linarith
  then show ?thesis using assms unfolding vmpu_mpu_invalidate_v8m_def list
    by (auto simp: write_SAU_def sau_inv_def sau_ok_def ARMv8M_SAU_REGIONS_STATIC_def nth_list_update)
qed

lemma sau_inv_push_regions:
  assumes "sau_inv G s0 s" "\<forall>r \<in> set (take n (drop i (sau_region s0))). region_open G r" "i + n \<le> length (sau_region s0)"
  shows "\<exists>s'. push_regions_v8m n i priority s = Inr s' \<and> sau_inv G s0 s'"
  using assms
proof (induction n arbitrary: i s)
  case (Suc n)
  have i: "i < length (sau_region s)" "sau_region s = sau_region s0" using Suc.prems by (auto simp: sau_inv_def)
  have "drop i (sau_region s0) = sau_region s0 ! i # drop (Suc i) (sau_region s0)" using i by (simp add: Cons_nth_drop_Suc)
  then have open_all: "region_open G (sau_region s0 ! i)" "\<forall>r \<in> set (take n (drop (Suc i) (sau_region s0))). region_open G r"
    using Suc.prems(2) by simp_all
  obtain s' where "vmpu_mpu_push_v8m s (sau_region s0 ! i) priority = Inr (True, s')" "sau_inv G s0 s'"
    using sau_inv_push [OF Suc.prems(1) open_all(1)] by blast
  then show ?case using Suc.IH [of s' "Suc i"] open_all(2) Suc.prems(3) i by simp
qed simp

section \<open>Only granted memory is open\<close>

text \<open>A pair of register values that opens a region of the box or of the public box, or a page that the box owns.\<close>

definition grants :: "v8m_state \<Rightarrow> u8 \<Rightarrow> u32 \<Rightarrow> u32 \<Rightarrow> bool" where
  "grants st b rbar rlar \<longleftrightarrow>
     (\<exists>r \<in> set (sau_regions_of (v8_sau st) b) \<union> set (sau_regions_of (v8_sau st) 0). rbar = region_start r \<and> rlar = SAU_RLAR (region_config r) (region_end r)) \<or>
     (\<exists>p < pages (v8_pages st). owned (v8_pages st) (unat b) p \<and> rbar = g_page_heap_start (v8_pages st) + of_nat p * g_page_size (v8_pages st) \<and>
        rlar = SAU_RLAR 1 (rbar + g_page_size (v8_pages st)))"

text \<open>The regions of every box lie in the table.\<close>

definition sau_slices_ok :: "sau_state \<Rightarrow> bool" where
  "sau_slices_ok s \<longleftrightarrow> length (sau_box_region s) = UVISOR_MAX_BOXES \<and>
     (\<forall>box \<in> set (sau_box_region s). case slice_regions box of None \<Rightarrow> slice_count box = 0 | Some i \<Rightarrow> i + unat (slice_count box) \<le> length (sau_region s))"

definition v8m_ok :: "v8m_state \<Rightarrow> bool" where
  "v8m_ok st \<longleftrightarrow> sau_ok (v8_sau st) \<and> sau_slices_ok (v8_sau st) \<and> pa_ok (v8_pages st) \<and> unat (v8_active_box st) < UVISOR_MAX_BOXES"

lemma slice_bounds:
  assumes "sau_slices_ok s" "unat b < UVISOR_MAX_BOXES"
  shows "case slice_regions (sau_box_region s ! unat b) of
      None \<Rightarrow> slice_count (sau_box_region s ! unat b) = 0 \<and> sau_regions_of s b = []
    | Some i \<Rightarrow> i + unat (slice_count (sau_box_region s ! unat b)) \<le> length (sau_region s) \<and>
        sau_regions_of s b = take (unat (slice_count (sau_box_region s ! unat b))) (drop i (sau_region s))"
proof -
  have "sau_box_region s ! unat b \<in> set (sau_box_region s)" using assms by (simp add: sau_slices_ok_def)
  then show ?thesis using assms(1) by (auto simp: sau_slices_ok_def sau_regions_of_def Let_def split: option.splits)
qed

lemma sau_inv_iterate_pages:
  assumes pa: "pa_ok pa" "unat b < UVISOR_MAX_BOXES"
    and G: "\<And>p. p < pages pa \<Longrightarrow> owned pa (unat b) p \<Longrightarrow>
      G (g_page_heap_start pa + of_nat p * g_page_size pa) (SAU_RLAR 1 (g_page_heap_start pa + of_nat p * g_page_size pa + g_page_size pa))"
    and inv: "sau_inv G s0 s" and n: "unat ii + n \<le> pages pa"
  shows "\<exists>count s'. iterate_pages_loop pa (g_page_owner_map pa ! unat b) (Some vmpu_mem_push_page_acl_iterator_v8m) False n ii c s = Inr (count, s') \<and>
    sau_inv G s0 s'"
  using inv n
proof (induction n arbitrary: ii c s)
  case (Suc n)
  have maps: "maps_ok pa" using pa(1) by (simp add: pa_ok_def)
  have ii: "unat ii < pages pa" using Suc.prems(2) by simp
  have "unat ii + unat (g_page_map_shift pa) < 32" "length (g_page_owner_map pa ! unat b) = 1"
    using page_small [OF maps ii] pa(2) maps by (auto simp: maps_ok_def)
  then have get: "page_allocator_map_get (g_page_map_shift pa) (g_page_owner_map pa ! unat b) ii = Inr (owned pa (unat b) (unat ii))"
    by (simp add: map_get_bit owned_def)
  have "unat ii < 255" using ii page_small [OF maps ii] by simp
  then have next_ii: "unat (ii + 1) = Suc (unat ii)" by (simp add: unat_word_ariths)
  note step = Suc.IH [of _ "ii + 1"]
  show ?case
  proof (cases "owned pa (unat b) (unat ii)")
    case True
    let ?start = "g_page_heap_start pa + g_page_size pa * ucast ii"
    have eq: "?start = g_page_heap_start pa + of_nat (unat ii) * g_page_size pa" by (simp add: mult.commute)
    obtain s' where "vmpu_mem_push_page_acl_iterator_v8m ?start (?start + g_page_size pa) ii s = Inr (True, s')" "sau_inv G s0 s'"
      using sau_inv_push [OF Suc.prems(1), of "\<lparr>region_start = ?start, region_end = ?start + g_page_size pa, region_config = 1, region_acl = 0\<rparr>" 100]
        G [OF ii True] unfolding vmpu_mem_push_page_acl_iterator_v8m_def eq by auto
    then show ?thesis using get True step [of s' "c + 1"] Suc.prems(2) next_ii by simp
  next
    case False
    then show ?thesis using get step [OF Suc.prems(1), of c] Suc.prems(2) next_ii by simp
  qed
qed simp

text \<open>The state after a switch or a recovery, compared with the state \<open>st0\<close> before the switch.\<close>

definition opens_only_granted :: "v8m_state \<Rightarrow> v8m_state \<Rightarrow> bool" where
  "opens_only_granted st0 st \<longleftrightarrow> sau_inv (grants st0 (v8_active_box st0)) (v8_sau st0) (v8_sau st) \<and> v8_active_box st = v8_active_box st0 \<and>
     (\<exists>t. length t = UVISOR_PAGE_MAX_COUNT \<and> v8_pages st = (v8_pages st0)\<lparr>g_page_fault_table := t\<rparr>)"

lemma get_for_box_Some:
  assumes "vmpu_region_get_for_box_v8m s b = Inr (ok, region, n)" "sau_slices_ok s"
  shows "unat n = length (sau_regions_of s b) \<and> (n \<noteq> 0 \<longrightarrow> (\<exists>i. region = Some i \<and> i + unat n \<le> length (sau_region s) \<and>
    sau_regions_of s b = take (unat n) (drop i (sau_region s)))) \<or> region = None \<and> n = 0"
proof (cases "unat b < UVISOR_MAX_BOXES \<and> sau_region_count s \<noteq> 0")
  case True
  then show ?thesis using assms slice_bounds [OF assms(2), of b]
    by (auto simp: vmpu_region_get_for_box_v8m_def res_simps split: option.splits if_splits)
next
  case False
  then show ?thesis using assms by (auto simp: vmpu_region_get_for_box_v8m_def split: if_splits)
qed

lemma sau_inv_get_for_box:
  assumes "sau_inv G s0 s" shows "vmpu_region_get_for_box_v8m s b = vmpu_region_get_for_box_v8m s0 b"
  using assms by (simp add: sau_inv_def vmpu_region_get_for_box_v8m_def)

lemma push_box_regions:
  assumes "sau_inv G s0 s" "sau_slices_ok s0" "vmpu_region_get_for_box_v8m s0 b = Inr (ok, region, n)"
    "\<forall>r \<in> set (sau_regions_of s0 b). region_open G r"
  shows "\<exists>s'. push_regions_v8m (unat n) (region_index region) priority s = Inr s' \<and> sau_inv G s0 s'"
proof (cases "n = 0")
  case False
  then obtain i where "region = Some i" "i + unat n \<le> length (sau_region s0)" "sau_regions_of s0 b = take (unat n) (drop i (sau_region s0))"
    using get_for_box_Some [OF assms(3,2)] by blast
  then show ?thesis using sau_inv_push_regions [OF assms(1), of "unat n" i priority] assms(4) unfolding region_index_def by simp
qed (use assms(1) in simp)

lemma v8m_ok_parts:
  assumes "v8m_ok st"
  shows "sau_ok (v8_sau st)" "sau_slices_ok (v8_sau st)" "pa_ok (v8_pages st)" "unat (v8_active_box st) < UVISOR_MAX_BOXES"
    "unat (v8_active_box st) < length (g_page_owner_map (v8_pages st))"
  using assms by (auto simp: v8m_ok_def pa_ok_def maps_ok_def)

lemma granted_regions:
  "r \<in> set (sau_regions_of (v8_sau st) b) \<union> set (sau_regions_of (v8_sau st) 0) \<Longrightarrow> region_open (grants st b) r"
  by (auto simp: grants_def)

lemma switch_pages:
  assumes "v8m_ok st" "sau_inv (grants st (v8_active_box st)) s0 s"
  shows "\<exists>c s'. page_allocator_iterate_active_pages (v8_pages st) (v8_active_box st) (Some vmpu_mem_push_page_acl_iterator_v8m) False s = Inr (c, s') \<and>
    sau_inv (grants st (v8_active_box st)) s0 s'"
proof -
  note ok = v8m_ok_parts [OF assms(1)]
  have "\<exists>c s'. iterate_pages_loop (v8_pages st) (g_page_owner_map (v8_pages st) ! unat (v8_active_box st)) (Some vmpu_mem_push_page_acl_iterator_v8m) False
      (pages (v8_pages st)) 0 0 s = Inr (c, s') \<and> sau_inv (grants st (v8_active_box st)) s0 s'"
    by (rule sau_inv_iterate_pages [OF ok(3,4) _ assms(2)]) (auto simp: grants_def)
  then show ?thesis using ok(5) by (simp add: page_allocator_iterate_active_pages_def)
qed

lemma switch_public:
  assumes ok: "v8m_ok st" and active: "v8_active_box st = 0"
  shows "\<exists>s. vmpu_switch_v8m st src 0 = Inr (st\<lparr>v8_sau := s\<rparr>) \<and> sau_inv (grants st 0) (v8_sau st) s"
proof -
  let ?G = "grants st 0" let ?s = "v8_sau st"
  note st = v8m_ok_parts [OF ok]
  obtain s1 where s1: "vmpu_mpu_invalidate_v8m ?s = Inr s1" "sau_inv ?G ?s s1" using sau_inv_invalidate [OF st(1)] by blast
  then obtain c s2 where s2: "page_allocator_iterate_active_pages (v8_pages st) 0 (Some vmpu_mem_push_page_acl_iterator_v8m) False s1 = Inr (c, s2)"
      "sau_inv ?G ?s s2"
    using switch_pages [OF ok, of ?s s1] active by auto
  obtain ok' region n where get: "vmpu_region_get_for_box_v8m ?s 0 = Inr (ok', region, n)"
    using st(2) by (cases "sau_region_count ?s = 0") (auto simp: vmpu_region_get_for_box_v8m_def sau_slices_ok_def UVISOR_MAX_BOXES_def)
  obtain s3 where "push_regions_v8m (unat n) (region_index region) 1 s2 = Inr s3" "sau_inv ?G ?s s3"
    using push_box_regions [OF s2(2) st(2) get] granted_regions [of _ st 0] by auto
  then show ?thesis using s1 s2 active get sau_inv_get_for_box [OF s2(2), of 0] by (auto simp: vmpu_switch_v8m_def)
qed

lemma secure_box_regions:
  assumes "sau_slices_ok s" "vmpu_region_get_for_box_v8m s b = Inr (ok, Some i, n)"
  shows "\<exists>k. unat (n - 1) = k \<and> Suc i + k \<le> length (sau_region s) \<and> sau_regions_of s b = sau_region s ! i # take k (drop (Suc i) (sau_region s))"
proof -
  have "n \<noteq> 0" using assms(2) by (auto simp: vmpu_region_get_for_box_v8m_def res_simps split: if_splits)
  then have i: "i + unat n \<le> length (sau_region s)" "sau_regions_of s b = take (unat n) (drop i (sau_region s))"
    using get_for_box_Some [OF assms(2,1)] by blast+
  obtain k where k: "unat n = Suc k" "unat (n - 1) = k" using \<open>n \<noteq> 0\<close> by (cases "unat n") (auto simp: unat_minus_one unat_eq_zero)
  have "drop i (sau_region s) = sau_region s ! i # drop (Suc i) (sau_region s)" using i(1) k by (intro Cons_nth_drop_Suc [symmetric]) simp
  then show ?thesis using i k by simp
qed

lemma switch_secure:
  assumes ok: "v8m_ok st" and dst: "v8_active_box st = dst" "dst \<noteq> 0"
    and get: "vmpu_region_get_for_box_v8m (v8_sau st) dst = Inr (ok', Some i, n)"
  shows "\<exists>s. vmpu_switch_v8m st src dst = Inr (st\<lparr>v8_sau := s\<rparr>) \<and> sau_inv (grants st dst) (v8_sau st) s"
proof -
  let ?G = "grants st dst" let ?s = "v8_sau st"
  note st = v8m_ok_parts [OF ok]
  obtain s1 where s1: "vmpu_mpu_invalidate_v8m ?s = Inr s1" "sau_inv ?G ?s s1" using sau_inv_invalidate [OF st(1)] by blast
  obtain k where k: "unat (n - 1) = k" "Suc i + k \<le> length (sau_region ?s)"
      and regions: "sau_regions_of ?s dst = sau_region ?s ! i # take k (drop (Suc i) (sau_region ?s))"
    using secure_box_regions [OF st(2) get] by blast
  have box: "region_open ?G (sau_region ?s ! i)" "\<forall>r \<in> set (take k (drop (Suc i) (sau_region ?s))). region_open ?G r"
    using granted_regions [of _ st dst] regions by auto
  have reg: "sau_region s1 = sau_region ?s" using s1(2) by (simp add: sau_inv_def)
  obtain s2 where s2: "vmpu_mpu_push_v8m s1 (sau_region ?s ! i) 255 = Inr (True, s2)" "sau_inv ?G ?s s2"
    using sau_inv_push [OF s1(2) box(1)] by blast
  obtain c s3 where s3: "page_allocator_iterate_active_pages (v8_pages st) dst (Some vmpu_mem_push_page_acl_iterator_v8m) False s2 = Inr (c, s3)"
      "sau_inv ?G ?s s3"
    using switch_pages [OF ok, of ?s s2] s2(2) dst(1) by auto
  obtain s4 where "push_regions_v8m k (Suc i) 2 s3 = Inr s4" "sau_inv ?G ?s s4"
    using sau_inv_push_regions [OF s3(2) box(2) k(2)] by blast
  then show ?thesis using dst s1 s2 s3 get sau_inv_get_for_box [OF s1(2), of dst] reg k by (auto simp: vmpu_switch_v8m_def)
qed

lemma get_for_box_regions:
  assumes "sau_slices_ok s" "sau_region_count s \<noteq> 0" "unat b < UVISOR_MAX_BOXES" "sau_regions_of s b \<noteq> []"
  shows "\<exists>ok i n. vmpu_region_get_for_box_v8m s b = Inr (ok, Some i, n)"
  using assms slice_bounds [OF assms(1,3)]
  by (auto simp: vmpu_region_get_for_box_v8m_def sau_slices_ok_def split: option.splits)

lemma vmpu_switch_v8m_inv:
  assumes "v8m_ok st" "v8_active_box st = dst" "sau_region_count (v8_sau st) \<noteq> 0" "dst = 0 \<or> sau_regions_of (v8_sau st) dst \<noteq> []"
  shows "\<exists>st1. vmpu_switch_v8m st src dst = Inr st1 \<and> opens_only_granted st st1"
proof -
  note ok = v8m_ok_parts [OF assms(1)]
  obtain s where s: "vmpu_switch_v8m st src dst = Inr (st\<lparr>v8_sau := s\<rparr>)" "sau_inv (grants st dst) (v8_sau st) s"
    using switch_public [OF assms(1), of src] switch_secure [OF assms(1,2), of _ _ _ src] get_for_box_regions [OF ok(2) assms(3), of dst] ok(4) assms(2,4)
    by (cases "dst = 0") auto
  moreover have "length (g_page_fault_table (v8_pages st)) = UVISOR_PAGE_MAX_COUNT" using assms(1) by (simp add: v8m_ok_def pa_ok_def maps_ok_def)
  ultimately show ?thesis using assms(2)
    by (auto simp: opens_only_granted_def intro!: exI [of _ "g_page_fault_table (v8_pages st)"])
qed

lemma find_region_granted:
  assumes "vmpu_fault_find_region_v8m st a = Inr (Some i)"
  shows "i < length (sau_region (v8_sau st)) \<and> region_contains (sau_region (v8_sau st) ! i) a \<and>
    sau_region (v8_sau st) ! i \<in> set (sau_regions_of (v8_sau st) (v8_active_box st)) \<union> set (sau_regions_of (v8_sau st) 0)"
proof -
  have "i < length (sau_region s) \<and> region_contains (sau_region s ! i) a \<and> sau_region s ! i \<in> set (sau_regions_of s b)"
    if "vmpu_region_find_for_address_v8m s b a = Inr (Some i)" for s b
    using that by (auto simp: vmpu_region_find_for_address_v8m_def res_simps sau_regions_of_def Let_def split: option.splits if_splits
        dest!: find_region_loop_Some)
  then show ?thesis using assms by (auto simp: vmpu_fault_find_region_v8m_def res_simps split: if_splits)
qed

lemma active_region_granted:
  assumes "pa_ok pa" "unat b < UVISOR_MAX_BOXES" "page_allocator_get_active_region_for_address pa b a = Inr (rc, Some (start, e, p))"
  shows "unat p < pages pa" "owned pa (unat b) (unat p)" "in_page pa (unat p) a"
    "start = g_page_heap_start pa + of_nat (unat p) * g_page_size pa" "e = start + g_page_size pa"
proof -
  have p: "page_allocator_get_page_from_address pa a = p" "p \<noteq> UVISOR_PAGE_UNUSED"
    and get: "page_allocator_map_get (g_page_map_shift pa) (g_page_owner_map pa ! unat b) p = Inr True"
    and bounds: "start = g_page_heap_start pa + g_page_size pa * ucast p" "e = start + g_page_size pa"
    using assms(3) by (auto simp: page_allocator_get_active_region_for_address_def Let_def res_simps split: if_splits)
  show here: "unat p < pages pa" "in_page pa (unat p) a" using page_from_address [OF assms(1) p] by auto
  have maps: "maps_ok pa" using assms(1) by (simp add: pa_ok_def)
  have "unat p + unat (g_page_map_shift pa) < 32" "length (g_page_owner_map pa ! unat b) = 1"
    using page_small [OF maps here(1)] assms(2) maps by (auto simp: maps_ok_def)
  then show "owned pa (unat b) (unat p)" using get by (simp add: map_get_bit owned_def)
  show "start = g_page_heap_start pa + of_nat (unat p) * g_page_size pa" "e = start + g_page_size pa"
    using bounds by (simp_all add: mult.commute)
qed

text \<open>What a box may access: its regions, the regions of the public box and its pages.\<close>

definition accessible :: "v8m_state \<Rightarrow> u8 \<Rightarrow> u32 \<Rightarrow> bool" where
  "accessible st b a \<longleftrightarrow>
     (\<exists>r \<in> set (sau_regions_of (v8_sau st) b) \<union> set (sau_regions_of (v8_sau st) 0). region_contains r a) \<or>
     (\<exists>p < pages (v8_pages st). owned (v8_pages st) (unat b) p \<and> in_page (v8_pages st) p a)"

lemma fault_table_maps:
  "owned (pa\<lparr>g_page_fault_table := t\<rparr>) = owned pa" "used (pa\<lparr>g_page_fault_table := t\<rparr>) = used pa" "in_page (pa\<lparr>g_page_fault_table := t\<rparr>) = in_page pa"
  by (simp_all add: fun_eq_iff owned_def used_def in_page_def)

lemma fault_table_pa_ok: "pa_ok pa \<Longrightarrow> length t = UVISOR_PAGE_MAX_COUNT \<Longrightarrow> pa_ok (pa\<lparr>g_page_fault_table := t\<rparr>)"
  by (simp add: pa_ok_def maps_ok_def geometry_ok_def ownership_ok_def free_pages_def fault_table_maps)

lemma register_fault_table:
  assumes "page_allocator_register_fault (pa\<lparr>g_page_fault_table := t\<rparr>) p = Inr pa'" "length t = n"
  shows "\<exists>t'. length t' = n \<and> pa' = pa\<lparr>g_page_fault_table := t'\<rparr>"
proof (cases "p < g_page_count_total pa")
  case True
  then show ?thesis using assms
    by (auto simp: page_allocator_register_fault_def res_simps intro!: exI [of _ "t[unat p := t ! unat p + 1]"])
qed (use assms in \<open>auto simp: page_allocator_register_fault_def\<close>)

text \<open>What stays as it was.\<close>

lemma opens_only_granted_frame:
  assumes "v8m_ok st0" "opens_only_granted st0 st"
  shows "sau_inv (grants st0 (v8_active_box st0)) (v8_sau st0) (v8_sau st)" "v8_active_box st = v8_active_box st0" "pa_ok (v8_pages st)"
    "sau_regions_of (v8_sau st) = sau_regions_of (v8_sau st0)" "owned (v8_pages st) = owned (v8_pages st0)" "in_page (v8_pages st) = in_page (v8_pages st0)"
    "pages (v8_pages st) = pages (v8_pages st0)" "g_page_heap_start (v8_pages st) = g_page_heap_start (v8_pages st0)"
    "g_page_size (v8_pages st) = g_page_size (v8_pages st0)"
proof -
  obtain t where t: "length t = UVISOR_PAGE_MAX_COUNT" "v8_pages st = (v8_pages st0)\<lparr>g_page_fault_table := t\<rparr>"
    using assms(2) by (auto simp: opens_only_granted_def)
  show inv: "sau_inv (grants st0 (v8_active_box st0)) (v8_sau st0) (v8_sau st)" "v8_active_box st = v8_active_box st0"
    using assms(2) by (auto simp: opens_only_granted_def)
  then show "sau_regions_of (v8_sau st) = sau_regions_of (v8_sau st0)"
    by (simp add: sau_inv_def sau_regions_of_def fun_eq_iff Let_def split: option.split)
  show "pa_ok (v8_pages st)" unfolding t(2) by (rule fault_table_pa_ok [OF v8m_ok_parts(3) [OF assms(1)] t(1)])
qed (use assms(2) in \<open>auto simp: opens_only_granted_def fault_table_maps\<close>)

lemma recovery_page:
  assumes ok: "v8m_ok st0" and inv: "opens_only_granted st0 st"
    and found: "page_allocator_get_active_region_for_address (v8_pages st) (v8_active_box st0) a = Inr (rc, Some (start, e, p))"
    and run: "vmpu_fault_recovery_mpu_v8m st pc sp a fs = Inr (b, st')"
  shows "opens_only_granted st0 st' \<and> accessible st0 (v8_active_box st0) a"
proof -
  let ?b = "v8_active_box st0" let ?G = "grants st0 ?b"
  note frame = opens_only_granted_frame [OF ok inv]
  note page = active_region_granted [OF frame(3) v8m_ok_parts(4) [OF ok] found, unfolded frame(5-9)]
  have "?G start (SAU_RLAR 1 e)" using page by (auto simp: grants_def)
  then obtain s' where "vmpu_mem_push_page_acl_iterator_v8m start e ?b (v8_sau st) = Inr (True, s')" "sau_inv ?G (v8_sau st0) s'"
    using sau_inv_push [OF frame(1), of "\<lparr>region_start = start, region_end = e, region_config = 1, region_acl = 0\<rparr>" 100]
    unfolding vmpu_mem_push_page_acl_iterator_v8m_def by auto
  moreover have "accessible st0 ?b a" using page by (auto simp: accessible_def)
  ultimately show ?thesis using run found inv frame(2)
    by (auto simp: vmpu_fault_recovery_mpu_v8m_def res_simps opens_only_granted_def dest: register_fault_table)
qed

lemma recovery_region:
  assumes ok: "v8m_ok st0" and inv: "opens_only_granted st0 st"
    and found: "page_allocator_get_active_region_for_address (v8_pages st) (v8_active_box st0) a = Inr (rc, None)"
    and run: "vmpu_fault_recovery_mpu_v8m st pc sp a fs = Inr (b, st')"
  shows "opens_only_granted st0 st' \<and> (b \<longrightarrow> accessible st0 (v8_active_box st0) a)"
proof (cases b)
  case True
  let ?b = "v8_active_box st0" let ?G = "grants st0 ?b"
  note frame = opens_only_granted_frame [OF ok inv]
  obtain i where i: "vmpu_fault_find_region_v8m st a = Inr (Some i)"
    using run found True frame(2) by (auto simp: vmpu_fault_recovery_mpu_v8m_def res_simps split: option.splits)
  note r = find_region_granted [OF i, unfolded frame]
  obtain s' where "vmpu_mpu_push_v8m (v8_sau st) (sau_region (v8_sau st) ! i) 3 = Inr (True, s')" "sau_inv ?G (v8_sau st0) s'"
    using sau_inv_push [OF frame(1) granted_regions [of _ st0 ?b]] r by blast
  then show ?thesis using run found frame(2) i r inv
    by (auto simp: vmpu_fault_recovery_mpu_v8m_def opens_only_granted_def accessible_def)
next
  case False
  then show ?thesis using run found opens_only_granted_frame(2) [OF ok inv] inv
    by (auto simp: vmpu_fault_recovery_mpu_v8m_def res_simps split: option.splits)
qed

lemma fault_recovery_v8m_inv:
  assumes "v8m_ok st0" "opens_only_granted st0 st" "vmpu_fault_recovery_mpu_v8m st pc sp a fs = Inr (b, st')"
  shows "opens_only_granted st0 st'" "b \<Longrightarrow> accessible st0 (v8_active_box st0) a"
proof -
  obtain rc found where found: "page_allocator_get_active_region_for_address (v8_pages st) (v8_active_box st0) a = Inr (rc, found)"
    using assms(3) opens_only_granted_frame(2) [OF assms(1,2)] by (auto simp: vmpu_fault_recovery_mpu_v8m_def res_simps)
  have "opens_only_granted st0 st' \<and> (b \<longrightarrow> accessible st0 (v8_active_box st0) a)"
    using recovery_page [OF assms(1,2) _ assms(3)] recovery_region [OF assms(1,2) _ assms(3)] found by (cases found) auto
  then show "opens_only_granted st0 st'" "b \<Longrightarrow> accessible st0 (v8_active_box st0) a" by auto
qed

text \<open>Any number of recovered faults, and of accesses that uVisor makes on behalf of the box, after a switch.\<close>

inductive runs_v8m :: "(sau_state \<Rightarrow> u32 \<Rightarrow> u32) \<Rightarrow> v8m_state \<Rightarrow> v8m_state \<Rightarrow> bool" for tta where
  runs_refl: "runs_v8m tta st st"
| runs_fault: "runs_v8m tta st st1 \<Longrightarrow> vmpu_fault_recovery_mpu_v8m st1 pc sp fault_addr fault_status = Inr (b, st2) \<Longrightarrow> runs_v8m tta st st2"
| runs_access: "runs_v8m tta st st1 \<Longrightarrow> vmpu_unpriv_access_v8m tta st1 m addr sz data = Inr (v, m', st2) \<Longrightarrow> runs_v8m tta st st2"

lemma unpriv_access_v8m_inv:
  assumes "v8m_ok st0" "opens_only_granted st0 st" "vmpu_unpriv_access_v8m tta st m addr sz data = Inr (v, m', st')"
  shows "opens_only_granted st0 st'"
  using assms fault_recovery_v8m_inv(1) [OF assms(1,2)]
  by (auto simp: vmpu_unpriv_access_v8m_def vmpu_unpriv_access_unfold Let_def res_simps split: if_splits option.splits)

lemma runs_v8m_inv: "runs_v8m tta st st' \<Longrightarrow> v8m_ok st0 \<Longrightarrow> opens_only_granted st0 st \<Longrightarrow> opens_only_granted st0 st'"
  by (induction rule: runs_v8m.induct) (auto intro: fault_recovery_v8m_inv(1) unpriv_access_v8m_inv)

text \<open>
  C7: Isolation on ARMv8-M. Switching to the active box succeeds, when it is the public box or has a region. Then, and after any number of secure faults that uVisor
  handled and of accesses that it made on behalf of the box, the four static regions of the attribution unit are unchanged, and every other region is
  disabled or opens exactly a region of the box, a region of the public box, or a page that the box owns.
\<close>

theorem vmpu_switch_v8m_opens_only_granted:
  assumes "v8m_ok st" "v8_active_box st = dst" "sau_region_count (v8_sau st) \<noteq> 0" "dst = 0 \<or> sau_regions_of (v8_sau st) dst \<noteq> []"
  shows "\<exists>st1. vmpu_switch_v8m st src dst = Inr st1 \<and> (\<forall>st2. runs_v8m tta st1 st2 \<longrightarrow>
    take 4 (sau_rbar (v8_sau st2)) = take 4 (sau_rbar (v8_sau st)) \<and> take 4 (sau_rlar (v8_sau st2)) = take 4 (sau_rlar (v8_sau st)) \<and>
    (\<forall>slot. 4 \<le> slot \<and> slot < 8 \<longrightarrow>
      sau_rlar (v8_sau st2) ! slot = 0 \<or> grants st dst (sau_rbar (v8_sau st2) ! slot) (sau_rlar (v8_sau st2) ! slot)))"
proof -
  obtain st1 where "vmpu_switch_v8m st src dst = Inr st1" "opens_only_granted st st1" using vmpu_switch_v8m_inv [OF assms] by blast
  moreover have "sau_inv (grants st dst) (v8_sau st) (v8_sau st2)" if "runs_v8m tta st1 st2" for st2
    using runs_v8m_inv [OF that assms(1)] calculation(2) assms(2) by (simp add: opens_only_granted_def)
  ultimately show ?thesis unfolding sau_inv_def by blast
qed

text \<open>
  C27: On ARMv8-M the exception handler returns only from a secure fault whose status names an attribution violation with a valid address, and that
  address is accessible to the active box. It returns to where the fault came from, clears the status it has seen and leaves memory as it is; every other exception
  halts.
\<close>

theorem vmpu_sys_mux_handler_v8m_returns:
  assumes ok: "v8m_ok st" and inv: "opens_only_granted st st"
    and run: "vmpu_sys_mux_handler_v8m tta lr msp_s (regs, st, m) = Inr (lr', regs', st', m')"
  shows "IPSR_v8m regs AND 0x1FF = 7 \<and> bit (SFSR regs) 3 \<and> bit (SFSR regs) 6 \<and> accessible st (v8_active_box st) (SFAR regs) \<and>
    lr' = lr \<and> SFSR regs' = 0 \<and> m' = m \<and> opens_only_granted st st'"
proof -
  have ipsr: "int (unat (IPSR_v8m regs AND 0x1FF)) - 16 = - 9"
    using run unfolding vmpu_sys_mux_handler_v8m_def prod.case Let_def by (auto split: if_split_asm)
  then have "unat (IPSR_v8m regs AND 0x1FF) = 7" by linarith
  then have seven: "IPSR_v8m regs AND 0x1FF = 7" by (simp add: word_unat_eq_iff)
  have masks: "SAU_SFSR_AUVIOL_Msk OR SAU_SFSR_SFARVALID_Msk = 0x48" by (simp add: SAU_SFSR_AUVIOL_Msk_def SAU_SFSR_SFARVALID_Msk_def)
  have handler: "vmpu_sys_mux_handler_v8m tta lr msp_s (regs, st, m) =
     (if SFSR regs AND 0x48 = 0x48 then
        bind_res (vmpu_unpriv_access_v8m tta st m (exception_sp_v8m regs lr msp_s + 6 * 4) (UVISOR_UNPRIV_ACCESS_READ 4) 0) (\<lambda>(pc, m, st).
        bind_res (vmpu_fault_recovery_mpu_v8m st pc (exception_sp_v8m regs lr msp_s) (SFAR regs) (SFSR regs)) (\<lambda>(recovered, st).
        if recovered then Inr (lr, regs\<lparr>SFSR := SFSR regs AND NOT (SFSR regs)\<rparr>, st, m) else Inl (Halt PERMISSION_DENIED)))
      else Inl (Halt PERMISSION_DENIED))"
    unfolding vmpu_sys_mux_handler_v8m_def prod.case Let_def ipsr masks by simp
  have mask: "SFSR regs AND 0x48 = 0x48" using run unfolding handler by (simp split: if_split_asm)
  obtain pc m1 st1 where access: "vmpu_unpriv_access_v8m tta st m (exception_sp_v8m regs lr msp_s + 6 * 4) (UVISOR_UNPRIV_ACCESS_READ 4) 0 = Inr (pc, m1, st1)"
    and rest: "bind_res (vmpu_fault_recovery_mpu_v8m st1 pc (exception_sp_v8m regs lr msp_s) (SFAR regs) (SFSR regs)) (\<lambda>(recovered, st).
        if recovered then Inr (lr, regs\<lparr>SFSR := SFSR regs AND NOT (SFSR regs)\<rparr>, st, m1) else Inl (Halt PERMISSION_DENIED)) = Inr (lr', regs', st', m')"
    using run unfolding handler if_P [OF mask] bind_res_Inr_iff [of "vmpu_unpriv_access_v8m tta st m _ _ 0"] split_paired_Ex prod.case by blast
  have recover: "vmpu_fault_recovery_mpu_v8m st1 pc (exception_sp_v8m regs lr msp_s) (SFAR regs) (SFSR regs) = Inr (True, st')"
    and result: "lr' = lr" "SFSR regs' = 0" "m' = m1"
    using rest by (auto simp: bind_res_Inr_iff split: if_split_asm)
  have "bit (SFSR regs AND 0x48) 3" "bit (SFSR regs AND 0x48) 6" unfolding mask by (simp_all add: bit_iff_odd)
  then have bits: "bit (SFSR regs) 3" "bit (SFSR regs) 6" by (simp_all only: bit_and_iff)
  have "m1 = m" using access
    by (auto simp: vmpu_unpriv_access_v8m_def vmpu_unpriv_access_unfold Let_def res_simps unpriv_switch_def unpriv_access_defs split: if_splits)
  then show ?thesis
    using seven bits result fault_recovery_v8m_inv [OF ok unpriv_access_v8m_inv [OF ok inv access] recover] by simp
qed

section \<open>Accesses on behalf of a box\<close>

text \<open>A byte that a static region or a region granted to the box opens.\<close>

definition open_byte :: "v8m_state \<Rightarrow> u8 \<Rightarrow> u32 \<Rightarrow> bool" where
  "open_byte st b a \<longleftrightarrow> (\<exists>rbar rlar.
     ((\<exists>slot < 4. rbar = sau_rbar (v8_sau st) ! slot \<and> rlar = sau_rlar (v8_sau st) ! slot \<and> rlar \<noteq> 0) \<or> grants st b rbar rlar) \<and>
     rbar AND NOT 31 \<le> a \<and> a \<le> rlar OR 31)"

lemma granule_arith:
  fixes x y k l :: nat
  shows "x div 32 * 32 \<le> x" "x div 32 * 32 \<le> y div 32 * 32 + 31 \<Longrightarrow> x \<le> y div 32 * 32 + 31"
    "k \<le> l \<Longrightarrow> l < 4 \<Longrightarrow> (x + k) div 32 = x div 32 \<or> (x + k) div 32 = (x + l) div 32"
proof -
  show "x div 32 * 32 \<le> x" by simp
  have lt: "x < x div 32 * 32 + 32" using div_mult_mod_eq [of x 32] mod_less_divisor [of 32 x] by linarith
  show "x \<le> y div 32 * 32 + 31" if le: "x div 32 * 32 \<le> y div 32 * 32 + 31"
  proof -
    have "x div 32 \<le> y div 32" using div_le_mono [OF le, of 32] by simp
    then show ?thesis using lt mult_le_mono1 [of "x div 32" "y div 32" 32] by linarith
  qed
  have split_add: "(x + j) div 32 = x div 32 + (if x mod 32 + j < 32 then 0 else 1)" if "j < 4" for j
  proof -
    have "x + j = (x mod 32 + j) + x div 32 * 32" by simp
    moreover have "z div 32 = (if z < 32 then 0 else 1)" if "z < 64" for z :: nat
      using that div_nat_eqI [of 1 32 z] by auto
    moreover have "x mod 32 + j < 64" using \<open>j < 4\<close> mod_less_divisor [of 32 x] by linarith
    ultimately show ?thesis using div_mult_self1 [of 32 "x mod 32 + j" "x div 32"] by simp
  qed
  show "(x + k) div 32 = x div 32 \<or> (x + k) div 32 = (x + l) div 32" if "k \<le> l" "l < 4"
    using split_add [of k] split_add [of l] that by simp
qed

lemma unat_not_31: "unat (x AND NOT 31 :: u32) = unat x div 32 * 32"
  using unat_and_not_mask [of x 5] unfolding not_31 by simp

lemma unat_or_31: "unat (x OR 31 :: u32) = unat x div 32 * 32 + 31"
proof -
  have "x OR 31 = (x AND NOT 31) OR mask 5" unfolding not_31
    by (rule bit_word_eqI) (auto simp: bit_simps mask_eq_exp_minus_1 [of 5, where 'a = "32 word", simplified, symmetric])
  also have "\<dots> = (x AND NOT 31) + mask 5" unfolding not_31 by (rule disjunctive_add [symmetric]) (auto simp: bit_simps)
  finally have "unat (x OR 31) = (unat (x AND NOT 31) + unat (mask 5 :: u32)) mod 2 ^ LENGTH(32)" by (simp only: unat_word_ariths)
  moreover have "unat x div 32 < 2 ^ 27" using unat_u32_lt [of x] by (intro less_mult_imp_div_less) simp
  ultimately show ?thesis unfolding unat_not_31 by (simp add: mask_eq_exp_minus_1)
qed

lemma granule_bounds:
  fixes a :: u32
  assumes "rbar AND NOT 31 \<le> a AND NOT 31" "a AND NOT 31 \<le> rlar OR 31"
  shows "rbar AND NOT 31 \<le> a \<and> a \<le> rlar OR 31"
proof -
  have "unat rbar div 32 * 32 \<le> unat a div 32 * 32" "unat a div 32 * 32 \<le> unat rlar div 32 * 32 + 31"
    using assms unfolding word_le_nat_alt unat_not_31 unat_or_31 by blast+
  then have "unat rbar div 32 * 32 \<le> unat a" "unat a \<le> unat rlar div 32 * 32 + 31"
    using granule_arith(1,2) order.trans by blast+
  then show ?thesis unfolding word_le_nat_alt unat_not_31 unat_or_31 by blast
qed

lemma mod_2_32_div_32: "(x mod 2 ^ 32) div 32 = (x div 32) mod 2 ^ 27" for x :: nat
  using mod_mult2_eq [of x 32 "2 ^ 27"] by simp

text \<open>An access of at most 4 bytes touches no granule but those of its first and its last byte.\<close>

lemma granule_of_byte:
  fixes addr :: u32
  assumes "k < n" "n \<le> 4"
  shows "(addr + of_nat k) AND NOT 31 \<in> {addr AND NOT 31, (addr + of_nat n - 1) AND NOT 31}"
proof -
  have last_less: "n - 1 < 4" using assms by simp
  have last: "addr + of_nat n - 1 = addr + of_nat (n - 1)" using assms by (simp add: of_nat_diff)
  have un: "unat (addr + of_nat j) = (unat addr + j) mod 2 ^ 32" if "j < 4" for j :: nat
    using that by (simp add: unat_word_ariths unat_of_nat_u32)
  have g: "unat ((addr + of_nat j) AND NOT 31) = (unat addr + j) mod 2 ^ 32 div 32 * 32" if "j < 4" for j :: nat
    unfolding unat_not_31 un [OF that] ..
  have "(unat addr + k) div 32 = unat addr div 32 \<or> (unat addr + k) div 32 = (unat addr + (n - 1)) div 32"
    using assms by (intro granule_arith(3)) auto
  then have "unat ((addr + of_nat k) AND NOT 31) = unat ((addr + of_nat 0) AND NOT 31) \<or>
      unat ((addr + of_nat k) AND NOT 31) = unat ((addr + of_nat (n - 1)) AND NOT 31)"
    using assms unfolding g [OF order.strict_trans2 [OF assms]] g [OF zero_less_numeral] g [OF last_less] mod_2_32_div_32 by auto
  then show ?thesis unfolding last unat_eq_iff by simp
qed

text \<open>
  What the architecture says of the \<open>TTA\<close> instruction: bit 17 of the answer, \<open>SRVALID\<close>, is set only for an address that matches an enabled region of the unit.
\<close>

definition tta_matches :: "(sau_state \<Rightarrow> u32 \<Rightarrow> u32) \<Rightarrow> bool" where
  "tta_matches tta \<longleftrightarrow> (\<forall>s a. bit (tta s a) 17 \<longrightarrow>
     (\<exists>slot < 8. bit (sau_rlar s ! slot) 0 \<and> sau_rbar s ! slot AND NOT 31 \<le> a \<and> a \<le> sau_rlar s ! slot OR 31))"

lemma tta_open:
  assumes "tta_matches tta" "opens_only_granted st0 st" "bit (tta (v8_sau st) (a AND NOT 31)) 17" "a' AND NOT 31 = a AND NOT 31"
  shows "open_byte st0 (v8_active_box st0) a'"
proof -
  obtain slot where slot: "slot < 8" "bit (sau_rlar (v8_sau st) ! slot) 0" "sau_rbar (v8_sau st) ! slot AND NOT 31 \<le> a' AND NOT 31"
      "a' AND NOT 31 \<le> sau_rlar (v8_sau st) ! slot OR 31"
    using assms(1,3) unfolding tta_matches_def assms(4) by blast
  have inv: "sau_inv (grants st0 (v8_active_box st0)) (v8_sau st0) (v8_sau st)" using assms(2) by (simp add: opens_only_granted_def)
  have "sau_rlar (v8_sau st) ! slot \<noteq> 0" using slot(2) by auto
  moreover have "sau_rbar (v8_sau st) ! slot = sau_rbar (v8_sau st0) ! slot \<and> sau_rlar (v8_sau st) ! slot = sau_rlar (v8_sau st0) ! slot" if "slot < 4"
    using inv that nth_take [of slot 4] unfolding sau_inv_def by metis
  moreover have "4 \<le> slot \<Longrightarrow> grants st0 (v8_active_box st0) (sau_rbar (v8_sau st) ! slot) (sau_rlar (v8_sau st) ! slot)"
    using inv slot(1) calculation(1) by (auto simp: sau_inv_def)
  ultimately show ?thesis
    using granule_bounds [OF slot(3,4)] not_less [of slot 4] unfolding open_byte_def by metis
qed

lemma unpriv_switch_bytes:
  assumes "unpriv_switch m addr sz data = Some (v, m')"
  shows "UVISOR_UNPRIV_ACCESS_SIZE sz \<in> {1, 2, 4}" "m' a \<noteq> m a \<Longrightarrow> \<exists>k < unat (UVISOR_UNPRIV_ACCESS_SIZE sz). a = addr + of_nat k"
proof -
  show "UVISOR_UNPRIV_ACCESS_SIZE sz \<in> {1, 2, 4}"
    using assms by (auto simp: unpriv_switch_def unpriv_access_defs split: if_splits)
  assume "m' a \<noteq> m a"
  then have "(\<exists>x. m' = write8 m addr x) \<and> UVISOR_UNPRIV_ACCESS_SIZE sz = 1 \<or> (\<exists>x. m' = write16 m addr x) \<and> UVISOR_UNPRIV_ACCESS_SIZE sz = 2 \<or>
      (\<exists>x. m' = write32 m addr x) \<and> UVISOR_UNPRIV_ACCESS_SIZE sz = 4"
    using assms by (auto simp: unpriv_switch_def unpriv_access_defs split: if_splits)
  then have "a = addr \<and> UVISOR_UNPRIV_ACCESS_SIZE sz \<in> {1, 2, 4} \<or> a = addr + 1 \<and> UVISOR_UNPRIV_ACCESS_SIZE sz \<in> {2, 4} \<or>
      (a = addr + 2 \<or> a = addr + 3) \<and> UVISOR_UNPRIV_ACCESS_SIZE sz = 4"
    using \<open>m' a \<noteq> m a\<close> by (auto simp: write8_def write16_def write32_def split: if_splits)
  then show "\<exists>k < unat (UVISOR_UNPRIV_ACCESS_SIZE sz). a = addr + of_nat k"
    by (elim disjE conjE insertE emptyE) (force intro: exI [of _ 0] exI [of _ 1] exI [of _ 2] exI [of _ 3])+
qed

text \<open>
  C10: uVisor cannot be made to read or write for a box what the box may not access itself. When the hardware answers as documented, an ARMv8-M access on behalf of
  the active box that returns has touched only bytes in a static region, in a region of the box or of the public box, or in a page of the box, and memory is
  unchanged outside of the accessed bytes.
\<close>

theorem vmpu_unpriv_access_v8m_confined:
  assumes ok: "v8m_ok st0" and inv: "opens_only_granted st0 st" and hw: "tta_matches tta"
    and run: "vmpu_unpriv_access_v8m tta st m addr sz data = Inr (v, m', st')"
  shows "(\<forall>k < unat (UVISOR_UNPRIV_ACCESS_SIZE sz). open_byte st0 (v8_active_box st0) (addr + of_nat k)) \<and>
    (\<forall>a. m' a \<noteq> m a \<longrightarrow> (\<exists>k < unat (UVISOR_UNPRIV_ACCESS_SIZE sz). a = addr + of_nat k))"
proof -
  let ?n = "UVISOR_UNPRIV_ACCESS_SIZE sz"
  have switched: "unpriv_switch m addr sz data = Some (v, m')" and inv': "opens_only_granted st0 st'"
    using run unpriv_access_v8m_inv [OF ok inv run]
    by (auto simp: vmpu_unpriv_access_v8m_def vmpu_unpriv_access_unfold Let_def res_simps split: if_splits option.splits)
  note n = unpriv_switch_bytes(1) [OF switched]
  then have "?n \<noteq> 0" "unat ?n \<le> 4" "of_nat (unat ?n) = ?n" by auto
  have bits: "bit (tta (v8_sau st') (addr AND NOT 31)) 17" "bit (tta (v8_sau st') ((addr + ?n - 1) AND NOT 31)) 17"
    using unpriv_access_cases [OF \<open>?n \<noteq> 0\<close>, where tta = "\<lambda>st. tta (v8_sau st)" and recover = "\<lambda>addr st. vmpu_fault_recovery_mpu_v8m st 0 0 addr 0"
        and st = st and m = m and addr = addr and data = data]
    by (simp_all add: run [unfolded vmpu_unpriv_access_v8m_def] Let_def)
  have "open_byte st0 (v8_active_box st0) (addr + of_nat k)" if "k < unat ?n" for k
    using granule_of_byte [OF that \<open>unat ?n \<le> 4\<close>, of addr] tta_open [OF hw inv' bits(1)] tta_open [OF hw inv' bits(2)] \<open>of_nat (unat ?n) = ?n\<close> by auto
  then show ?thesis using unpriv_switch_bytes(2) [OF switched] by blast
qed

section \<open>The memory of a box\<close>

text \<open>The regions of the boxes are in the used part of the table, and the rest of the table is free.\<close>

definition sau_table_ok :: "sau_state \<Rightarrow> bool" where
  "sau_table_ok s \<longleftrightarrow> length (sau_region s) = SAU_ACL_COUNT \<and> unat (sau_region_count s) \<le> SAU_ACL_COUNT \<and> length (sau_box_region s) = UVISOR_MAX_BOXES \<and>
     (\<forall>box \<in> set (sau_box_region s). case slice_regions box of None \<Rightarrow> slice_count box = 0
        | Some i \<Rightarrow> i + unat (slice_count box) \<le> unat (sau_region_count s)) \<and>
     (\<forall>i < SAU_ACL_COUNT. unat (sau_region_count s) \<le> i \<longrightarrow> region_config (sau_region s ! i) = 0)"

text \<open>The box has no region yet, or its regions are the last ones of the table.\<close>

definition box_at_end :: "sau_state \<Rightarrow> u8 \<Rightarrow> bool" where
  "box_at_end s b \<longleftrightarrow> (case slice_regions (sau_box_region s ! unat b) of None \<Rightarrow> slice_count (sau_box_region s ! unat b) = 0
     | Some i \<Rightarrow> i + unat (slice_count (sau_box_region s ! unat b)) = unat (sau_region_count s))"

definition acl_region_v8m :: "u32 \<Rightarrow> u32 \<Rightarrow> u32 \<Rightarrow> u32 \<Rightarrow> MpuRegion" where
  "acl_region_v8m start sz acl acl_hw_spec = \<lparr>region_start = start, region_end = start + sz,
     region_config = vmpu_map_acl_v8m acl OR (acl_hw_spec AND SAU_RLAR_NSC_Msk), region_acl = acl\<rparr>"

lemma translate_aligned:
  assumes "unat start mod 32 = 0" "unat sz mod 32 = 0"
  shows "vmpu_region_translate_acl_v8m r start sz acl hw = (acl_region_v8m start sz acl hw, sz)"
proof -
  have "unat (start mod 32) = 0" "unat (sz mod 32) = 0" using assms by (simp_all add: unat_mod)
  then have "start mod 32 = 0" "sz mod 32 = 0" by (simp_all only: unat_eq_zero)
  then show ?thesis by (simp add: vmpu_region_translate_acl_v8m_def acl_region_v8m_def)
qed

lemma take_drop_update: "i + k < length xs \<Longrightarrow> take (Suc k) (drop i (xs[i + k := x])) = take k (drop i xs) @ [x]"
  by (simp add: take_Suc_conv_app_nth drop_update_swap)

lemma add_static_acl_v8m:
  assumes s: "sau_table_ok s" "unat (sau_region_count s) < SAU_ACL_COUNT" and b: "vmpu_is_box_id_valid counted box_count b" "box_at_end s b" and b5: "unat b < UVISOR_MAX_BOXES"
    and aligned: "unat start mod 32 = 0" "unat sz mod 32 = 0"
  shows "\<exists>s'. vmpu_region_add_static_acl_v8m counted box_count s b start sz acl hw = Inr (sz, s') \<and> sau_table_ok s' \<and> box_at_end s' b \<and>
    unat (sau_region_count s') = Suc (unat (sau_region_count s)) \<and>
    sau_regions_of s' b = sau_regions_of s b @ [acl_region_v8m start sz acl hw] \<and>
    (\<forall>c. c \<noteq> b \<and> unat c < UVISOR_MAX_BOXES \<longrightarrow> sau_regions_of s' c = sau_regions_of s c)"
proof -
  let ?n = "unat (sau_region_count s)" let ?box = "sau_box_region s ! unat b" let ?r = "acl_region_v8m start sz acl hw"
  define i where "i = (case slice_regions ?box of None \<Rightarrow> ?n | Some i \<Rightarrow> i)"
  have len: "length (sau_region s) = SAU_ACL_COUNT" "length (sau_box_region s) = UVISOR_MAX_BOXES" using s(1) by (auto simp: sau_table_ok_def)
  have n64: "?n < 64" using s(2) by (simp add: SAU_ACL_COUNT_def)
  then have n: "unat (sau_region_count s + 1) = Suc ?n" by (simp add: unat_word_ariths)
  have i: "i + unat (slice_count ?box) = ?n" using b(2) by (auto simp: i_def box_at_end_def split: option.splits)
  then have cnt: "unat (slice_count ?box + 1) = Suc (unat (slice_count ?box))" using n64 by (simp add: unat_word_ariths)
  have free: "region_config (sau_region s ! ?n) = 0" using s by (simp add: sau_table_ok_def)
  let ?s' = "s\<lparr>sau_region := (sau_region s)[?n := ?r], sau_box_region := (sau_box_region s)[unat b := \<lparr>slice_regions = Some i, slice_count = slice_count ?box + 1\<rparr>],
      sau_region_count := sau_region_count s + 1\<rparr>"
  have run: "vmpu_region_add_static_acl_v8m counted box_count s b start sz acl hw = Inr (sz, ?s')"
    using s(2) b(1) b5 len free i
    by (simp add: vmpu_region_add_static_acl_v8m_def translate_aligned [OF aligned] i_def [symmetric] Let_def)
  have table: "sau_table_ok ?s'"
    using s(1) s(2) n cnt i by (auto simp: sau_table_ok_def nth_list_update dest!: set_update_subset_insert [THEN subsetD] split: option.splits)
  have old: "sau_regions_of s b = take (unat (slice_count ?box)) (drop i (sau_region s))"
    using b(2) by (auto simp: sau_regions_of_def Let_def box_at_end_def i_def split: option.splits)
  have "take (Suc (unat (slice_count ?box))) (drop i ((sau_region s)[?n := ?r])) = take (unat (slice_count ?box)) (drop i (sau_region s)) @ [?r]"
    unfolding i [symmetric] by (rule take_drop_update) (use i s(2) len in simp)
  then have app: "sau_regions_of ?s' b = sau_regions_of s b @ [?r]"
    using old b5 len cnt by (simp add: sau_regions_of_def Let_def)
  have "sau_regions_of ?s' c = sau_regions_of s c" if "c \<noteq> b" "unat c < UVISOR_MAX_BOXES" for c
  proof -
    have c: "unat c \<noteq> unat b" "sau_box_region s ! unat c \<in> set (sau_box_region s)" using that len by (auto simp: unat_eq_iff)
    then have "case slice_regions (sau_box_region s ! unat c) of None \<Rightarrow> True | Some j \<Rightarrow> j + unat (slice_count (sau_box_region s ! unat c)) \<le> ?n"
      using s(1) by (auto simp: sau_table_ok_def split: option.splits)
    then show ?thesis using c(1) by (auto simp: sau_regions_of_def Let_def drop_update_swap split: option.splits)
  qed
  then show ?thesis using run table app n cnt i b5 len by (auto simp: box_at_end_def)
qed

lemma round_up_32:
  assumes "unat x + 31 < 2 ^ 32"
  shows "unat (UVISOR_REGION_ROUND_UP_32 x) = (unat x + 31) div 32 * 32"
proof -
  have "unat (x + 31) = unat x + 31" using assms by (simp add: unat_word_ariths)
  then show ?thesis unfolding UVISOR_REGION_ROUND_UP_32_def UVISOR_ROUND32_UP_def UVISOR_ROUND32_DOWN_def unat_not_31 by (simp only:)
qed

text \<open>The sizes that a box gets: at least 1 kB of stack, both rounded up to 32 bytes.\<close>

definition stack_bytes :: "u32 \<Rightarrow> nat" where "stack_bytes stack_sz = (max 1024 (unat stack_sz) + 31) div 32 * 32"
definition bss_bytes :: "u32 \<Rightarrow> nat" where "bss_bytes bss_sz = (unat bss_sz + 31) div 32 * 32"

lemma round_up_le: "x \<le> (x + 31) div 32 * 32" for x :: nat
  using granule_arith(2) [of "x + 31" "x + 31"] by simp

lemma box_sizes:
  assumes "stack_bytes stack_sz < 2 ^ 32 - 64" "bss_bytes bss_sz < 2 ^ 32 - 64"
  shows "unat (UVISOR_REGION_ROUND_UP_32 (UVISOR_MIN_STACK stack_sz)) = stack_bytes stack_sz" "unat (UVISOR_REGION_ROUND_UP_32 bss_sz) = bss_bytes bss_sz"
proof -
  have min: "unat (UVISOR_MIN_STACK stack_sz) = max 1024 (unat stack_sz)"
    by (simp add: UVISOR_MIN_STACK_def UVISOR_MIN_STACK_SIZE_def word_less_nat_alt max_def)
  have "unat (UVISOR_MIN_STACK stack_sz) + 31 < 2 ^ 32" "unat bss_sz + 31 < 2 ^ 32"
    using assms round_up_le [of "max 1024 (unat stack_sz)"] round_up_le [of "unat bss_sz"] unfolding min stack_bytes_def bss_bytes_def by linarith+
  then show "unat (UVISOR_REGION_ROUND_UP_32 (UVISOR_MIN_STACK stack_sz)) = stack_bytes stack_sz" "unat (UVISOR_REGION_ROUND_UP_32 bss_sz) = bss_bytes bss_sz"
    by (simp_all only: round_up_32 min stack_bytes_def bss_bytes_def)
qed

text \<open>
  The memory of a secure box on ARMv8-M. Loading a box whose regions fit in the table and in the address space succeeds. The box gets exactly two regions, its
  stack and behind it its BSS sections, each large enough, aligned to 32 bytes and separated by a band of 128 bytes, which also separates them from the memory of
  the next box; the regions of the other boxes are unchanged.
\<close>

theorem vmpu_acl_sram_v8m_layout:
  fixes cfg st stack_sz bss_sz pos S B
  defines "pos \<equiv> unat (acl_sram_start_v8m cfg st)" and "S \<equiv> stack_bytes stack_sz" and "B \<equiv> bss_bytes bss_sz"
  assumes table: "sau_table_ok (v8_sau st)" "unat (sau_region_count (v8_sau st)) + 2 \<le> SAU_ACL_COUNT"
    and box: "vmpu_is_box_id_valid counted box_count b" "unat b < UVISOR_MAX_BOXES" "slice_regions (sau_box_region (v8_sau st) ! unat b) = None"
    and fits: "bss_sz \<noteq> 0" "pos mod 32 = 0" "pos + S + B + 256 < 2 ^ 32"
  shows "\<exists>bss_start sp st' stack bss. vmpu_acl_sram_v8m bc cfg counted box_count st b bss_sz stack_sz = Inr (bss_start, sp, st') \<and>
    sau_regions_of (v8_sau st') b = [stack, bss] \<and>
    unat (region_start stack) = pos \<and> unat (region_end stack) = pos + S \<and> sp = region_end stack \<and>
    bss_start = region_start bss \<and> unat (region_start bss) = pos + S + 128 \<and> unat (region_end bss) = pos + S + 128 + B \<and>
    vmpu_region_is_ns (region_config stack) \<and> vmpu_region_is_ns (region_config bss) \<and>
    1024 \<le> S \<and> unat stack_sz \<le> S \<and> unat bss_sz \<le> B \<and>
    unat (v8_box_mem_pos st') = pos + S + B + 256 \<and> unat (v8_box_mem_pos st') mod 32 = 0 \<and> sau_table_ok (v8_sau st') \<and>
    (\<forall>c. c \<noteq> b \<and> unat c < UVISOR_MAX_BOXES \<longrightarrow> sau_regions_of (v8_sau st') c = sau_regions_of (v8_sau st) c)"
proof -
  let ?p = "acl_sram_start_v8m cfg st" let ?S = "UVISOR_REGION_ROUND_UP_32 (UVISOR_MIN_STACK stack_sz)" let ?B = "UVISOR_REGION_ROUND_UP_32 bss_sz"
  have small: "stack_bytes stack_sz < 2 ^ 32 - 64" "bss_bytes bss_sz < 2 ^ 32 - 64" using fits(3) by (simp_all add: S_def B_def)
  note sizes = box_sizes [OF small, folded S_def B_def]
  have mod32: "S mod 32 = 0" "B mod 32 = 0" by (simp_all add: S_def B_def stack_bytes_def bss_bytes_def)
  have addr: "unat (?p + ?S) = pos + S" "unat (?p + ?S + 128) = pos + S + 128" "unat (?p + ?S + 128 + ?B) = pos + S + 128 + B"
    "unat (?p + ?S + 128 + (?B + 128)) = pos + S + B + 256"
    using fits(3) sizes by (simp_all add: unat_word_ariths pos_def [symmetric])
  have al: "unat ?p mod 32 = 0" "unat ?S mod 32 = 0" "unat (?p + ?S + 128) mod 32 = 0" "unat ?B mod 32 = 0"
    using fits(2) mod32 sizes unfolding addr by (simp_all add: pos_def [symmetric] mod_add_eq [symmetric])
  have "sau_box_region (v8_sau st) ! unat b \<in> set (sau_box_region (v8_sau st))" using table(1) box(2) by (simp add: sau_table_ok_def)
  then have empty: "box_at_end (v8_sau st) b" "sau_regions_of (v8_sau st) b = []" using table(1) box(3)
    by (auto simp: box_at_end_def sau_table_ok_def sau_regions_of_def)
  obtain s1 where s1: "vmpu_region_add_static_acl_v8m counted box_count (v8_sau st) b ?p ?S UVISOR_TACLDEF_STACK 0 = Inr (?S, s1)" "sau_table_ok s1" "box_at_end s1 b"
      "unat (sau_region_count s1) = Suc (unat (sau_region_count (v8_sau st)))" "sau_regions_of s1 b = [acl_region_v8m ?p ?S UVISOR_TACLDEF_STACK 0]"
      "\<forall>c. c \<noteq> b \<and> unat c < UVISOR_MAX_BOXES \<longrightarrow> sau_regions_of s1 c = sau_regions_of (v8_sau st) c"
    using add_static_acl_v8m [OF table(1) _ box(1) empty(1) box(2) al(1,2), of UVISOR_TACLDEF_STACK 0] table(2) empty(2) by auto
  obtain s2 where s2: "vmpu_region_add_static_acl_v8m counted box_count s1 b (?p + ?S + 128) ?B UVISOR_TACLDEF_DATA 0 = Inr (?B, s2)" "sau_table_ok s2"
      "sau_regions_of s2 b = [acl_region_v8m ?p ?S UVISOR_TACLDEF_STACK 0, acl_region_v8m (?p + ?S + 128) ?B UVISOR_TACLDEF_DATA 0]"
      "\<forall>c. c \<noteq> b \<and> unat c < UVISOR_MAX_BOXES \<longrightarrow> sau_regions_of s2 c = sau_regions_of s1 c"
    using add_static_acl_v8m [OF s1(2) _ box(1) s1(3) box(2) al(3,4), of UVISOR_TACLDEF_DATA 0] s1(4,5) table(2) by auto
  have ns: "vmpu_region_is_ns (vmpu_map_acl_v8m UVISOR_TACLDEF_STACK)" "vmpu_region_is_ns (vmpu_map_acl_v8m UVISOR_TACLDEF_DATA)"
    by (simp_all add: vmpu_region_is_ns_def vmpu_map_acl_v8m_def tacl_defs sau_consts)
  have run: "vmpu_acl_sram_v8m bc cfg counted box_count st b bss_sz stack_sz =
      Inr (?p + ?S + 128, ?p + ?S, st\<lparr>v8_sau := s2, v8_box_mem_pos := ?p + ?S + 128 + (?B + 128)\<rparr>)"
    using s1(1) s2(1) fits(1) by (simp add: vmpu_acl_sram_v8m_def UVISOR_STACK_BAND_SIZE_def assert_res_def Let_def)
  have "1024 \<le> S" "unat stack_sz \<le> S" "unat bss_sz \<le> B" "(pos + S + B + 256) mod 32 = 0"
    using round_up_le [of "max 1024 (unat stack_sz)"] round_up_le [of "unat bss_sz"] fits(2) mod32
    by (auto simp: S_def stack_bytes_def B_def bss_bytes_def mod_add_eq [symmetric])
  then show ?thesis using run s1(6) s2 addr ns by (auto simp: acl_region_v8m_def pos_def)
qed

section \<open>Examples\<close>

text \<open>Box 1 has a stack and a BSS region, and slot 5 of the unit opens its stack. The hardware answers by the regions of the unit.\<close>

definition example_v8m :: v8m_state where
  "example_v8m = \<lparr>v8_sau = example_sau\<lparr>sau_region_count := 2,
       sau_region := \<lparr>region_start = 0x20001000, region_end = 0x20002000, region_config = 1, region_acl = UVISOR_TACLDEF_STACK\<rparr> #
         \<lparr>region_start = 0x20002080, region_end = 0x20002100, region_config = 1, region_acl = UVISOR_TACLDEF_DATA\<rparr> #
         replicate 62 \<lparr>region_start = 0, region_end = 0, region_config = 0, region_acl = 0\<rparr>,
       sau_box_region := [\<lparr>slice_regions = None, slice_count = 0\<rparr>, \<lparr>slice_regions = Some 0, slice_count = 2\<rparr>, \<lparr>slice_regions = None, slice_count = 0\<rparr>,
         \<lparr>slice_regions = None, slice_count = 0\<rparr>, \<lparr>slice_regions = None, slice_count = 0\<rparr>]\<rparr>,
     v8_pages = example_free_pages, v8_active_box = 1, v8_box_mem_pos = 0x20002180\<rparr>"

definition example_tta :: "sau_state \<Rightarrow> u32 \<Rightarrow> u32" where
  "example_tta s a = (if list_ex (\<lambda>slot. bit (sau_rlar s ! slot) 0 \<and> sau_rbar s ! slot AND NOT 31 \<le> a \<and> a \<le> sau_rlar s ! slot OR 31) [0..<8] then 0x220000 else 0)"

lemma example_tta_matches: "tta_matches example_tta"
  by (auto simp: tta_matches_def example_tta_def list_ex_iff)

lemma example_v8m_ok: "v8m_ok example_v8m" "sau_table_ok (v8_sau example_v8m)"
proof -
  show "v8m_ok example_v8m"
    using example_pages_ok(2) by (simp add: v8m_ok_def sau_ok_def sau_slices_ok_def example_v8m_def example_sau_def UVISOR_MAX_BOXES_def)
  show "sau_table_ok (v8_sau example_v8m)"
    by (auto simp: sau_table_ok_def example_v8m_def UVISOR_MAX_BOXES_def SAU_ACL_COUNT_def nth_Cons split: nat.splits)
qed

lemma example_v8m_regs:
  "sau_rbar (v8_sau example_v8m) = [0, 0, 0, 0, 0, 0x20001000, 0, 0]" "sau_rlar (v8_sau example_v8m) = [0x1FE1, 0, 0, 0, 0, 0x20001FE1, 0, 0]"
  "v8_active_box example_v8m = 1" "length (g_page_fault_table (v8_pages example_v8m)) = UVISOR_PAGE_MAX_COUNT"
  by (simp_all add: example_v8m_def example_sau_def example_free_pages_def example_pages_def page_consts)

lemma example_v8m_open: "opens_only_granted example_v8m example_v8m"
proof -
  have box: "grants example_v8m 1 0x20001000 0x20001FE1"
    by (simp add: grants_def sau_regions_of_def example_v8m_def SAU_RLAR_def)
  have "sau_rlar (v8_sau example_v8m) ! slot = 0 \<or> grants example_v8m 1 (sau_rbar (v8_sau example_v8m) ! slot) (sau_rlar (v8_sau example_v8m) ! slot)"
    if "4 \<le> slot" "slot < 8" for slot :: nat
  proof -
    consider "slot = 4" | "slot = 5" | "slot = 6" | "slot = 7" using \<open>4 \<le> slot\<close> \<open>slot < 8\<close> by linarith
    then show ?thesis using box by cases (simp_all add: example_v8m_regs)
  qed
  then show ?thesis
    using example_v8m_ok(1) example_v8m_regs(4)
    by (auto simp: opens_only_granted_def sau_inv_def v8m_ok_def example_v8m_regs(3) intro!: exI [of _ "g_page_fault_table (v8_pages example_v8m)"])
qed

theorem vmpu_switch_v8m_opens_only_granted_witness:
  "\<exists>st1. vmpu_switch_v8m example_v8m 0 1 = Inr st1 \<and> take 4 (sau_rlar (v8_sau st1)) = [0x1FE1, 0, 0, 0] \<and>
    (sau_rlar (v8_sau st1) ! 5 = 0 \<or> grants example_v8m 1 (sau_rbar (v8_sau st1) ! 5) (sau_rlar (v8_sau st1) ! 5))"
proof -
  have "sau_region_count (v8_sau example_v8m) \<noteq> 0" "sau_regions_of (v8_sau example_v8m) 1 \<noteq> []"
    by (simp_all add: example_v8m_def sau_regions_of_def)
  then obtain st1 where st1: "vmpu_switch_v8m example_v8m 0 1 = Inr st1"
    and all: "\<forall>st2. runs_v8m example_tta st1 st2 \<longrightarrow> take 4 (sau_rlar (v8_sau st2)) = take 4 (sau_rlar (v8_sau example_v8m)) \<and>
      (\<forall>slot. 4 \<le> slot \<and> slot < 8 \<longrightarrow> sau_rlar (v8_sau st2) ! slot = 0 \<or> grants example_v8m 1 (sau_rbar (v8_sau st2) ! slot) (sau_rlar (v8_sau st2) ! slot))"
    using vmpu_switch_v8m_opens_only_granted [OF example_v8m_ok(1) example_v8m_regs(3), where tta = example_tta and src = 0] by blast
  show ?thesis using st1 all [rule_format, OF runs_refl] by (auto simp: example_v8m_regs)
qed

lemma example_granted: "unpriv_granted (example_tta (v8_sau example_v8m)) 0x20001818 (UVISOR_UNPRIV_ACCESS_READ 4)"
  "unpriv_granted (example_tta (v8_sau example_v8m)) 0x20001818 (UVISOR_UNPRIV_ACCESS_WRITE 4)"
  by (simp_all add: unpriv_granted_def vmpu_unpriv_test_range_def unpriv_access_defs example_tta_def example_v8m_regs upt_rec tt_masks)

theorem vmpu_unpriv_access_v8m_confined_witness:
  "\<exists>m'. vmpu_unpriv_access_v8m example_tta example_v8m (\<lambda>_. 0) 0x20001818 (UVISOR_UNPRIV_ACCESS_WRITE 4) 7 = Inr (0, m', example_v8m) \<and>
    open_byte example_v8m 1 0x2000181B \<and> m' 0x20000000 = 0"
proof -
  have run: "vmpu_unpriv_access_v8m example_tta example_v8m (\<lambda>_. 0) 0x20001818 (UVISOR_UNPRIV_ACCESS_WRITE 4) 7 = Inr (0, write32 (\<lambda>_. 0) 0x20001818 7, example_v8m)"
    by (simp add: vmpu_unpriv_access_v8m_def vmpu_unpriv_access_unfold example_granted) (simp add: unpriv_switch_def unpriv_access_defs)
  have n: "unat (UVISOR_UNPRIV_ACCESS_SIZE (UVISOR_UNPRIV_ACCESS_WRITE 4)) = 4" by (simp add: unpriv_access_defs)
  have "\<forall>k < 4. open_byte example_v8m 1 (0x20001818 + of_nat k)"
    using vmpu_unpriv_access_v8m_confined [OF example_v8m_ok(1) example_v8m_open example_tta_matches run] unfolding n example_v8m_regs by (rule conjunct1)
  from this [rule_format, of 3] have "open_byte example_v8m 1 0x2000181B" by simp
  then show ?thesis using run by (simp add: write32_def)
qed

theorem vmpu_sys_mux_handler_v8m_returns_witness:
  "\<exists>regs st. vmpu_sys_mux_handler_v8m example_tta 0xC 0 (\<lparr>IPSR_v8m = 7, SFSR = 0x48, SFAR = 0x20002084, PSP_S = 0, PSP_NS = 0x20001800, MSP_NS = 0\<rparr>, example_v8m, \<lambda>_. 0)
      = Inr (0xC, regs, st, \<lambda>_. 0) \<and> accessible example_v8m 1 0x20002084 \<and> opens_only_granted example_v8m st"
proof -
  let ?regs = "\<lparr>IPSR_v8m = 7, SFSR = 0x48, SFAR = 0x20002084, PSP_S = 0, PSP_NS = 0x20001800, MSP_NS = 0\<rparr>"
  have access: "vmpu_unpriv_access_v8m example_tta example_v8m (\<lambda>_. 0) 0x20001818 (UVISOR_UNPRIV_ACCESS_READ 4) 0 = Inr (0, \<lambda>_. 0, example_v8m)"
    by (simp add: vmpu_unpriv_access_v8m_def vmpu_unpriv_access_unfold example_granted) (simp add: unpriv_switch_def unpriv_access_defs read32_def)
  have two: "find_region_loop rs a i 2 = find_region_loop rs a i (Suc (Suc 0))" for rs a i by (simp only: numeral_2_eq_2)
  have find: "vmpu_fault_find_region_v8m example_v8m 0x20002084 = Inr (Some 1)"
    by (simp add: vmpu_fault_find_region_v8m_def vmpu_region_find_for_address_v8m_def example_v8m_def two region_contains_def)
  obtain s where "vmpu_mpu_push_v8m (v8_sau example_v8m) (sau_region (v8_sau example_v8m) ! 1) 3 = Inr (True, s)"
    using sau_inv_push [OF opens_only_granted_frame(1) [OF example_v8m_ok(1) example_v8m_open] granted_regions [OF conjunct2 [OF conjunct2 [OF find_region_granted [OF find]]]]]
    by blast
  moreover have "page_allocator_get_active_region_for_address (v8_pages example_v8m) 1 0x20002084 = Inr (UVISOR_ERROR_PAGE_INVALID_PAGE_ORIGIN, None)"
    by (simp add: page_allocator_get_active_region_for_address_def page_allocator_get_page_from_address_def page_consts example_v8m_def example_free_pages_def example_pages_def)
  moreover have "1 < length (sau_region (v8_sau example_v8m))" by (simp add: example_v8m_def)
  ultimately have "\<exists>st. vmpu_fault_recovery_mpu_v8m example_v8m 0 0x20001800 0x20002084 0x48 = Inr (True, st)"
    using find by (simp add: vmpu_fault_recovery_mpu_v8m_def example_v8m_regs(3))
  then obtain st where recover: "vmpu_fault_recovery_mpu_v8m example_v8m 0 0x20001800 0x20002084 0x48 = Inr (True, st)" by blast
  have sp: "exception_sp_v8m ?regs 0xC 0 = 0x20001800"
    by (simp add: exception_sp_v8m_def EXC_FROM_S_def EXC_FROM_NP_def EXC_FROM_PSP_def EXC_RETURN_S_Msk_def EXC_RETURN_Mode_Msk_def EXC_RETURN_SPSEL_Msk_def)
  have "vmpu_sys_mux_handler_v8m example_tta 0xC 0 (?regs, example_v8m, \<lambda>_. 0) = Inr (0xC, ?regs\<lparr>SFSR := 0\<rparr>, st, \<lambda>_. 0)"
    by (simp add: vmpu_sys_mux_handler_v8m_def sp SAU_SFSR_AUVIOL_Msk_def SAU_SFSR_SFARVALID_Msk_def access recover)
  then show ?thesis
    using vmpu_sys_mux_handler_v8m_returns [OF example_v8m_ok(1) example_v8m_open] example_v8m_regs(3) by fastforce
qed

theorem vmpu_acl_sram_v8m_layout_witness:
  "\<exists>bss_start sp st' stack bss. vmpu_acl_sram_v8m example_build example_config False 0 example_v8m 2 100 2000 = Inr (bss_start, sp, st') \<and>
    sau_regions_of (v8_sau st') 2 = [stack, bss] \<and> unat (region_start stack) = 0x20002180 \<and> unat (region_end bss) = 0x20002180 + 2016 + 128 + 128"
proof -
  have "acl_sram_start_v8m example_config example_v8m = 0x20002180" "stack_bytes 2000 = 2016" "bss_bytes 100 = 128"
    by (simp_all add: acl_sram_start_v8m_def example_v8m_def stack_bytes_def bss_bytes_def)
  then show ?thesis
    using vmpu_acl_sram_v8m_layout [OF example_v8m_ok(2), where cfg = example_config and stack_sz = 2000 and bss_sz = 100 and counted = False and box_count = 0
        and b = 2 and bc = example_build]
    by (fastforce simp: example_v8m_def SAU_ACL_COUNT_def vmpu_is_box_id_valid_def UVISOR_MAX_BOXES_def)
qed

end
