(* ===== verification/Vmpu_Kinetis.thy ===== *)
theory Vmpu_Kinetis
  imports Mpu_Kinetis Vmpu_Armv8m
begin

text \<open>
  The Kinetis port, \<^verbatim>\<open>core/vmpu/src/mpu_kinetis/vmpu_kinetis.c\<close>, with the slave ports of the protection unit from \<^verbatim>\<open>core/vmpu/inc/vmpu_kinetis.h\<close>, on top
  of the drivers of the peripheral bridges and of the memory protection unit: recovering from bus faults, switching boxes, the memory of a box and the
  initialisation. Names that the other ports have too are marked with \<open>_kinetis\<close>.
\<close>

unbundle bit_operations_syntax

section \<open>State\<close>

text \<open>The drivers, the page allocator, \<open>g_active_box\<close> and the static offset of \<open>vmpu_acl_sram\<close>, which hides the global variable of the same name.\<close>

record kinetis_port =
  kp_mpu :: kinetis_state
  kp_pages :: page_allocator
  kp_active_box :: u8
  kp_box_mem_pos :: u32

section \<open>Slave ports\<close>

definition MPU_CESR_SPERR_MASK :: u32 where "MPU_CESR_SPERR_MASK = 0xF8000000"
definition MPU_CESR_SPERR_SHIFT :: u32 where "MPU_CESR_SPERR_SHIFT = 27"
definition VMPU_FAULT_NONE :: int where "VMPU_FAULT_NONE = - 1"
definition VMPU_FAULT_MULTIPLE :: int where "VMPU_FAULT_MULTIPLE = - 2"

lemmas slave_port_consts = MPU_CESR_SPERR_MASK_def MPU_CESR_SPERR_SHIFT_def VMPU_FAULT_NONE_def VMPU_FAULT_MULTIPLE_def

definition vmpu_fault_get_slave_port :: "u32 \<Rightarrow> int" where
  "vmpu_fault_get_slave_port cesr =
     (let mpu_cesr_sperr = drop_bit (unat MPU_CESR_SPERR_SHIFT) (cesr AND MPU_CESR_SPERR_MASK) in
      if mpu_cesr_sperr = 0x00 then VMPU_FAULT_NONE
      else if mpu_cesr_sperr = 0x01 then 4
      else if mpu_cesr_sperr = 0x02 then 3
      else if mpu_cesr_sperr = 0x04 then 2
      else if mpu_cesr_sperr = 0x08 then 1
      else if mpu_cesr_sperr = 0x10 then 0
      else VMPU_FAULT_MULTIPLE)"

text \<open>The value that a write leaves in the register is up to the hardware: the argument \<open>wr\<close> maps the old value and the written one to the new one.\<close>

definition vmpu_fault_clear_slave_port :: "(u32 \<Rightarrow> u32 \<Rightarrow> u32) \<Rightarrow> int \<Rightarrow> u32 \<Rightarrow> u32" where
  "vmpu_fault_clear_slave_port wr slave_port cesr =
     (if slave_port \<ge> 0 \<and> slave_port \<le> 4 then
        let slave_port_bits = push_bit (nat slave_port) 1 in
        wr cesr (cesr OR (push_bit (unat MPU_CESR_SPERR_SHIFT) slave_port_bits AND MPU_CESR_SPERR_SHIFT))
      else cesr)"

section \<open>Faults\<close>

definition vmpu_fault_find_acl_kinetis :: "kinetis_port \<Rightarrow> u32 \<Rightarrow> u32 \<Rightarrow> u32 res" where
  "vmpu_fault_find_acl_kinetis st fault_addr sz =
     (if fault_addr = SCB_SCR_ADDRESS then Inr (UVISOR_TACL_UWRITE OR UVISOR_TACL_UREAD)
      else
        let fault_addr =
          (if VMPU_PERIPH_BITBAND_START \<le> fault_addr \<and> fault_addr \<le> VMPU_PERIPH_BITBAND_END
           then VMPU_PERIPH_BITBAND_ALIAS_TO_ADDR fault_addr
           else if VMPU_SRAM_BITBAND_START \<le> fault_addr \<and> fault_addr \<le> VMPU_SRAM_BITBAND_END
           then VMPU_SRAM_BITBAND_ALIAS_TO_ADDR fault_addr
           else fault_addr) in
        if AIPS0_BASE \<le> fault_addr \<and> fault_addr < AIPS0_BASE + 0xFE * AIPSx_SLOT_SIZE
        then vmpu_fault_find_acl_aips (kin_aips (kp_mpu st)) (kp_active_box st) fault_addr sz
        else Inr 0)"

text \<open>The result is 0 when the fault was recovered; the program counter and the stack pointer are not used.\<close>

definition vmpu_fault_recovery_mpu_kinetis :: "kinetis_port \<Rightarrow> u32 \<Rightarrow> u32 \<Rightarrow> u32 \<Rightarrow> (int \<times> kinetis_port) res" where
  "vmpu_fault_recovery_mpu_kinetis st pc sp fault_addr =
     bind_res (page_allocator_get_active_region_for_address (kp_pages st) (kp_active_box st) fault_addr) (\<lambda>(rc, found).
     case found of
       Some (start_addr, end_addr, page) \<Rightarrow>
         bind_res (page_allocator_register_fault (kp_pages st) page) (\<lambda>pa.
         bind_res (vmpu_mem_push_page_acl (kp_active_box st) start_addr end_addr (kp_mpu st)) (\<lambda>(rc, mpu).
         Inr (if rc \<noteq> 0 then - 1 else 0, st\<lparr>kp_pages := pa, kp_mpu := mpu\<rparr>)))
     | None \<Rightarrow> Inr (- 1, st))"

section \<open>System exceptions\<close>

text \<open>The registers that the handler reads, with the five error addresses of the slave ports; bits of the fault status are cleared by writing ones.\<close>

record kinetis_fault_regs =
  IPSR_kinetis :: u32
  BFSR_kinetis :: u8
  BFAR_kinetis :: u32
  PSP_kinetis :: u32
  CESR :: u32
  SP_EAR :: "u32 list"

text \<open>The part of the handler for bus faults, in two steps: a fault of the protection unit, and the access to a special register.\<close>

definition bus_fault_mpu ::
  "(u32 \<Rightarrow> u32 \<Rightarrow> u32) \<Rightarrow> u32 \<Rightarrow> u32 \<Rightarrow> u32 \<Rightarrow> kinetis_fault_regs \<times> kinetis_port \<Rightarrow> (bool \<times> u32 \<times> kinetis_fault_regs \<times> kinetis_port) res" where
  "bus_fault_mpu wr pc sp fault_addr = (\<lambda>(regs, st).
     let slave_port = vmpu_fault_get_slave_port (CESR regs) in
     if slave_port \<ge> 0 then
       bind_res (arr_get (SP_EAR regs) (nat slave_port)) (\<lambda>fault_addr.
       bind_res (vmpu_fault_recovery_mpu_kinetis st pc sp fault_addr) (\<lambda>(rc, st).
       if rc = 0 then
         Inr (True, fault_addr, regs\<lparr>BFSR_kinetis := BFSR_kinetis regs AND NOT (BFSR_kinetis regs), CESR := vmpu_fault_clear_slave_port wr slave_port (CESR regs)\<rparr>, st)
       else Inr (False, fault_addr, regs, st)))
     else Inr (False, fault_addr, regs, st))"

definition bus_fault_special ::
  "UvisorConfig \<Rightarrow> access \<Rightarrow> bool \<Rightarrow> u32 \<Rightarrow> u32 \<Rightarrow> u32 \<Rightarrow> u32 \<Rightarrow> u32 \<Rightarrow> kinetis_fault_regs \<times> kinetis_port \<times> mem
    \<Rightarrow> (u32 \<times> kinetis_fault_regs \<times> kinetis_port \<times> mem) res" where
  "bus_fault_special cfg acc from_psp lr pc sp fault_addr fault_status = (\<lambda>(regs, st, m).
     bind_res
       (if from_psp then vmpu_fault_recovery_bus cfg acc (vmpu_fault_find_acl_kinetis st) pc sp fault_addr fault_status m
        else Inr (- 1, m))
       (\<lambda>(rc, m).
         if rc = 0 then Inr (lr, regs\<lparr>BFSR_kinetis := BFSR_kinetis regs AND NOT (ucast fault_status)\<rparr>, st, m)
         else Inl (Halt PERMISSION_DENIED)))"

definition vmpu_sys_mux_handler_kinetis ::
  "UvisorConfig \<Rightarrow> access \<Rightarrow> (u32 \<Rightarrow> u32 \<Rightarrow> u32) \<Rightarrow> u32 \<Rightarrow> u32 \<Rightarrow> kinetis_fault_regs \<times> kinetis_port \<times> mem
    \<Rightarrow> (u32 \<times> kinetis_fault_regs \<times> kinetis_port \<times> mem) res" where
  "vmpu_sys_mux_handler_kinetis cfg acc wr lr msp = (\<lambda>(regs, st, m).
     let ipsr = int (unat (IPSR_kinetis regs AND 0x1FF)) - 16;
         from_np = EXC_FROM_NP lr;
         from_psp = EXC_FROM_PSP lr;
         sp = (if from_np then if from_psp then PSP_kinetis regs else msp else msp) in
     if ipsr = - 14 then Inl (Halt NOT_IMPLEMENTED)
     else if ipsr = - 13 then Inl (Halt FAULT_HARD)
     else if ipsr = - 12 then Inl (Halt FAULT_MEMMANAGE)
     else if ipsr = - 11 then
       (let fault_status = ucast (BFSR_kinetis regs) in
        bind_res
          (if fault_status AND (SCB_CFSR_MSTKERR_Msk OR SCB_CFSR_MUNSTKERR_Msk) \<noteq> 0 then Inr (0, sp)
           else
             bind_res (if from_np then vmpu_unpriv_uint32_read acc m (sp + 6 * 4) else Inr (read32 m (msp + 6 * 4))) (\<lambda>pc.
             Inr (pc, BFAR_kinetis regs)))
          (\<lambda>(pc, fault_addr).
            bind_res (bus_fault_mpu wr pc sp fault_addr (regs, st)) (\<lambda>(recovered, fault_addr, regs, st).
            if recovered then Inr (lr, regs, st, m)
            else bus_fault_special cfg acc from_psp lr pc sp fault_addr fault_status (regs, st, m))))
     else if ipsr = - 10 then Inl (Halt FAULT_USAGE)
     else if ipsr = - 5 then Inl (Halt NOT_IMPLEMENTED)
     else if ipsr = - 4 then Inl (Halt FAULT_DEBUG)
     else if ipsr = - 2 then Inl (Halt NOT_IMPLEMENTED)
     else if ipsr = - 1 then Inl (Halt NOT_IMPLEMENTED)
     else Inl (Halt NOT_ALLOWED))"

section \<open>Box memory\<close>

text \<open>\<open>g_box_mem_pos\<close>, set when the first box is loaded.\<close>

definition acl_sram_start_kinetis :: "UvisorConfig \<Rightarrow> kinetis_port \<Rightarrow> u32" where
  "acl_sram_start_kinetis cfg st =
     (if kp_box_mem_pos st = 0 then UVISOR_REGION_ROUND_UP_32 (bss_boxes_start cfg) + UVISOR_STACK_BAND_SIZE else kp_box_mem_pos st)"

text \<open>The results are the start of the BSS sections, the stack pointer and the new state.\<close>

definition vmpu_acl_sram_kinetis ::
  "build_config \<Rightarrow> UvisorConfig \<Rightarrow> bool \<Rightarrow> u8 \<Rightarrow> kinetis_port \<Rightarrow> u8 \<Rightarrow> u32 \<Rightarrow> u32 \<Rightarrow> (u32 \<times> u32 \<times> kinetis_port) res" where
  "vmpu_acl_sram_kinetis bc cfg counted box_count st box_id bss_sz stack_sz =
     (let pos = acl_sram_start_kinetis cfg st;
          stack_sz = UVISOR_REGION_ROUND_UP_32 (UVISOR_MIN_STACK stack_sz) in
      bind_res (vmpu_region_add_static_acl_kinetis counted box_count (kp_mpu st) box_id pos stack_sz UVISOR_TACLDEF_STACK 0) (\<lambda>(n, mpu).
      let pos = pos + stack_sz;
          stack_pointer = pos;
          pos = pos + UVISOR_STACK_BAND_SIZE in
      bind_res (assert_res bc (bss_sz \<noteq> 0)) (\<lambda>_.
      let bss_sz = UVISOR_REGION_ROUND_UP_32 bss_sz;
          bss_start = pos in
      bind_res (vmpu_region_add_static_acl_kinetis counted box_count mpu box_id pos bss_sz UVISOR_TACLDEF_DATA 0) (\<lambda>(n, mpu).
      Inr (bss_start, stack_pointer, st\<lparr>kp_mpu := mpu, kp_box_mem_pos := pos + (bss_sz + UVISOR_STACK_BAND_SIZE)\<rparr>)))))"

section \<open>Switching boxes, initialisation and the order of the boxes\<close>

definition vmpu_switch_kinetis :: "kinetis_port \<Rightarrow> u8 \<Rightarrow> u8 \<Rightarrow> kinetis_port res" where
  "vmpu_switch_kinetis st src_box dst_box =
     bind_res (vmpu_aips_switch src_box dst_box (kin_aips (kp_mpu st))) (\<lambda>aips.
     bind_res (vmpu_mem_switch (kp_pages st) (kp_active_box st) ((kp_mpu st)\<lparr>kin_aips := aips\<rparr>) src_box dst_box) (\<lambda>mpu.
     Inr (st\<lparr>kp_mpu := mpu\<rparr>)))"

definition vmpu_arch_init_kinetis :: "u32 \<Rightarrow> UvisorConfig \<Rightarrow> (nat \<Rightarrow> MpuRegion) \<Rightarrow> kinetis_state \<Rightarrow> kinetis_state res" where
  "vmpu_arch_init_kinetis flash_origin cfg garbage st =
     bind_res (vmpu_mem_init flash_origin cfg garbage (vmpu_mpu_init_kinetis st)) (\<lambda>st.
     Inr (vmpu_mpu_lock_kinetis st))"

definition vmpu_order_boxes_kinetis :: "nat list \<Rightarrow> nat \<Rightarrow> nat list" where
  "vmpu_order_boxes_kinetis best_order box_count = fold (\<lambda>i order. order[i := i]) [0..<box_count] best_order"

section \<open>Switching boxes\<close>

definition kinetis_port_ok :: "kinetis_port \<Rightarrow> bool" where
  "kinetis_port_ok st \<longleftrightarrow> kinetis_table_ok (kp_mpu st) \<and> kin_region_count (kp_mpu st) \<noteq> 0 \<and> length (MPU_WORD (kp_mpu st)) = 12 \<and> length (kin_priority (kp_mpu st)) = 12 \<and>
     aips_ok (kin_aips (kp_mpu st)) \<and> pa_ok (kp_pages st) \<and> unat (kp_active_box st) < UVISOR_MAX_BOXES"

text \<open>The memory regions that a box needs: its own, for a secure box, and the pages of the active box.\<close>

definition needed_regions :: "kinetis_port \<Rightarrow> u8 \<Rightarrow> MpuRegion list" where
  "needed_regions st dst = (if dst = 0 then [] else kin_regions_of (kp_mpu st) dst) @
     map (page_region (kp_pages st)) (owned_pages (kp_pages st) (unat (kp_active_box st)) [0..<pages (kp_pages st)])"

lemma aips_update_slices [simp]:
  "kin_slice (st\<lparr>kin_aips := a\<rparr>) b = kin_slice st b" "kin_slice_in (st\<lparr>kin_aips := a\<rparr>) b = kin_slice_in st b"
  by (simp_all add: kin_slice_def kin_slice_in_def Let_def split: option.split)

lemma aips_update_simps:
  "kinetis_table_ok (st\<lparr>kin_aips := a\<rparr>) \<longleftrightarrow> kinetis_table_ok st" "kin_regions_of (st\<lparr>kin_aips := a\<rparr>) b = kin_regions_of st b"
  by (simp_all add: kinetis_table_ok_def kin_regions_of_def)


section \<open>The handler\<close>

lemma recovery_mpu_kinetis:
  assumes run: "vmpu_fault_recovery_mpu_kinetis st pc sp a = Inr (rc, st')" and ok: "pa_ok (kp_pages st)" "unat (kp_active_box st) < UVISOR_MAX_BOXES"
  shows "kp_active_box st' = kp_active_box st"
    "rc = 0 \<Longrightarrow> \<exists>p < pages (kp_pages st). owned (kp_pages st) (unat (kp_active_box st)) p \<and> in_page (kp_pages st) p a"
    "rc \<noteq> 0 \<Longrightarrow> kp_mpu st' = kp_mpu st"
proof -
  obtain c found where found: "page_allocator_get_active_region_for_address (kp_pages st) (kp_active_box st) a = Inr (c, found)"
    using run by (auto simp: vmpu_fault_recovery_mpu_kinetis_def res_simps)
  show "kp_active_box st' = kp_active_box st" "rc \<noteq> 0 \<Longrightarrow> kp_mpu st' = kp_mpu st"
    using run found by (auto simp: vmpu_fault_recovery_mpu_kinetis_def vmpu_mem_push_page_acl_def res_simps split: option.splits if_splits)
  assume "rc = 0"
  then obtain s e p where "found = Some (s, e, p)" using run found by (auto simp: vmpu_fault_recovery_mpu_kinetis_def split: option.splits)
  then show "\<exists>p < pages (kp_pages st). owned (kp_pages st) (unat (kp_active_box st)) p \<and> in_page (kp_pages st) p a"
    using active_region_granted [OF ok, of a c s e p] found by blast
qed

lemma find_acl_kinetis_cong:
  "kp_mpu st' = kp_mpu st \<Longrightarrow> kp_active_box st' = kp_active_box st \<Longrightarrow> vmpu_fault_find_acl_kinetis st' = vmpu_fault_find_acl_kinetis st"
  unfolding vmpu_fault_find_acl_kinetis_def fun_eq_iff by (simp only: simp_thms)

lemma bus_fault_mpu_cases:
  assumes run: "bus_fault_mpu wr pc sp a (regs, st) = Inr (recovered, a', regs', st')" and ok: "pa_ok (kp_pages st)" "unat (kp_active_box st) < UVISOR_MAX_BOXES"
  shows "recovered \<Longrightarrow> 0 \<le> vmpu_fault_get_slave_port (CESR regs) \<and>
      (\<exists>p < pages (kp_pages st). owned (kp_pages st) (unat (kp_active_box st)) p \<and> in_page (kp_pages st) p (SP_EAR regs ! nat (vmpu_fault_get_slave_port (CESR regs))))"
    "\<not> recovered \<Longrightarrow> kp_mpu st' = kp_mpu st \<and> kp_active_box st' = kp_active_box st"
proof -
  show "recovered \<Longrightarrow> 0 \<le> vmpu_fault_get_slave_port (CESR regs) \<and>
      (\<exists>p < pages (kp_pages st). owned (kp_pages st) (unat (kp_active_box st)) p \<and> in_page (kp_pages st) p (SP_EAR regs ! nat (vmpu_fault_get_slave_port (CESR regs))))"
    using run recovery_mpu_kinetis(2) [OF _ ok] by (auto simp: bus_fault_mpu_def Let_def res_simps split: if_splits)
  show "\<not> recovered \<Longrightarrow> kp_mpu st' = kp_mpu st \<and> kp_active_box st' = kp_active_box st"
    using run recovery_mpu_kinetis(1,3) [OF _ ok] by (auto simp: bus_fault_mpu_def Let_def res_simps split: if_splits)
qed


text \<open>
  The flag of a slave port is masked with the shift of the field instead of its mask: what is written is the value that was read, whichever port is to be cleared. Where the
  flags are cleared by writing ones, this clears the flags of all ports.
\<close>

theorem vmpu_fault_clear_slave_port_any:
  assumes "0 \<le> p" "p \<le> 4"
  shows "vmpu_fault_clear_slave_port wr p cesr = wr cesr cesr"
proof -
  have "nat p = 0 \<or> nat p = 1 \<or> nat p = 2 \<or> nat p = 3 \<or> nat p = 4" using assms by linarith
  then show ?thesis using assms by (auto simp: vmpu_fault_clear_slave_port_def MPU_CESR_SPERR_SHIFT_def)
qed

section \<open>The memory of a box\<close>

text \<open>All regions end below an address, and the rest of the table is free.\<close>

definition kin_below :: "kinetis_state \<Rightarrow> u32 \<Rightarrow> bool" where
  "kin_below s pos \<longleftrightarrow> (\<forall>i < unat (kin_region_count s). region_start (kin_region s ! i) < region_end (kin_region s ! i) \<and> region_end (kin_region s ! i) \<le> pos) \<and>
     (\<forall>i < UVISOR_MAX_ACLS. unat (kin_region_count s) \<le> i \<longrightarrow> region_config (kin_region s ! i) = 0)"

definition kin_box_at_end :: "kinetis_state \<Rightarrow> u8 \<Rightarrow> bool" where
  "kin_box_at_end s b \<longleftrightarrow> (case slice_regions (kin_box_region s ! unat b) of None \<Rightarrow> True
     | Some i \<Rightarrow> i + unat (slice_count (kin_box_region s ! unat b)) = unat (kin_region_count s))"

definition box_region :: "u32 \<Rightarrow> u32 \<Rightarrow> MpuRegion" where
  "box_region start sz = \<lparr>region_start = start, region_end = start + sz, region_config = 0x1E, region_acl = 0x876\<rparr>"

lemma box_rights: "acl = UVISOR_TACLDEF_STACK \<or> acl = UVISOR_TACLDEF_DATA \<Longrightarrow> stack_rights acl = 0x876 \<and> vmpu_map_acl_kinetis 0x876 0 = 0x1E \<and>
    acl AND UVISOR_TACL_PERIPHERAL = 0 \<and> rights_supported acl 0"
  by (auto simp: stack_rights_def rights_supported_def vmpu_map_acl_kinetis_def tacl_defs Let_def)

lemma not_overlap_below: "s2 < e2 \<Longrightarrow> e2 \<le> s1 \<Longrightarrow> s1 < e1 \<Longrightarrow> \<not> vmpu_mem_overlap s1 e1 s2 e2"
  by (auto simp: vmpu_mem_overlap_def)

lemma add_static_acl_kinetis:
  assumes s: "kinetis_table_ok s" "kin_below s pos" "unat (kin_region_count s) < UVISOR_MAX_ACLS" and b: "vmpu_is_box_id_valid counted box_count b" "unat b < UVISOR_MAX_BOXES" "kin_box_at_end s b"
    and start: "start AND 0x1F = 0" "pos \<le> start" and sz: "sz mod 32 = 0" "start < start + sz" and acl: "acl = UVISOR_TACLDEF_STACK \<or> acl = UVISOR_TACLDEF_DATA"
  shows "\<exists>s'. vmpu_region_add_static_acl_kinetis counted box_count s b start sz acl 0 = Inr (sz, s') \<and> kinetis_table_ok s' \<and> kin_below s' (start + sz) \<and> kin_box_at_end s' b \<and>
    unat (kin_region_count s') = Suc (unat (kin_region_count s)) \<and> kin_regions_of s' b = kin_regions_of s b @ [box_region start sz] \<and>
    (\<forall>c. c \<noteq> b \<and> unat c < UVISOR_MAX_BOXES \<longrightarrow> kin_regions_of s' c = kin_regions_of s c)"
proof -
  let ?n = "unat (kin_region_count s)" let ?box = "kin_box_region s ! unat b" let ?r = "box_region start sz"
  define first where "first = (case slice_regions ?box of None \<Rightarrow> ?n | Some i \<Rightarrow> i)"
  note rights = box_rights [OF acl]
  have len: "length (kin_region s) = UVISOR_MAX_ACLS" "length (kin_box_region s) = UVISOR_MAX_BOXES" and slices: "\<forall>c < UVISOR_MAX_BOXES. kin_slice_in s c"
    using s(1) by (auto simp: kinetis_table_ok_def)
  have "kin_slice_in s (unat b)" using slices b(2) by blast
  then have at: "first + unat (slice_count ?box) = ?n" using b(3) by (auto simp: first_def kin_box_at_end_def kin_slice_in_def Let_def split: option.splits)
  let ?s' = "s\<lparr>kin_region := (kin_region s)[?n := ?r], kin_box_region := (kin_box_region s)[unat b := \<lparr>slice_regions = Some first, slice_count = slice_count ?box + 1\<rparr>],
      kin_region_count := kin_region_count s + 1\<rparr>"
  have "\<not> overlap_refused (take ?n (kin_region s)) start (start + sz) (stack_rights acl)"
    using s(2,3) len start(2) sz(2) not_overlap_below by (fastforce simp: overlap_refused_def list_ex_length kin_below_def)
  moreover have "region_config (kin_region s ! ?n) = 0" "sz \<noteq> 0" "(0x876 :: u32) AND (UVISOR_TACL_UACL OR UVISOR_TACL_SACL) \<noteq> 0"
    using s(2,3) sz(2) by (auto simp: kin_below_def tacl_defs)
  ultimately have "vmpu_region_add_static_acl_internal counted box_count s b start sz (stack_rights acl) 0 = Inr (sz, ?s')"
    using s(3) b(1,2) len at rights unfolding vmpu_region_add_static_acl_internal_def Let_def translate_stack_rights [OF start(1)]
    by (simp add: sz(1) box_region_def first_def [symmetric])
  then have run: "vmpu_region_add_static_acl_kinetis counted box_count s b start sz acl 0 = Inr (sz, ?s')"
    using b(1) start(1) rights \<open>sz \<noteq> 0\<close> by (simp add: vmpu_region_add_static_acl_kinetis_def stack_rights_def [symmetric])
  have ok: "kinetis_table_ok ?s'" using add_static_acl_kinetis_table_ok [OF run s(1)] rights by blast
  have new: "kin_slice ?s' (unat b) = kin_slice s (unat b) @ [?n]" "unat (kin_region_count ?s') = Suc ?n"
    using kin_slice_appended [of "unat b" s ?box first ?s'] at s(3) b(2) len slices first_def by simp_all
  have others: "\<forall>c. c \<noteq> b \<and> unat c < UVISOR_MAX_BOXES \<longrightarrow> kin_regions_of ?s' c = kin_regions_of s c"
  proof (intro allI impI)
    fix c assume c: "c \<noteq> b \<and> unat c < UVISOR_MAX_BOXES"
    then have "unat c \<noteq> unat b" by (simp add: word_unat_eq_iff)
    then have same: "kin_slice ?s' (unat c) = kin_slice s (unat c)" by (intro kin_slice_cong(1)) simp
    have "?n \<notin> set (kin_slice s (unat c))" using kin_slice_in_bound [of s "unat c" ?n] slices c by blast
    then show "kin_regions_of ?s' c = kin_regions_of s c" unfolding kin_regions_of_def same by (auto intro!: nth_list_update_neq)
  qed
  have "kin_regions_of ?s' b = kin_regions_of s b @ [?r]"
    using new(1) len s(3) kin_slice_in_bound [of s "unat b"] slices b(2) by (auto simp: kin_regions_of_def nth_list_update)
  moreover have "kin_below ?s' (start + sz)"
    using s(2,3) len new(2) start(2) sz(2) by (auto simp: kin_below_def nth_list_update less_Suc_eq box_region_def)
  moreover have "unat (slice_count ?box + 1) = Suc (unat (slice_count ?box))" using at s(3) by (simp add: unat_word_ariths kinetis_consts)
  then have "kin_box_at_end ?s' b" using new(2) at b(2) len by (simp add: kin_box_at_end_def)
  ultimately show ?thesis using run ok new(2) others by blast
qed

text \<open>
  The memory of a secure box on Kinetis. Loading a box above the memory of the boxes before it succeeds, if its two regions fit in the table and in the address
  space. The box gets a stack and behind it its BSS sections, each large enough, aligned to 32 bytes, readable and writable, and separated by a band of 128 bytes, which also
  separates them from the next box. No region overlaps with another, and the regions of the other boxes are unchanged.
\<close>

theorem vmpu_acl_sram_kinetis_layout:
  fixes cfg st stack_sz bss_sz pos S B
  defines "pos \<equiv> unat (acl_sram_start_kinetis cfg st)" and "S \<equiv> stack_bytes stack_sz" and "B \<equiv> bss_bytes bss_sz"
  assumes table: "kinetis_table_ok (kp_mpu st)" "kin_below (kp_mpu st) (acl_sram_start_kinetis cfg st)" "unat (kin_region_count (kp_mpu st)) + 2 \<le> UVISOR_MAX_ACLS"
    and box: "vmpu_is_box_id_valid counted box_count b" "unat b < UVISOR_MAX_BOXES" "slice_regions (kin_box_region (kp_mpu st) ! unat b) = None"
    and fits: "bss_sz \<noteq> 0" "pos mod 32 = 0" "pos + S + B + 256 < 2 ^ 32"
  shows "\<exists>bss_start sp st' stack bss. vmpu_acl_sram_kinetis bc cfg counted box_count st b bss_sz stack_sz = Inr (bss_start, sp, st') \<and>
    kin_regions_of (kp_mpu st') b = [stack, bss] \<and> region_config stack = 0x1E \<and> region_config bss = 0x1E \<and>
    unat (region_start stack) = pos \<and> unat (region_end stack) = pos + S \<and> sp = region_end stack \<and>
    bss_start = region_start bss \<and> unat (region_start bss) = pos + S + 128 \<and> unat (region_end bss) = pos + S + 128 + B \<and>
    1024 \<le> S \<and> unat stack_sz \<le> S \<and> unat bss_sz \<le> B \<and>
    unat (kp_box_mem_pos st') = pos + S + B + 256 \<and> unat (kp_box_mem_pos st') mod 32 = 0 \<and> kinetis_table_ok (kp_mpu st') \<and> kin_below (kp_mpu st') (region_end bss) \<and>
    (\<forall>c. c \<noteq> b \<and> unat c < UVISOR_MAX_BOXES \<longrightarrow> kin_regions_of (kp_mpu st') c = kin_regions_of (kp_mpu st) c)"
proof -
  let ?p = "acl_sram_start_kinetis cfg st" let ?S = "UVISOR_REGION_ROUND_UP_32 (UVISOR_MIN_STACK stack_sz)" let ?B = "UVISOR_REGION_ROUND_UP_32 bss_sz"
  have small: "stack_bytes stack_sz < 2 ^ 32 - 64" "bss_bytes bss_sz < 2 ^ 32 - 64" using fits(3) by (simp_all add: S_def B_def)
  note sizes = box_sizes [OF small, folded S_def B_def]
  have mod32: "S mod 32 = 0" "B mod 32 = 0" by (simp_all add: S_def B_def stack_bytes_def bss_bytes_def)
  have big: "1024 \<le> S" "unat stack_sz \<le> S" "unat bss_sz \<le> B" "(pos + S + B + 256) mod 32 = 0"
    using round_up_le [of "max 1024 (unat stack_sz)"] round_up_le [of "unat bss_sz"] fits(2) mod32
    by (auto simp: S_def stack_bytes_def B_def bss_bytes_def mod_add_eq [symmetric])
  have "0 < unat bss_sz" using fits(1) by (simp add: unat_gt_0)
  then have B: "0 < B" using big(3) by linarith
  have addr: "unat (?p + ?S) = pos + S" "unat (?p + ?S + 128) = pos + S + 128" "unat (?p + ?S + 128 + ?B) = pos + S + 128 + B"
    "unat (?p + ?S + 128 + (?B + 128)) = pos + S + B + 256"
    using fits(3) sizes by (simp_all add: unat_word_ariths pos_def [symmetric])
  have less: "?p < ?p + ?S" "?p + ?S + 128 < ?p + ?S + 128 + ?B" "?p + ?S \<le> ?p + ?S + 128"
    using addr big(1) B by (simp_all add: word_less_nat_alt word_le_nat_alt pos_def)
  have low: "x AND 0x1F = 0 \<and> x mod 32 = 0" if "unat x mod 32 = 0" for x :: u32
  proof -
    have "unat (x mod 32) = 0" using that by (simp add: unat_mod)
    then have "x mod 32 = 0" by (simp only: unat_eq_zero)
    moreover have "x mod 32 = x AND 0x1F" using take_bit_eq_mod [of 5 x] by (simp add: take_bit_eq_mask mask_eq_exp_minus_1)
    ultimately show ?thesis by simp
  qed
  have "unat ?p mod 32 = 0" "unat ?S mod 32 = 0" "unat (?p + ?S + 128) mod 32 = 0" "unat ?B mod 32 = 0"
    using fits(2) mod32 sizes unfolding addr by (simp_all add: pos_def [symmetric] mod_add_eq [symmetric])
  note al = this [THEN low]
  have "kin_slice_in (kp_mpu st) (unat b)" using table(1) box(2) by (simp add: kinetis_table_ok_def)
  then have empty: "kin_box_at_end (kp_mpu st) b" "kin_regions_of (kp_mpu st) b = []" using box(3)
    by (auto simp: kin_box_at_end_def kin_regions_of_def kin_slice_def)
  obtain s1 where s1: "vmpu_region_add_static_acl_kinetis counted box_count (kp_mpu st) b ?p ?S UVISOR_TACLDEF_STACK 0 = Inr (?S, s1)" "kinetis_table_ok s1"
      "kin_below s1 (?p + ?S)" "kin_box_at_end s1 b" "unat (kin_region_count s1) = Suc (unat (kin_region_count (kp_mpu st)))" "kin_regions_of s1 b = [box_region ?p ?S]"
      "\<forall>c. c \<noteq> b \<and> unat c < UVISOR_MAX_BOXES \<longrightarrow> kin_regions_of s1 c = kin_regions_of (kp_mpu st) c"
    using add_static_acl_kinetis [OF table(1,2) _ box(1,2) empty(1), of ?p ?S UVISOR_TACLDEF_STACK] al less(1) table(3) empty(2) by auto
  obtain s2 where s2: "vmpu_region_add_static_acl_kinetis counted box_count s1 b (?p + ?S + 128) ?B UVISOR_TACLDEF_DATA 0 = Inr (?B, s2)" "kinetis_table_ok s2"
      "kin_below s2 (?p + ?S + 128 + ?B)" "kin_regions_of s2 b = [box_region ?p ?S, box_region (?p + ?S + 128) ?B]"
      "\<forall>c. c \<noteq> b \<and> unat c < UVISOR_MAX_BOXES \<longrightarrow> kin_regions_of s2 c = kin_regions_of s1 c"
    using add_static_acl_kinetis [OF s1(2,3) _ box(1,2) s1(4), of "?p + ?S + 128" ?B UVISOR_TACLDEF_DATA] al less(2,3) table(3) s1(5,6) by auto
  have run: "vmpu_acl_sram_kinetis bc cfg counted box_count st b bss_sz stack_sz =
      Inr (?p + ?S + 128, ?p + ?S, st\<lparr>kp_mpu := s2, kp_box_mem_pos := ?p + ?S + 128 + (?B + 128)\<rparr>)"
    using s1(1) s2(1) fits(1) by (simp add: vmpu_acl_sram_kinetis_def UVISOR_STACK_BAND_SIZE_def assert_res_def Let_def)
  then show ?thesis using s1(7) s2 addr big by (auto simp: box_region_def pos_def)
qed

section \<open>Examples\<close>

definition example_port :: kinetis_port where
  "example_port = \<lparr>kp_mpu = example_two_regions, kp_pages = example_pages, kp_active_box = 1, kp_box_mem_pos = 0x20000280\<rparr>"

lemma example_port_ok: "kinetis_port_ok example_port"
proof -
  have "kinetis_table_ok example_two_regions" using kinetis_adds_table_ok example_two_regions_reached example_kinetis_ok by blast
  then show ?thesis using example_aips_ok example_pages_ok(1)
    by (simp add: kinetis_port_ok_def example_port_def UVISOR_MAX_BOXES_def example_two_regions_def example_kinetis_def)
qed


text \<open>Box 1 faults on an address in its page, which slave port 3 reports.\<close>

definition example_kinetis_regs :: kinetis_fault_regs where
  "example_kinetis_regs = \<lparr>IPSR_kinetis = 5, BFSR_kinetis = 0, BFAR_kinetis = 0, PSP_kinetis = 0x20003000, CESR = 0x10000000,
     SP_EAR = [0, 0, 0, g_page_heap_start example_pages + 8, 0]\<rparr>"


theorem vmpu_acl_sram_kinetis_layout_witness:
  "\<exists>bss_start sp st' stack bss. vmpu_acl_sram_kinetis example_build example_config False 0 example_port 3 100 2000 = Inr (bss_start, sp, st') \<and>
    kin_regions_of (kp_mpu st') 3 = [stack, bss] \<and> unat (region_start stack) = 0x20000280 \<and> unat (region_end bss) = 0x20000280 + 2016 + 128 + 128"
proof -
  have start: "acl_sram_start_kinetis example_config example_port = 0x20000280" "stack_bytes 2000 = 2016" "bss_bytes 100 = 128"
    by (simp_all add: acl_sram_start_kinetis_def example_port_def stack_bytes_def bss_bytes_def)
  have "kin_below (kp_mpu example_port) 0x20000280"
    by (auto simp: kin_below_def example_port_def example_two_regions_def example_kinetis_def example_kinetis_region_def no_region_def kinetis_consts less_2_cases_iff)
  then show ?thesis
    using vmpu_acl_sram_kinetis_layout [where st = example_port and cfg = example_config and stack_sz = 2000 and bss_sz = 100 and counted = False and box_count = 0
        and b = 3 and bc = example_build] example_port_ok start
    by (fastforce simp: kinetis_port_ok_def example_port_def example_two_regions_def example_kinetis_def kinetis_consts vmpu_is_box_id_valid_def UVISOR_MAX_BOXES_def)
qed

end
