(* ===== verification/Box_Api.thy ===== *)
theory Box_Api
  imports Unpriv_Access Pool_Queue
begin

text \<open>
  What messages and remote procedure calls share: error codes of \<^verbatim>\<open>api/inc/halt_exports.h\<close>, what queue operations keep of a pool, and the
  statement that a run of uVisor code writes only to memory it is allowed to write.
\<close>

section \<open>Error codes\<close>

definition UVISOR_ERROR_OUT_OF_STRUCTURES :: int where "UVISOR_ERROR_OUT_OF_STRUCTURES = - 7"
definition UVISOR_ERROR_TIMEOUT :: int where "UVISOR_ERROR_TIMEOUT = - 10"

section \<open>Confined writes\<close>

text \<open>
  A state is confined if it keeps the invariant \<open>ok\<close>, which the code needs to go on, and its memory differs from the memory \<open>m\<close> at the start of the run at
  allowed addresses only.
\<close>

definition confined_to :: "('s \<Rightarrow> mem) \<Rightarrow> ('s \<Rightarrow> bool) \<Rightarrow> (u32 \<Rightarrow> bool) \<Rightarrow> mem \<Rightarrow> 's \<Rightarrow> bool" where
  "confined_to mem_of ok allowed m s \<longleftrightarrow> ok s \<and> (\<forall>a. mem_of s a \<noteq> m a \<longrightarrow> allowed a)"

lemma confined_to_refl: "ok s \<Longrightarrow> confined_to mem_of ok allowed (mem_of s) s"
  by (simp add: confined_to_def)

lemma confined_to_same: "confined_to mem_of ok allowed m s \<Longrightarrow> ok s' \<Longrightarrow> mem_of s' = mem_of s \<Longrightarrow> confined_to mem_of ok allowed m s'"
  by (simp add: confined_to_def)

lemma confined_to_trans:
  "confined_to mem_of ok allowed (mem_of s) s' \<Longrightarrow> confined_to mem_of ok allowed m s \<Longrightarrow> confined_to mem_of ok allowed m s'"
  by (auto simp: confined_to_def) metis

lemma confined_to_ok: "confined_to mem_of ok allowed m s \<Longrightarrow> ok s"
  by (simp add: confined_to_def)

section \<open>Buffers\<close>

definition in_buffer :: "u32 \<Rightarrow> u32 \<Rightarrow> u32 \<Rightarrow> bool" where
  "in_buffer a base len \<longleftrightarrow> unat (a - base) < unat len"

lemma in_buffer_offset: "k < n \<Longrightarrow> n \<le> 0xFFFFFFFF \<Longrightarrow> in_buffer (p + of_nat k) p (of_nat n)"
  using unat_of_nat_u32 [of k] unat_of_nat_u32 [of n] by (simp add: in_buffer_def)

lemma in_buffer_range: "unat p + unat n \<le> 2 ^ 32 \<Longrightarrow> in_buffer a p n \<longleftrightarrow> unat p \<le> unat a \<and> unat a < unat p + unat n"
  using unsigned_less [of a, where 'a = nat] unsigned_less [of p, where 'a = nat] unat_sub_if' [of a p] by (auto simp: in_buffer_def split: if_splits)

lemma in_buffer_mono: "in_buffer a base len \<Longrightarrow> len \<le> len' \<Longrightarrow> in_buffer a base len'"
  by (auto simp: in_buffer_def word_le_nat_alt)

lemma write32_outside_buffer:
  assumes "\<not> in_buffer a p n" "unat c + 4 \<le> unat n"
  shows "write32 m (p + c) v a = m a"
proof -
  have "a \<noteq> p + c + of_nat k" if "k < 4" for k
  proof
    assume "a = p + c + of_nat k"
    moreover have "unat (c + of_nat k) = unat c + k"
      using assms(2) that unat_u32_lt [of n] unat_of_nat_u32 [of k] by (simp add: unat_word_ariths)
    ultimately show False using assms that by (simp add: in_buffer_def)
  qed
  from this [of 0] this [of 1] this [of 2] this [of 3] show ?thesis by (simp add: write32_def)
qed

lemma write8_outside_buffer: "\<not> in_buffer a p n \<Longrightarrow> unat c < unat n \<Longrightarrow> write8 m (p + c) v a = m a"
  by (auto simp: write8_def in_buffer_def)

section \<open>What queue operations keep of a pool\<close>

definition pool_shape :: "uvisor_pool \<Rightarrow> u32 \<times> u32 \<times> u32 \<times> u8" where
  "pool_shape p = (pool_magic p, pool_array p, pool_stride p, pool_num p)"

lemma pool_shape_num: "pool_shape p' = pool_shape p \<Longrightarrow> pool_num p' = pool_num p"
  by (simp add: pool_shape_def)

lemma set_entry_shape: "set_entry p s f = Inr p' \<Longrightarrow> pool_shape p' = pool_shape p"
  by (auto simp: set_entry_def get_entry_def res_simps pool_shape_def)

lemma set_link_shape: "set_next p s v = Inr p' \<Longrightarrow> pool_shape p' = pool_shape p" "set_prev p s v = Inr p' \<Longrightarrow> pool_shape p' = pool_shape p"
  by (simp_all add: set_next_def set_prev_def set_entry_shape)

lemma lock_shape: "pool_spin_trylock p = (b, p') \<Longrightarrow> pool_shape p' = pool_shape p" "pool_shape (pool_spin_unlock p) = pool_shape p"
  "pool_shape (p\<lparr>pool_spinlock := l\<rparr>) = pool_shape p"
  by (auto simp: pool_spin_trylock_def pool_spin_unlock_def pool_shape_def split: prod.splits)

lemma count_shape: "pool_shape (p\<lparr>pool_first_free := s\<rparr>) = pool_shape p" "pool_shape (p\<lparr>pool_num_allocated := n\<rparr>) = pool_shape p"
  by (simp_all add: pool_shape_def)

lemma dequeue_shape: "dequeue q p s = Inr (q', p') \<Longrightarrow> pool_shape p' = pool_shape p"
  by (auto simp: dequeue_def Let_def bind_res_Inr_iff split: if_splits dest!: set_link_shape)

lemma dequeue_pool: "dequeue q p s = Inr (q', p') \<Longrightarrow> queue_pool q' = queue_pool q"
  by (auto simp: dequeue_def Let_def bind_res_Inr_iff split: if_splits)

lemma enqueue_shape: "enqueue q p s = Inr (q', p') \<Longrightarrow> pool_shape p' = pool_shape p"
  by (auto simp: enqueue_def Let_def bind_res_Inr_iff split: if_splits dest!: set_link_shape)

lemma enqueue_pool: "enqueue q p s = Inr (q', p') \<Longrightarrow> queue_pool q' = queue_pool q"
  by (auto simp: enqueue_def Let_def bind_res_Inr_iff split: if_splits)

lemma pool_free_shape: "pool_free p s = Inr p' \<Longrightarrow> pool_shape p' = pool_shape p"
  by (auto simp: pool_free_def Let_def bind_res_Inr_iff count_shape dest!: set_link_shape)

lemma pool_alloc_shape: "pool_alloc p = Inr (s, p') \<Longrightarrow> pool_shape p' = pool_shape p"
  by (auto simp: pool_alloc_def Let_def bind_res_Inr_iff count_shape split: if_splits dest!: set_link_shape)

lemma find_first_loop_shape: "find_first_loop n p query slot = Inr (s, p') \<Longrightarrow> pool_shape p' = pool_shape p"
  by (induction n arbitrary: slot) (auto simp: bind_res_Inr_iff lock_shape split: if_splits)

definition queue_keeps :: "(uvisor_pool_queue \<Rightarrow> uvisor_pool \<Rightarrow> ('a \<times> uvisor_pool_queue \<times> uvisor_pool) res) \<Rightarrow> bool" where
  "queue_keeps f \<longleftrightarrow> (\<forall>q p x q' p'. f q p = Inr (x, q', p') \<longrightarrow> pool_shape p' = pool_shape p \<and> queue_pool q' = queue_pool q)"

definition pool_keeps :: "(uvisor_pool \<Rightarrow> ('a \<times> uvisor_pool) res) \<Rightarrow> bool" where
  "pool_keeps f \<longleftrightarrow> (\<forall>p x p'. f p = Inr (x, p') \<longrightarrow> pool_shape p' = pool_shape p)"

lemma queue_keeps_ops:
  "queue_keeps uvisor_pool_queue_try_dequeue_first"
  "queue_keeps (\<lambda>q pool. uvisor_pool_queue_try_enqueue q pool slot)"
  "queue_keeps (\<lambda>q pool. uvisor_pool_queue_try_dequeue q pool slot)"
  by (auto simp: queue_keeps_def uvisor_pool_queue_try_dequeue_first_def try_dequeue_first_def uvisor_pool_queue_try_enqueue_def
      uvisor_pool_queue_try_dequeue_def dequeue_locked_def Let_def bind_res_Inr_iff lock_shape(2) split: if_splits prod.splits
      dest: dequeue_shape enqueue_shape dequeue_pool enqueue_pool dest!: lock_shape(1))

lemma pool_keeps_ops:
  "pool_keeps uvisor_pool_try_allocate"
  "pool_keeps (\<lambda>pool. uvisor_pool_try_free pool slot)"
  "pool_keeps (\<lambda>pool. uvisor_pool_queue_try_find_first q pool query)"
  by (auto simp: pool_keeps_def uvisor_pool_queue_try_find_first_def find_first_def uvisor_pool_try_free_def uvisor_pool_try_allocate_def
      Let_def bind_res_Inr_iff lock_shape(2) split: if_splits prod.splits
      dest!: pool_free_shape pool_alloc_shape find_first_loop_shape lock_shape(1))

lemma spin_lock_shape: "pool_spin_lock p = Inr p' \<Longrightarrow> pool_shape p' = pool_shape p"
  by (auto simp: pool_spin_lock_def lock_shape split: option.splits)

lemma pool_keeps_allocate: "pool_keeps uvisor_pool_allocate"
  by (auto simp: pool_keeps_def uvisor_pool_allocate_def bind_res_Inr_iff lock_shape(2) dest!: spin_lock_shape pool_alloc_shape)

text \<open>A memory with some words, for examples.\<close>

definition example_mem :: "(u32 \<times> u32) list \<Rightarrow> mem" where
  "example_mem ws = fold (\<lambda>(a, v) m. write32 m a v) ws (\<lambda>_. 0)"

end
