(* ===== verification/Ipc.thy ===== *)
theory Ipc
  imports Mpu_Armv8m Context Box_Api
begin

text \<open>
  Messages between boxes: the delivery in \<^verbatim>\<open>core/system/src/ipc.c\<close> and the functions of the boxes in \<^verbatim>\<open>api/src/ipc.c\<close>. The control blocks
  and pools of the boxes are kept by address, apart from the rest of memory; I/O requests, descriptors and messages are bytes in memory. All of
  them belong to the boxes, which can change them at any time. Whether a box may access a buffer is the argument \<open>ok\<close>, which stands for
  \<open>vmpu_buffer_access_is_ok\<close> in the current state of the protection unit. Control blocks and pools are named by their secure alias; the bytes
  of memory are not identified with those at the other alias.
\<close>

unbundle bit_operations_syntax

section \<open>Data\<close>

definition UVISOR_IPC_SEND_SLOTS :: u32 where "UVISOR_IPC_SEND_SLOTS = 16"
definition UVISOR_IPC_RECV_SLOTS :: u32 where "UVISOR_IPC_RECV_SLOTS = 16"
definition UVISOR_IPC_INVALID_TOKEN :: u32 where "UVISOR_IPC_INVALID_TOKEN = 0"

text \<open>\<open>enum uvisor_ipc_io_state\<close>, stored in one byte.\<close>

definition UVISOR_IPC_IO_STATE_READY_TO_SEND :: u8 where "UVISOR_IPC_IO_STATE_READY_TO_SEND = 2"
definition UVISOR_IPC_IO_STATE_READY_TO_RECV :: u8 where "UVISOR_IPC_IO_STATE_READY_TO_RECV = 3"

record uvisor_ipc_desc =
  desc_box_id :: u32
  desc_port :: u32
  desc_len :: u32
  desc_token :: u32

definition desc_at :: "mem \<Rightarrow> u32 \<Rightarrow> uvisor_ipc_desc" where
  "desc_at m p = \<lparr>desc_box_id = read32 m p, desc_port = read32 m (p + 4), desc_len = read32 m (p + 8), desc_token = read32 m (p + 12)\<rparr>"

record uvisor_ipc_io =
  io_desc :: u32
  io_msg :: u32
  io_state :: u8

definition io_at :: "mem \<Rightarrow> u32 \<Rightarrow> uvisor_ipc_io" where
  "io_at m p = \<lparr>io_desc = read32 m p, io_msg = read32 m (p + 4), io_state = m (p + 8)\<rparr>"

record uvisor_ipc =
  send_queue :: uvisor_pool_queue
  recv_queue :: uvisor_pool_queue
  tokens_lock :: UvisorSpinlock
  allocated_tokens :: u32
  completed_tokens :: u32

text \<open>The layout of \<open>uvisor_ipc_t\<close>: a queue, its pool, 16 entries of 2 bytes and 16 requests of 12 bytes; the same again; the tokens.\<close>

definition send_queue_offset :: u32 where "send_queue_offset = 0"
definition recv_queue_offset :: u32 where "recv_queue_offset = 252"
definition queue_pool_offset :: u32 where "queue_pool_offset = 12"
definition queue_io_offset :: u32 where "queue_io_offset = 60"
definition sizeof_ipc :: u32 where "sizeof_ipc = 516"

lemmas ipc_layout = send_queue_offset_def recv_queue_offset_def queue_pool_offset_def queue_io_offset_def sizeof_ipc_def

record ipc_state =
  ipc_heap :: "u32 \<Rightarrow> uvisor_ipc"
  pool_heap :: "u32 \<Rightarrow> uvisor_pool"
  ipc_mem :: mem

record ipc_env =
  ipc_build :: build_config
  ipc_ok :: "u8 \<Rightarrow> u32 \<Rightarrow> u32 \<Rightarrow> bool res"
  ipc_bss :: "u8 \<Rightarrow> u32"
  ipc_box_count :: u8

definition index_ipc :: u32 where "index_ipc = 16"

text \<open>\<open>UVISOR_GET_S_ALIAS(uvisor_ipc(box_index(box_id)))\<close>.\<close>

definition ipc_of_box :: "ipc_env \<Rightarrow> u8 \<Rightarrow> ipc_state \<Rightarrow> u32" where
  "ipc_of_box env box_id st = UVISOR_GET_S_ALIAS (ipc_build env) (read32 (ipc_mem st) (ipc_bss env box_id + index_ipc))"

definition pool_of :: "ipc_env \<Rightarrow> uvisor_pool_queue \<Rightarrow> u32" where
  "pool_of env q = UVISOR_GET_S_ALIAS (ipc_build env) (queue_pool q)"

text \<open>Queue operations on the send queue (\<open>True\<close>) or the receive queue (\<open>False\<close>) of the control block at \<open>p\<close>.\<close>

definition ipc_queue :: "bool \<Rightarrow> uvisor_ipc \<Rightarrow> uvisor_pool_queue" where
  "ipc_queue sending ipc = (if sending then send_queue ipc else recv_queue ipc)"

definition ipc_pool :: "ipc_env \<Rightarrow> u32 \<Rightarrow> bool \<Rightarrow> ipc_state \<Rightarrow> uvisor_pool" where
  "ipc_pool env p sending st = pool_heap st (pool_of env (ipc_queue sending (ipc_heap st p)))"

definition update_queue :: "ipc_env \<Rightarrow> u32 \<Rightarrow> bool \<Rightarrow> uvisor_pool_queue \<Rightarrow> uvisor_pool \<Rightarrow> ipc_state \<Rightarrow> ipc_state" where
  "update_queue env p sending q pool st =
     st\<lparr>ipc_heap := (ipc_heap st)(p := (if sending then (ipc_heap st p)\<lparr>send_queue := q\<rparr> else (ipc_heap st p)\<lparr>recv_queue := q\<rparr>)),
        pool_heap := (pool_heap st)(pool_of env (ipc_queue sending (ipc_heap st p)) := pool)\<rparr>"

definition queue_op ::
  "ipc_env \<Rightarrow> u32 \<Rightarrow> bool \<Rightarrow> (uvisor_pool_queue \<Rightarrow> uvisor_pool \<Rightarrow> ('a \<times> uvisor_pool_queue \<times> uvisor_pool) res) \<Rightarrow> ipc_state \<Rightarrow> ('a \<times> ipc_state) res" where
  "queue_op env p sending f st =
     bind_res (f (ipc_queue sending (ipc_heap st p)) (ipc_pool env p sending st)) (\<lambda>(x, q, pool). Inr (x, update_queue env p sending q pool st))"

text \<open>Operations that leave the queue alone.\<close>

definition keep_queue :: "(uvisor_pool \<Rightarrow> ('a \<times> uvisor_pool) res) \<Rightarrow> uvisor_pool_queue \<Rightarrow> uvisor_pool \<Rightarrow> ('a \<times> uvisor_pool_queue \<times> uvisor_pool) res" where
  "keep_queue f q pool = bind_res (f pool) (\<lambda>(x, pool). Inr (x, q, pool))"

section \<open>Delivery\<close>

definition recv_match :: "u8 \<Rightarrow> mem \<Rightarrow> u32 \<Rightarrow> u32 \<Rightarrow> u8 \<Rightarrow> bool" where
  "recv_match send_box_id m send_io recv_array slot =
     (let recv_io = io_at m (recv_array + 12 * ucast slot); send_desc = desc_at m (io_desc (io_at m send_io)); recv_desc = desc_at m (io_desc recv_io) in
      if io_state recv_io \<noteq> UVISOR_IPC_IO_STATE_READY_TO_RECV then False
      else if ucast send_box_id \<noteq> desc_box_id recv_desc \<and> desc_box_id recv_desc \<noteq> ucast UVISOR_BOX_ID_INVALID then False
      else if desc_port send_desc \<noteq> desc_port recv_desc then False
      else if desc_len send_desc > desc_len recv_desc then False
      else True)"

definition put_it_back :: "ipc_env \<Rightarrow> u32 \<Rightarrow> bool \<Rightarrow> u8 \<Rightarrow> ipc_state \<Rightarrow> ipc_state res" where
  "put_it_back env p sending slot st =
     bind_res (queue_op env p sending (\<lambda>q pool. uvisor_pool_queue_try_enqueue q pool slot) st) (\<lambda>(status, st).
     bind_res (assert_res (ipc_build env) (status = 0)) (\<lambda>_. Inr st))"

definition set_tokens_lock :: "u32 \<Rightarrow> UvisorSpinlock \<Rightarrow> ipc_state \<Rightarrow> ipc_state" where
  "set_tokens_lock p lock st = st\<lparr>ipc_heap := (ipc_heap st)(p := (ipc_heap st p)\<lparr>tokens_lock := lock\<rparr>)\<rparr>"

definition complete_token :: "u32 \<Rightarrow> u32 \<Rightarrow> ipc_state \<Rightarrow> ipc_state" where
  "complete_token p token st =
     st\<lparr>ipc_heap := (ipc_heap st)(p := (ipc_heap st p)\<lparr>completed_tokens := completed_tokens (ipc_heap st p) OR token\<rparr>)\<rparr>"

text \<open>The part of \<open>ipc_deliver\<close> under both locks: the message, the descriptor of the receiver and the tokens.\<close>

definition deliver_locked :: "u32 \<Rightarrow> u32 \<Rightarrow> u32 \<Rightarrow> u32 \<Rightarrow> u8 \<Rightarrow> ipc_state \<Rightarrow> ipc_state" where
  "deliver_locked send_ipc recv_ipc send_io recv_io send_box_id st =
     (let m = ipc_mem st; sdesc = io_desc (io_at m send_io); rdesc = io_desc (io_at m recv_io);
          m = mem_copy m (io_msg (io_at m recv_io)) (io_msg (io_at m send_io)) (unat (desc_len (desc_at m sdesc)));
          st = complete_token send_ipc (desc_token (desc_at m sdesc)) (st\<lparr>ipc_mem := m\<rparr>);
          m = write32 m rdesc (ucast send_box_id);
          m = write32 m (rdesc + 8) (desc_len (desc_at m sdesc))
      in complete_token recv_ipc (desc_token (desc_at m rdesc)) (st\<lparr>ipc_mem := m\<rparr>))"

definition ipc_deliver :: "u32 \<Rightarrow> u32 \<Rightarrow> u32 \<Rightarrow> u32 \<Rightarrow> u8 \<Rightarrow> ipc_state \<Rightarrow> int \<times> ipc_state" where
  "ipc_deliver send_ipc recv_ipc send_io recv_io send_box_id st =
     (let (locked, lock) = uvisor_spin_trylock (tokens_lock (ipc_heap st send_ipc)) in
      if \<not> locked then (- 1, st)
      else
        let st = set_tokens_lock send_ipc lock st;
            (locked, st) =
              (if recv_ipc \<noteq> send_ipc then
                 let (locked, lock) = uvisor_spin_trylock (tokens_lock (ipc_heap st recv_ipc)) in (locked, set_tokens_lock recv_ipc lock st)
               else (True, st));
            unlock = (\<lambda>p st. set_tokens_lock p (uvisor_spin_unlock (tokens_lock (ipc_heap st p))) st) in
        if \<not> locked then (- 1, unlock send_ipc st)
        else
          let st = deliver_locked send_ipc recv_ipc send_io recv_io send_box_id st;
              st = (if recv_ipc \<noteq> send_ipc then unlock recv_ipc st else st)
          in (0, unlock send_ipc st))"

section \<open>Checks of what a box provides\<close>

definition and_res :: "bool res \<Rightarrow> bool res \<Rightarrow> bool res" where
  "and_res a b = bind_res a (\<lambda>x. if x then b else Inr False)"

definition ipc_is_ok :: "ipc_env \<Rightarrow> u8 \<Rightarrow> u32 \<Rightarrow> bool res" where
  "ipc_is_ok env box_id ipc = and_res (Inr (ipc \<noteq> 0)) (ipc_ok env box_id ipc sizeof_ipc)"

definition ipc_io_array_is_ok :: "ipc_env \<Rightarrow> u8 \<Rightarrow> u32 \<Rightarrow> bool res" where
  "ipc_io_array_is_ok env box_id array = and_res (Inr (array \<noteq> 0)) (ipc_ok env box_id array (12 * UVISOR_IPC_SEND_SLOTS))"

definition pool_queue_is_ok :: "ipc_env \<Rightarrow> u8 \<Rightarrow> u32 \<Rightarrow> uvisor_pool_queue \<Rightarrow> ipc_state \<Rightarrow> bool res" where
  "pool_queue_is_ok env box_id address queue st =
     (let pool = pool_heap st (pool_of env queue) in
      and_res (Inr (address \<noteq> 0)) (and_res (ipc_ok env box_id address 12) (and_res (Inr (queue_pool queue \<noteq> 0))
        (and_res (ipc_ok env box_id (queue_pool queue) 16) (ipc_ok env box_id (pool_array pool) (pool_stride pool * ucast (pool_num pool)))))))"

definition ipc_io_is_ok :: "ipc_env \<Rightarrow> u8 \<Rightarrow> u32 \<Rightarrow> mem \<Rightarrow> bool res" where
  "ipc_io_is_ok env box_id io m =
     (let desc = io_desc (io_at m io) in
      and_res (Inr (io \<noteq> 0)) (and_res (ipc_ok env box_id io 12) (and_res (Inr (desc \<noteq> 0))
        (and_res (ipc_ok env box_id desc 16) (ipc_ok env box_id (io_msg (io_at m io)) (desc_len (desc_at m desc)))))))"

section \<open>The loop over the messages of a box\<close>

text \<open>
  One round handles the message in the slot \<open>send_slot\<close> of the send queue. The result is the new value of \<open>first_slot\<close>, -1 if there is none.
  The round is in three parts: the checks of the message, the search of a receive request in the receiving box, and the delivery to that request.
\<close>

definition put_send_back :: "ipc_env \<Rightarrow> u32 \<Rightarrow> u8 \<Rightarrow> int \<Rightarrow> ipc_state \<Rightarrow> (int \<times> ipc_state) res" where
  "put_send_back env send_ipc send_slot first_slot st = bind_res (put_it_back env send_ipc True send_slot st) (\<lambda>st. Inr (first_slot, st))"

definition deliver_pair :: "ipc_env \<Rightarrow> u8 \<Rightarrow> u32 \<Rightarrow> u8 \<Rightarrow> u32 \<Rightarrow> u8 \<Rightarrow> u32 \<Rightarrow> u8 \<Rightarrow> int \<Rightarrow> ipc_state \<Rightarrow> (int \<times> ipc_state) res" where
  "deliver_pair env send_box_id send_ipc send_slot send_io recv_box_id recv_ipc recv_slot first_slot st =
     (let recv_io = recv_ipc + recv_queue_offset + queue_io_offset + 12 * ucast recv_slot in
      bind_res (ipc_io_is_ok env recv_box_id recv_io (ipc_mem st)) (\<lambda>io_ok.
      if \<not> io_ok then put_send_back env send_ipc send_slot first_slot st
      else
        case ipc_deliver send_ipc recv_ipc send_io recv_io send_box_id st of (status, st) \<Rightarrow>
        if status \<noteq> 0 then
          bind_res (put_it_back env send_ipc True send_slot st) (\<lambda>st.
          bind_res (put_it_back env recv_ipc False recv_slot st) (\<lambda>st. Inr (first_slot, st)))
        else
          bind_res (queue_op env send_ipc True (keep_queue (\<lambda>pool. uvisor_pool_try_free pool send_slot)) st) (\<lambda>(s, st).
          bind_res (queue_op env recv_ipc False (keep_queue (\<lambda>pool. uvisor_pool_try_free pool recv_slot)) st) (\<lambda>(r, st).
          bind_res (assert_res (ipc_build env) (s < pool_num (ipc_pool env send_ipc True st) \<and>
            r < pool_num (ipc_pool env recv_ipc False st))) (\<lambda>_.
          Inr (if first_slot = int (unat send_slot) then - 1 else first_slot, st))))))"

definition send_to_box :: "ipc_env \<Rightarrow> u8 \<Rightarrow> u32 \<Rightarrow> u8 \<Rightarrow> u32 \<Rightarrow> u8 \<Rightarrow> int \<Rightarrow> ipc_state \<Rightarrow> (int \<times> ipc_state) res" where
  "send_to_box env send_box_id send_ipc send_slot send_io recv_box_id first_slot st =
     (let back = put_send_back env send_ipc send_slot first_slot; recv_ipc = ipc_of_box env recv_box_id st;
          queue = recv_ipc + recv_queue_offset; recv_array = queue + queue_io_offset in
      bind_res (and_res (ipc_is_ok env recv_box_id recv_ipc) (and_res (pool_queue_is_ok env recv_box_id queue (recv_queue (ipc_heap st recv_ipc)) st)
        (ipc_io_array_is_ok env recv_box_id recv_array))) (\<lambda>recv_ok.
      if \<not> recv_ok then back st
      else
        bind_res (queue_op env recv_ipc False (\<lambda>q. keep_queue (\<lambda>pool.
          uvisor_pool_queue_try_find_first q pool (recv_match send_box_id (ipc_mem st) send_io recv_array)) q) st) (\<lambda>(recv_slot, st).
        if recv_slot \<ge> pool_num (ipc_pool env recv_ipc False st) then back st
        else
          bind_res (queue_op env recv_ipc False (\<lambda>q pool. uvisor_pool_queue_try_dequeue q pool recv_slot) st) (\<lambda>(recv_slot, st).
          if recv_slot \<ge> pool_num (ipc_pool env recv_ipc False st) then back st
          else deliver_pair env send_box_id send_ipc send_slot send_io recv_box_id recv_ipc recv_slot first_slot st))))"

definition drain_message :: "ipc_env \<Rightarrow> u8 \<Rightarrow> u32 \<Rightarrow> u8 \<Rightarrow> int \<Rightarrow> ipc_state \<Rightarrow> (int \<times> ipc_state) res" where
  "drain_message env send_box_id send_ipc send_slot first_slot st =
     (let m = ipc_mem st; send_io = send_ipc + send_queue_offset + queue_io_offset + 12 * ucast send_slot in
      bind_res (ipc_io_is_ok env send_box_id send_io m) (\<lambda>io_ok.
      if \<not> io_ok then Inr (first_slot, st)
      else if io_state (io_at m send_io) \<noteq> UVISOR_IPC_IO_STATE_READY_TO_SEND then put_send_back env send_ipc send_slot first_slot st
      else
        let recv_box = desc_box_id (desc_at m (io_desc (io_at m send_io))) in
        if sint recv_box < 0 \<or> sint recv_box \<ge> int (unat (ipc_box_count env)) then Inr (first_slot, st)
        else send_to_box env send_box_id send_ipc send_slot send_io (ucast recv_box) first_slot st))"

text \<open>The loop, with \<open>n\<close> rounds; \<open>Diverge\<close> is a loop that has not ended.\<close>

primrec drain_loop :: "nat \<Rightarrow> ipc_env \<Rightarrow> u8 \<Rightarrow> u32 \<Rightarrow> int \<Rightarrow> ipc_state \<Rightarrow> ipc_state res" where
  "drain_loop 0 env send_box_id send_ipc first_slot st = Inl Diverge"
| "drain_loop (Suc n) env send_box_id send_ipc first_slot st =
     bind_res (queue_op env send_ipc True uvisor_pool_queue_try_dequeue_first st) (\<lambda>(send_slot, st).
     if send_slot \<ge> pool_num (ipc_pool env send_ipc True st) then Inr st
     else if first_slot \<noteq> - 1 \<and> int (unat send_slot) = first_slot then put_it_back env send_ipc True send_slot st
     else
       bind_res (drain_message env send_box_id send_ipc send_slot (if first_slot = - 1 then int (unat send_slot) else first_slot) st)
         (\<lambda>(first_slot, st). drain_loop n env send_box_id send_ipc first_slot st))"

definition ipc_drain_queue :: "nat \<Rightarrow> ipc_env \<Rightarrow> u8 \<Rightarrow> ipc_state \<Rightarrow> ipc_state res" where
  "ipc_drain_queue rounds env active st =
     (let send_ipc = ipc_of_box env active st; queue = send_ipc + send_queue_offset in
      bind_res (and_res (ipc_is_ok env active send_ipc) (and_res (pool_queue_is_ok env active queue (send_queue (ipc_heap st send_ipc)) st)
        (ipc_io_array_is_ok env active (queue + queue_io_offset)))) (\<lambda>ok.
      if \<not> ok then Inr st else drain_loop rounds env active send_ipc (- 1) st))"

definition ipc_box_init :: "ipc_env \<Rightarrow> u8 \<Rightarrow> ipc_state \<Rightarrow> ipc_state res" where
  "ipc_box_init env box_id st =
     (let p = ipc_of_box env box_id st; off = SECURE_ALIAS_OFFSET (ipc_build env);
          init = (\<lambda>base sending num st.
            let pool_address = p + base + queue_pool_offset; ipc = ipc_heap st p in
            bind_res (uvisor_pool_queue_init off (ipc_queue sending ipc) pool_address (pool_heap st (UVISOR_GET_S_ALIAS (ipc_build env) pool_address))
              (p + base + queue_io_offset) 12 num) (\<lambda>(status, q, pool).
            if status \<noteq> 0 then Inl (Halt NOT_ALLOWED)
            else Inr (st\<lparr>ipc_heap := (ipc_heap st)(p := (if sending then ipc\<lparr>send_queue := q\<rparr> else ipc\<lparr>recv_queue := q\<rparr>)),
                         pool_heap := (pool_heap st)(UVISOR_GET_S_ALIAS (ipc_build env) pool_address := pool)\<rparr>))) in
      bind_res (init send_queue_offset True UVISOR_IPC_SEND_SLOTS st) (\<lambda>st.
      bind_res (init recv_queue_offset False UVISOR_IPC_RECV_SLOTS st) (\<lambda>st.
      Inr (st\<lparr>ipc_heap := (ipc_heap st)(p := (ipc_heap st p)\<lparr>tokens_lock := uvisor_spin_init (tokens_lock (ipc_heap st p)),
        allocated_tokens := 0, completed_tokens := 0\<rparr>)\<rparr>))))"

section \<open>The functions of the boxes\<close>

primrec token_loop :: "nat \<Rightarrow> u32 \<Rightarrow> u32 \<Rightarrow> u32 res" where
  "token_loop 0 tokens b = Inl Diverge"
| "token_loop (Suc n) tokens b = (if tokens AND b \<noteq> 0 then token_loop n tokens (push_bit 1 b) else Inr b)"

text \<open>Taking the lock of the tokens waits until it is free.\<close>

definition lock_tokens :: "uvisor_ipc \<Rightarrow> uvisor_ipc res" where
  "lock_tokens ipc = (case uvisor_spin_lock (tokens_lock ipc) of None \<Rightarrow> Inl Diverge | Some l \<Rightarrow> Inr (ipc\<lparr>tokens_lock := l\<rparr>))"

definition unlock_tokens :: "uvisor_ipc \<Rightarrow> uvisor_ipc" where
  "unlock_tokens ipc = ipc\<lparr>tokens_lock := uvisor_spin_unlock (tokens_lock ipc)\<rparr>"

definition ipc_allocate_token :: "uvisor_ipc \<Rightarrow> (u32 \<times> uvisor_ipc) res" where
  "ipc_allocate_token ipc =
     bind_res (lock_tokens ipc) (\<lambda>ipc.
     bind_res (token_loop 33 (allocated_tokens ipc) 1) (\<lambda>token.
     Inr (token, unlock_tokens (ipc\<lparr>allocated_tokens := allocated_tokens ipc OR token\<rparr>))))"

definition ipc_free_tokens :: "u32 \<Rightarrow> u32 \<Rightarrow> u32" where
  "ipc_free_tokens tokens tokens_to_free = tokens AND NOT tokens_to_free"

definition ipc_free_allocated_completed_tokens :: "u32 \<Rightarrow> uvisor_ipc \<Rightarrow> uvisor_ipc" where
  "ipc_free_allocated_completed_tokens tokens ipc =
     ipc\<lparr>allocated_tokens := ipc_free_tokens (allocated_tokens ipc) tokens, completed_tokens := ipc_free_tokens (completed_tokens ipc) tokens\<rparr>"

text \<open>The waiting loop: \<open>others n\<close> is what happens to the control block between two rounds.\<close>

primrec ipc_waitfor ::
  "nat \<Rightarrow> (nat \<Rightarrow> uvisor_ipc \<Rightarrow> uvisor_ipc) \<Rightarrow> (u32 \<Rightarrow> u32 \<Rightarrow> bool) \<Rightarrow> u32 \<Rightarrow> u32 \<Rightarrow> u32 \<Rightarrow> uvisor_ipc \<Rightarrow> (int \<times> u32 \<times> uvisor_ipc) res" where
  "ipc_waitfor 0 others cond wait_tokens done_tokens timeout_ms ipc = Inl Diverge"
| "ipc_waitfor (Suc n) others cond wait_tokens done_tokens timeout_ms ipc =
     bind_res (lock_tokens ipc) (\<lambda>ipc.
     let completed = completed_tokens ipc AND wait_tokens; condition_met = cond completed wait_tokens;
         ipc = unlock_tokens (if condition_met then ipc_free_allocated_completed_tokens completed ipc else ipc) in
     if condition_met then Inr (0, completed, ipc)
     else if timeout_ms = 0 then Inr (UVISOR_ERROR_TIMEOUT, done_tokens, ipc)
     else ipc_waitfor n others cond wait_tokens done_tokens timeout_ms (others n ipc))"

definition any_token :: "u32 \<Rightarrow> u32 \<Rightarrow> bool" where "any_token have expect \<longleftrightarrow> have AND expect \<noteq> 0"
definition all_tokens :: "u32 \<Rightarrow> u32 \<Rightarrow> bool" where "all_tokens have expect \<longleftrightarrow> have AND expect = expect"

definition ipc_waitforany where "ipc_waitforany n others = ipc_waitfor n others any_token"
definition ipc_waitforall where "ipc_waitforall n others = ipc_waitfor n others all_tokens"

definition ipc_io :: "ipc_env \<Rightarrow> u32 \<Rightarrow> u32 \<Rightarrow> u32 \<Rightarrow> bool \<Rightarrow> u8 \<Rightarrow> ipc_state \<Rightarrow> (int \<times> ipc_state) res" where
  "ipc_io env p desc msg sending new_state st =
     bind_res (ipc_allocate_token (ipc_heap st p)) (\<lambda>(new_token, ipc).
     let st = st\<lparr>ipc_heap := (ipc_heap st)(p := ipc)\<rparr> in
     if new_token = UVISOR_IPC_INVALID_TOKEN then Inr (UVISOR_ERROR_OUT_OF_STRUCTURES, st)
     else
       bind_res (queue_op env p sending (keep_queue uvisor_pool_allocate) st) (\<lambda>(slot, st).
       if slot \<ge> pool_num (ipc_pool env p sending st) then Inr (UVISOR_ERROR_OUT_OF_STRUCTURES, st)
       else
         let io = UVISOR_GET_NS_ALIAS (SECURE_ALIAS_OFFSET (ipc_build env)) (p + (if sending then send_queue_offset else recv_queue_offset) +
               queue_io_offset + 12 * ucast slot);
             m = write32 (ipc_mem st) (desc + 12) new_token;
             m = write8 (write32 (write32 m io desc) (io + 4) msg) (io + 8) new_state in
         bind_res (queue_op env p sending (\<lambda>q pool. bind_res (uvisor_pool_queue_enqueue q pool slot) (\<lambda>(q, pool). Inr ((), q, pool)))
             (st\<lparr>ipc_mem := m\<rparr>)) (\<lambda>(_, st).
         Inr (0, st))))"

definition ipc_send :: "ipc_env \<Rightarrow> u32 \<Rightarrow> u32 \<Rightarrow> u32 \<Rightarrow> ipc_state \<Rightarrow> (int \<times> ipc_state) res" where
  "ipc_send env p desc msg = ipc_io env p desc msg True UVISOR_IPC_IO_STATE_READY_TO_SEND"

definition ipc_recv :: "ipc_env \<Rightarrow> u32 \<Rightarrow> u32 \<Rightarrow> u32 \<Rightarrow> ipc_state \<Rightarrow> (int \<times> ipc_state) res" where
  "ipc_recv env p desc msg = ipc_io env p desc msg False UVISOR_IPC_IO_STATE_READY_TO_RECV"

section \<open>Tokens\<close>

lemma token_loop_spec:
  assumes "k \<le> 32" "\<And>j. j < k \<Longrightarrow> bit tokens j" "32 - k < n"
  shows "\<exists>j. k \<le> j \<and> j \<le> 32 \<and> token_loop n tokens (2 ^ k) = Inr (2 ^ j) \<and> (\<forall>i < j. bit tokens i) \<and> (j < 32 \<longrightarrow> \<not> bit tokens j)"
  using assms
proof (induction n arbitrary: k)
  case (Suc n)
  show ?case
  proof (cases "bit tokens k")
    case True
    then have k: "k < 32" using bit_imp_le_length [OF True] by simp
    have "tokens AND 2 ^ k \<noteq> 0" using True k by (simp add: and_power_2)
    moreover have "push_bit 1 (2 ^ k) = (2 ^ Suc k :: u32)" by (simp add: push_bit_eq_mult)
    ultimately have step: "token_loop (Suc n) tokens (2 ^ k) = token_loop n tokens (2 ^ Suc k)" by (simp add: mult.commute)
    have "32 - Suc k < n" using k Suc.prems(3) by linarith
    moreover have "\<And>j. j < Suc k \<Longrightarrow> bit tokens j" using Suc.prems(2) True less_Suc_eq by metis
    ultimately obtain j where "Suc k \<le> j" "j \<le> 32" "token_loop n tokens (2 ^ Suc k) = Inr (2 ^ j)" "\<forall>i < j. bit tokens i"
      "j < 32 \<longrightarrow> \<not> bit tokens j"
      using Suc.IH [of "Suc k"] k Suc.prems(3) by (auto simp: less_Suc_eq_le)
    then show ?thesis unfolding step by (intro exI [of _ j]) simp
  next
    case False
    then have "token_loop (Suc n) tokens (2 ^ k) = Inr (2 ^ k)" by (simp add: and_power_2)
    then show ?thesis using False Suc.prems by blast
  qed
qed simp

text \<open>
  When nobody holds the lock of the tokens, allocating a token ends and returns the lowest bit that was free, so that no token is handed out
  twice, or 0 when all 32 tokens are in use; it marks the token and releases the lock.
\<close>

theorem ipc_allocate_token_lowest_free:
  assumes "\<not> acquired (tokens_lock ipc)"
  shows "\<exists>j \<le> 32. (\<forall>i < j. bit (allocated_tokens ipc) i) \<and> (j < 32 \<longrightarrow> \<not> bit (allocated_tokens ipc) j) \<and>
    ipc_allocate_token ipc = Inr (if j < 32 then 2 ^ j else 0, ipc\<lparr>allocated_tokens := allocated_tokens ipc OR (if j < 32 then 2 ^ j else 0)\<rparr>)"
proof -
  obtain j where j: "j \<le> 32" "token_loop 33 (allocated_tokens ipc) 1 = Inr (2 ^ j)" "\<forall>i < j. bit (allocated_tokens ipc) i"
    "j < 32 \<longrightarrow> \<not> bit (allocated_tokens ipc) j"
    using token_loop_spec [of 0 "allocated_tokens ipc" 33] by auto
  have "(2 ^ j :: u32) = (if j < 32 then 2 ^ j else 0)"
    using j(1) by (cases "j = 32") auto
  moreover have "ipc\<lparr>tokens_lock := (tokens_lock ipc)\<lparr>acquired := False\<rparr>\<rparr> = ipc" using assms by simp
  ultimately show ?thesis
    using j assms by (intro exI [of _ j]) (auto simp: ipc_allocate_token_def lock_tokens_def unlock_tokens_def spin_simps)
qed

theorem ipc_allocate_token_lowest_free_witness:
  "\<exists>j \<le> 32. \<exists>ipc'. ipc_allocate_token
     \<lparr>send_queue = undefined, recv_queue = undefined, tokens_lock = \<lparr>acquired = False\<rparr>, allocated_tokens = 3, completed_tokens = 1\<rparr> =
       Inr (if j < 32 then 2 ^ j else 0, ipc') \<and> \<not> bit (3 :: u32) j"
  using ipc_allocate_token_lowest_free
    [of "\<lparr>send_queue = undefined, recv_queue = undefined, tokens_lock = \<lparr>acquired = False\<rparr>, allocated_tokens = 3, completed_tokens = 1\<rparr>"]
  by (auto dest: bit_imp_le_length)

lemma ipc_waitfor_round:
  assumes "\<not> acquired (tokens_lock ipc)"
  shows "ipc_waitfor (Suc n) others cond wait done_tokens timeout_ms ipc =
    (let completed = completed_tokens ipc AND wait in
     if cond completed wait then Inr (0, completed, ipc_free_allocated_completed_tokens completed ipc)
     else if timeout_ms = 0 then Inr (UVISOR_ERROR_TIMEOUT, done_tokens, ipc)
     else ipc_waitfor n others cond wait done_tokens timeout_ms (others n ipc))"
proof -
  have "unlock_tokens (ipc_free_allocated_completed_tokens t (ipc\<lparr>tokens_lock := l\<rparr>)) = ipc_free_allocated_completed_tokens t ipc"
    "unlock_tokens (ipc\<lparr>tokens_lock := l\<rparr>) = ipc" for t l
    using assms by (auto simp: unlock_tokens_def ipc_free_allocated_completed_tokens_def spin_simps intro!: uvisor_ipc.equality)
  then show ?thesis using assms by (simp add: lock_tokens_def spin_simps Let_def)
qed

lemma ipc_waitfor_eventually:
  assumes "\<And>i. i < k \<Longrightarrow> s (Suc i) = others (n - Suc i) (s i)" "\<And>i. i \<le> k \<Longrightarrow> \<not> acquired (tokens_lock (s i))"
    "cond (completed_tokens (s k) AND wait) wait" "timeout_ms \<noteq> 0" "k < n"
  shows "\<exists>i \<le> k. let got = completed_tokens (s i) AND wait in
    cond got wait \<and> ipc_waitfor n others cond wait done_tokens timeout_ms (s 0) = Inr (0, got, ipc_free_allocated_completed_tokens got (s i))"
  using assms
proof (induction k arbitrary: s n)
  case 0
  then show ?case by (cases n) (auto simp: ipc_waitfor_round Let_def simp del: ipc_waitfor.simps)
next
  case (Suc k)
  obtain n' where n: "n = Suc n'" using Suc.prems(5) by (cases n) auto
  show ?case
  proof (cases "cond (completed_tokens (s 0) AND wait) wait")
    case True
    then show ?thesis using Suc.prems(2) [of 0] by (intro exI [of _ 0]) (simp add: n ipc_waitfor_round Let_def del: ipc_waitfor.simps)
  next
    case False
    then have "ipc_waitfor n others cond wait done_tokens timeout_ms (s 0) = ipc_waitfor n' others cond wait done_tokens timeout_ms (s 1)"
      using Suc.prems(1) [of 0] Suc.prems(2) [of 0] Suc.prems(4) by (simp add: n ipc_waitfor_round Let_def del: ipc_waitfor.simps)
    moreover have "\<exists>i \<le> k. let got = completed_tokens (s (Suc i)) AND wait in
      cond got wait \<and> ipc_waitfor n' others cond wait done_tokens timeout_ms (s (Suc 0)) = Inr (0, got, ipc_free_allocated_completed_tokens got (s (Suc i)))"
    proof (rule Suc.IH [of "\<lambda>i. s (Suc i)"])
      show "s (Suc (Suc i)) = others (n' - Suc i) (s (Suc i))" if "i < k" for i using Suc.prems(1) [of "Suc i"] that by (simp add: n)
      show "\<not> acquired (tokens_lock (s (Suc i)))" if "i \<le> k" for i using Suc.prems(2) [of "Suc i"] that by simp
    qed (use Suc.prems(3-5) in \<open>simp_all add: n\<close>)
    ultimately show ?thesis by auto
  qed
qed

text \<open>
  C35: Waiting for messages ends. If the control block goes through the states \<open>s 0\<close>, \<open>s 1\<close>, ... between the rounds of the wait, the lock is free in each of
  them, and one of the tokens is complete in the state \<open>s k\<close>, then \<open>ipc_waitforany\<close> returns 0 after at most \<open>k + 1\<close> rounds, with a token that was
  waited for, and releases the tokens it returns; and \<open>ipc_waitforall\<close> does when all of them are complete.
\<close>

theorem ipc_wait_returns:
  assumes "\<And>i. i < k \<Longrightarrow> s (Suc i) = others (n - Suc i) (s i)" "\<And>i. i \<le> k \<Longrightarrow> \<not> acquired (tokens_lock (s i))" "timeout_ms \<noteq> 0" "k < n"
  shows "(completed_tokens (s k) AND wait \<noteq> 0 \<longrightarrow> (\<exists>i got. got \<noteq> 0 \<and> got = completed_tokens (s i) AND wait \<and>
      ipc_waitforany n others wait done_tokens timeout_ms (s 0) = Inr (0, got, ipc_free_allocated_completed_tokens got (s i)))) \<and>
    (completed_tokens (s k) AND wait = wait \<longrightarrow> (\<exists>i. completed_tokens (s i) AND wait = wait \<and>
      ipc_waitforall n others wait done_tokens timeout_ms (s 0) = Inr (0, wait, ipc_free_allocated_completed_tokens wait (s i))))"
proof (intro conjI impI)
  assume "completed_tokens (s k) AND wait \<noteq> 0"
  then have "any_token (completed_tokens (s k) AND wait) wait" by (simp add: any_token_def and.assoc)
  from ipc_waitfor_eventually [of k s others n any_token, OF assms(1,2) this assms(3,4)]
  show "\<exists>i got. got \<noteq> 0 \<and> got = completed_tokens (s i) AND wait \<and>
      ipc_waitforany n others wait done_tokens timeout_ms (s 0) = Inr (0, got, ipc_free_allocated_completed_tokens got (s i))"
    by (auto simp: ipc_waitforany_def any_token_def Let_def and.assoc)
next
  assume "completed_tokens (s k) AND wait = wait"
  then have "all_tokens (completed_tokens (s k) AND wait) wait" by (simp add: all_tokens_def)
  from ipc_waitfor_eventually [of k s others n all_tokens, OF assms(1,2) this assms(3,4)]
  show "\<exists>i. completed_tokens (s i) AND wait = wait \<and>
      ipc_waitforall n others wait done_tokens timeout_ms (s 0) = Inr (0, wait, ipc_free_allocated_completed_tokens wait (s i))"
    by (simp add: ipc_waitforall_def all_tokens_def Let_def and.assoc) metis
qed

definition example_tokens :: "u32 \<Rightarrow> uvisor_ipc" where
  "example_tokens t = \<lparr>send_queue = undefined, recv_queue = undefined, tokens_lock = \<lparr>acquired = False\<rparr>, allocated_tokens = 6, completed_tokens = t\<rparr>"

theorem ipc_wait_returns_witness:
  "\<exists>i got ipc'. got \<noteq> 0 \<and> got = completed_tokens (if i = (0 :: nat) then example_tokens 1 else example_tokens 5) AND 4 \<and>
     ipc_waitforany 2 (\<lambda>n ipc. example_tokens 5) 4 0 1 (example_tokens 1) = Inr (0, got, ipc')"
proof -
  let ?s = "\<lambda>i :: nat. if i = 0 then example_tokens 1 else example_tokens 5"
  have "i \<le> 1 \<Longrightarrow> \<not> acquired (tokens_lock (?s i))" for i by (simp add: example_tokens_def)
  moreover have "completed_tokens (?s 1) AND 4 \<noteq> 0" by (simp add: example_tokens_def)
  ultimately show ?thesis using ipc_wait_returns [of 1 ?s "\<lambda>n ipc. example_tokens 5" 2 1 4 0] by fastforce
qed

section \<open>Delivery is confined\<close>

text \<open>The address is in a buffer that the check accepts for one of the boxes.\<close>

definition in_checked_buffer :: "ipc_env \<Rightarrow> u32 \<Rightarrow> bool" where
  "in_checked_buffer env a \<longleftrightarrow> (\<exists>b base len. b < ipc_box_count env \<and> ipc_ok env b base len = Inr True \<and> in_buffer a base len)"

lemma and_res_True: "and_res a b = Inr True \<longleftrightarrow> a = Inr True \<and> b = Inr True"
  by (auto simp: and_res_def bind_res_Inr_iff)

lemma queue_op_mem: "queue_op env p sending f st = Inr (x, st') \<Longrightarrow> ipc_mem st' = ipc_mem st"
  by (auto simp: queue_op_def update_queue_def bind_res_Inr_iff)

lemma put_it_back_mem: "put_it_back env p sending slot st = Inr st' \<Longrightarrow> ipc_mem st' = ipc_mem st"
  by (auto simp: put_it_back_def bind_res_Inr_iff dest: queue_op_mem)

lemma deliver_locked_changes:
  assumes "ipc_mem (deliver_locked send_ipc recv_ipc send_io recv_io box_id st) a \<noteq> ipc_mem st a"
  defines "m \<equiv> ipc_mem st"
  shows "in_buffer a (io_msg (io_at m recv_io)) (desc_len (desc_at m (io_desc (io_at m send_io)))) \<or>
    in_buffer a (io_desc (io_at m recv_io)) 16"
proof (rule ccontr)
  assume no: "\<not> ?thesis"
  let ?d = "io_desc (io_at m recv_io)"
  have w: "write32 m' ?d v a = m' a" "write32 m' (?d + 8) v a = m' a" for m' v
  proof -
    have "a \<noteq> ?d + of_nat k" if "k < 16" for k
      using no that unat_of_nat_u32 [of k] by (auto simp: in_buffer_def)
    from this [of 0] this [of 1] this [of 2] this [of 3] this [of 8] this [of 9] this [of 10] this [of 11]
    show "write32 m' ?d v a = m' a" "write32 m' (?d + 8) v a = m' a" by (simp_all add: write32_def add.assoc)
  qed
  have "mem_copy m (io_msg (io_at m recv_io)) s (unat (desc_len (desc_at m (io_desc (io_at m send_io))))) a = m a" for s
    using no by (simp add: mem_copy_def in_buffer_def)
  then show False using assms(1) w by (simp add: deliver_locked_def complete_token_def Let_def m_def)
qed

lemma set_tokens_lock_mem [simp]: "ipc_mem (set_tokens_lock p l st) = ipc_mem st"
  by (simp add: set_tokens_lock_def)

lemma deliver_changes:
  assumes "ipc_deliver send_ipc recv_ipc send_io recv_io box_id st = (status, st')" "ipc_mem st' a \<noteq> ipc_mem st a"
  defines "m \<equiv> ipc_mem st"
  shows "in_buffer a (io_msg (io_at m recv_io)) (desc_len (desc_at m (io_desc (io_at m send_io)))) \<or>
    in_buffer a (io_desc (io_at m recv_io)) 16"
proof -
  obtain st1 where "ipc_mem st1 = m" "ipc_mem (deliver_locked send_ipc recv_ipc send_io recv_io box_id st1) a \<noteq> m a"
    using assms(1,2) by (auto simp: ipc_deliver_def Let_def m_def split: prod.splits if_splits) (metis set_tokens_lock_mem)+
  then show ?thesis using deliver_locked_changes [of send_ipc recv_ipc send_io recv_io box_id st1 a] by simp
qed

section \<open>Delivery is all or nothing\<close>

definition tokens_locked :: "u32 \<Rightarrow> ipc_state \<Rightarrow> bool" where
  "tokens_locked p st \<longleftrightarrow> acquired (tokens_lock (ipc_heap st p))"

lemma set_tokens_lock_same: "\<not> tokens_locked p st \<Longrightarrow> set_tokens_lock p \<lparr>acquired = False\<rparr> st = st"
  by (auto simp: set_tokens_lock_def tokens_locked_def fun_upd_idem_iff intro!: ipc_state.equality uvisor_ipc.equality UvisorSpinlock.equality)

lemma set_tokens_lock_own [simp]: "set_tokens_lock p (tokens_lock (ipc_heap st p)) st = st"
  by (simp add: set_tokens_lock_def)

lemma set_tokens_lock_twice [simp]: "set_tokens_lock p l (set_tokens_lock p l' st) = set_tokens_lock p l st"
  by (simp add: set_tokens_lock_def)

lemma set_tokens_lock_swap: "p \<noteq> p' \<Longrightarrow> set_tokens_lock p l (set_tokens_lock p' l' st) = set_tokens_lock p' l' (set_tokens_lock p l st)"
  by (simp add: set_tokens_lock_def fun_upd_twist)

lemma lock_after_set [simp]:
  "tokens_lock (ipc_heap (set_tokens_lock p l st) p') = (if p' = p then l else tokens_lock (ipc_heap st p'))"
  by (simp add: set_tokens_lock_def)

lemma complete_token_set_lock: "complete_token p t (set_tokens_lock p' l st) = set_tokens_lock p' l (complete_token p t st)"
  by (auto simp: complete_token_def set_tokens_lock_def intro!: ipc_state.equality ext uvisor_ipc.equality)

lemma set_tokens_lock_mem_upd: "(set_tokens_lock p l st)\<lparr>ipc_mem := m\<rparr> = set_tokens_lock p l (st\<lparr>ipc_mem := m\<rparr>)"
  by (simp add: set_tokens_lock_def)

lemma deliver_locked_set_lock:
  "deliver_locked sp rp sio rio b (set_tokens_lock p l st) = set_tokens_lock p l (deliver_locked sp rp sio rio b st)"
  by (simp add: deliver_locked_def Let_def set_tokens_lock_mem_upd complete_token_set_lock)

lemma deliver_locked_lock [simp]: "tokens_lock (ipc_heap (deliver_locked sp rp sio rio b st) p) = tokens_lock (ipc_heap st p)"
  by (simp add: deliver_locked_def complete_token_def Let_def)

lemma spin_unlock_lock: "uvisor_spin_unlock l = \<lparr>acquired = False\<rparr>"
  by (simp add: spin_simps)

lemma ipc_deliver_cases:
  "ipc_deliver sp rp sio rio b st =
     (if tokens_locked sp st \<or> tokens_locked rp st then (- 1, st) else (0, deliver_locked sp rp sio rio b st))"
proof -
  let ?d = "deliver_locked sp rp sio rio b st" and ?set = "\<lambda>p v. set_tokens_lock p \<lparr>acquired = v\<rparr>"
  have try_lock: "uvisor_spin_trylock l = (if acquired l then (False, l) else (True, \<lparr>acquired = True\<rparr>))" for l
    by (simp add: spin_simps)
  have "\<not> tokens_locked p ?d" if "\<not> tokens_locked p st" for p using that by (simp add: tokens_locked_def)
  then show ?thesis
    by (cases "rp = sp"; cases "tokens_locked sp st"; cases "tokens_locked rp st")
      (auto simp: ipc_deliver_def Let_def try_lock spin_unlock_lock deliver_locked_set_lock set_tokens_lock_same set_tokens_lock_swap [of rp sp]
        tokens_locked_def)
qed

text \<open>What a delivery writes, when the buffers do not overlap.\<close>

lemma desc_at_frame:
  assumes "\<And>a. in_buffer a p 16 \<Longrightarrow> m' a = m a"
  shows "desc_at m' p = desc_at m p"
proof -
  have "m' (p + of_nat k) = m (p + of_nat k)" if "k < 16" for k
    using assms in_buffer_offset [OF that] by simp
  from this [of 0] this [of 1] this [of 2] this [of 3] this [of 4] this [of 5] this [of 6] this [of 7] this [of 8] this [of 9] this [of 10]
    this [of 11] this [of 12] this [of 13] this [of 14] this [of 15]
  show ?thesis by (simp add: desc_at_def read32_def add.assoc)
qed

lemma write32_outside:
  assumes "\<not> in_buffer a p 16"
  shows "write32 m p v a = m a" "write32 m (p + 8) v a = m a"
proof -
  have "a \<noteq> p + of_nat k" if "k < 16" for k using assms in_buffer_offset [OF that, of p] by auto
  from this [of 0] this [of 1] this [of 2] this [of 3] this [of 8] this [of 9] this [of 10] this [of 11]
  show "write32 m p v a = m a" "write32 m (p + 8) v a = m a" by (simp_all add: write32_def add.assoc)
qed

lemma read32_write32_apart: "read32 (write32 m (p + 8) v) p = read32 m p" "read32 (write32 m p v) (p + 12) = read32 m (p + 12)"
  "read32 (write32 m (p + 8) v) (p + 12) = read32 m (p + 12)"
  by (simp_all add: read32_def write32_def add.assoc)

lemma deliver_locked_result:
  fixes st send_ipc recv_ipc send_io recv_io b
  defines "m \<equiv> ipc_mem st"
  defines "sdesc \<equiv> io_desc (io_at m send_io)" and "rdesc \<equiv> io_desc (io_at m recv_io)"
    and "smsg \<equiv> io_msg (io_at m send_io)" and "rmsg \<equiv> io_msg (io_at m recv_io)"
  assumes apart: "\<And>a. in_buffer a rmsg (desc_len (desc_at m sdesc)) \<Longrightarrow> \<not> in_buffer a rdesc 16 \<and> \<not> in_buffer a sdesc 16"
    "\<And>a. in_buffer a rdesc 16 \<Longrightarrow> \<not> in_buffer a sdesc 16"
  defines "st' \<equiv> deliver_locked send_ipc recv_ipc send_io recv_io b st"
  shows "in_buffer (rmsg + k) rmsg (desc_len (desc_at m sdesc)) \<Longrightarrow> ipc_mem st' (rmsg + k) = m (smsg + k)"
    and "desc_at (ipc_mem st') rdesc = (desc_at m rdesc)\<lparr>desc_box_id := ucast b, desc_len := desc_len (desc_at m sdesc)\<rparr>"
    and "ipc_heap st' = ipc_heap (complete_token recv_ipc (desc_token (desc_at m rdesc)) (complete_token send_ipc (desc_token (desc_at m sdesc)) st))"
proof -
  let ?len = "desc_len (desc_at m sdesc)"
  define m1 where "m1 = mem_copy m rmsg smsg (unat ?len)"
  define m2 where "m2 = write32 m1 rdesc (ucast b)"
  define m3 where "m3 = write32 m2 (rdesc + 8) ?len"
  have m1_out: "m1 a = m a" if "\<not> in_buffer a rmsg ?len" for a
    using that by (simp add: m1_def mem_copy_def in_buffer_def)
  have m2_out: "m2 a = m1 a" "m3 a = m1 a" if "\<not> in_buffer a rdesc 16" for a
    using that by (simp_all add: m2_def m3_def write32_outside)
  have sdesc: "desc_at m1 sdesc = desc_at m sdesc" "desc_at m2 sdesc = desc_at m sdesc"
    using apart m1_out m2_out by (metis desc_at_frame)+
  have r1: "desc_at m1 rdesc = desc_at m rdesc" using apart m1_out by (metis desc_at_frame)
  have "read32 m3 (rdesc + 4) = read32 m1 (rdesc + 4)"
    by (simp add: m3_def m2_def read32_def write32_def add.assoc)
  then have r3: "desc_at m3 rdesc = (desc_at m1 rdesc)\<lparr>desc_box_id := ucast b, desc_len := ?len\<rparr>"
    by (simp add: desc_at_def m3_def m2_def read32_write32 read32_write32_apart)
  have st': "st' = complete_token recv_ipc (desc_token (desc_at m3 rdesc)) ((complete_token send_ipc (desc_token (desc_at m1 sdesc))
      (st\<lparr>ipc_mem := m1\<rparr>))\<lparr>ipc_mem := m3\<rparr>)"
    using sdesc by (simp add: st'_def deliver_locked_def Let_def m3_def m2_def m1_def m_def sdesc_def rdesc_def smsg_def rmsg_def)
  then have mem: "ipc_mem st' = m3" by (simp add: complete_token_def)
  show "ipc_mem st' (rmsg + k) = m (smsg + k)" if "in_buffer (rmsg + k) rmsg ?len"
    using apart(1) [OF that] that m2_out(2) by (simp add: mem m1_def mem_copy_def in_buffer_def)
  show "desc_at (ipc_mem st') rdesc = (desc_at m rdesc)\<lparr>desc_box_id := ucast b, desc_len := ?len\<rparr>"
    using r3 r1 mem by simp
  show "ipc_heap st' = ipc_heap (complete_token recv_ipc (desc_token (desc_at m rdesc)) (complete_token send_ipc (desc_token (desc_at m sdesc)) st))"
    using r3 r1 sdesc by (simp add: st' complete_token_def)
qed


text \<open>The slot that is delivered to is the one that matched, provided that the number of slots is not out of range.\<close>

lemma find_first_loop_match: "find_first_loop n pool query slot = Inr (s, pool') \<Longrightarrow> s = UVISOR_POOL_SLOT_INVALID \<or> query s"
  by (induction n arbitrary: slot) (auto simp: bind_res_Inr_iff split: if_splits)

lemma try_find_first_match:
  "uvisor_pool_queue_try_find_first q pool query = Inr (s, pool') \<Longrightarrow> s = UVISOR_POOL_SLOT_INVALID \<or> query s"
  by (auto simp: uvisor_pool_queue_try_find_first_def find_first_def bind_res_Inr_iff split: prod.splits if_splits dest: find_first_loop_match)

lemma keep_queue_keeps: "(\<And>q. pool_keeps (f q)) \<Longrightarrow> queue_keeps (\<lambda>q. keep_queue (f q) q)" "pool_keeps g \<Longrightarrow> queue_keeps (keep_queue g)"
  by (auto simp: pool_keeps_def queue_keeps_def keep_queue_def bind_res_Inr_iff)

lemmas ipc_keeps = queue_keeps_ops keep_queue_keeps(1) [OF pool_keeps_ops(3)] keep_queue_keeps(2) [OF pool_keeps_ops(2)]

definition pools_ok :: "ipc_state \<Rightarrow> bool" where
  "pools_ok st \<longleftrightarrow> (\<forall>p. pool_num (pool_heap st p) \<le> UVISOR_POOL_MAX_VALID)"

lemma queue_op_pools_ok: "queue_op env p sending f st = Inr (x, st') \<Longrightarrow> queue_keeps f \<Longrightarrow> pools_ok st \<Longrightarrow> pools_ok st'"
  by (auto simp: queue_op_def update_queue_def bind_res_Inr_iff pools_ok_def queue_keeps_def ipc_pool_def) (metis pool_shape_num)

lemma put_it_back_pools_ok: "put_it_back env p sending slot st = Inr st' \<Longrightarrow> pools_ok st \<Longrightarrow> pools_ok st'"
  using queue_op_pools_ok [OF _ ipc_keeps(2)] by (auto simp: put_it_back_def bind_res_Inr_iff)

lemma deliver_pools_ok: "ipc_deliver sp rp sio rio b st = (status, st') \<Longrightarrow> pools_ok st \<Longrightarrow> pools_ok st'"
  by (auto simp: ipc_deliver_def deliver_locked_def complete_token_def set_tokens_lock_def pools_ok_def Let_def split: prod.splits if_splits)

lemma try_dequeue_slot:
  "uvisor_pool_queue_try_dequeue q p slot = Inr (s, q', p') \<Longrightarrow> s = slot \<or> UVISOR_POOL_MAX_VALID < s"
  by (auto simp: uvisor_pool_queue_try_dequeue_def dequeue_locked_def Let_def bind_res_Inr_iff slot_consts split: if_splits prod.splits)

lemma put_send_back_mem: "put_send_back env p slot first st = Inr (x, st') \<Longrightarrow> pools_ok st \<Longrightarrow> pools_ok st' \<and> ipc_mem st' = ipc_mem st"
  by (auto simp: put_send_back_def bind_res_Inr_iff dest: put_it_back_mem put_it_back_pools_ok)

text \<open>What the drain loop does to a state that started with the memory \<open>m\<close>.\<close>

abbreviation confined :: "ipc_env \<Rightarrow> mem \<Rightarrow> ipc_state \<Rightarrow> bool" where
  "confined env \<equiv> confined_to ipc_mem pools_ok (in_checked_buffer env)"

lemma confined_refl: "pools_ok st \<Longrightarrow> confined env (ipc_mem st) st"
  by (rule confined_to_refl)

lemma confined_put_it_back: "put_it_back env p sending slot st = Inr st' \<Longrightarrow> confined env m st \<Longrightarrow> confined env m st'"
  using put_it_back_mem put_it_back_pools_ok confined_to_same by (metis confined_to_def)

lemma confined_put_send_back: "put_send_back env p slot first st = Inr (x, st') \<Longrightarrow> confined env m st \<Longrightarrow> confined env m st'"
  by (auto simp: put_send_back_def bind_res_Inr_iff dest: confined_put_it_back)

lemma confined_queue_op: "queue_op env p sending f st = Inr (x, st') \<Longrightarrow> queue_keeps f \<Longrightarrow> confined env m st \<Longrightarrow> confined env m st'"
  using queue_op_mem queue_op_pools_ok confined_to_same by (metis confined_to_def)

lemmas confined_ops = confined_put_it_back confined_put_send_back confined_queue_op [OF _ ipc_keeps(1)]
  confined_queue_op [OF _ ipc_keeps(3)] confined_queue_op [OF _ ipc_keeps(4)] confined_queue_op [OF _ ipc_keeps(5)]

lemma confined_deliver:
  assumes "ipc_deliver send_ipc recv_ipc send_io recv_io box_id st = (status, st')" "pools_ok st" "b < ipc_box_count env"
    "ipc_io_is_ok env b recv_io (ipc_mem st) = Inr True"
    "desc_len (desc_at (ipc_mem st) (io_desc (io_at (ipc_mem st) send_io))) \<le> desc_len (desc_at (ipc_mem st) (io_desc (io_at (ipc_mem st) recv_io)))"
  shows "confined env (ipc_mem st) st'"
  unfolding confined_to_def
proof (intro conjI allI impI)
  show "pools_ok st'" using deliver_pools_ok assms(1,2) .
  fix a assume "ipc_mem st' a \<noteq> ipc_mem st a"
  from deliver_changes [OF assms(1) this] show "in_checked_buffer env a"
    using assms(3-5) unfolding in_checked_buffer_def ipc_io_is_ok_def by (auto simp: and_res_True Let_def dest: in_buffer_mono)
qed

lemma confined_deliver_pair:
  assumes run: "deliver_pair env send_box send_ipc send_slot send_io b recv_ipc recv_slot first st = Inr (x, st')"
    and "pools_ok st" "b < ipc_box_count env"
    and "recv_match send_box (ipc_mem st) send_io (recv_ipc + recv_queue_offset + queue_io_offset) recv_slot"
  shows "confined env (ipc_mem st) st'"
proof -
  let ?rio = "recv_ipc + recv_queue_offset + queue_io_offset + 12 * ucast recv_slot"
  obtain io_ok where io_ok: "ipc_io_is_ok env b ?rio (ipc_mem st) = Inr io_ok"
    using run by (auto simp: deliver_pair_def Let_def bind_res_Inr_iff)
  obtain status st1 where d: "ipc_deliver send_ipc recv_ipc send_io ?rio send_box st = (status, st1)" by fastforce
  have "io_ok \<Longrightarrow> confined env (ipc_mem st) st1"
    using confined_deliver [OF d] assms(2-4) io_ok by (auto simp: recv_match_def Let_def split: if_splits)
  then show ?thesis
    using run io_ok d confined_refl [OF assms(2)]
    by (auto simp: deliver_pair_def Let_def bind_res_Inr_iff split: if_splits dest: confined_ops)
qed

lemma queue_op_result:
  assumes "queue_op env p sending f st = Inr (x, st')"
  obtains q pool where "f (ipc_queue sending (ipc_heap st p)) (ipc_pool env p sending st) = Inr (x, q, pool)"
  using assms by (auto simp: queue_op_def bind_res_Inr_iff)

lemma below_num_valid: "pools_ok st \<Longrightarrow> s < pool_num (ipc_pool env p sending st) \<Longrightarrow> s < UVISOR_POOL_MAX_VALID"
  unfolding pools_ok_def ipc_pool_def by (meson order_less_le_trans)

lemma find_receiver_match:
  assumes "queue_op env p False (\<lambda>q. keep_queue (\<lambda>pool. uvisor_pool_queue_try_find_first q pool query) q) st = Inr (s, st')" "pools_ok st"
    "s < pool_num (ipc_pool env p False st')"
  shows "query s"
proof -
  have "pools_ok st'" using queue_op_pools_ok [OF assms(1) ipc_keeps(4)] assms(2) .
  then have "s \<noteq> UVISOR_POOL_SLOT_INVALID" using below_num_valid assms(3) by (fastforce simp: slot_consts)
  then show ?thesis
    using assms(1) by (auto elim!: queue_op_result simp: keep_queue_def bind_res_Inr_iff dest: try_find_first_match)
qed

lemma dequeue_receiver_slot:
  assumes "queue_op env p False (\<lambda>q pool. uvisor_pool_queue_try_dequeue q pool slot) st = Inr (s, st')" "pools_ok st"
    "s < pool_num (ipc_pool env p False st')"
  shows "s = slot"
proof -
  have "pools_ok st'" using queue_op_pools_ok [OF assms(1) ipc_keeps(3)] assms(2) .
  then have "s < UVISOR_POOL_MAX_VALID" using below_num_valid assms(3) by blast
  then show ?thesis using assms(1) by (auto elim!: queue_op_result dest!: try_dequeue_slot)
qed

lemma confined_send_to_box:
  assumes run: "send_to_box env send_box send_ipc send_slot send_io b first st = Inr (x, st')"
    and ok: "pools_ok st" "b < ipc_box_count env"
  shows "confined env (ipc_mem st) st'"
proof -
  let ?p = "ipc_of_box env b st"
  let ?match = "recv_match send_box (ipc_mem st) send_io (?p + recv_queue_offset + queue_io_offset)"
  have start: "confined env (ipc_mem st) st" using ok(1) by (rule confined_refl)
  consider st1 where "put_send_back env send_ipc send_slot first st1 = Inr (x, st')" "confined env (ipc_mem st) st1"
    | s1 st1 s2 st2 where
      "queue_op env ?p False (\<lambda>q. keep_queue (\<lambda>pool. uvisor_pool_queue_try_find_first q pool ?match) q) st = Inr (s1, st1)"
      "s1 < pool_num (ipc_pool env ?p False st1)"
      "queue_op env ?p False (\<lambda>q pool. uvisor_pool_queue_try_dequeue q pool s1) st1 = Inr (s2, st2)"
      "s2 < pool_num (ipc_pool env ?p False st2)"
      "deliver_pair env send_box send_ipc send_slot send_io b ?p s2 first st2 = Inr (x, st')"
    using run start by (auto simp: send_to_box_def Let_def bind_res_Inr_iff not_le split: if_splits dest: confined_ops)
  then show ?thesis
  proof cases
    case 1
    then show ?thesis by (rule confined_put_send_back)
  next
    case 2
    have c1: "confined env (ipc_mem st) st1" and c2: "confined env (ipc_mem st) st2"
      using confined_ops(5) [OF 2(1) start] confined_ops(4) [OF 2(3)] by blast+
    have mem: "ipc_mem st2 = ipc_mem st" using queue_op_mem [OF 2(1)] queue_op_mem [OF 2(3)] by simp
    have "?match s1" using find_receiver_match [OF 2(1) ok(1) 2(2)] .
    moreover have "s2 = s1" using dequeue_receiver_slot [OF 2(3) confined_to_ok [OF c1] 2(4)] .
    ultimately show ?thesis using confined_deliver_pair [OF 2(5) confined_to_ok [OF c2] ok(2)] mem by simp
  qed
qed

lemma signed_box_below_count:
  assumes "0 \<le> sint (w :: u32)" "sint w < uint (n :: u8)"
  shows "ucast w < n"
proof -
  have "sint w = uint w - 2 ^ 32 * of_bool (bit (uint w) 31)"
    using signed_take_bit_eq_take_bit_minus [of 31 "uint w"] uint_lt2p [of w] by (simp add: sint_uint take_bit_int_eq_self)
  then have "uint w < uint n" using assms uint_lt2p [of w] by (cases "bit (uint w) 31") auto
  moreover have "uint (ucast w :: u8) \<le> uint w" by (simp add: unsigned_ucast_eq take_bit_int_less_eq_self_iff)
  ultimately show ?thesis unfolding word_less_def by linarith
qed

lemma confined_drain_message:
  assumes "drain_message env send_box send_ipc send_slot first st = Inr (x, st')" "pools_ok st"
  shows "confined env (ipc_mem st) st'"
  using assms confined_refl [OF assms(2)]
  by (auto simp: drain_message_def Let_def bind_res_Inr_iff not_le not_less split: if_splits
      intro: confined_send_to_box signed_box_below_count confined_put_send_back)

lemma confined_drain_loop:
  "drain_loop n env send_box send_ipc first st = Inr st' \<Longrightarrow> confined env m st \<Longrightarrow> confined env m st'"
proof (induction n arbitrary: first st)
  case (Suc n)
  then obtain slot st1 where q: "queue_op env send_ipc True uvisor_pool_queue_try_dequeue_first st = Inr (slot, st1)"
    by (auto simp: bind_res_Inr_iff)
  have c: "confined env m st1" using confined_ops(3) [OF q Suc.prems(2)] .
  have "confined env m st2" if "drain_message env send_box send_ipc slot f st1 = Inr (x, st2)" for f x st2
    using confined_to_trans [OF confined_drain_message [OF that confined_to_ok [OF c]] c] .
  then show ?case
    using Suc q c by (auto simp: bind_res_Inr_iff split: if_splits dest: confined_ops)
qed simp


section \<open>An example\<close>

text \<open>
  A system of two boxes with pools of two slots. Box 0 has one message of two bytes in its send queue, box 1 waits for a message. In the second state
  the send queue of box 0 holds two messages: one to a box that does not exist and one that is not ready to be sent.
\<close>

definition example_ipc_env :: ipc_env where
  "example_ipc_env = \<lparr>ipc_build = example_build, ipc_ok = (\<lambda>b p n. Inr True), ipc_bss = (\<lambda>b. 0x1000 + 0x100 * ucast b), ipc_box_count = 2\<rparr>"

definition example_words :: "(u32 \<times> u32) list" where
  "example_words =
     [(0x1010, 0x2000), (0x1110, 0x3000),
      (0x203C, 0x4000), (0x2040, 0x5000), (0x2044, 2), (0x4000, 1), (0x4008, 2), (0x400C, 1), (0x5000, 0xAABB),
      (0x3138, 0x4100), (0x313C, 0x6000), (0x3140, 3), (0x4100, 0), (0x4108, 8), (0x410C, 4)]"

definition example_entry :: "u8 \<Rightarrow> u8 \<Rightarrow> uvisor_pool_queue_entry" where
  "example_entry n p = \<lparr>entry_next = n, entry_prev = p\<rparr>"

definition example_io_pool :: "uvisor_pool_queue_entry list \<Rightarrow> uvisor_pool" where
  "example_io_pool es = \<lparr>pool_magic = UVISOR_POOL_MAGIC, pool_array = 0, pool_stride = 12, pool_num = 2, pool_num_allocated = 2, pool_first_free = 0xFF,
     pool_spinlock = \<lparr>acquired = False\<rparr>, management_array = es\<rparr>"

definition example_io_queue :: "u8 \<Rightarrow> u8 \<Rightarrow> u32 \<Rightarrow> uvisor_pool_queue" where
  "example_io_queue h t p = \<lparr>queue_magic = UVISOR_POOL_QUEUE_MAGIC, queue_head = h, queue_tail = t, queue_pool = p\<rparr>"

definition example_ipc :: "u8 \<Rightarrow> u8 \<Rightarrow> u32 \<Rightarrow> uvisor_ipc" where
  "example_ipc h t p = \<lparr>send_queue = example_io_queue h t (p + 12), recv_queue = example_io_queue 0 0 (p + 264), tokens_lock = \<lparr>acquired = False\<rparr>,
     allocated_tokens = 0, completed_tokens = 0\<rparr>"

definition example_state :: "u8 \<Rightarrow> uvisor_pool_queue_entry list \<Rightarrow> (u32 \<times> u32) list \<Rightarrow> ipc_state" where
  "example_state t es ws = \<lparr>ipc_heap = example_ipc 0 t, pool_heap = (\<lambda>p. if p = 0x200C then example_io_pool es else
     example_io_pool [example_entry 0xFF 0xFF, example_entry 0xFF 0xFE]), ipc_mem = example_mem ws\<rparr>"

lemmas example_defs = example_ipc_env_def example_entry_def example_io_pool_def example_io_queue_def example_ipc_def example_state_def example_build_def

lemmas pool_queue_defs = uvisor_pool_queue_try_dequeue_first_def try_dequeue_first_def dequeue_def uvisor_pool_queue_try_enqueue_def enqueue_def
  uvisor_pool_queue_try_dequeue_def dequeue_locked_def uvisor_pool_queue_try_find_first_def find_first_def uvisor_pool_try_free_def pool_free_def
  set_next_def set_prev_def set_entry_def get_entry_def arr_get_def pool_spin_trylock_def pool_spin_unlock_def spin_simps slot_consts

lemma example_reads:
  "ipc_of_box example_ipc_env 0 (example_state t es example_words) = 0x2000"
  "ipc_of_box example_ipc_env 1 (example_state t es example_words) = 0x3000"
  "io_at (example_mem example_words) 0x203C = \<lparr>io_desc = 0x4000, io_msg = 0x5000, io_state = 2\<rparr>"
  "io_at (example_mem example_words) 0x3138 = \<lparr>io_desc = 0x4100, io_msg = 0x6000, io_state = 3\<rparr>"
  "desc_at (example_mem example_words) 0x4000 = \<lparr>desc_box_id = 1, desc_port = 0, desc_len = 2, desc_token = 1\<rparr>"
  "desc_at (example_mem example_words) 0x4100 = \<lparr>desc_box_id = 0, desc_port = 0, desc_len = 8, desc_token = 4\<rparr>"
  by (simp_all add: ipc_of_box_def example_defs index_ipc_def UVISOR_GET_S_ALIAS_def example_mem_def example_words_def io_at_def desc_at_def
      read32_def write32_def)

definition example_sent :: ipc_state where "example_sent = example_state 0 [example_entry 0xFF 0xFF, example_entry 0xFF 0xFE] example_words"

definition example_taken :: ipc_state where
  "example_taken = \<lparr>ipc_heap = (example_ipc 0 0)(0x2000 := example_ipc 0xFF 0xFF 0x2000), pool_heap = (pool_heap example_sent)
     (0x200C := example_io_pool [example_entry 0xFF 0xFE, example_entry 0xFF 0xFE]), ipc_mem = example_mem example_words\<rparr>"

definition example_found :: ipc_state where
  "example_found = example_taken\<lparr>
     ipc_heap := (ipc_heap example_taken)(0x3000 := (example_ipc 0 0 0x3000)\<lparr>recv_queue := example_io_queue 0xFF 0xFF 0x3108\<rparr>),
     pool_heap := (pool_heap example_taken)(0x3108 := example_io_pool [example_entry 0xFF 0xFE, example_entry 0xFF 0xFE])\<rparr>"

lemmas example_queues = queue_op_def update_queue_def ipc_queue_def ipc_pool_def pool_of_def UVISOR_GET_S_ALIAS_def keep_queue_def
  example_defs example_sent_def example_taken_def example_found_def pool_queue_defs

lemmas ipc_checks = and_res_def ipc_is_ok_def pool_queue_is_ok_def ipc_io_array_is_ok_def ipc_io_is_ok_def

lemma example_dequeue: "queue_op example_ipc_env 0x2000 True uvisor_pool_queue_try_dequeue_first example_sent = Inr (0, example_taken)"
  by (simp add: example_queues)

lemma find_first_loop_step:
  "find_first_loop 257 p f s = (if s \<noteq> UVISOR_POOL_SLOT_INVALID then
     if f s then Inr (s, p\<lparr>pool_spinlock := uvisor_spin_unlock (pool_spinlock p)\<rparr>)
     else bind_res (get_entry p s) (\<lambda>e. find_first_loop 256 p f (entry_next e))
   else Inr (UVISOR_POOL_SLOT_INVALID, p))"
  using find_first_loop.simps(2) [of 256 p f s] by simp

lemma example_to_box:
  "send_to_box example_ipc_env 0 0x2000 0 0x203C 1 0 example_taken = deliver_pair example_ipc_env 0 0x2000 0 0x203C 1 0x3000 0 0 example_found"
proof -
  have "recv_match 0 (example_mem example_words) 0x203C 0x3138 0"
    by (simp add: recv_match_def example_reads UVISOR_IPC_IO_STATE_READY_TO_RECV_def)
  moreover have "ipc_of_box example_ipc_env 1 example_taken = 0x3000"
    using example_reads(2) by (simp add: ipc_of_box_def example_taken_def example_state_def)
  ultimately show ?thesis by (simp add: send_to_box_def ipc_layout ipc_checks example_queues find_first_loop_step)
qed

lemma example_found_reads:
  "io_at (ipc_mem example_found) 0x203C = \<lparr>io_desc = 0x4000, io_msg = 0x5000, io_state = 2\<rparr>"
  "io_at (ipc_mem example_found) 0x3138 = \<lparr>io_desc = 0x4100, io_msg = 0x6000, io_state = 3\<rparr>"
  "desc_at (ipc_mem example_found) 0x4000 = \<lparr>desc_box_id = 1, desc_port = 0, desc_len = 2, desc_token = 1\<rparr>"
  "desc_at (ipc_mem example_found) 0x4100 = \<lparr>desc_box_id = 0, desc_port = 0, desc_len = 8, desc_token = 4\<rparr>"
  "ipc_mem example_found 0x5000 = 0xBB"
  by (simp_all add: example_reads example_found_def example_taken_def) (simp add: example_mem_def example_words_def write32_def)

lemma example_apart:
  "in_buffer a 0x6000 2 \<Longrightarrow> \<not> in_buffer a 0x4100 16 \<and> \<not> in_buffer a 0x4000 16" "in_buffer a 0x4100 16 \<Longrightarrow> \<not> in_buffer a 0x4000 16"
  by (auto simp: in_buffer_range)


lemma example_delivered:
  "\<exists>st. deliver_pair example_ipc_env 0 0x2000 0 0x203C 1 0x3000 0 0 example_found = Inr (- 1, st) \<and>
     send_queue (ipc_heap st 0x2000) = example_io_queue 0xFF 0xFF 0x200C \<and> pool_num (pool_heap st 0x200C) = 2 \<and>
     \<not> acquired (pool_spinlock (pool_heap st 0x200C)) \<and> ipc_mem st 0x6000 = 0xBB"
proof -
  define st where "st = deliver_locked 0x2000 0x3000 0x203C 0x3138 0 example_found"
  have "ipc_deliver 0x2000 0x3000 0x203C 0x3138 0 example_found = (0, st)"
    by (simp add: ipc_deliver_cases st_def tokens_locked_def example_queues)
  moreover have "ipc_mem st 0x6000 = 0xBB"
    using deliver_locked_result(1) [where st = example_found and send_io = "0x203C" and recv_io = "0x3138" and k = 0 and send_ipc = "0x2000" and
      recv_ipc = "0x3000" and b = 0] example_apart
    by (simp add: st_def example_found_reads in_buffer_def)
  moreover have "send_queue (ipc_heap st 0x2000) = example_io_queue 0xFF 0xFF 0x200C" "recv_queue (ipc_heap st 0x3000) = example_io_queue 0xFF 0xFF 0x3108"
    "pool_heap st = pool_heap example_found"
    by (simp_all add: st_def deliver_locked_def complete_token_def Let_def example_queues)
  ultimately show ?thesis
    using example_found_reads(2) by (simp add: deliver_pair_def ipc_layout ipc_checks example_queues assert_res_def)
qed

lemma example_start:
  "ipc_of_box example_ipc_env 0 st = 0x2000 \<Longrightarrow> queue_pool (send_queue (ipc_heap st 0x2000)) \<noteq> 0 \<Longrightarrow>
     ipc_drain_queue n example_ipc_env 0 st = drain_loop n example_ipc_env 0 0x2000 (- 1) st"
  by (simp add: ipc_drain_queue_def ipc_checks ipc_layout example_ipc_env_def)

lemma example_drain: "\<exists>st'. ipc_drain_queue 2 example_ipc_env 0 example_sent = Inr st' \<and> ipc_mem st' 0x6000 = 0xBB"
proof -
  obtain st where st: "deliver_pair example_ipc_env 0 0x2000 0 0x203C 1 0x3000 0 0 example_found = Inr (- 1, st)"
    "send_queue (ipc_heap st 0x2000) = example_io_queue 0xFF 0xFF 0x200C" "pool_num (pool_heap st 0x200C) = 2"
    "\<not> acquired (pool_spinlock (pool_heap st 0x200C))" "ipc_mem st 0x6000 = 0xBB"
    using example_delivered by blast
  have last: "\<exists>st'. drain_loop (Suc 0) example_ipc_env 0 0x2000 (- 1) st = Inr st' \<and> ipc_mem st' 0x6000 = 0xBB"
    using st(2-5) by (simp add: example_queues)
  have "drain_message example_ipc_env 0 0x2000 0 0 example_taken = Inr (- 1, st)"
    using example_to_box st(1) example_reads
    by (simp add: drain_message_def ipc_layout ipc_checks example_taken_def example_ipc_env_def UVISOR_IPC_IO_STATE_READY_TO_SEND_def)
  moreover have "pool_num (ipc_pool example_ipc_env 0x2000 True example_taken) = 2" by (simp add: example_queues)
  ultimately have "drain_loop (Suc (Suc 0)) example_ipc_env 0 0x2000 (- 1) example_sent = drain_loop (Suc 0) example_ipc_env 0 0x2000 (- 1) st"
    using example_dequeue by simp
  moreover have "ipc_drain_queue n example_ipc_env 0 example_sent = drain_loop n example_ipc_env 0 0x2000 (- 1) example_sent" for n
    by (rule example_start) (simp_all add: example_sent_def example_reads, simp add: example_state_def example_ipc_def example_io_queue_def)
  ultimately show ?thesis using last unfolding numeral_2_eq_2 by simp
qed


section \<open>A loop that does not end\<close>

text \<open>
  The queue is done when the slot that was seen first comes up again. When that first slot is dropped instead of put back, because its message is for
  a box that does not exist or not entirely in the sender's memory, it never comes up again: if another message has to wait, it is taken and put
  back forever. The example has two messages in the queue of box 0, one to a box that does not exist and one that is not ready.
\<close>

definition stuck_words :: "(u32 \<times> u32) list" where
  "stuck_words = [(0x1010, 0x2000), (0x203C, 0x4000), (0x2044, 2), (0x4000, 7), (0x2048, 0x4000)]"

definition example_stuck :: ipc_state where "example_stuck = example_state 1 [example_entry 1 0xFF, example_entry 0xFF 0] stuck_words"

definition example_waiting :: ipc_state where
  "example_waiting = \<lparr>ipc_heap = (example_ipc 0 1)(0x2000 := (example_ipc 1 1 0x2000)), pool_heap = (pool_heap example_stuck)
     (0x200C := example_io_pool [example_entry 0xFF 0xFE, example_entry 0xFF 0xFF]), ipc_mem = example_mem stuck_words\<rparr>"

lemma stuck_reads:
  "ipc_of_box example_ipc_env 0 example_stuck = 0x2000"
  "io_at (example_mem stuck_words) 0x203C = \<lparr>io_desc = 0x4000, io_msg = 0, io_state = 2\<rparr>"
  "io_at (example_mem stuck_words) 0x2048 = \<lparr>io_desc = 0x4000, io_msg = 0, io_state = 0\<rparr>"
  "desc_box_id (desc_at (example_mem stuck_words) 0x4000) = 7"
  by (simp_all add: example_stuck_def ipc_of_box_def example_defs index_ipc_def UVISOR_GET_S_ALIAS_def example_mem_def stuck_words_def io_at_def
      desc_at_def read32_def write32_def)

lemma stuck_dequeue: "queue_op example_ipc_env 0x2000 True uvisor_pool_queue_try_dequeue_first example_stuck = Inr (0, example_waiting)"
  by (simp add: example_queues example_stuck_def example_waiting_def)

lemma stuck_drop: "drain_message example_ipc_env 0 0x2000 0 0 example_waiting = Inr (0, example_waiting)"
  using stuck_reads
  by (simp add: drain_message_def ipc_layout ipc_checks example_waiting_def example_ipc_env_def UVISOR_IPC_IO_STATE_READY_TO_SEND_def)

lemma waiting_round: "drain_loop (Suc n) example_ipc_env 0 0x2000 0 example_waiting = drain_loop n example_ipc_env 0 0x2000 0 example_waiting"
proof -
  have "\<not> (2 :: u8) \<le> 1" by (simp add: word_le_nat_alt)
  then show ?thesis
    using stuck_reads(3)
    by (simp add: example_queues example_waiting_def example_stuck_def drain_message_def ipc_layout ipc_checks put_send_back_def put_it_back_def
        assert_res_def UVISOR_IPC_IO_STATE_READY_TO_SEND_def)
qed

lemma waiting_forever: "drain_loop n example_ipc_env 0 0x2000 0 example_waiting = Inl Diverge"
proof (induction n)
  case (Suc n)
  then show ?case unfolding waiting_round .
qed simp

theorem ipc_drain_queue_never_ends: "ipc_drain_queue n example_ipc_env 0 example_stuck = Inl Diverge"
proof -
  have start: "ipc_drain_queue n example_ipc_env 0 example_stuck = drain_loop n example_ipc_env 0 0x2000 (- 1) example_stuck"
    by (rule example_start [OF stuck_reads(1)]) (simp add: example_stuck_def example_state_def example_ipc_def example_io_queue_def)
  have "pool_num (ipc_pool example_ipc_env 0x2000 True example_waiting) = 2" by (simp add: example_queues example_waiting_def)
  then have "drain_loop (Suc k) example_ipc_env 0 0x2000 (- 1) example_stuck = drain_loop k example_ipc_env 0 0x2000 0 example_waiting" for k
    using stuck_dequeue stuck_drop by simp
  then show ?thesis unfolding start using waiting_forever by (cases n) simp_all
qed

end
