(* ===== verification/Virq_Armv8m.thy ===== *)
theory Virq_Armv8m
  imports Virq Vmpu_Sanity
begin

text \<open>
  Interrupts of the ARMv8-M port, \<^verbatim>\<open>core/system/src/core_armv8m/virq.c\<close>: the ownership of interrupts, and the switch of the interrupt controller and of the banked system
  exceptions from one box to another. The functions of the port that are not implemented there, \<^verbatim>\<open>unused.c\<close>, do nothing or halt. Names that the ARMv7-M
  port has too are marked with \<open>_v8m\<close>.
\<close>

unbundle bit_operations_syntax

section \<open>State\<close>

record TVirqState =
  vs_box_id :: u8
  vs_enabled :: bool
  vs_priority :: u8

text \<open>The system exceptions that are kept for each box, SysTick and SVCall.\<close>

record virq_system_exception =
  systick_CTRL :: u32
  systick_LOAD :: u32
  systick_pending :: bool
  systick_active :: bool
  systick_priority :: u8
  svcall_active :: bool
  svcall_pending :: bool
  svcall_priority :: u8

text \<open>
  The registers: the bits and the priority of each interrupt, its target state (\<open>True\<close> is non-secure), the implemented bits of the priorities, and the non-secure
  instances of the priorities of the system handlers, of \<open>SysTick\<close>, \<open>ICSR\<close> and \<open>SHCSR\<close>.
\<close>

record nvic_v8m =
  iser_v8m :: "nat \<Rightarrow> bool"
  iabr_v8m :: "nat \<Rightarrow> bool"
  ipr_v8m :: "nat \<Rightarrow> u8"
  itns_v8m :: "nat \<Rightarrow> bool"
  implemented_v8m :: u8
  SHPR_NS :: "nat \<Rightarrow> u8"
  SysTick_NS_CTRL :: u32
  SysTick_NS_LOAD :: u32
  SysTick_NS_VAL :: u32
  ICSR_NS :: u32
  SHCSR_NS :: u32

record virq_v8m_state =
  g_virq_states :: "TVirqState list"
  g_virq_system_exception_state :: "virq_system_exception list"
  g_virq_box_in_active_irq :: "bool list"
  g_virq_min_priority :: u8
  g_virq_prio_bits_v8m :: u8
  NVIC_v8m :: nvic_v8m

text \<open>What a write to \<open>ICSR\<close> leaves there is up to the hardware: the field \<open>icsr_wr\<close> of the environment maps the old value and the written one to the new one.\<close>

record virq_v8m_env =
  v8e_build :: build_config
  v8e_virq :: virq_config
  icsr_wr :: "u32 \<Rightarrow> u32 \<Rightarrow> u32"

definition SysTick_CTRL_ENABLE_Msk :: u32 where "SysTick_CTRL_ENABLE_Msk = 1"
definition SCB_SHCSR_SYSTICKACT_Msk :: u32 where "SCB_SHCSR_SYSTICKACT_Msk = push_bit 11 1"
definition SCB_SHCSR_SVCALLACT_Msk :: u32 where "SCB_SHCSR_SVCALLACT_Msk = push_bit 7 1"
definition SCB_SHCSR_SVCALLPENDED_Msk :: u32 where "SCB_SHCSR_SVCALLPENDED_Msk = push_bit 15 1"
definition SCB_ICSR_PENDSTSET_Msk :: u32 where "SCB_ICSR_PENDSTSET_Msk = push_bit 26 1"
definition SCB_ICSR_PENDSTCLR_Msk :: u32 where "SCB_ICSR_PENDSTCLR_Msk = push_bit 25 1"

lemmas scb_masks = SCB_SHCSR_SYSTICKACT_Msk_def SCB_SHCSR_SVCALLACT_Msk_def SCB_SHCSR_SVCALLPENDED_Msk_def SCB_ICSR_PENDSTSET_Msk_def SCB_ICSR_PENDSTCLR_Msk_def

section \<open>The interrupt controller\<close>

text \<open>
  The functions of CMSIS. The non-secure view of an interrupt that targets the secure state reads as zero and ignores writes; unimplemented priority bits read as zero.
\<close>

definition on_nvic :: "(nvic_v8m \<Rightarrow> nvic_v8m) \<Rightarrow> virq_v8m_state \<Rightarrow> virq_v8m_state" where
  "on_nvic f st = st\<lparr>NVIC_v8m := f (NVIC_v8m st)\<rparr>"

definition TZ_NVIC_GetEnableIRQ_NS :: "nat \<Rightarrow> virq_v8m_state \<Rightarrow> bool" where
  "TZ_NVIC_GetEnableIRQ_NS irqn st \<longleftrightarrow> itns_v8m (NVIC_v8m st) irqn \<and> iser_v8m (NVIC_v8m st) irqn"

definition TZ_NVIC_GetActive_NS :: "nat \<Rightarrow> virq_v8m_state \<Rightarrow> bool" where
  "TZ_NVIC_GetActive_NS irqn st \<longleftrightarrow> itns_v8m (NVIC_v8m st) irqn \<and> iabr_v8m (NVIC_v8m st) irqn"

definition TZ_NVIC_EnableIRQ_NS :: "nat \<Rightarrow> virq_v8m_state \<Rightarrow> virq_v8m_state" where
  "TZ_NVIC_EnableIRQ_NS irqn = on_nvic (\<lambda>n. if itns_v8m n irqn then n\<lparr>iser_v8m := (iser_v8m n)(irqn := True)\<rparr> else n)"

definition TZ_NVIC_DisableIRQ_NS :: "nat \<Rightarrow> virq_v8m_state \<Rightarrow> virq_v8m_state" where
  "TZ_NVIC_DisableIRQ_NS irqn = on_nvic (\<lambda>n. if itns_v8m n irqn then n\<lparr>iser_v8m := (iser_v8m n)(irqn := False)\<rparr> else n)"

definition TZ_NVIC_GetPriority_NS :: "virq_config \<Rightarrow> nat \<Rightarrow> virq_v8m_state \<Rightarrow> u32" where
  "TZ_NVIC_GetPriority_NS vc irqn st = (if itns_v8m (NVIC_v8m st) irqn then drop_bit (8 - NVIC_PRIO_BITS vc) (ucast (ipr_v8m (NVIC_v8m st) irqn)) else 0)"

definition TZ_NVIC_SetPriority_NS :: "virq_config \<Rightarrow> nat \<Rightarrow> u32 \<Rightarrow> virq_v8m_state \<Rightarrow> virq_v8m_state" where
  "TZ_NVIC_SetPriority_NS vc irqn priority =
     on_nvic (\<lambda>n. if itns_v8m n irqn then n\<lparr>ipr_v8m := (ipr_v8m n)(irqn := priority_register vc priority AND implemented_v8m n)\<rparr> else n)"

text \<open>The same functions for a system handler, numbered as in \<open>SHPR\<close>: \<open>(IRQn & 0xF) - 4\<close>.\<close>

definition SysTick_SHPR :: nat where "SysTick_SHPR = 11"
definition SVCall_SHPR :: nat where "SVCall_SHPR = 7"

definition TZ_NVIC_GetSystemPriority_NS :: "virq_config \<Rightarrow> nat \<Rightarrow> virq_v8m_state \<Rightarrow> u32" where
  "TZ_NVIC_GetSystemPriority_NS vc n st = drop_bit (8 - NVIC_PRIO_BITS vc) (ucast (SHPR_NS (NVIC_v8m st) n))"

definition TZ_NVIC_SetSystemPriority_NS :: "virq_config \<Rightarrow> nat \<Rightarrow> u32 \<Rightarrow> virq_v8m_state \<Rightarrow> virq_v8m_state" where
  "TZ_NVIC_SetSystemPriority_NS vc k priority = on_nvic (\<lambda>n. n\<lparr>SHPR_NS := (SHPR_NS n)(k := priority_register vc priority AND implemented_v8m n)\<rparr>)"

definition NVIC_SetTargetState :: "nat \<Rightarrow> virq_v8m_state \<Rightarrow> virq_v8m_state" where
  "NVIC_SetTargetState irqn = on_nvic (\<lambda>n. n\<lparr>itns_v8m := (itns_v8m n)(irqn := True)\<rparr>)"

definition NVIC_ClearTargetState :: "nat \<Rightarrow> virq_v8m_state \<Rightarrow> virq_v8m_state" where
  "NVIC_ClearTargetState irqn = on_nvic (\<lambda>n. n\<lparr>itns_v8m := (itns_v8m n)(irqn := False)\<rparr>)"

lemmas tz_nvic_defs = on_nvic_def TZ_NVIC_GetEnableIRQ_NS_def TZ_NVIC_GetActive_NS_def TZ_NVIC_EnableIRQ_NS_def TZ_NVIC_DisableIRQ_NS_def TZ_NVIC_GetPriority_NS_def
  TZ_NVIC_SetPriority_NS_def TZ_NVIC_GetSystemPriority_NS_def TZ_NVIC_SetSystemPriority_NS_def NVIC_SetTargetState_def NVIC_ClearTargetState_def

section \<open>Ownership\<close>

definition virq_check_acls :: "virq_config \<Rightarrow> virq_v8m_state \<Rightarrow> u32 \<Rightarrow> u8 \<Rightarrow> unit res" where
  "virq_check_acls vc st irqn box_id =
     (if unat irqn \<ge> NVIC_VECTORS vc then Inl (Halt NOT_ALLOWED)
      else
        bind_res (arr_get (g_virq_states st) (unat irqn)) (\<lambda>irq.
        if vs_box_id irq \<noteq> UVISOR_BOX_ID_INVALID \<and> vs_box_id irq \<noteq> box_id then Inl (Halt PERMISSION_DENIED) else Inr ()))"

definition virq_acl_add_v8m :: "virq_config \<Rightarrow> u8 \<Rightarrow> u32 \<Rightarrow> virq_v8m_state \<Rightarrow> virq_v8m_state res" where
  "virq_acl_add_v8m vc box_id irqn st =
     bind_res (virq_check_acls vc st irqn box_id) (\<lambda>_.
     bind_res (arr_get (g_virq_states st) (unat irqn)) (\<lambda>irq.
     Inr (st\<lparr>g_virq_states := (g_virq_states st)[unat irqn := irq\<lparr>vs_box_id := box_id\<rparr>]\<rparr>)))"

section \<open>System exceptions\<close>

definition virq_disable_systick_ns :: "virq_v8m_state \<Rightarrow> virq_v8m_state" where
  "virq_disable_systick_ns = on_nvic (\<lambda>n. n\<lparr>SysTick_NS_CTRL := SysTick_NS_CTRL n AND NOT SysTick_CTRL_ENABLE_Msk\<rparr>)"

definition virq_enable_systick_ns :: "virq_v8m_state \<Rightarrow> virq_v8m_state" where
  "virq_enable_systick_ns = on_nvic (\<lambda>n. n\<lparr>SysTick_NS_CTRL := SysTick_NS_CTRL n OR SysTick_CTRL_ENABLE_Msk\<rparr>)"

definition virq_get_active_systick_ns :: "virq_v8m_state \<Rightarrow> bool" where
  "virq_get_active_systick_ns st \<longleftrightarrow> SHCSR_NS (NVIC_v8m st) AND SCB_SHCSR_SYSTICKACT_Msk \<noteq> 0"

definition set_shcsr :: "u32 \<Rightarrow> bool \<Rightarrow> virq_v8m_state \<Rightarrow> virq_v8m_state" where
  "set_shcsr msk on = on_nvic (\<lambda>n. n\<lparr>SHCSR_NS := (if on then SHCSR_NS n OR msk else SHCSR_NS n AND NOT msk)\<rparr>)"

definition virq_set_active_systick_ns :: "bool \<Rightarrow> virq_v8m_state \<Rightarrow> virq_v8m_state" where
  "virq_set_active_systick_ns activate = set_shcsr SCB_SHCSR_SYSTICKACT_Msk activate"

definition virq_copy_systick_ns :: "virq_config \<Rightarrow> u8 \<Rightarrow> virq_v8m_state \<Rightarrow> (bool \<times> virq_v8m_state) res" where
  "virq_copy_systick_ns vc box_id st =
     bind_res (arr_get (g_virq_system_exception_state st) (unat box_id)) (\<lambda>exc.
     let n = NVIC_v8m st;
         exc = exc\<lparr>systick_CTRL := SysTick_NS_CTRL n, systick_LOAD := SysTick_NS_LOAD n, systick_pending := ICSR_NS n AND SCB_ICSR_PENDSTSET_Msk \<noteq> 0,
           systick_active := SHCSR_NS n AND SCB_SHCSR_SYSTICKACT_Msk \<noteq> 0, systick_priority := ucast (TZ_NVIC_GetSystemPriority_NS vc SysTick_SHPR st)\<rparr> in
     Inr (systick_active exc, st\<lparr>g_virq_system_exception_state := (g_virq_system_exception_state st)[unat box_id := exc]\<rparr>))"

definition virq_load_systick_ns :: "virq_v8m_env \<Rightarrow> u8 \<Rightarrow> virq_v8m_state \<Rightarrow> virq_v8m_state res" where
  "virq_load_systick_ns env box_id st =
     bind_res (arr_get (g_virq_system_exception_state st) (unat box_id)) (\<lambda>exc.
     let st = on_nvic (\<lambda>n. n\<lparr>SysTick_NS_LOAD := systick_LOAD exc, SysTick_NS_VAL := 0, SysTick_NS_CTRL := systick_CTRL exc\<rparr>) st;
         st = on_nvic (\<lambda>n. n\<lparr>ICSR_NS := icsr_wr env (ICSR_NS n) (ICSR_NS n OR (if systick_pending exc then SCB_ICSR_PENDSTSET_Msk else SCB_ICSR_PENDSTCLR_Msk))\<rparr>) st;
         st = set_shcsr SCB_SHCSR_SYSTICKACT_Msk (systick_active exc) st in
     Inr (TZ_NVIC_SetSystemPriority_NS (v8e_virq env) SysTick_SHPR (ucast (systick_priority exc)) st))"

definition virq_copy_svcall_ns :: "virq_config \<Rightarrow> u8 \<Rightarrow> virq_v8m_state \<Rightarrow> (bool \<times> virq_v8m_state) res" where
  "virq_copy_svcall_ns vc box_id st =
     bind_res (arr_get (g_virq_system_exception_state st) (unat box_id)) (\<lambda>exc.
     let n = NVIC_v8m st;
         exc = exc\<lparr>svcall_pending := SHCSR_NS n AND SCB_SHCSR_SVCALLPENDED_Msk \<noteq> 0, svcall_active := SHCSR_NS n AND SCB_SHCSR_SVCALLACT_Msk \<noteq> 0,
           svcall_priority := ucast (TZ_NVIC_GetSystemPriority_NS vc SVCall_SHPR st)\<rparr> in
     Inr (svcall_active exc, st\<lparr>g_virq_system_exception_state := (g_virq_system_exception_state st)[unat box_id := exc]\<rparr>))"

definition virq_load_svcall_ns :: "virq_config \<Rightarrow> u8 \<Rightarrow> virq_v8m_state \<Rightarrow> virq_v8m_state res" where
  "virq_load_svcall_ns vc box_id st =
     bind_res (arr_get (g_virq_system_exception_state st) (unat box_id)) (\<lambda>exc.
     let st = set_shcsr SCB_SHCSR_SVCALLPENDED_Msk (svcall_pending exc) st;
         st = set_shcsr SCB_SHCSR_SVCALLACT_Msk (svcall_active exc) st in
     Inr (TZ_NVIC_SetSystemPriority_NS vc SVCall_SHPR (ucast (svcall_priority exc)) st))"

section \<open>Switching boxes\<close>

text \<open>One round of the loop over the interrupts; the flag says whether an interrupt of the source box is active.\<close>

definition hold_irq :: "virq_v8m_env \<Rightarrow> nat \<Rightarrow> bool \<Rightarrow> TVirqState \<Rightarrow> virq_v8m_state \<Rightarrow> (bool \<times> TVirqState \<times> virq_v8m_state) res" where
  "hold_irq env irqn in_irq irq st =
     (let irq = irq\<lparr>vs_enabled := TZ_NVIC_GetEnableIRQ_NS irqn st, vs_priority := ucast (TZ_NVIC_GetPriority_NS (v8e_virq env) irqn st)\<rparr>;
          in_irq = (in_irq \<or> TZ_NVIC_GetActive_NS irqn st);
          st = st\<lparr>g_virq_states := (g_virq_states st)[irqn := irq]\<rparr> in
      bind_res (assert_res (v8e_build env) (vs_priority irq < g_virq_min_priority st)) (\<lambda>_.
      let st = TZ_NVIC_SetPriority_NS (v8e_virq env) irqn (ucast (g_virq_min_priority st)) st;
          st = TZ_NVIC_DisableIRQ_NS irqn st;
          st = NVIC_ClearTargetState irqn st in
      Inr (in_irq, irq, st)))"

definition resume_irq :: "virq_config \<Rightarrow> nat \<Rightarrow> TVirqState \<Rightarrow> virq_v8m_state \<Rightarrow> virq_v8m_state" where
  "resume_irq vc irqn irq st =
     (let st = NVIC_SetTargetState irqn st;
          st = (if vs_enabled irq then TZ_NVIC_EnableIRQ_NS irqn st else st) in
      TZ_NVIC_SetPriority_NS vc irqn (ucast (vs_priority irq)) st)"

primrec virq_switch_loop :: "virq_v8m_env \<Rightarrow> u8 \<Rightarrow> u8 \<Rightarrow> nat list \<Rightarrow> bool \<Rightarrow> virq_v8m_state \<Rightarrow> (bool \<times> virq_v8m_state) res" where
  "virq_switch_loop env src dst [] in_irq st = Inr (in_irq, st)"
| "virq_switch_loop env src dst (irqn # irqns) in_irq st =
     bind_res (arr_get (g_virq_states st) irqn) (\<lambda>irq.
     bind_res (if vs_box_id irq = src then hold_irq env irqn in_irq irq st else Inr (in_irq, irq, st)) (\<lambda>(in_irq, irq, st).
     let st = (if vs_box_id irq = dst then resume_irq (v8e_virq env) irqn irq st else st) in
     virq_switch_loop env src dst irqns in_irq st))"

definition virq_switch :: "virq_v8m_env \<Rightarrow> u8 \<Rightarrow> u8 \<Rightarrow> virq_v8m_state \<Rightarrow> virq_v8m_state res" where
  "virq_switch env src dst st =
     bind_res (virq_switch_loop env src dst [0..<NVIC_VECTORS (v8e_virq env)] False st) (\<lambda>(in_irq, st).
     bind_res (virq_copy_systick_ns (v8e_virq env) src st) (\<lambda>(active, st).
     let in_irq = (in_irq \<or> active) in
     bind_res (virq_load_systick_ns env dst st) (\<lambda>st.
     bind_res (virq_copy_svcall_ns (v8e_virq env) src st) (\<lambda>(active, st).
     let in_irq = (in_irq \<or> active) in
     bind_res (virq_load_svcall_ns (v8e_virq env) dst st) (\<lambda>st.
     bind_res (arr_set (g_virq_box_in_active_irq st) (unat src) in_irq) (\<lambda>flags.
     Inr (st\<lparr>g_virq_box_in_active_irq := flags\<rparr>)))))))"

section \<open>Initialisation\<close>

definition virq_init_v8m :: "virq_v8m_env \<Rightarrow> virq_v8m_state \<Rightarrow> virq_v8m_state res" where
  "virq_init_v8m env st =
     (let prio_bits = of_nat (popcount8 (0xFF AND implemented_v8m (NVIC_v8m st)));
          st = st\<lparr>g_virq_prio_bits_v8m := prio_bits\<rparr> in
      bind_res (assert_res (v8e_build env) (prio_bits > 0 \<and> prio_bits \<le> 8)) (\<lambda>_.
      let st = st\<lparr>g_virq_min_priority := ucast (push_bit (unat prio_bits) 1 - 1 :: u32)\<rparr> in
      Inr (fold (\<lambda>irqn st. NVIC_ClearTargetState irqn (st\<lparr>g_virq_states := (g_virq_states st)[irqn := (g_virq_states st ! irqn)\<lparr>vs_box_id := UVISOR_BOX_ID_INVALID\<rparr>]\<rparr>))
        [0..<NVIC_VECTORS (v8e_virq env)] st)))"

text \<open>The functions that are not implemented on ARMv8-M.\<close>

definition unused_v8m_ignore :: "'s \<Rightarrow> 's res" where "unused_v8m_ignore st = Inr st"
definition unused_v8m_halt :: "'s \<Rightarrow> 'a res" where "unused_v8m_halt st = Inl (Halt NOT_IMPLEMENTED)"

section \<open>The switch of one interrupt\<close>

text \<open>What the port keeps of one interrupt, and its registers.\<close>

record irq_cell =
  cell_state :: TVirqState
  cell_enabled :: bool
  cell_active :: bool
  cell_prio :: u8
  cell_ns :: bool

definition cell :: "virq_v8m_state \<Rightarrow> nat \<Rightarrow> irq_cell" where
  "cell st i = \<lparr>cell_state = g_virq_states st ! i, cell_enabled = iser_v8m (NVIC_v8m st) i, cell_active = iabr_v8m (NVIC_v8m st) i, cell_prio = ipr_v8m (NVIC_v8m st) i,
     cell_ns = itns_v8m (NVIC_v8m st) i\<rparr>"

text \<open>Everything else.\<close>

definition outside :: "virq_v8m_state \<Rightarrow> virq_v8m_state" where
  "outside st = st\<lparr>g_virq_states := replicate (length (g_virq_states st)) \<lparr>vs_box_id = 0, vs_enabled = False, vs_priority = 0\<rparr>,
     NVIC_v8m := (NVIC_v8m st)\<lparr>iser_v8m := \<lambda>_. False, ipr_v8m := \<lambda>_. 0, itns_v8m := \<lambda>_. False, iabr_v8m := \<lambda>_. False\<rparr>\<rparr>"

definition held :: "virq_config \<Rightarrow> u8 \<Rightarrow> u8 \<Rightarrow> irq_cell \<Rightarrow> irq_cell" where
  "held vc low impl c = c\<lparr>cell_state := (cell_state c)\<lparr>vs_enabled := cell_ns c \<and> cell_enabled c,
       vs_priority := (if cell_ns c then ucast (drop_bit (8 - NVIC_PRIO_BITS vc) (ucast (cell_prio c) :: u32)) else 0)\<rparr>,
     cell_enabled := \<not> cell_ns c \<and> cell_enabled c, cell_prio := (if cell_ns c then priority_register vc (ucast low) AND impl else cell_prio c), cell_ns := False\<rparr>"

definition resumed :: "virq_config \<Rightarrow> u8 \<Rightarrow> irq_cell \<Rightarrow> irq_cell" where
  "resumed vc impl c = c\<lparr>cell_enabled := cell_enabled c \<or> vs_enabled (cell_state c), cell_prio := priority_register vc (ucast (vs_priority (cell_state c))) AND impl, cell_ns := True\<rparr>"

definition switched :: "virq_config \<Rightarrow> u8 \<Rightarrow> u8 \<Rightarrow> u8 \<Rightarrow> u8 \<Rightarrow> irq_cell \<Rightarrow> irq_cell" where
  "switched vc low impl src dst c =
     (let c = (if vs_box_id (cell_state c) = src then held vc low impl c else c) in
      if vs_box_id (cell_state c) = dst then resumed vc impl c else c)"

lemma hold_irq_cell:
  assumes "hold_irq env i b (g_virq_states st ! i) st = Inr (b', irq, st')" "i < length (g_virq_states st)"
  shows "cell st' i = held (v8e_virq env) (g_virq_min_priority st) (implemented_v8m (NVIC_v8m st)) (cell st i)" "irq = g_virq_states st' ! i"
    "j \<noteq> i \<Longrightarrow> cell st' j = cell st j" "outside st' = outside st"
    "b' \<longleftrightarrow> b \<or> cell_ns (cell st i) \<and> cell_active (cell st i)"
  using assms by (auto simp: hold_irq_def assert_res_def tz_nvic_defs cell_def held_def outside_def fun_eq_iff Let_def split: if_splits)

lemma resume_irq_cell:
  assumes "irq = g_virq_states st ! i"
  shows "cell (resume_irq vc i irq st) i = resumed vc (implemented_v8m (NVIC_v8m st)) (cell st i)"
    "j \<noteq> i \<Longrightarrow> cell (resume_irq vc i irq st) j = cell st j" "outside (resume_irq vc i irq st) = outside st"
  using assms by (auto simp: resume_irq_def tz_nvic_defs cell_def resumed_def outside_def fun_eq_iff Let_def)

lemma outside_parts:
  assumes "outside st' = outside st"
  shows "implemented_v8m (NVIC_v8m st') = implemented_v8m (NVIC_v8m st)" "g_virq_min_priority st' = g_virq_min_priority st" "length (g_virq_states st') = length (g_virq_states st)"
    "SHPR_NS (NVIC_v8m st') = SHPR_NS (NVIC_v8m st)" "SysTick_NS_CTRL (NVIC_v8m st') = SysTick_NS_CTRL (NVIC_v8m st)" "SysTick_NS_LOAD (NVIC_v8m st') = SysTick_NS_LOAD (NVIC_v8m st)"
    "ICSR_NS (NVIC_v8m st') = ICSR_NS (NVIC_v8m st)" "SHCSR_NS (NVIC_v8m st') = SHCSR_NS (NVIC_v8m st)"
    "g_virq_system_exception_state st' = g_virq_system_exception_state st" "g_virq_box_in_active_irq st' = g_virq_box_in_active_irq st"
proof -
  note eq = assms [unfolded outside_def]
  show "implemented_v8m (NVIC_v8m st') = implemented_v8m (NVIC_v8m st)" using arg_cong [OF eq, of "\<lambda>s. implemented_v8m (NVIC_v8m s)"] by simp
  show "g_virq_min_priority st' = g_virq_min_priority st" using arg_cong [OF eq, of g_virq_min_priority] by simp
  show "length (g_virq_states st') = length (g_virq_states st)" using arg_cong [OF eq, of "\<lambda>s. length (g_virq_states s)"] by simp
  show "SHPR_NS (NVIC_v8m st') = SHPR_NS (NVIC_v8m st)" using arg_cong [OF eq, of "\<lambda>s. SHPR_NS (NVIC_v8m s)"] by simp
  show "SysTick_NS_CTRL (NVIC_v8m st') = SysTick_NS_CTRL (NVIC_v8m st)" using arg_cong [OF eq, of "\<lambda>s. SysTick_NS_CTRL (NVIC_v8m s)"] by simp
  show "SysTick_NS_LOAD (NVIC_v8m st') = SysTick_NS_LOAD (NVIC_v8m st)" using arg_cong [OF eq, of "\<lambda>s. SysTick_NS_LOAD (NVIC_v8m s)"] by simp
  show "ICSR_NS (NVIC_v8m st') = ICSR_NS (NVIC_v8m st)" using arg_cong [OF eq, of "\<lambda>s. ICSR_NS (NVIC_v8m s)"] by simp
  show "SHCSR_NS (NVIC_v8m st') = SHCSR_NS (NVIC_v8m st)" using arg_cong [OF eq, of "\<lambda>s. SHCSR_NS (NVIC_v8m s)"] by simp
  show "g_virq_system_exception_state st' = g_virq_system_exception_state st" using arg_cong [OF eq, of g_virq_system_exception_state] by simp
  show "g_virq_box_in_active_irq st' = g_virq_box_in_active_irq st" using arg_cong [OF eq, of g_virq_box_in_active_irq] by simp
qed

lemma virq_switch_loop_cells:
  assumes "virq_switch_loop env src dst irqns b st = Inr (b', st')" "distinct irqns"
  shows "(\<forall>i \<in> set irqns. cell st' i = switched (v8e_virq env) (g_virq_min_priority st) (implemented_v8m (NVIC_v8m st)) src dst (cell st i)) \<and>
    (\<forall>i. i \<notin> set irqns \<longrightarrow> cell st' i = cell st i) \<and> outside st' = outside st"
  using assms
proof (induction irqns arbitrary: b st)
  case (Cons k irqns)
  obtain irq where irq: "irq = g_virq_states st ! k" "k < length (g_virq_states st)" using Cons.prems(1) by (auto simp: res_simps)
  obtain b1 irq1 st1 where hold: "(if vs_box_id irq = src then hold_irq env k b irq st else Inr (b, irq, st)) = Inr (b1, irq1, st1)"
    and rest: "virq_switch_loop env src dst irqns b1 (if vs_box_id irq1 = dst then resume_irq (v8e_virq env) k irq1 st1 else st1) = Inr (b', st')"
    using Cons.prems(1) irq by (auto simp: res_simps Let_def)
  let ?st2 = "if vs_box_id irq1 = dst then resume_irq (v8e_virq env) k irq1 st1 else st1"
  have first: "cell st1 k = (if vs_box_id irq = src then held (v8e_virq env) (g_virq_min_priority st) (implemented_v8m (NVIC_v8m st)) (cell st k) else cell st k)"
    "irq1 = g_virq_states st1 ! k" "\<And>j. j \<noteq> k \<Longrightarrow> cell st1 j = cell st j" "outside st1 = outside st"
    using hold irq hold_irq_cell [of env k b st b1 irq1 st1] by (auto split: if_splits)
  have second: "cell ?st2 k = (if vs_box_id irq1 = dst then resumed (v8e_virq env) (implemented_v8m (NVIC_v8m st1)) (cell st1 k) else cell st1 k)"
    "\<And>j. j \<noteq> k \<Longrightarrow> cell ?st2 j = cell st1 j" "outside ?st2 = outside st1"
    using resume_irq_cell [OF first(2)] by auto
  have "vs_box_id irq = vs_box_id (cell_state (cell st k))" "vs_box_id irq1 = vs_box_id (cell_state (cell st1 k))" using irq(1) first(2) by (simp_all add: cell_def)
  then have here: "cell ?st2 k = switched (v8e_virq env) (g_virq_min_priority st) (implemented_v8m (NVIC_v8m st)) src dst (cell st k)"
    using second(1) first(1) outside_parts(1) [OF first(4)] by (simp add: switched_def)
  have same: "outside ?st2 = outside st" using second(3) first(4) by simp
  have others: "cell ?st2 i = cell st i" if "i \<noteq> k" for i using second(2) first(3) that by simp
  have IH: "(\<forall>i \<in> set irqns. cell st' i = switched (v8e_virq env) (g_virq_min_priority st) (implemented_v8m (NVIC_v8m st)) src dst (cell ?st2 i)) \<and>
      (\<forall>i. i \<notin> set irqns \<longrightarrow> cell st' i = cell ?st2 i) \<and> outside st' = outside st"
    using Cons.IH [OF rest] Cons.prems(2) outside_parts(1,2) [OF same] same by simp
  have "cell st' i = switched (v8e_virq env) (g_virq_min_priority st) (implemented_v8m (NVIC_v8m st)) src dst (cell st i)" if "i \<in> set (k # irqns)" for i
  proof (cases "i = k")
    case True
    then show ?thesis using IH here Cons.prems(2) by (metis distinct.simps(2))
  next
    case False
    then show ?thesis using IH others that by (metis set_ConsD)
  qed
  then show ?case using IH others by auto
qed simp

section \<open>System exceptions\<close>

definition prio_saved :: "virq_config \<Rightarrow> u8 \<Rightarrow> u8" where
  "prio_saved vc p = ucast (drop_bit (8 - NVIC_PRIO_BITS vc) (ucast p :: u32))"

definition prio_ok :: "virq_config \<Rightarrow> u8 \<Rightarrow> u8 \<Rightarrow> bool" where
  "prio_ok vc impl p \<longleftrightarrow> NVIC_PRIO_BITS vc \<le> 8 \<and> p AND impl = p \<and> p AND mask (8 - NVIC_PRIO_BITS vc) = 0"

lemma prio_roundtrip:
  assumes "prio_ok vc impl p"
  shows "priority_register vc (ucast (prio_saved vc p)) AND impl = p"
proof -
  have low: "\<not> bit p n" if "n < 8 - NVIC_PRIO_BITS vc" for n
  proof -
    have "\<not> bit (p AND mask (8 - NVIC_PRIO_BITS vc)) n" using assms by (simp add: prio_ok_def)
    then show ?thesis using that by (auto simp: bit_simps)
  qed
  have ff: "(0xFF :: u32) = mask 8" by (simp add: mask_eq_exp_minus_1)
  have idx: "bit p n \<Longrightarrow> 8 - NVIC_PRIO_BITS vc + (n - (8 - NVIC_PRIO_BITS vc)) = n \<and> 8 - NVIC_PRIO_BITS vc \<le> n" for n
    using low [of n] by (cases "n < 8 - NVIC_PRIO_BITS vc") auto
  have "priority_register vc (ucast (prio_saved vc p)) = p"
    unfolding priority_register_def prio_saved_def ff using idx by (intro bit_word_eqI) (auto simp: bit_simps)
  then show ?thesis using assms by (simp add: prio_ok_def)
qed

text \<open>The registers of the system exceptions that are saved and loaded, apart from the pending bit of SysTick.\<close>

definition system_regs :: "virq_v8m_state \<Rightarrow> u32 \<times> u32 \<times> bool \<times> bool \<times> bool \<times> u8 \<times> u8" where
  "system_regs st = (let n = NVIC_v8m st in (SysTick_NS_CTRL n, SysTick_NS_LOAD n, bit (SHCSR_NS n) 11, bit (SHCSR_NS n) 7, bit (SHCSR_NS n) 15, SHPR_NS n 11, SHPR_NS n 7))"

definition exc_regs :: "virq_config \<Rightarrow> u8 \<Rightarrow> virq_system_exception \<Rightarrow> u32 \<times> u32 \<times> bool \<times> bool \<times> bool \<times> u8 \<times> u8" where
  "exc_regs vc impl e = (systick_CTRL e, systick_LOAD e, systick_active e, svcall_active e, svcall_pending e,
     priority_register vc (ucast (systick_priority e)) AND impl, priority_register vc (ucast (svcall_priority e)) AND impl)"

lemma flag_bit: "(w AND push_bit k 1 \<noteq> 0) = bit w k" for w :: u32
  by (metis bit_iff_and_push_bit_not_eq_0)

text \<open>What is saved of the registers.\<close>

definition saved_exc :: "virq_config \<Rightarrow> virq_v8m_state \<Rightarrow> virq_system_exception" where
  "saved_exc vc st = (let n = NVIC_v8m st in \<lparr>systick_CTRL = SysTick_NS_CTRL n, systick_LOAD = SysTick_NS_LOAD n, systick_pending = bit (ICSR_NS n) 26,
     systick_active = bit (SHCSR_NS n) 11, systick_priority = prio_saved vc (SHPR_NS n 11), svcall_active = bit (SHCSR_NS n) 7, svcall_pending = bit (SHCSR_NS n) 15,
     svcall_priority = prio_saved vc (SHPR_NS n 7)\<rparr>)"

lemma shcsr_bits:
  "bit (if on then w OR push_bit k 1 else w AND NOT (push_bit k 1)) i = (if i = k then on else bit w i)" if "k < 32" "i < 32" for w :: u32
  using that by (auto simp: bit_simps)

lemma exc_eqI:
  assumes "systick_CTRL e = systick_CTRL e'" "systick_LOAD e = systick_LOAD e'" "systick_pending e = systick_pending e'" "systick_active e = systick_active e'"
    "systick_priority e = systick_priority e'" "svcall_active e = svcall_active e'" "svcall_pending e = svcall_pending e'" "svcall_priority e = svcall_priority e'"
  shows "e = (e' :: virq_system_exception)"
  using assms by (cases e, cases e') simp

text \<open>The four steps, as updates of the state.\<close>

lemma copy_systick_iff:
  "virq_copy_systick_ns vc b st = Inr (a, st') \<longleftrightarrow> unat b < length (g_virq_system_exception_state st) \<and> a = bit (SHCSR_NS (NVIC_v8m st)) 11 \<and>
    st' = st\<lparr>g_virq_system_exception_state := (g_virq_system_exception_state st)[unat b := (g_virq_system_exception_state st ! unat b)\<lparr>systick_CTRL := SysTick_NS_CTRL (NVIC_v8m st),
      systick_LOAD := SysTick_NS_LOAD (NVIC_v8m st), systick_pending := bit (ICSR_NS (NVIC_v8m st)) 26, systick_active := bit (SHCSR_NS (NVIC_v8m st)) 11,
      systick_priority := prio_saved vc (SHPR_NS (NVIC_v8m st) 11)\<rparr>]\<rparr>"
  by (auto simp: virq_copy_systick_ns_def Let_def res_simps scb_masks flag_bit SysTick_SHPR_def TZ_NVIC_GetSystemPriority_NS_def prio_saved_def simp del: push_bit_of_1)

lemma copy_svcall_iff:
  "virq_copy_svcall_ns vc b st = Inr (a, st') \<longleftrightarrow> unat b < length (g_virq_system_exception_state st) \<and> a = bit (SHCSR_NS (NVIC_v8m st)) 7 \<and>
    st' = st\<lparr>g_virq_system_exception_state := (g_virq_system_exception_state st)[unat b := (g_virq_system_exception_state st ! unat b)\<lparr>
      svcall_pending := bit (SHCSR_NS (NVIC_v8m st)) 15, svcall_active := bit (SHCSR_NS (NVIC_v8m st)) 7, svcall_priority := prio_saved vc (SHPR_NS (NVIC_v8m st) 7)\<rparr>]\<rparr>"
  by (auto simp: virq_copy_svcall_ns_def Let_def res_simps scb_masks flag_bit SVCall_SHPR_def TZ_NVIC_GetSystemPriority_NS_def prio_saved_def simp del: push_bit_of_1)

lemma load_iffs:
  "virq_load_systick_ns env b st = Inr st' \<longleftrightarrow> unat b < length (g_virq_system_exception_state st) \<and> (\<exists>n e. n = NVIC_v8m st \<and> e = g_virq_system_exception_state st ! unat b \<and>
    st' = st\<lparr>NVIC_v8m := n\<lparr>SysTick_NS_LOAD := systick_LOAD e, SysTick_NS_VAL := 0, SysTick_NS_CTRL := systick_CTRL e,
      ICSR_NS := icsr_wr env (ICSR_NS n) (ICSR_NS n OR (if systick_pending e then SCB_ICSR_PENDSTSET_Msk else SCB_ICSR_PENDSTCLR_Msk)),
      SHCSR_NS := (if systick_active e then SHCSR_NS n OR push_bit 11 1 else SHCSR_NS n AND NOT (push_bit 11 1)),
      SHPR_NS := (SHPR_NS n)(11 := priority_register (v8e_virq env) (ucast (systick_priority e)) AND implemented_v8m n)\<rparr>\<rparr>)"
  "virq_load_svcall_ns vc b st = Inr st' \<longleftrightarrow> unat b < length (g_virq_system_exception_state st) \<and> (\<exists>n e w. n = NVIC_v8m st \<and> e = g_virq_system_exception_state st ! unat b \<and>
    w = (if svcall_pending e then SHCSR_NS n OR push_bit 15 1 else SHCSR_NS n AND NOT (push_bit 15 1)) \<and>
    st' = st\<lparr>NVIC_v8m := n\<lparr>SHCSR_NS := (if svcall_active e then w OR push_bit 7 1 else w AND NOT (push_bit 7 1)),
      SHPR_NS := (SHPR_NS n)(7 := priority_register vc (ucast (svcall_priority e)) AND implemented_v8m n)\<rparr>\<rparr>)"
  by (auto simp: virq_load_systick_ns_def virq_load_svcall_ns_def Let_def res_simps scb_masks set_shcsr_def on_nvic_def TZ_NVIC_SetSystemPriority_NS_def SysTick_SHPR_def SVCall_SHPR_def
      simp del: push_bit_of_1)

lemma virq_switch_parts:
  fixes env st
  defines "vc \<equiv> v8e_virq env" and "impl \<equiv> implemented_v8m (NVIC_v8m st)"
  assumes run: "virq_switch env src dst st = Inr st'" and ne: "src \<noteq> dst"
  shows "i < NVIC_VECTORS vc \<Longrightarrow> cell st' i = switched vc (g_virq_min_priority st) impl src dst (cell st i)"
    "g_virq_system_exception_state st' = (g_virq_system_exception_state st)[unat src := saved_exc vc st]"
    "unat src < length (g_virq_system_exception_state st)"
    "system_regs st' = exc_regs vc impl (g_virq_system_exception_state st ! unat dst)"
    "ICSR_NS (NVIC_v8m st') = icsr_wr env (ICSR_NS (NVIC_v8m st)) (ICSR_NS (NVIC_v8m st) OR
       (if systick_pending (g_virq_system_exception_state st ! unat dst) then SCB_ICSR_PENDSTSET_Msk else SCB_ICSR_PENDSTCLR_Msk))"
    "implemented_v8m (NVIC_v8m st') = impl" "g_virq_min_priority st' = g_virq_min_priority st"
proof -
  obtain b st1 where loop: "virq_switch_loop env src dst [0..<NVIC_VECTORS vc] False st = Inr (b, st1)"
    and rest: "bind_res (virq_copy_systick_ns vc src st1) (\<lambda>(active, st). bind_res (virq_load_systick_ns env dst st) (\<lambda>st.
      bind_res (virq_copy_svcall_ns vc src st) (\<lambda>(active', st). bind_res (virq_load_svcall_ns vc dst st) (\<lambda>st.
      bind_res (arr_set (g_virq_box_in_active_irq st) (unat src) (b \<or> active \<or> active')) (\<lambda>flags. Inr (st\<lparr>g_virq_box_in_active_irq := flags\<rparr>)))))) = Inr st'"
    using run unfolding virq_switch_def vc_def by (auto simp: bind_res_Inr_iff [of "virq_switch_loop _ _ _ _ _ _"] Let_def disj_assoc)
  note cells = virq_switch_loop_cells [OF loop distinct_upt, folded vc_def impl_def]
  note out = outside_parts [OF conjunct2 [OF conjunct2 [OF cells]]]
  have dst: "unat dst \<noteq> unat src" using ne by (simp add: word_unat_eq_iff)
  obtain a a' st2 st3 st4 st5 where steps: "virq_copy_systick_ns vc src st1 = Inr (a, st2)" "virq_load_systick_ns env dst st2 = Inr st3"
    "virq_copy_svcall_ns vc src st3 = Inr (a', st4)" "virq_load_svcall_ns vc dst st4 = Inr st5"
    "st' = st5\<lparr>g_virq_box_in_active_irq := (g_virq_box_in_active_irq st5)[unat src := b \<or> a \<or> a']\<rparr>"
    using rest unfolding bind_res_Inr_iff split_paired_Ex prod.case arr_set_Inr by blast
  let ?e = "g_virq_system_exception_state st"
  note st2 = steps(1) [unfolded copy_systick_iff out]
  obtain st3: "st3 = st2\<lparr>NVIC_v8m := NVIC_v8m st3\<rparr>" and regs3: "SysTick_NS_LOAD (NVIC_v8m st3) = systick_LOAD (?e ! unat dst)" "SysTick_NS_CTRL (NVIC_v8m st3) = systick_CTRL (?e ! unat dst)"
    "ICSR_NS (NVIC_v8m st3) = icsr_wr env (ICSR_NS (NVIC_v8m st)) (ICSR_NS (NVIC_v8m st) OR (if systick_pending (?e ! unat dst) then SCB_ICSR_PENDSTSET_Msk else SCB_ICSR_PENDSTCLR_Msk))"
    "SHCSR_NS (NVIC_v8m st3) = (if systick_active (?e ! unat dst) then SHCSR_NS (NVIC_v8m st) OR push_bit 11 1 else SHCSR_NS (NVIC_v8m st) AND NOT (push_bit 11 1))"
    "SHPR_NS (NVIC_v8m st3) = (SHPR_NS (NVIC_v8m st))(11 := priority_register vc (ucast (systick_priority (?e ! unat dst))) AND impl)"
    "implemented_v8m (NVIC_v8m st3) = impl" "\<And>j. cell st3 j = cell st1 j"
    using steps(2) st2 dst out by (auto simp: load_iffs cell_def vc_def impl_def simp del: push_bit_of_1)
  note st4 = steps(3) [unfolded copy_svcall_iff]
  have exc3: "g_virq_system_exception_state st3 = g_virq_system_exception_state st2" "g_virq_min_priority st3 = g_virq_min_priority st2" by (subst st3, simp)+
  have saved: "g_virq_system_exception_state st4 = ?e[unat src := saved_exc vc st]"
    using st2 st4 exc3 regs3(4,5) by (auto simp: saved_exc_def Let_def shcsr_bits intro!: arg_cong [where f = "list_update _ _"] exc_eqI simp del: push_bit_of_1)
  have nvic4: "NVIC_v8m st4 = NVIC_v8m st3" "g_virq_states st4 = g_virq_states st3" "g_virq_min_priority st4 = g_virq_min_priority st" using st4 exc3 st2 out by auto
  have dst4: "g_virq_system_exception_state st4 ! unat dst = ?e ! unat dst" using saved dst by simp
  obtain st5: "st5 = st4\<lparr>NVIC_v8m := NVIC_v8m st5\<rparr>" and regs5: "SysTick_NS_LOAD (NVIC_v8m st5) = SysTick_NS_LOAD (NVIC_v8m st3)" "SysTick_NS_CTRL (NVIC_v8m st5) = SysTick_NS_CTRL (NVIC_v8m st3)"
    "ICSR_NS (NVIC_v8m st5) = ICSR_NS (NVIC_v8m st3)" "implemented_v8m (NVIC_v8m st5) = impl" "\<And>j. cell st5 j = cell st3 j"
    "\<And>i. i < 32 \<Longrightarrow> bit (SHCSR_NS (NVIC_v8m st5)) i = (if i = 7 then svcall_active (?e ! unat dst) else if i = 15 then svcall_pending (?e ! unat dst) else bit (SHCSR_NS (NVIC_v8m st3)) i)"
    "SHPR_NS (NVIC_v8m st5) = (SHPR_NS (NVIC_v8m st3))(7 := priority_register vc (ucast (svcall_priority (?e ! unat dst))) AND impl)"
    using steps(4) dst4 nvic4 regs3(6) by (auto simp: load_iffs cell_def shcsr_bits simp del: push_bit_of_1)
  have nvic': "NVIC_v8m st' = NVIC_v8m st5" "g_virq_states st' = g_virq_states st5" using steps(5) by simp_all
  have "cell st' j = cell st1 j" for j using regs3(7) [of j] regs5(5) [of j] nvic' by (simp add: cell_def)
  then show "cell st' i = switched vc (g_virq_min_priority st) impl src dst (cell st i)" if "i < NVIC_VECTORS vc" using cells that by simp
  show "unat src < length ?e" using st2 by simp
  have "g_virq_system_exception_state st5 = g_virq_system_exception_state st4" "g_virq_min_priority st5 = g_virq_min_priority st4" by (subst st5, simp)+
  then show "g_virq_system_exception_state st' = ?e[unat src := saved_exc vc st]" "g_virq_min_priority st' = g_virq_min_priority st" using saved nvic4(3) steps(5) by simp_all
  show "implemented_v8m (NVIC_v8m st') = impl" using nvic' regs5(4) by simp
  show "ICSR_NS (NVIC_v8m st') = icsr_wr env (ICSR_NS (NVIC_v8m st)) (ICSR_NS (NVIC_v8m st) OR
       (if systick_pending (?e ! unat dst) then SCB_ICSR_PENDSTSET_Msk else SCB_ICSR_PENDSTCLR_Msk))" using nvic' regs5(3) regs3(3) by simp
  show "system_regs st' = exc_regs vc impl (?e ! unat dst)"
    using regs3 regs5 by (simp add: system_regs_def exc_regs_def Let_def nvic' shcsr_bits del: push_bit_of_1)
qed

text \<open>In a release build a switch always succeeds; the assertion on the priority can only fail in a debug build.\<close>

lemma virq_switch_loop_total:
  assumes "\<not> debug (v8e_build env)" "\<forall>i \<in> set irqns. i < length (g_virq_states st)"
  shows "\<exists>b' st'. virq_switch_loop env src dst irqns b st = Inr (b', st')"
  using assms(2)
proof (induction irqns arbitrary: b st)
  case (Cons k irqns)
  let ?irq = "g_virq_states st ! k"
  obtain b1 irq1 st1 where hold: "(if vs_box_id ?irq = src then hold_irq env k b ?irq st else Inr (b, ?irq, st)) = Inr (b1, irq1, st1)"
  proof (cases "vs_box_id ?irq = src")
    case True
    have "\<exists>b1 irq1 st1. hold_irq env k b ?irq st = Inr (b1, irq1, st1)" using assms(1) by (simp add: hold_irq_def assert_res_def Let_def)
    then show ?thesis using True that by auto
  qed (use that in simp)
  then have "outside st1 = outside st" "irq1 = g_virq_states st1 ! k"
    using hold_irq_cell [of env k b st b1 irq1 st1] Cons.prems by (auto split: if_splits)
  then have "outside (if vs_box_id irq1 = dst then resume_irq (v8e_virq env) k irq1 st1 else st1) = outside st" using resume_irq_cell(3) by simp
  then have len: "length (g_virq_states (if vs_box_id irq1 = dst then resume_irq (v8e_virq env) k irq1 st1 else st1)) = length (g_virq_states st)" by (rule outside_parts(3))
  have "\<forall>i \<in> set irqns. i < length (g_virq_states (if vs_box_id irq1 = dst then resume_irq (v8e_virq env) k irq1 st1 else st1))" unfolding len using Cons.prems by simp
  then obtain b' st' where "virq_switch_loop env src dst irqns b1 (if vs_box_id irq1 = dst then resume_irq (v8e_virq env) k irq1 st1 else st1) = Inr (b', st')"
    using Cons.IH by blast
  moreover have "k < length (g_virq_states st)" using Cons.prems by simp
  ultimately have "virq_switch_loop env src dst (k # irqns) b st = Inr (b', st')"
    unfolding virq_switch_loop.simps arr_get_in [OF \<open>k < length (g_virq_states st)\<close>] bind_res.simps hold Let_def prod.case by blast
  then show ?case by blast
qed simp

lemma virq_switch_total:
  assumes "\<not> debug (v8e_build env)" "NVIC_VECTORS (v8e_virq env) \<le> length (g_virq_states st)" "unat src < length (g_virq_system_exception_state st)"
    "unat dst < length (g_virq_system_exception_state st)" "unat src < length (g_virq_box_in_active_irq st)"
  shows "\<exists>st'. virq_switch env src dst st = Inr st'"
proof -
  obtain b st1 where loop: "virq_switch_loop env src dst [0..<NVIC_VECTORS (v8e_virq env)] False st = Inr (b, st1)"
    using virq_switch_loop_total [OF assms(1), of "[0..<NVIC_VECTORS (v8e_virq env)]" st src dst False] assms(2) by auto
  note out = outside_parts [OF conjunct2 [OF conjunct2 [OF virq_switch_loop_cells [OF loop distinct_upt]]]]
  have exc: "g_virq_system_exception_state st1 = g_virq_system_exception_state st" "g_virq_box_in_active_irq st1 = g_virq_box_in_active_irq st" using out by simp_all
  obtain a st2 where st2: "virq_copy_systick_ns (v8e_virq env) src st1 = Inr (a, st2)" "length (g_virq_system_exception_state st2) = length (g_virq_system_exception_state st)"
    "g_virq_box_in_active_irq st2 = g_virq_box_in_active_irq st"
    using assms(3) exc by (simp add: copy_systick_iff)
  obtain st3 where st3: "virq_load_systick_ns env dst st2 = Inr st3" "length (g_virq_system_exception_state st3) = length (g_virq_system_exception_state st)"
    "g_virq_box_in_active_irq st3 = g_virq_box_in_active_irq st"
    using assms(4) st2(2,3) by (simp add: load_iffs)
  obtain a' st4 where st4: "virq_copy_svcall_ns (v8e_virq env) src st3 = Inr (a', st4)" "length (g_virq_system_exception_state st4) = length (g_virq_system_exception_state st)"
    "g_virq_box_in_active_irq st4 = g_virq_box_in_active_irq st"
    using assms(3) st3(2,3) by (simp add: copy_svcall_iff)
  obtain st5 where st5: "virq_load_svcall_ns (v8e_virq env) dst st4 = Inr st5" "g_virq_box_in_active_irq st5 = g_virq_box_in_active_irq st"
    using assms(4) st4(2,3) by (simp add: load_iffs)
  note steps = st2(1) st3(1) st4(1) st5
  then show ?thesis using loop assms(5) steps by (simp add: virq_switch_def Let_def)
qed

lemma virq_switch_lengths:
  assumes "virq_switch env src dst st = Inr st'"
  shows "length (g_virq_states st') = length (g_virq_states st)" "length (g_virq_system_exception_state st') = length (g_virq_system_exception_state st)"
    "length (g_virq_box_in_active_irq st') = length (g_virq_box_in_active_irq st)"
proof -
  obtain b st1 a a' st2 st3 st4 st5 where steps: "virq_switch_loop env src dst [0..<NVIC_VECTORS (v8e_virq env)] False st = Inr (b, st1)"
    "virq_copy_systick_ns (v8e_virq env) src st1 = Inr (a, st2)" "virq_load_systick_ns env dst st2 = Inr st3"
    "virq_copy_svcall_ns (v8e_virq env) src st3 = Inr (a', st4)" "virq_load_svcall_ns (v8e_virq env) dst st4 = Inr st5"
    "st' = st5\<lparr>g_virq_box_in_active_irq := (g_virq_box_in_active_irq st5)[unat src := (b \<or> a) \<or> a']\<rparr>"
    using assms unfolding virq_switch_def Let_def bind_res_Inr_iff split_paired_Ex prod.case arr_set_Inr by blast
  note out = outside_parts [OF conjunct2 [OF conjunct2 [OF virq_switch_loop_cells [OF steps(1) distinct_upt]]]]
  show "length (g_virq_states st') = length (g_virq_states st)" "length (g_virq_system_exception_state st') = length (g_virq_system_exception_state st)"
    "length (g_virq_box_in_active_irq st') = length (g_virq_box_in_active_irq st)"
    using steps(2-6) out(3,9,10) by (auto simp: copy_systick_iff copy_svcall_iff load_iffs)
qed

text \<open>
  The interrupts of a box: exactly its interrupts target the non-secure state, and no other one is enabled.
\<close>

definition irqs_of :: "virq_config \<Rightarrow> virq_v8m_state \<Rightarrow> u8 \<Rightarrow> bool" where
  "irqs_of vc st b \<longleftrightarrow> (\<forall>i < NVIC_VECTORS vc. (itns_v8m (NVIC_v8m st) i \<longleftrightarrow> vs_box_id (g_virq_states st ! i) = b) \<and>
     (iser_v8m (NVIC_v8m st) i \<longrightarrow> vs_box_id (g_virq_states st ! i) = b))"

lemma cell_simps [simp]:
  "cell_state (cell st i) = g_virq_states st ! i" "cell_enabled (cell st i) = iser_v8m (NVIC_v8m st) i" "cell_prio (cell st i) = ipr_v8m (NVIC_v8m st) i"
  "cell_ns (cell st i) = itns_v8m (NVIC_v8m st) i"
  by (simp_all add: cell_def)

text \<open>
  Interrupts of boxes that do not run cannot reach the box that runs. After a switch on ARMv8-M exactly the interrupts of the new box target the non-secure state, and no
  interrupt of another box is enabled; no interrupt changes its owner.
\<close>

theorem virq_switch_isolates:
  assumes run: "virq_switch env src dst st = Inr st'" and ne: "src \<noteq> dst" and before: "irqs_of (v8e_virq env) st src"
  shows "irqs_of (v8e_virq env) st' dst \<and> (\<forall>i < NVIC_VECTORS (v8e_virq env). vs_box_id (g_virq_states st' ! i) = vs_box_id (g_virq_states st ! i))"
proof -
  have "(itns_v8m (NVIC_v8m st') i \<longleftrightarrow> vs_box_id (g_virq_states st' ! i) = dst) \<and> (iser_v8m (NVIC_v8m st') i \<longrightarrow> vs_box_id (g_virq_states st' ! i) = dst) \<and>
      vs_box_id (g_virq_states st' ! i) = vs_box_id (g_virq_states st ! i)" if "i < NVIC_VECTORS (v8e_virq env)" for i
  proof -
    note c = virq_switch_parts(1) [OF run ne that]
    have b: "itns_v8m (NVIC_v8m st) i \<longleftrightarrow> vs_box_id (g_virq_states st ! i) = src" "iser_v8m (NVIC_v8m st) i \<longrightarrow> vs_box_id (g_virq_states st ! i) = src"
      using before that by (simp_all add: irqs_of_def)
    show ?thesis
      using arg_cong [OF c, of cell_state] arg_cong [OF c, of cell_ns] arg_cong [OF c, of cell_enabled] b ne by (auto simp: switched_def held_def resumed_def Let_def)
  qed
  then show ?thesis by (simp add: irqs_of_def)
qed

section \<open>Switching away and back\<close>

text \<open>
  The documented behaviour of \<open>ICSR\<close>: the bit 25 (\<open>PENDSTCLR\<close>) reads as zero; writing only bit 26 (\<open>PENDSTSET\<close>) makes SysTick pending, writing only bit 25
  removes the pending state, and writing neither leaves it. Writing both is not specified.
\<close>

definition icsr_documented :: "(u32 \<Rightarrow> u32 \<Rightarrow> u32) \<Rightarrow> bool" where
  "icsr_documented wr \<longleftrightarrow> (\<forall>old w. \<not> bit (wr old w) 25 \<and> (bit w 26 \<and> \<not> bit w 25 \<longrightarrow> bit (wr old w) 26) \<and> (\<not> bit w 26 \<and> bit w 25 \<longrightarrow> \<not> bit (wr old w) 26) \<and>
     (\<not> bit w 26 \<and> \<not> bit w 25 \<longrightarrow> bit (wr old w) 26 = bit old 26))"

text \<open>What the box that runs in between cannot change: the interrupts of the other box, which target the secure state, and what uVisor has saved.\<close>

definition kept_for :: "virq_config \<Rightarrow> u8 \<Rightarrow> virq_v8m_state \<Rightarrow> virq_v8m_state \<Rightarrow> bool" where
  "kept_for vc b st st' \<longleftrightarrow> (\<forall>i < NVIC_VECTORS vc. vs_box_id (g_virq_states st ! i) = b \<longrightarrow> cell st' i = cell st i) \<and>
     g_virq_system_exception_state st' ! unat b = g_virq_system_exception_state st ! unat b \<and> implemented_v8m (NVIC_v8m st') = implemented_v8m (NVIC_v8m st)"

lemma switched_roundtrip:
  assumes "vs_box_id (cell_state c) = src" "src \<noteq> dst" "cell_ns c" "prio_ok vc impl (cell_prio c)"
  shows "let c' = switched vc low' impl dst src (switched vc low impl src dst c) in cell_enabled c' = cell_enabled c \<and> cell_prio c' = cell_prio c \<and> cell_ns c'"
proof -
  have "priority_register vc (ucast (prio_saved vc (cell_prio c))) AND impl = cell_prio c" by (rule prio_roundtrip [OF assms(4)])
  then show ?thesis using assms by (simp add: switched_def held_def resumed_def prio_saved_def Let_def)
qed

text \<open>
  C22: A box that was switched out on ARMv8-M gets its interrupts back as they were. Whatever the other box does in between, after switching back the interrupts of the box target
  the non-secure state again with the same enabled bit and the same priority, and its SysTick timer and SVCall exception have the same configuration, active and pending state and priority. SysTick
  is pending as it was, unless only the other box's SysTick was pending at the time of the switch.
\<close>

theorem virq_switch_roundtrip:
  fixes env st
  defines "vc \<equiv> v8e_virq env" and "impl \<equiv> implemented_v8m (NVIC_v8m st)"
  assumes out: "virq_switch env src dst st = Inr st1" and return: "virq_switch env dst src st2 = Inr st3" and ne: "src \<noteq> dst"
    and kept: "kept_for vc src st1 st2" and before: "irqs_of vc st src"
    and prio: "\<forall>i < NVIC_VECTORS vc. prio_ok vc impl (ipr_v8m (NVIC_v8m st) i)" "prio_ok vc impl (SHPR_NS (NVIC_v8m st) 11)" "prio_ok vc impl (SHPR_NS (NVIC_v8m st) 7)"
    and icsr: "icsr_documented (icsr_wr env)" "\<not> bit (ICSR_NS (NVIC_v8m st2)) 25"
  shows "(\<forall>i < NVIC_VECTORS vc. vs_box_id (g_virq_states st ! i) = src \<longrightarrow> itns_v8m (NVIC_v8m st3) i \<and>
      iser_v8m (NVIC_v8m st3) i = iser_v8m (NVIC_v8m st) i \<and> ipr_v8m (NVIC_v8m st3) i = ipr_v8m (NVIC_v8m st) i) \<and>
    system_regs st3 = system_regs st \<and>
    (bit (ICSR_NS (NVIC_v8m st)) 26 \<or> \<not> bit (ICSR_NS (NVIC_v8m st2)) 26 \<longrightarrow> bit (ICSR_NS (NVIC_v8m st3)) 26 = bit (ICSR_NS (NVIC_v8m st)) 26)"
proof -
  note p1 = virq_switch_parts [OF out ne, folded vc_def impl_def] and p3 = virq_switch_parts [OF return ne [symmetric], folded vc_def]
  have impl: "implemented_v8m (NVIC_v8m st2) = impl" using kept p1(6) by (simp add: kept_for_def)
  have exc: "g_virq_system_exception_state st2 ! unat src = saved_exc vc st" using kept p1(2,3) by (simp add: kept_for_def)
  have cells: "itns_v8m (NVIC_v8m st3) i \<and> iser_v8m (NVIC_v8m st3) i = iser_v8m (NVIC_v8m st) i \<and> ipr_v8m (NVIC_v8m st3) i = ipr_v8m (NVIC_v8m st) i"
    if i: "i < NVIC_VECTORS vc" "vs_box_id (g_virq_states st ! i) = src" for i
  proof -
    have "vs_box_id (g_virq_states st1 ! i) = src"
      using arg_cong [OF p1(1) [OF i(1)], of cell_state] i(2) ne by (auto simp: switched_def held_def Let_def)
    then have "cell st2 i = cell st1 i" using kept i(1) by (simp add: kept_for_def)
    then have c: "cell st3 i = switched vc (g_virq_min_priority st2) impl dst src (switched vc (g_virq_min_priority st) impl src dst (cell st i))"
      using p3(1) [OF i(1)] p1(1) [OF i(1)] impl by simp
    have "itns_v8m (NVIC_v8m st) i" using before i by (simp add: irqs_of_def)
    then show ?thesis
      using switched_roundtrip [of "cell st i" src dst vc impl "g_virq_min_priority st2" "g_virq_min_priority st", folded c] i prio(1) ne by (simp add: Let_def)
  qed
  have "system_regs st3 = system_regs st"
    unfolding p3(4) exc impl using prio_roundtrip [OF prio(2)] prio_roundtrip [OF prio(3)] by (simp add: exc_regs_def saved_exc_def system_regs_def Let_def)
  moreover have "bit (ICSR_NS (NVIC_v8m st3)) 26 = bit (ICSR_NS (NVIC_v8m st)) 26" if "bit (ICSR_NS (NVIC_v8m st)) 26 \<or> \<not> bit (ICSR_NS (NVIC_v8m st2)) 26"
  proof -
    let ?w = "ICSR_NS (NVIC_v8m st2) OR (if bit (ICSR_NS (NVIC_v8m st)) 26 then SCB_ICSR_PENDSTSET_Msk else SCB_ICSR_PENDSTCLR_Msk)"
    have "ICSR_NS (NVIC_v8m st3) = icsr_wr env (ICSR_NS (NVIC_v8m st2)) ?w" using p3(5) exc by (simp add: saved_exc_def Let_def)
    moreover have "bit ?w 26 = bit (ICSR_NS (NVIC_v8m st)) 26" "bit ?w 25 = (\<not> bit (ICSR_NS (NVIC_v8m st)) 26)"
      using that icsr(2) by (auto simp: scb_masks bit_simps simp del: push_bit_of_1)
    ultimately show ?thesis using icsr(1) unfolding icsr_documented_def by metis
  qed
  ultimately show ?thesis using cells by blast
qed

section \<open>Examples\<close>

text \<open>Two interrupts, of the boxes 1 and 2; box 1 runs. When both bits are written, SysTick becomes pending.\<close>

definition example_icsr :: "u32 \<Rightarrow> u32 \<Rightarrow> u32" where
  "example_icsr old w = (if bit w 26 then 0x04000000 else if bit w 25 then 0 else old AND NOT 0x02000000)"

definition example_v8e :: virq_v8m_env where
  "example_v8e = \<lparr>v8e_build = example_build\<lparr>debug := False\<rparr>, v8e_virq = \<lparr>NVIC_VECTORS = 2, uvisor_owned = \<lambda>_. False, NVIC_PRIO_BITS = 3\<rparr>, icsr_wr = example_icsr\<rparr>"

definition example_exc :: virq_system_exception where
  "example_exc = \<lparr>systick_CTRL = 0, systick_LOAD = 0, systick_pending = False, systick_active = False, systick_priority = 0, svcall_active = False, svcall_pending = False,
     svcall_priority = 0\<rparr>"

definition example_virq_v8m :: "u32 \<Rightarrow> virq_v8m_state" where
  "example_virq_v8m icsr = \<lparr>g_virq_states = [\<lparr>vs_box_id = 1, vs_enabled = False, vs_priority = 0\<rparr>, \<lparr>vs_box_id = 2, vs_enabled = True, vs_priority = 1\<rparr>],
     g_virq_system_exception_state = replicate 5 example_exc, g_virq_box_in_active_irq = replicate 5 False, g_virq_min_priority = 7, g_virq_prio_bits_v8m = 3,
     NVIC_v8m = \<lparr>iser_v8m = (\<lambda>i. i = 0), iabr_v8m = (\<lambda>_. False), ipr_v8m = (\<lambda>i. if i = 0 then 0x40 else 0xE0), itns_v8m = (\<lambda>i. i = 0), implemented_v8m = 0xE0,
       SHPR_NS = (\<lambda>_. 0x20), SysTick_NS_CTRL = 7, SysTick_NS_LOAD = 999, SysTick_NS_VAL = 5, ICSR_NS = icsr, SHCSR_NS = 0\<rparr>\<rparr>"

lemma example_v8e_simps [simp]: "v8e_virq example_v8e = \<lparr>NVIC_VECTORS = 2, uvisor_owned = \<lambda>_. False, NVIC_PRIO_BITS = 3\<rparr>" "icsr_wr example_v8e = example_icsr"
  "\<not> debug (v8e_build example_v8e)"
  by (simp_all add: example_v8e_def)

lemma example_icsr_documented: "icsr_documented example_icsr"
  by (auto simp: icsr_documented_def example_icsr_def bit_simps)

lemma upt_2: "[0..<2] = [0, Suc 0]"
  by (simp add: upt_rec)

lemma example_shape:
  "NVIC_VECTORS (v8e_virq example_v8e) \<le> length (g_virq_states (example_virq_v8m icsr))" "length (g_virq_system_exception_state (example_virq_v8m icsr)) = 5"
  "length (g_virq_box_in_active_irq (example_virq_v8m icsr)) = 5"
  by (simp_all add: example_virq_v8m_def)

lemma example_virq_switch_runs: "\<exists>st1. virq_switch example_v8e 1 2 (example_virq_v8m icsr) = Inr st1"
  using virq_switch_total [of example_v8e "example_virq_v8m icsr" 1 2] example_shape by simp

theorem virq_switch_isolates_witness:
  "\<exists>st1. virq_switch example_v8e 1 2 (example_virq_v8m 0) = Inr st1 \<and> \<not> itns_v8m (NVIC_v8m st1) 0 \<and> \<not> iser_v8m (NVIC_v8m st1) 0 \<and> itns_v8m (NVIC_v8m st1) 1"
proof -
  obtain st1 where st1: "virq_switch example_v8e 1 2 (example_virq_v8m 0) = Inr st1" using example_virq_switch_runs by blast
  have "irqs_of (v8e_virq example_v8e) (example_virq_v8m 0) 1" by (auto simp: irqs_of_def example_virq_v8m_def less_2_cases_iff)
  then have after: "irqs_of (v8e_virq example_v8e) st1 2" "\<forall>i < 2. vs_box_id (g_virq_states st1 ! i) = vs_box_id (g_virq_states (example_virq_v8m 0) ! i)"
    using virq_switch_isolates [OF st1] by auto
  then have "vs_box_id (g_virq_states st1 ! 0) = 1" "vs_box_id (g_virq_states st1 ! 1) = 2" by (auto simp: example_virq_v8m_def)
  then show ?thesis using st1 after(1) by (auto simp: irqs_of_def)
qed

text \<open>
  The bits are set with a read and a write of the whole register, where \<open>PENDSTSET\<close> reads as one while SysTick is pending: to clear the pending state of the box that is left, both bits
  are written. In this example the interrupt of box 1 is then pending in box 2.
\<close>

theorem virq_switch_leaks_systick:
  "\<exists>st1. virq_switch example_v8e 1 2 (example_virq_v8m 0x04000000) = Inr st1 \<and> icsr_documented (icsr_wr example_v8e) \<and>
    \<not> systick_pending (g_virq_system_exception_state (example_virq_v8m 0x04000000) ! 2) \<and> bit (ICSR_NS (NVIC_v8m st1)) 26"
proof -
  obtain st1 where st1: "virq_switch example_v8e 1 2 (example_virq_v8m 0x04000000) = Inr st1" using example_virq_switch_runs by blast
  have "ICSR_NS (NVIC_v8m st1) = 0x04000000"
    using virq_switch_parts(5) [OF st1] by (simp add: example_virq_v8m_def example_exc_def example_icsr_def scb_masks bit_iff_odd)
  then show ?thesis using st1 example_icsr_documented by (simp add: example_virq_v8m_def example_exc_def bit_iff_odd)
qed

theorem virq_switch_roundtrip_witness:
  "\<exists>st1 st3. virq_switch example_v8e 1 2 (example_virq_v8m 0) = Inr st1 \<and> virq_switch example_v8e 2 1 st1 = Inr st3 \<and> iser_v8m (NVIC_v8m st3) 0 \<and> ipr_v8m (NVIC_v8m st3) 0 = 0x40 \<and>
    system_regs st3 = (7, 999, False, False, False, 0x20, 0x20)"
proof -
  let ?st = "example_virq_v8m 0"
  obtain st1 where st1: "virq_switch example_v8e 1 2 ?st = Inr st1" using example_virq_switch_runs by blast
  then obtain st3 where st3: "virq_switch example_v8e 2 1 st1 = Inr st3"
    using virq_switch_total [of example_v8e st1 2 1] virq_switch_lengths [OF st1] example_shape [of 0] by auto
  have m: "mask (Suc (Suc (Suc (Suc (Suc 0))))) = (0x1F :: u8)" by (simp add: mask_eq_exp_minus_1)
  have "\<not> bit (ICSR_NS (NVIC_v8m st1)) 25" using virq_switch_parts(5) [OF st1] example_icsr_documented by (simp add: icsr_documented_def)
  moreover have "irqs_of (v8e_virq example_v8e) ?st 1" by (auto simp: irqs_of_def example_virq_v8m_def less_2_cases_iff)
  moreover have "prio_ok (v8e_virq example_v8e) (implemented_v8m (NVIC_v8m ?st)) p" if "p \<in> {0x20, 0x40, 0xE0}" for p
    using that by (auto simp: prio_ok_def example_virq_v8m_def mask_eq_exp_minus_1)
  moreover have "\<forall>i. ipr_v8m (NVIC_v8m ?st) i \<in> {0x20, 0x40, 0xE0}" "\<forall>i. SHPR_NS (NVIC_v8m ?st) i \<in> {0x20, 0x40, 0xE0}" by (simp_all add: example_virq_v8m_def)
  moreover have "kept_for (v8e_virq example_v8e) 1 st1 st1" by (simp add: kept_for_def)
  ultimately have "\<forall>i < 2. vs_box_id (g_virq_states ?st ! i) = 1 \<longrightarrow> itns_v8m (NVIC_v8m st3) i \<and> iser_v8m (NVIC_v8m st3) i = iser_v8m (NVIC_v8m ?st) i \<and>
      ipr_v8m (NVIC_v8m st3) i = ipr_v8m (NVIC_v8m ?st) i" "system_regs st3 = system_regs ?st"
    using virq_switch_roundtrip [OF st1 st3] example_icsr_documented by auto
  then show ?thesis using st1 st3 by (auto simp: example_virq_v8m_def system_regs_def)
qed

end
