(* ===== verification/Scheduler_Armv8m.thy ===== *)
theory Scheduler_Armv8m
  imports Ipc Virq_Armv8m Vmpu_Armv8m
begin

text \<open>
  The scheduler of the ARMv8-M port, \<^verbatim>\<open>core/system/src/core_armv8m/scheduler.c\<close>: on each tick of the secure timer the messages of the running box are delivered, its registers
  are saved, and the next box is made active with its interrupts and its regions of the protection unit. The assembly of the timer's handler, which puts the registers on the
  stack and takes them back, is not modelled.
\<close>

unbundle bit_operations_syntax

section \<open>State\<close>

text \<open>The registers on the secure stack.\<close>

record saved_reg =
  reg_r4 :: u32
  reg_r5 :: u32
  reg_r6 :: u32
  reg_r7 :: u32
  reg_r8 :: u32
  reg_r9 :: u32
  reg_r10 :: u32
  reg_r11 :: u32
  reg_lr :: u32
  reg_r0 :: u32
  reg_r1 :: u32
  reg_r2 :: u32
  reg_r3 :: u32
  reg_r12 :: u32
  reg_retlr :: u32
  reg_retaddr :: u32
  reg_retpsr :: u32

text \<open>The fields of \<open>TContextCurrentState\<close> that only this port uses; the others are in the record of that name.\<close>

record TContextSavedState =
  cs_r0 :: u32
  cs_r1 :: u32
  cs_r2 :: u32
  cs_r3 :: u32
  cs_r12 :: u32
  cs_retaddr :: u32
  cs_retlr :: u32
  cs_retpsr :: u32
  cs_psp :: u32
  cs_r4 :: u32
  cs_r5 :: u32
  cs_r6 :: u32
  cs_r7 :: u32
  cs_r8 :: u32
  cs_r9 :: u32
  cs_r10 :: u32
  cs_r11 :: u32
  cs_psplim :: u32
  cs_control :: u32
  cs_basepri :: u32
  cs_faultmask :: u32
  cs_primask :: u32

text \<open>The non-secure special registers; \<open>SP_NS\<close> is one of the two stack pointers and is only read.\<close>

record ns_regs =
  SP_NS :: u32
  PSP_NS :: u32
  MSP_NS :: u32
  PSPLIM_NS :: u32
  MSPLIM_NS :: u32
  CONTROL_NS :: u32
  BASEPRI_NS :: u32
  FAULTMASK_NS :: u32
  PRIMASK_NS :: u32

record scheduler_state =
  g_next_box_id :: int
  sc_context :: context_state
  sc_saved :: "TContextSavedState list"
  sc_ns :: ns_regs
  sc_ipc :: ipc_state
  sc_virq :: virq_v8m_state
  sc_vmpu :: v8m_state
  SysTick_CTRL :: u32
  SysTick_LOAD :: u32
  SysTick_VAL :: u32

text \<open>The configuration: the linker's, the interrupts', the number of boxes and the number of rounds for the loop over a send queue.\<close>

record scheduler_env =
  se_cfg :: UvisorConfig
  se_virq :: virq_v8m_env
  se_box_count :: u8
  se_rounds :: nat

definition time_slice_ms :: int where "time_slice_ms = 100"
definition time_slice_ticks :: u32 where "time_slice_ticks = 250000"
definition SysTick_CTRL_TICKINT_Msk :: u32 where "SysTick_CTRL_TICKINT_Msk = push_bit 1 1"
definition SysTick_CTRL_CLKSOURCE_Msk :: u32 where "SysTick_CTRL_CLKSOURCE_Msk = push_bit 2 1"

section \<open>Dispatching\<close>

text \<open>The messages are checked against the protection unit as it is, and the control blocks are found through the boxes' BSS sections.\<close>

definition ipc_env_of :: "scheduler_env \<Rightarrow> scheduler_state \<Rightarrow> ipc_env" where
  "ipc_env_of env st = \<lparr>ipc_build = v8e_build (se_virq env), ipc_ok = vmpu_buffer_access_is_ok (v8e_build (se_virq env)) (v8_sau (sc_vmpu st)),
     ipc_bss = (\<lambda>b. ctx_bss (g_context_current_states (sc_context st) ! unat b)), ipc_box_count = se_box_count env\<rparr>"

text \<open>Saving: the frame only when it is on the secure side.\<close>

definition save_frame :: "saved_reg \<Rightarrow> TContextSavedState \<Rightarrow> TContextSavedState" where
  "save_frame reg s = s\<lparr>cs_r0 := reg_r0 reg, cs_r1 := reg_r1 reg, cs_r2 := reg_r2 reg, cs_r3 := reg_r3 reg, cs_r12 := reg_r12 reg,
     cs_retlr := reg_retlr reg, cs_retaddr := reg_retaddr reg, cs_retpsr := reg_retpsr reg\<rparr>"

definition save_regs :: "saved_reg \<Rightarrow> ns_regs \<Rightarrow> TContextSavedState \<Rightarrow> TContextSavedState" where
  "save_regs reg ns s =
     (if EXC_FROM_S (reg_lr reg) then save_frame reg s else s)\<lparr>cs_r4 := reg_r4 reg, cs_r5 := reg_r5 reg, cs_r6 := reg_r6 reg, cs_r7 := reg_r7 reg, cs_r8 := reg_r8 reg,
     cs_r9 := reg_r9 reg, cs_r10 := reg_r10 reg, cs_r11 := reg_r11 reg, cs_psp := PSP_NS ns, cs_psplim := PSPLIM_NS ns, cs_control := CONTROL_NS ns,
     cs_basepri := BASEPRI_NS ns, cs_faultmask := FAULTMASK_NS ns, cs_primask := PRIMASK_NS ns\<rparr>"

definition save_current :: "saved_reg \<Rightarrow> ns_regs \<Rightarrow> TContextCurrentState \<Rightarrow> TContextCurrentState" where
  "save_current reg ns s = s\<lparr>ctx_lr := reg_lr reg, ctx_sp := SP_NS ns, ctx_msp := MSP_NS ns, ctx_msplim := MSPLIM_NS ns\<rparr>"

definition restore_frame :: "TContextSavedState \<Rightarrow> saved_reg \<Rightarrow> saved_reg" where
  "restore_frame s reg = reg\<lparr>reg_r0 := cs_r0 s, reg_r1 := cs_r1 s, reg_r2 := cs_r2 s, reg_r3 := cs_r3 s, reg_r12 := cs_r12 s,
     reg_retlr := cs_retlr s, reg_retaddr := cs_retaddr s, reg_retpsr := cs_retpsr s\<rparr>"

definition restore_regs :: "TContextCurrentState \<Rightarrow> TContextSavedState \<Rightarrow> saved_reg \<Rightarrow> saved_reg" where
  "restore_regs cur s reg =
     (if EXC_FROM_S (ctx_lr cur) then restore_frame s reg else reg)\<lparr>reg_r4 := cs_r4 s, reg_r5 := cs_r5 s, reg_r6 := cs_r6 s, reg_r7 := cs_r7 s, reg_r8 := cs_r8 s,
     reg_r9 := cs_r9 s, reg_r10 := cs_r10 s, reg_r11 := cs_r11 s, reg_lr := ctx_lr cur\<rparr>"

definition restore_ns :: "TContextCurrentState \<Rightarrow> TContextSavedState \<Rightarrow> ns_regs \<Rightarrow> ns_regs" where
  "restore_ns cur s ns = ns\<lparr>PSP_NS := cs_psp s, MSP_NS := ctx_msp cur, PSPLIM_NS := cs_psplim s, MSPLIM_NS := ctx_msplim cur, CONTROL_NS := cs_control s,
     BASEPRI_NS := cs_basepri s, FAULTMASK_NS := cs_faultmask s, PRIMASK_NS := cs_primask s\<rparr>"

text \<open>What \<open>context_switch_in\<close> switches on ARMv8-M, after it has set the active box: the interrupts and then the protection unit.\<close>

definition switch_v8m :: "virq_v8m_env \<Rightarrow> u8 \<Rightarrow> u8 \<Rightarrow> u8 \<Rightarrow> virq_v8m_state \<times> v8m_state \<Rightarrow> (virq_v8m_state \<times> v8m_state) res" where
  "switch_v8m venv active src dst = (\<lambda>(virq, v8).
     bind_res (virq_switch venv src dst virq) (\<lambda>virq.
     bind_res (vmpu_switch_v8m (v8\<lparr>v8_active_box := active\<rparr>) src dst) (\<lambda>v8. Inr (virq, v8))))"

definition dispatch :: "scheduler_env \<Rightarrow> int \<Rightarrow> int \<Rightarrow> saved_reg \<Rightarrow> scheduler_state \<Rightarrow> (saved_reg \<times> scheduler_state) res" where
  "dispatch env dst_box_id src_box_id reg st =
     bind_res (ipc_drain_queue (se_rounds env) (ipc_env_of env st) (g_active_box (sc_context st)) (sc_ipc st)) (\<lambda>ipc.
     let ctx = sc_context st in
     bind_res (arr_get (g_context_current_states ctx) (nat src_box_id)) (\<lambda>src_cur.
     bind_res (arr_get (sc_saved st) (nat src_box_id)) (\<lambda>src_state.
     let ctx = ctx\<lparr>g_context_current_states := (g_context_current_states ctx)[nat src_box_id := save_current reg (sc_ns st) src_cur]\<rparr>;
         saved = (sc_saved st)[nat src_box_id := save_regs reg (sc_ns st) src_state] in
     bind_res (context_switch_in (se_cfg env) True (se_box_count env) (switch_v8m (se_virq env)) CONTEXT_SWITCH_UNBOUND_THREAD (word_of_int dst_box_id) 0xDEADBEEF 0xDEADBEE2
       (ctx, ipc_mem ipc, sc_virq st, sc_vmpu st)) (\<lambda>(ctx, m, virq, v8).
     bind_res (arr_get (g_context_current_states ctx) (nat dst_box_id)) (\<lambda>dst_cur.
     bind_res (arr_get saved (nat dst_box_id)) (\<lambda>dst_state.
     Inr (restore_regs dst_cur dst_state reg,
       st\<lparr>sc_context := ctx, sc_saved := saved, sc_ns := restore_ns dst_cur dst_state (sc_ns st), sc_ipc := ipc\<lparr>ipc_mem := m\<rparr>, sc_virq := virq, sc_vmpu := v8\<rparr>)))))))"

section \<open>Time slices\<close>

text \<open>
  The difference is computed with unsigned 32-bit numbers and stored as a signed one. \<open>g_next_box_id\<close> starts at 1 and is never negative, so that the remainder is the one
  of natural numbers.
\<close>

definition set_remaining :: "nat \<Rightarrow> int \<Rightarrow> scheduler_state \<Rightarrow> scheduler_state" where
  "set_remaining box_id ms st =
     st\<lparr>sc_context := (sc_context st)\<lparr>g_context_current_states := (g_context_current_states (sc_context st))
       [box_id := (g_context_current_states (sc_context st) ! box_id)\<lparr>remaining_ms := ms\<rparr>]\<rparr>\<rparr>"

definition scheduler_delta_add :: "scheduler_env \<Rightarrow> u32 \<Rightarrow> saved_reg \<Rightarrow> scheduler_state \<Rightarrow> (saved_reg \<times> scheduler_state) res" where
  "scheduler_delta_add env delta_ms reg st =
     (let src_box_id = unat (g_active_box (sc_context st)) in
      bind_res (arr_get (g_context_current_states (sc_context st)) src_box_id) (\<lambda>src_cur.
      let remaining = sint (word_of_int (remaining_ms src_cur) - delta_ms);
          st = set_remaining src_box_id remaining st in
      if remaining \<le> 0 then
        let dst_box_id = g_next_box_id st;
            st = st\<lparr>g_next_box_id := (g_next_box_id st + 1) mod int (unat (se_box_count env))\<rparr> in
        bind_res (dispatch env dst_box_id (int src_box_id) reg st) (\<lambda>(reg, st). Inr (reg, set_remaining src_box_id time_slice_ms st))
      else Inr (reg, st)))"

definition scheduler_tick :: "scheduler_env \<Rightarrow> saved_reg \<Rightarrow> scheduler_state \<Rightarrow> (saved_reg \<times> scheduler_state) res" where
  "scheduler_tick env reg st = scheduler_delta_add env (word_of_int time_slice_ms) reg st"

text \<open>The last write of \<open>CTRL\<close> is the one that starts the timer.\<close>

definition scheduler_start :: "scheduler_state \<Rightarrow> scheduler_state" where
  "scheduler_start st =
     (let st = st\<lparr>SysTick_CTRL := 0\<rparr>;
          st = st\<lparr>SysTick_LOAD := time_slice_ticks - 1\<rparr>;
          st = st\<lparr>SysTick_VAL := 0\<rparr> in
      st\<lparr>SysTick_CTRL := SysTick_CTRL_CLKSOURCE_Msk OR SysTick_CTRL_TICKINT_Msk OR SysTick_CTRL_ENABLE_Msk\<rparr>)"

section \<open>The invariant of the scheduler\<close>

text \<open>
  The boxes take turns, all have some time left that fits a slice, the protection unit opens only what the active box may use, and exactly the interrupts of that box
  reach the non-secure side.
\<close>

definition sched_ok :: "scheduler_env \<Rightarrow> scheduler_state \<Rightarrow> bool" where
  "sched_ok env st \<longleftrightarrow>
     (let n = se_box_count env; ctx = sc_context st; v8 = sc_vmpu st; virq = sc_virq st in
      2 \<le> n \<and> ctx_ok n ctx \<and> length (sc_saved st) = UVISOR_MAX_BOXES \<and>
      g_next_box_id st = int ((unat (g_active_box ctx) + 1) mod unat n) \<and>
      (\<forall>b < unat n. 0 \<le> remaining_ms (g_context_current_states ctx ! b) \<and> remaining_ms (g_context_current_states ctx ! b) \<le> time_slice_ms) \<and>
      v8m_ok v8 \<and> v8_active_box v8 = g_active_box ctx \<and> sau_region_count (v8_sau v8) \<noteq> 0 \<and>
      (\<forall>b. b \<noteq> 0 \<and> b < n \<longrightarrow> sau_regions_of (v8_sau v8) b \<noteq> []) \<and> opens_only_granted v8 v8 \<and>
      NVIC_VECTORS (v8e_virq (se_virq env)) \<le> length (g_virq_states virq) \<and> length (g_virq_system_exception_state virq) = UVISOR_MAX_BOXES \<and>
      length (g_virq_box_in_active_irq virq) = UVISOR_MAX_BOXES \<and> irqs_of (v8e_virq (se_virq env)) virq (g_active_box ctx))"

lemma sched_okD:
  assumes "sched_ok env st"
  shows "2 \<le> se_box_count env" "ctx_ok (se_box_count env) (sc_context st)" "length (sc_saved st) = UVISOR_MAX_BOXES"
    "g_next_box_id st = int ((unat (g_active_box (sc_context st)) + 1) mod unat (se_box_count env))"
    "b < unat (se_box_count env) \<Longrightarrow> 0 \<le> remaining_ms (g_context_current_states (sc_context st) ! b) \<and> remaining_ms (g_context_current_states (sc_context st) ! b) \<le> time_slice_ms"
    "v8m_ok (sc_vmpu st)" "v8_active_box (sc_vmpu st) = g_active_box (sc_context st)" "sau_region_count (v8_sau (sc_vmpu st)) \<noteq> 0"
    "c \<noteq> 0 \<Longrightarrow> c < se_box_count env \<Longrightarrow> sau_regions_of (v8_sau (sc_vmpu st)) c \<noteq> []" "opens_only_granted (sc_vmpu st) (sc_vmpu st)"
    "NVIC_VECTORS (v8e_virq (se_virq env)) \<le> length (g_virq_states (sc_virq st))" "length (g_virq_system_exception_state (sc_virq st)) = UVISOR_MAX_BOXES"
    "length (g_virq_box_in_active_irq (sc_virq st)) = UVISOR_MAX_BOXES" "irqs_of (v8e_virq (se_virq env)) (sc_virq st) (g_active_box (sc_context st))"
  using assms by (auto simp: sched_ok_def Let_def)

section \<open>One tick\<close>

lemma switch_in_unbound:
  assumes "ctx_ok n st" "dst < n" "g_active_box st \<noteq> dst"
  shows "\<exists>m'. \<forall>port. context_switch_in cfg True n switch CONTEXT_SWITCH_UNBOUND_THREAD dst ssp dsp (st, m, port) =
    bind_res (switch dst (g_active_box st) dst port) (\<lambda>port'. Inr (st\<lparr>g_active_box := dst\<rparr>, m', port'))"
proof -
  have "unat (g_active_box st) < length (g_context_current_states st)" "unat dst < length (g_context_current_states st)" "g_active_box st < n"
    using ctx_ok_box [OF assms(1)] assms by (auto simp: ctx_ok_def)
  then show ?thesis using assms
    by (auto simp: context_switch_in_def vmpu_is_box_id_valid_def function_bound_def Let_def res_simps bind_res_assoc)
qed

lemma next_box:
  assumes "sched_ok env st"
  shows "nat (g_next_box_id st) = (unat (g_active_box (sc_context st)) + 1) mod unat (se_box_count env)"
    "unat (word_of_int (g_next_box_id st) :: u8) = (unat (g_active_box (sc_context st)) + 1) mod unat (se_box_count env)"
    "word_of_int (g_next_box_id st) < se_box_count env" "word_of_int (g_next_box_id st) \<noteq> g_active_box (sc_context st)"
proof -
  let ?n = "unat (se_box_count env)" and ?a = "unat (g_active_box (sc_context st))"
  have n: "2 \<le> ?n" "?n < 256" "?a < ?n"
    using sched_okD(1,2) [OF assms] unat_u8_lt [of "se_box_count env"] by (auto simp: word_le_nat_alt word_less_nat_alt ctx_ok_def)
  have d: "(?a + 1) mod ?n < ?n" "(?a + 1) mod ?n \<noteq> ?a" using n by (auto simp: mod_Suc)
  show "nat (g_next_box_id st) = (?a + 1) mod ?n" by (simp add: sched_okD(4) [OF assms])
  show u: "unat (word_of_int (g_next_box_id st) :: u8) = (?a + 1) mod ?n"
    using d n(2) by (simp add: sched_okD(4) [OF assms] unat_of_nat_u8)
  show "word_of_int (g_next_box_id st) < se_box_count env" "word_of_int (g_next_box_id st) \<noteq> g_active_box (sc_context st)"
    using u d by (auto simp: word_less_nat_alt)
qed

lemma ipc_env_of_cong:
  "ipc_env_of env (set_remaining b ms st) = ipc_env_of env st" "ipc_env_of env (st\<lparr>g_next_box_id := k\<rparr>) = ipc_env_of env st"
proof -
  let ?cs = "g_context_current_states (sc_context st)"
  have "ctx_bss ((?cs[b := (?cs ! b)\<lparr>remaining_ms := ms\<rparr>]) ! i) = ctx_bss (?cs ! i)" for i by (cases "i = b \<and> b < length ?cs") (auto simp: list_update_beyond)
  then show "ipc_env_of env (set_remaining b ms st) = ipc_env_of env st" by (simp add: ipc_env_of_def set_remaining_def)
qed (simp add: ipc_env_of_def)

text \<open>Taking away a slice.\<close>

lemma remaining_used: "0 \<le> ms \<Longrightarrow> ms \<le> time_slice_ms \<Longrightarrow> sint (word_of_int ms - word_of_int time_slice_ms :: u32) \<le> 0"
proof -
  assume "0 \<le> ms" "ms \<le> time_slice_ms"
  then have "signed_take_bit 31 (ms - time_slice_ms) = ms - time_slice_ms" by (intro signed_take_bit_int_eq_self) (simp_all add: time_slice_ms_def)
  then have "sint (word_of_int (ms - time_slice_ms) :: u32) = ms - time_slice_ms" by (simp only: signed_of_int len_bit0 len_num1) simp
  then show ?thesis using \<open>ms \<le> time_slice_ms\<close> by (simp only: of_int_diff diff_le_0_iff_le)
qed

lemma dispatch_result:
  fixes st reg src
  defines "cs \<equiv> g_context_current_states (sc_context st)"
  defines "saved \<equiv> (sc_saved st)[nat src := save_regs reg (sc_ns st) (sc_saved st ! nat src)]"
  assumes "ipc_drain_queue (se_rounds env) (ipc_env_of env st) (g_active_box (sc_context st)) (sc_ipc st) = Inr ipc" "nat src < length cs" "nat src < length (sc_saved st)"
    "context_switch_in (se_cfg env) True (se_box_count env) (switch_v8m (se_virq env)) CONTEXT_SWITCH_UNBOUND_THREAD (word_of_int dst) 0xDEADBEEF 0xDEADBEE2
      ((sc_context st)\<lparr>g_context_current_states := cs[nat src := save_current reg (sc_ns st) (cs ! nat src)]\<rparr>, ipc_mem ipc, sc_virq st, sc_vmpu st) = Inr (ctx, m, virq, v8)"
    "nat dst < length (g_context_current_states ctx)" "nat dst < length (sc_saved st)"
  shows "dispatch env dst src reg st = Inr (restore_regs (g_context_current_states ctx ! nat dst) (saved ! nat dst) reg,
    st\<lparr>sc_context := ctx, sc_saved := saved, sc_ns := restore_ns (g_context_current_states ctx ! nat dst) (saved ! nat dst) (sc_ns st),
      sc_ipc := ipc\<lparr>ipc_mem := m\<rparr>, sc_virq := virq, sc_vmpu := v8\<rparr>)"
  using assms by (simp add: dispatch_def Let_def)

lemma tick_stops:
  assumes ok: "sched_ok env st" and drain: "ipc_drain_queue (se_rounds env) (ipc_env_of env st) (g_active_box (sc_context st)) (sc_ipc st) = Inl e"
  shows "scheduler_tick env reg st = Inl e"
proof -
  let ?a = "unat (g_active_box (sc_context st))" and ?cs = "g_context_current_states (sc_context st)"
  define ms where "ms = sint (word_of_int (remaining_ms (?cs ! ?a)) - word_of_int time_slice_ms :: u32)"
  define st1 where "st1 = (set_remaining ?a ms st)\<lparr>g_next_box_id := (g_next_box_id st + 1) mod int (unat (se_box_count env))\<rparr>"
  have a: "?a < length ?cs" "ms \<le> 0" using sched_okD(2,5) [OF ok] remaining_used by (auto simp: ctx_ok_def word_less_nat_alt ms_def)
  have "ipc_env_of env st1 = ipc_env_of env st" "g_active_box (sc_context st1) = g_active_box (sc_context st)" "sc_ipc st1 = sc_ipc st"
    unfolding st1_def ipc_env_of_cong by (simp_all add: set_remaining_def)
  then have "dispatch env dst src reg st1 = Inl e" for dst src using drain by (simp add: dispatch_def)
  then show ?thesis using a by (simp add: scheduler_tick_def scheduler_delta_add_def Let_def ms_def st1_def set_remaining_def)
qed

text \<open>In a release build the switch to the next box always succeeds.\<close>

lemma switch_ready:
  fixes env st
  defines "a \<equiv> g_active_box (sc_context st)" and "d \<equiv> word_of_int (g_next_box_id st)"
  assumes ok: "sched_ok env st" and rel: "\<not> debug (v8e_build (se_virq env))"
  shows "\<exists>virq v8. virq_switch (se_virq env) a d (sc_virq st) = Inr virq \<and> opens_only_granted ((sc_vmpu st)\<lparr>v8_active_box := d\<rparr>) v8 \<and>
    switch_v8m (se_virq env) d a d (sc_virq st, sc_vmpu st) = Inr (virq, v8)"
proof -
  note okD = sched_okD [OF ok] and nb = next_box [OF ok, folded a_def d_def]
  have "a < se_box_count env" "unat (se_box_count env) \<le> UVISOR_MAX_BOXES" using okD(2) by (simp_all add: ctx_ok_def a_def)
  then have ad: "unat a < UVISOR_MAX_BOXES" "unat d < UVISOR_MAX_BOXES" using nb(3) by (auto simp: word_less_nat_alt)
  obtain virq where virq: "virq_switch (se_virq env) a d (sc_virq st) = Inr virq"
    using virq_switch_total [OF rel okD(11), of a d] okD(12,13) ad by auto
  have "v8m_ok ((sc_vmpu st)\<lparr>v8_active_box := d\<rparr>)" using okD(6) ad(2) by (simp add: v8m_ok_def)
  then obtain v8 where "vmpu_switch_v8m ((sc_vmpu st)\<lparr>v8_active_box := d\<rparr>) a d = Inr v8" "opens_only_granted ((sc_vmpu st)\<lparr>v8_active_box := d\<rparr>) v8"
    using vmpu_switch_v8m_inv [of "(sc_vmpu st)\<lparr>v8_active_box := d\<rparr>" d a] okD(8) okD(9) [of d] nb(3) by auto
  then show ?thesis using virq by (auto simp: switch_v8m_def)
qed

text \<open>What a tick does, once the messages are delivered.\<close>

lemma tick_result:
  fixes env st reg
  defines "a \<equiv> g_active_box (sc_context st)" and "d \<equiv> word_of_int (g_next_box_id st)" and "cs \<equiv> g_context_current_states (sc_context st)"
  assumes ok: "sched_ok env st" and rel: "\<not> debug (v8e_build (se_virq env))"
    and drain: "ipc_drain_queue (se_rounds env) (ipc_env_of env st) a (sc_ipc st) = Inr ipc"
  shows "\<exists>m virq v8. virq_switch (se_virq env) a d (sc_virq st) = Inr virq \<and> opens_only_granted ((sc_vmpu st)\<lparr>v8_active_box := d\<rparr>) v8 \<and>
    scheduler_tick env reg st = Inr (restore_regs (cs ! unat d) (sc_saved st ! unat d) reg,
      st\<lparr>g_next_box_id := (g_next_box_id st + 1) mod int (unat (se_box_count env)),
        sc_context := (sc_context st)\<lparr>g_active_box := d, g_context_current_states := cs[unat a := (save_current reg (sc_ns st) (cs ! unat a))\<lparr>remaining_ms := time_slice_ms\<rparr>]\<rparr>,
        sc_saved := (sc_saved st)[unat a := save_regs reg (sc_ns st) (sc_saved st ! unat a)], sc_ns := restore_ns (cs ! unat d) (sc_saved st ! unat d) (sc_ns st),
        sc_ipc := ipc\<lparr>ipc_mem := m\<rparr>, sc_virq := virq, sc_vmpu := v8\<rparr>)"
proof -
  note okD = sched_okD [OF ok] and nb = next_box [OF ok, folded a_def d_def]
  let ?n = "se_box_count env"
  have a: "a < ?n" and len: "length cs = UVISOR_MAX_BOXES" "unat ?n \<le> UVISOR_MAX_BOXES" using okD(2) by (simp_all add: ctx_ok_def a_def cs_def)
  have ad: "unat a < UVISOR_MAX_BOXES" "unat d < UVISOR_MAX_BOXES" "unat a \<noteq> unat d"
    using a nb(3,4) len(2) by (auto simp: word_less_nat_alt word_unat_eq_iff)
  obtain virq v8 where virq: "virq_switch (se_virq env) a d (sc_virq st) = Inr virq" and v8: "opens_only_granted ((sc_vmpu st)\<lparr>v8_active_box := d\<rparr>) v8"
    and switch: "switch_v8m (se_virq env) d a d (sc_virq st, sc_vmpu st) = Inr (virq, v8)"
    using switch_ready [OF ok rel] by (auto simp: a_def d_def)
  define used where "used = (cs ! unat a)\<lparr>remaining_ms := sint (word_of_int (remaining_ms (cs ! unat a)) - word_of_int time_slice_ms :: u32)\<rparr>"
  define st1 where "st1 = (set_remaining (unat a) (remaining_ms used) st)\<lparr>g_next_box_id := (g_next_box_id st + 1) mod int (unat ?n)\<rparr>"
  define ctx where "ctx = (sc_context st)\<lparr>g_context_current_states := cs[unat a := save_current reg (sc_ns st) used]\<rparr>"
  have st1: "sc_context st1 = (sc_context st)\<lparr>g_context_current_states := cs[unat a := used]\<rparr>" "sc_ns st1 = sc_ns st" "sc_saved st1 = sc_saved st" "sc_ipc st1 = sc_ipc st"
    "sc_virq st1 = sc_virq st" "sc_vmpu st1 = sc_vmpu st" "ipc_env_of env st1 = ipc_env_of env st"
    unfolding st1_def ipc_env_of_cong by (simp_all add: set_remaining_def used_def flip: cs_def)
  have "ctx_ok ?n ctx" "g_active_box ctx = a" using okD(2) by (auto simp: ctx_ok_def ctx_stack_def ctx_def a_def cs_def)
  then obtain m where m: "context_switch_in (se_cfg env) True ?n (switch_v8m (se_virq env)) CONTEXT_SWITCH_UNBOUND_THREAD d 0xDEADBEEF 0xDEADBEE2
      (ctx, ipc_mem ipc, sc_virq st, sc_vmpu st) = Inr (ctx\<lparr>g_active_box := d\<rparr>, m, virq, v8)"
    using switch_in_unbound [of ?n ctx d "se_cfg env" "switch_v8m (se_virq env)" "0xDEADBEEF" "0xDEADBEE2" "ipc_mem ipc"] nb(3,4) switch by auto
  have neg: "remaining_ms used \<le> 0"
    using remaining_used okD(5) [of "unat a"] a by (simp add: used_def cs_def word_less_nat_alt)
  have nd: "nat (g_next_box_id st) = unat d" using nb(1,2) by simp
  have tick: "scheduler_tick env reg st = bind_res (dispatch env (g_next_box_id st) (int (unat a)) reg st1) (\<lambda>(reg, st). Inr (reg, set_remaining (unat a) time_slice_ms st))"
    using ad(1) len(1) neg by (simp add: scheduler_tick_def scheduler_delta_add_def Let_def a_def cs_def set_remaining_def st1_def used_def)
  have sv: "context_switch_in (se_cfg env) True ?n (switch_v8m (se_virq env)) CONTEXT_SWITCH_UNBOUND_THREAD (word_of_int (g_next_box_id st)) 0xDEADBEEF 0xDEADBEE2
      ((sc_context st1)\<lparr>g_context_current_states := (g_context_current_states (sc_context st1))
        [nat (int (unat a)) := save_current reg (sc_ns st1) (g_context_current_states (sc_context st1) ! nat (int (unat a)))]\<rparr>, ipc_mem ipc, sc_virq st1, sc_vmpu st1) =
      Inr (ctx\<lparr>g_active_box := d\<rparr>, m, virq, v8)"
    using m ad(1) len(1) by (simp add: st1 ctx_def d_def)
  have "dispatch env (g_next_box_id st) (int (unat a)) reg st1 = Inr (restore_regs (cs ! unat d) (sc_saved st ! unat d) reg,
      st1\<lparr>sc_context := ctx\<lparr>g_active_box := d\<rparr>, sc_saved := (sc_saved st)[unat a := save_regs reg (sc_ns st) (sc_saved st ! unat a)],
        sc_ns := restore_ns (cs ! unat d) (sc_saved st ! unat d) (sc_ns st), sc_ipc := ipc\<lparr>ipc_mem := m\<rparr>, sc_virq := virq, sc_vmpu := v8\<rparr>)"
    using dispatch_result [OF _ _ _ sv] drain ad len okD(3) by (simp add: st1 nd ctx_def flip: a_def)
  then have "scheduler_tick env reg st = Inr (restore_regs (cs ! unat d) (sc_saved st ! unat d) reg, set_remaining (unat a) time_slice_ms
      (st1\<lparr>sc_context := ctx\<lparr>g_active_box := d\<rparr>, sc_saved := (sc_saved st)[unat a := save_regs reg (sc_ns st) (sc_saved st ! unat a)],
        sc_ns := restore_ns (cs ! unat d) (sc_saved st ! unat d) (sc_ns st), sc_ipc := ipc\<lparr>ipc_mem := m\<rparr>, sc_virq := virq, sc_vmpu := v8\<rparr>))"
    by (simp add: tick)
  moreover have "(save_current reg (sc_ns st) used)\<lparr>remaining_ms := time_slice_ms\<rparr> = (save_current reg (sc_ns st) (cs ! unat a))\<lparr>remaining_ms := time_slice_ms\<rparr>"
    by (simp add: save_current_def used_def)
  ultimately show ?thesis using virq v8 ad(1) len(1)
    by (intro exI [of _ m] exI [of _ virq] exI [of _ v8]) (simp add: set_remaining_def st1_def ctx_def)
qed

lemma tick_Inr:
  fixes env st reg
  defines "a \<equiv> g_active_box (sc_context st)" and "d \<equiv> word_of_int (g_next_box_id st)" and "cs \<equiv> g_context_current_states (sc_context st)"
  assumes ok: "sched_ok env st" and rel: "\<not> debug (v8e_build (se_virq env))" and run: "scheduler_tick env reg st = Inr (reg', st')"
  shows "\<exists>ipc m virq v8. virq_switch (se_virq env) a d (sc_virq st) = Inr virq \<and> opens_only_granted ((sc_vmpu st)\<lparr>v8_active_box := d\<rparr>) v8 \<and>
    reg' = restore_regs (cs ! unat d) (sc_saved st ! unat d) reg \<and>
    st' = st\<lparr>g_next_box_id := (g_next_box_id st + 1) mod int (unat (se_box_count env)),
        sc_context := (sc_context st)\<lparr>g_active_box := d, g_context_current_states := cs[unat a := (save_current reg (sc_ns st) (cs ! unat a))\<lparr>remaining_ms := time_slice_ms\<rparr>]\<rparr>,
        sc_saved := (sc_saved st)[unat a := save_regs reg (sc_ns st) (sc_saved st ! unat a)], sc_ns := restore_ns (cs ! unat d) (sc_saved st ! unat d) (sc_ns st),
        sc_ipc := ipc\<lparr>ipc_mem := m\<rparr>, sc_virq := virq, sc_vmpu := v8\<rparr>"
proof -
  obtain ipc where drain: "ipc_drain_queue (se_rounds env) (ipc_env_of env st) a (sc_ipc st) = Inr ipc"
    using tick_stops [OF ok] run by (cases "ipc_drain_queue (se_rounds env) (ipc_env_of env st) a (sc_ipc st)") (auto simp: a_def)
  show ?thesis using tick_result [OF ok rel drain [unfolded a_def], of reg] unfolding run sum.inject prod.inject a_def d_def cs_def by blast
qed

section \<open>Any number of ticks\<close>

text \<open>
  What a box can do in its slice: it uses its registers and memory, sends messages, configures its own interrupts and SysTick, and uVisor recovers faults of it. What uVisor keeps
  for the boxes stays.
\<close>

definition box_runs :: "scheduler_env \<Rightarrow> (sau_state \<Rightarrow> u32 \<Rightarrow> u32) \<Rightarrow> scheduler_state \<Rightarrow> scheduler_state \<Rightarrow> bool" where
  "box_runs env tta st st' \<longleftrightarrow>
     (let b = g_active_box (sc_context st); vc = v8e_virq (se_virq env) in
      g_next_box_id st' = g_next_box_id st \<and> sc_context st' = sc_context st \<and> sc_saved st' = sc_saved st \<and> runs_v8m tta (sc_vmpu st) (sc_vmpu st') \<and>
      (\<exists>nvic. sc_virq st' = (sc_virq st)\<lparr>NVIC_v8m := nvic\<rparr> \<and> itns_v8m nvic = itns_v8m (NVIC_v8m (sc_virq st)) \<and>
        (\<forall>i < NVIC_VECTORS vc. vs_box_id (g_virq_states (sc_virq st) ! i) \<noteq> b \<longrightarrow> cell (sc_virq st') i = cell (sc_virq st) i)))"

text \<open>A sequence of slices with \<open>k\<close> ticks.\<close>

inductive slices :: "scheduler_env \<Rightarrow> (sau_state \<Rightarrow> u32 \<Rightarrow> u32) \<Rightarrow> nat \<Rightarrow> scheduler_state \<Rightarrow> scheduler_state \<Rightarrow> bool" for env tta where
  slices_refl: "slices env tta 0 st st"
| slices_run: "slices env tta k st st1 \<Longrightarrow> box_runs env tta st1 st2 \<Longrightarrow> slices env tta k st st2"
| slices_tick: "slices env tta k st st1 \<Longrightarrow> scheduler_tick env reg st1 = Inr (reg', st2) \<Longrightarrow> slices env tta (Suc k) st st2"

lemma opens_only_granted_self:
  assumes "v8m_ok st0" "opens_only_granted st0 st"
  shows "v8m_ok st" "opens_only_granted st st" "sau_region_count (v8_sau st) = sau_region_count (v8_sau st0)"
proof -
  note f = opens_only_granted_frame [OF assms] and ok = v8m_ok_parts [OF assms(1)]
  have inv: "sau_ok (v8_sau st)" "sau_region (v8_sau st) = sau_region (v8_sau st0)" "sau_box_region (v8_sau st) = sau_box_region (v8_sau st0)"
    "sau_region_count (v8_sau st) = sau_region_count (v8_sau st0)" using f(1) by (simp_all add: sau_inv_def)
  have "sau_slices_ok (v8_sau st)" using ok(2) unfolding sau_slices_ok_def inv .
  then show v: "v8m_ok st" "sau_region_count (v8_sau st) = sau_region_count (v8_sau st0)" using inv ok f(2,3) by (simp_all add: v8m_ok_def)
  have "grants st = grants st0" by (simp add: grants_def fun_eq_iff f(4-9))
  then show "opens_only_granted st st" using f(1,2) v8m_ok_parts(3) [OF v(1)]
    by (auto simp: opens_only_granted_def sau_inv_def pa_ok_def maps_ok_def intro!: exI [of _ "g_page_fault_table (v8_pages st)"])
qed

lemma sched_ok_runs:
  assumes ok: "sched_ok env st" and run: "box_runs env tta st st'"
  shows "sched_ok env st'"
proof -
  note okD = sched_okD [OF ok]
  obtain nvic where virq: "sc_virq st' = (sc_virq st)\<lparr>NVIC_v8m := nvic\<rparr>" "itns_v8m nvic = itns_v8m (NVIC_v8m (sc_virq st))"
    "\<forall>i < NVIC_VECTORS (v8e_virq (se_virq env)). vs_box_id (g_virq_states (sc_virq st) ! i) \<noteq> g_active_box (sc_context st) \<longrightarrow> cell (sc_virq st') i = cell (sc_virq st) i"
    and kept: "g_next_box_id st' = g_next_box_id st" "sc_context st' = sc_context st" "sc_saved st' = sc_saved st" and v8: "runs_v8m tta (sc_vmpu st) (sc_vmpu st')"
    using run by (auto simp: box_runs_def Let_def)
  have "iser_v8m nvic i = iser_v8m (NVIC_v8m (sc_virq st)) i"
    if "i < NVIC_VECTORS (v8e_virq (se_virq env))" "vs_box_id (g_virq_states (sc_virq st) ! i) \<noteq> g_active_box (sc_context st)" for i
  proof -
    have "cell (sc_virq st') i = cell (sc_virq st) i" using virq(3) that by blast
    then show ?thesis by (simp add: virq(1) cell_def)
  qed
  then have irqs: "irqs_of (v8e_virq (se_virq env)) (sc_virq st') (g_active_box (sc_context st))"
    using okD(14) by (auto simp: irqs_of_def virq(1,2))
  have opens: "opens_only_granted (sc_vmpu st) (sc_vmpu st')" by (rule runs_v8m_inv [OF v8 okD(6,10)])
  note self = opens_only_granted_self [OF okD(6) opens] and frame = opens_only_granted_frame [OF okD(6) opens]
  show ?thesis using okD self irqs unfolding sched_ok_def Let_def kept frame(2,4) by (simp add: virq(1) frame(2))
qed

lemma sched_ok_tick:
  fixes env st
  defines "a \<equiv> unat (g_active_box (sc_context st))"
  assumes ok: "sched_ok env st" and rel: "\<not> debug (v8e_build (se_virq env))" and run: "scheduler_tick env reg st = Inr (reg', st')"
  shows "sched_ok env st'" "unat (g_active_box (sc_context st')) = (a + 1) mod unat (se_box_count env)"
    "b \<noteq> a \<Longrightarrow> sc_saved st' ! b = sc_saved st ! b \<and> g_context_current_states (sc_context st') ! b = g_context_current_states (sc_context st) ! b"
proof -
  note okD = sched_okD [OF ok] and nb = next_box [OF ok, folded a_def]
  let ?a = "g_active_box (sc_context st)" and ?d = "word_of_int (g_next_box_id st) :: u8" and ?cs = "g_context_current_states (sc_context st)" and ?n = "se_box_count env"
  obtain ipc m virq v8 where virq: "virq_switch (se_virq env) ?a ?d (sc_virq st) = Inr virq" and opens: "opens_only_granted ((sc_vmpu st)\<lparr>v8_active_box := ?d\<rparr>) v8"
    and st': "st' = st\<lparr>g_next_box_id := (g_next_box_id st + 1) mod int (unat ?n),
        sc_context := (sc_context st)\<lparr>g_active_box := ?d, g_context_current_states := ?cs[a := (save_current reg (sc_ns st) (?cs ! a))\<lparr>remaining_ms := time_slice_ms\<rparr>]\<rparr>,
        sc_saved := (sc_saved st)[a := save_regs reg (sc_ns st) (sc_saved st ! a)], sc_ns := restore_ns (?cs ! unat ?d) (sc_saved st ! unat ?d) (sc_ns st),
        sc_ipc := ipc\<lparr>ipc_mem := m\<rparr>, sc_virq := virq, sc_vmpu := v8\<rparr>"
    using tick_Inr [OF ok rel run] unfolding a_def by blast
  have d: "?d < ?n" "unat ?d < UVISOR_MAX_BOXES" using nb(3) okD(2) by (auto simp: ctx_ok_def word_less_nat_alt)
  show "unat (g_active_box (sc_context st')) = (a + 1) mod unat ?n" by (simp add: st' nb(2))
  show "b \<noteq> a \<Longrightarrow> sc_saved st' ! b = sc_saved st ! b \<and> g_context_current_states (sc_context st') ! b = ?cs ! b" by (simp add: st')
  have v8m: "v8m_ok ((sc_vmpu st)\<lparr>v8_active_box := ?d\<rparr>)" using okD(6) d(2) by (simp add: v8m_ok_def)
  note self = opens_only_granted_self [OF v8m opens] and frame = opens_only_granted_frame [OF v8m opens] and vlen = virq_switch_lengths [OF virq]
  have irqs: "irqs_of (v8e_virq (se_virq env)) virq ?d" using virq_switch_isolates [OF virq _ okD(14)] nb(4) by metis
  have next_id: "(g_next_box_id st + 1) mod int (unat ?n) = int ((unat ?d + 1) mod unat ?n)" using okD(4) nb(2) by (simp add: a_def zmod_int add.commute)
  have ctx: "ctx_ok ?n (sc_context st')" using okD(2) d by (auto simp: st' ctx_ok_def ctx_stack_def)
  have rem: "0 \<le> remaining_ms (g_context_current_states (sc_context st') ! i) \<and> remaining_ms (g_context_current_states (sc_context st') ! i) \<le> time_slice_ms" if "i < unat ?n" for i
    using okD(5) [OF that] okD(2) that by (cases "i = a") (auto simp: st' time_slice_ms_def nth_list_update ctx_ok_def)
  show "sched_ok env st'"
    unfolding sched_ok_def Let_def using okD(1-3,8,9,11-13) self irqs ctx rem vlen frame(2,4) next_id by (simp add: st')
qed

lemma slices_ok:
  assumes "slices env tta k st st'" "sched_ok env st" "\<not> debug (v8e_build (se_virq env))"
  shows "sched_ok env st' \<and> unat (g_active_box (sc_context st')) = (unat (g_active_box (sc_context st)) + k) mod unat (se_box_count env)"
  using assms
proof (induction rule: slices.induct)
  case (slices_refl st)
  then show ?case using sched_okD(2) [OF slices_refl(1)] by (simp add: ctx_ok_def word_less_nat_alt)
next
  case (slices_run k st st1 st2)
  then show ?case using sched_ok_runs [OF _ slices_run(2)] by (auto simp: box_runs_def Let_def)
next
  case (slices_tick k st st1 reg reg' st2)
  then show ?case using sched_ok_tick(1,2) [OF _ slices_tick(5,2)] by (auto simp: mod_Suc_eq)
qed

text \<open>As long as a box does not become active again, what is saved for it stays.\<close>

lemma slices_saved:
  assumes "slices env tta k st st'" "sched_ok env st" "\<not> debug (v8e_build (se_virq env))"
    "\<And>j. j < k \<Longrightarrow> (unat (g_active_box (sc_context st)) + j) mod unat (se_box_count env) \<noteq> b"
  shows "sc_saved st' ! b = sc_saved st ! b \<and> g_context_current_states (sc_context st') ! b = g_context_current_states (sc_context st) ! b"
  using assms
proof (induction rule: slices.induct)
  case (slices_tick k st st1 reg reg' st2)
  have ok: "sched_ok env st1" "unat (g_active_box (sc_context st1)) \<noteq> b"
    using slices_ok [OF slices_tick(1,4,5)] slices_tick(6) [of k] by auto
  then show ?case using sched_ok_tick(3) [OF ok(1) slices_tick(5,2), of b] slices_tick.IH slices_tick.prems by auto
qed (auto simp: box_runs_def Let_def)


lemma mod_turn: "a < n \<Longrightarrow> 0 < i \<Longrightarrow> i < n \<Longrightarrow> (a + i) mod n \<noteq> a" for n :: nat
proof (cases "a + i < n")
  case False
  assume "a < n" "0 < i" "i < n"
  then have "(a + i) mod n = a + i - n" using False by (simp add: mod_if)
  then show ?thesis using \<open>i < n\<close> \<open>0 < i\<close> False by arith
qed simp

lemma save_restore:
  assumes "s = save_regs reg ns s0" "ctx_lr cur = reg_lr reg" "ctx_msp cur = MSP_NS ns" "ctx_msplim cur = MSPLIM_NS ns"
  shows "restore_regs cur s reg2 = (if EXC_FROM_S (reg_lr reg) then reg else
      reg\<lparr>reg_r0 := reg_r0 reg2, reg_r1 := reg_r1 reg2, reg_r2 := reg_r2 reg2, reg_r3 := reg_r3 reg2, reg_r12 := reg_r12 reg2,
        reg_retlr := reg_retlr reg2, reg_retaddr := reg_retaddr reg2, reg_retpsr := reg_retpsr reg2\<rparr>)" "restore_ns cur s ns2 = ns\<lparr>SP_NS := SP_NS ns2\<rparr>"
  using assms by (simp_all add: restore_regs_def restore_ns_def restore_frame_def save_regs_def save_frame_def)

text \<open>
  C9: A box that was interrupted continues where it was. When the timer interrupts a box, its turn comes back with the tick after one slice of each other box. Then the registers \<open>r4\<close> to
  \<open>r11\<close> and \<open>lr\<close> are as they were, as is the exception frame when it was stacked on the secure side, and the non-secure stack pointers, stack limits and
  mask registers.
\<close>

theorem scheduler_resumes_box:
  fixes env st
  defines "n \<equiv> unat (se_box_count env)"
  assumes ok: "sched_ok env st" and rel: "\<not> debug (v8e_build (se_virq env))" and first: "scheduler_tick env reg st = Inr (reg1, st1)"
    and between: "slices env tta (n - 2) st1 st2" and last: "scheduler_tick env reg2 st2 = Inr (reg3, st3)"
  shows "g_active_box (sc_context st3) = g_active_box (sc_context st) \<and> sc_ns st3 = (sc_ns st)\<lparr>SP_NS := SP_NS (sc_ns st2)\<rparr> \<and>
    reg3 = (if EXC_FROM_S (reg_lr reg) then reg else
      reg\<lparr>reg_r0 := reg_r0 reg2, reg_r1 := reg_r1 reg2, reg_r2 := reg_r2 reg2, reg_r3 := reg_r3 reg2, reg_r12 := reg_r12 reg2,
        reg_retlr := reg_retlr reg2, reg_retaddr := reg_retaddr reg2, reg_retpsr := reg_retpsr reg2\<rparr>)"
proof -
  let ?a = "g_active_box (sc_context st)" and ?cs = "g_context_current_states (sc_context st)" and ?cs2 = "g_context_current_states (sc_context st2)"
  have n: "2 \<le> n" "unat ?a < n" "unat ?a < length ?cs" "unat ?a < length (sc_saved st)"
    using sched_okD(1-3) [OF ok] by (auto simp: n_def ctx_ok_def word_le_nat_alt word_less_nat_alt)
  note one = sched_ok_tick [OF ok rel first, folded n_def]
  have apart: "(unat (g_active_box (sc_context st1)) + j) mod n \<noteq> unat ?a" if "j < n - 2" for j
    using mod_turn [OF n(2), of "Suc j"] that by (simp add: one(2) mod_add_left_eq)
  note two = slices_ok [OF between one(1) rel, folded n_def] and kept = slices_saved [OF between one(1) rel, folded n_def, OF apart]
  have "(unat (g_active_box (sc_context st2)) + 1) mod n = (unat ?a + 1 + (n - 2) + 1) mod n" using two by (simp add: one(2) mod_simps)
  moreover have "unat ?a + 1 + (n - 2) + 1 = unat ?a + n" using n(1) by simp
  ultimately have turn: "(unat (g_active_box (sc_context st2)) + 1) mod n = unat ?a" using n(2) by (simp only: mod_add_self2 mod_less)
  then have d: "word_of_int (g_next_box_id st2) = ?a" using next_box(2) [OF conjunct1 [OF two], folded n_def] by (simp add: word_unat_eq_iff)
  have saved: "sc_saved st2 ! unat ?a = save_regs reg (sc_ns st) (sc_saved st ! unat ?a)"
    "?cs2 ! unat ?a = (save_current reg (sc_ns st) (?cs ! unat ?a))\<lparr>remaining_ms := time_slice_ms\<rparr>"
    using kept tick_Inr [OF ok rel first] n(3,4) by auto
  have "reg3 = restore_regs (?cs2 ! unat ?a) (sc_saved st2 ! unat ?a) reg2" "sc_ns st3 = restore_ns (?cs2 ! unat ?a) (sc_saved st2 ! unat ?a) (sc_ns st2)"
    "g_active_box (sc_context st3) = ?a"
    using tick_Inr [OF conjunct1 [OF two] rel last] by (auto simp: d)
  then show ?thesis using save_restore [OF saved(1), of "?cs2 ! unat ?a"] by (simp add: saved(2) save_current_def)
qed

section \<open>A system with one box\<close>

text \<open>The next box is 1 at the start, whatever the number of boxes: when the public box is the only one, the first tick halts.\<close>

theorem scheduler_tick_single_box_halts:
  assumes n: "se_box_count env = 1" "ctx_ok 1 (sc_context st)" "length (sc_saved st) = UVISOR_MAX_BOXES" and next_box: "g_next_box_id st = 1"
    and ms: "remaining_ms (g_context_current_states (sc_context st) ! 0) = 100"
    and drain: "ipc_drain_queue (se_rounds env) (ipc_env_of env st) 0 (sc_ipc st) = Inr ipc"
  shows "scheduler_tick env reg st = Inl (Halt SANITY_CHECK_FAILED)"
proof -
  let ?cs = "g_context_current_states (sc_context st)"
  have a: "g_active_box (sc_context st) = 0" "0 < length ?cs" "0 < length (sc_saved st)" using n(2,3) by (auto simp: ctx_ok_def UVISOR_MAX_BOXES_def unsigned_word_eqI word_less_nat_alt)
  define st1 where "st1 = (set_remaining 0 0 st)\<lparr>g_next_box_id := 0\<rparr>"
  have st1: "ipc_env_of env st1 = ipc_env_of env st" "g_active_box (sc_context st1) = 0" "sc_ipc st1 = sc_ipc st" "length (g_context_current_states (sc_context st1)) = length ?cs"
    "sc_saved st1 = sc_saved st"
    unfolding st1_def ipc_env_of_cong by (simp_all add: set_remaining_def a)
  then have "dispatch env 1 0 reg st1 = Inl (Halt SANITY_CHECK_FAILED)"
    using drain a by (simp add: dispatch_def context_switch_in_def vmpu_is_box_id_valid_def n(1) Let_def)
  then show ?thesis using a ms by (simp add: scheduler_tick_def scheduler_delta_add_def Let_def time_slice_ms_def next_box n(1) st1_def set_remaining_def)
qed

section \<open>Examples\<close>

text \<open>Two boxes without messages; box 1 runs and is interrupted.\<close>

definition example_sched_env :: scheduler_env where
  "example_sched_env = \<lparr>se_cfg = example_config, se_virq = example_v8e, se_box_count = 2, se_rounds = 0\<rparr>"

definition example_saved :: TContextSavedState where
  "example_saved = \<lparr>cs_r0 = 0, cs_r1 = 0, cs_r2 = 0, cs_r3 = 0, cs_r12 = 0, cs_retaddr = 0, cs_retlr = 0, cs_retpsr = 0, cs_psp = 0, cs_r4 = 0, cs_r5 = 0, cs_r6 = 0, cs_r7 = 0,
     cs_r8 = 0, cs_r9 = 0, cs_r10 = 0, cs_r11 = 0, cs_psplim = 0, cs_control = 0, cs_basepri = 0, cs_faultmask = 0, cs_primask = 0\<rparr>"

definition example_sched :: scheduler_state where
  "example_sched = \<lparr>g_next_box_id = 0, sc_context = example_contexts, sc_saved = replicate 5 example_saved,
     sc_ns = \<lparr>SP_NS = 0x20001800, PSP_NS = 0x20001800, MSP_NS = 0, PSPLIM_NS = 0x20001000, MSPLIM_NS = 0, CONTROL_NS = 3, BASEPRI_NS = 0, FAULTMASK_NS = 0, PRIMASK_NS = 0\<rparr>,
     sc_ipc = example_sent\<lparr>ipc_mem := \<lambda>_. 0\<rparr>, sc_virq = example_virq_v8m 0, sc_vmpu = example_v8m, SysTick_CTRL = 0, SysTick_LOAD = 0, SysTick_VAL = 0\<rparr>"

definition example_reg :: saved_reg where
  "example_reg = \<lparr>reg_r4 = 4, reg_r5 = 5, reg_r6 = 6, reg_r7 = 7, reg_r8 = 8, reg_r9 = 9, reg_r10 = 10, reg_r11 = 11, reg_lr = 0xFFFFFFF9, reg_r0 = 100, reg_r1 = 101, reg_r2 = 102,
     reg_r3 = 103, reg_r12 = 112, reg_retlr = 1, reg_retaddr = 0x1000, reg_retpsr = 0x01000000\<rparr>"

lemma example_sched_ok: "sched_ok example_sched_env example_sched" "\<not> debug (v8e_build (se_virq example_sched_env))"
proof -
  have one: "c = 1" if "c \<noteq> 0" "c < (2 :: u8)" for c
  proof -
    have "unat c < 2" "unat c \<noteq> 0" using that by (simp_all add: word_less_nat_alt unat_eq_zero)
    then have "unat c = 1" by linarith
    then show ?thesis by (simp add: word_unat_eq_iff)
  qed
  have "irqs_of (v8e_virq example_v8e) (example_virq_v8m 0) 1" by (auto simp: irqs_of_def example_virq_v8m_def less_2_cases_iff)
  moreover have "ctx_ok 2 example_contexts" by (simp add: ctx_ok_def example_contexts_def context_consts UVISOR_MAX_BOXES_def ctx_stack_def)
  moreover have "g_active_box example_contexts = 1" "\<forall>b < 2. remaining_ms (g_context_current_states example_contexts ! b) = 0" "sau_region_count (v8_sau example_v8m) \<noteq> 0"
    by (simp_all add: example_contexts_def example_v8m_def less_2_cases_iff)
  moreover have "sau_regions_of (v8_sau example_v8m) c \<noteq> []" if "c \<noteq> 0" "c < (2 :: u8)" for c
    unfolding one [OF that] by (simp add: example_v8m_def sau_regions_of_def)
  ultimately show "sched_ok example_sched_env example_sched"
    using example_v8m_ok(1) example_v8m_open example_shape [of 0]
    by (auto simp: sched_ok_def Let_def example_sched_def example_sched_env_def example_v8m_regs(3) UVISOR_MAX_BOXES_def time_slice_ms_def)
qed (simp add: example_sched_env_def)

lemma no_ipc_drains:
  assumes "ipc_mem (sc_ipc st) = (\<lambda>_. 0)"
  shows "ipc_drain_queue (se_rounds example_sched_env) (ipc_env_of example_sched_env st) b (sc_ipc st) = Inr (sc_ipc st)"
  using assms by (simp add: ipc_drain_queue_def ipc_of_box_def ipc_env_of_def read32_def UVISOR_GET_S_ALIAS_def ipc_is_ok_def and_res_def example_sched_env_def example_v8e_def example_build_def)

lemma example_ticks:
  "\<exists>reg1 st1 reg3 st3. scheduler_tick example_sched_env example_reg example_sched = Inr (reg1, st1) \<and>
    slices example_sched_env example_tta 0 st1 (st1\<lparr>sc_ipc := sc_ipc example_sched\<rparr>) \<and> scheduler_tick example_sched_env reg1 (st1\<lparr>sc_ipc := sc_ipc example_sched\<rparr>) = Inr (reg3, st3)"
proof -
  note ok = example_sched_ok
  have m: "ipc_mem (sc_ipc example_sched) = (\<lambda>_. 0)" by (simp add: example_sched_def)
  obtain reg1 st1 where one: "scheduler_tick example_sched_env example_reg example_sched = Inr (reg1, st1)"
    using tick_result [OF ok no_ipc_drains [OF m]] by blast
  let ?st2 = "st1\<lparr>sc_ipc := sc_ipc example_sched\<rparr>"
  have "box_runs example_sched_env example_tta st1 ?st2"
    by (auto simp: box_runs_def Let_def cell_def intro: runs_refl exI [of _ "NVIC_v8m (sc_virq st1)"])
  then have between: "slices example_sched_env example_tta 0 st1 ?st2" by (rule slices_run [OF slices_refl])
  have "sched_ok example_sched_env ?st2" using slices_ok [OF between sched_ok_tick(1) [OF ok one] ok(2)] by simp
  then obtain reg3 st3 where "scheduler_tick example_sched_env reg1 ?st2 = Inr (reg3, st3)"
    using tick_result [OF _ ok(2) no_ipc_drains, of ?st2 reg1] m by auto
  then show ?thesis using one between by blast
qed


theorem scheduler_resumes_box_witness:
  "\<exists>reg1 st1 reg3 st3. scheduler_tick example_sched_env example_reg example_sched = Inr (reg1, st1) \<and> reg_r4 reg1 = 0 \<and>
    scheduler_tick example_sched_env reg1 (st1\<lparr>sc_ipc := sc_ipc example_sched\<rparr>) = Inr (reg3, st3) \<and> reg3 = example_reg \<and> PSP_NS (sc_ns st3) = 0x20001800"
proof -
  obtain reg1 st1 reg3 st3 where run: "scheduler_tick example_sched_env example_reg example_sched = Inr (reg1, st1)"
    "slices example_sched_env example_tta 0 st1 (st1\<lparr>sc_ipc := sc_ipc example_sched\<rparr>)"
    "scheduler_tick example_sched_env reg1 (st1\<lparr>sc_ipc := sc_ipc example_sched\<rparr>) = Inr (reg3, st3)"
    using example_ticks by blast
  have "unat (se_box_count example_sched_env) - 2 = 0" "EXC_FROM_S (reg_lr example_reg)"
    by (simp_all add: example_sched_env_def EXC_FROM_S_def EXC_RETURN_S_Msk_def example_reg_def)
  then have "reg3 = example_reg" "PSP_NS (sc_ns st3) = 0x20001800"
    using scheduler_resumes_box [OF example_sched_ok run(1) _ run(3), of example_tta] run(2) by (simp_all add: example_sched_def)
  moreover have "reg_r4 reg1 = 0"
    using tick_Inr [OF example_sched_ok run(1)] by (auto simp: restore_regs_def example_sched_def example_saved_def)
  ultimately show ?thesis using run(1,3) by blast
qed

end
