(* ===== verification/Rpc.thy ===== *)
theory Rpc
  imports Pool_Queue Vmpu_Sanity Context Box_Api
begin

text \<open>
  Remote procedure calls: the delivery in \<^verbatim>\<open>core/system/src/rpc.c\<close>, the functions of the boxes in \<^verbatim>\<open>api/src/rpc.c\<close> and the set-up of the queues
  in \<^verbatim>\<open>api/rtx/src/box_init.c\<close>. They are used on ARMv7-M, where an address has no alias. Queues and pools are kept by
  address, apart from the rest of memory; messages, function groups and gateways are bytes in memory. The operating system is a parameter: whether a
  semaphore can be posted, and what happens while a box waits for one. Posted semaphores are recorded.
\<close>

unbundle bit_operations_syntax

section \<open>Data\<close>

definition UVISOR_RESULT_SLOT_BITS :: nat where "UVISOR_RESULT_SLOT_BITS = 10"
definition UVISOR_RESULT_SLOT_MASK :: u32 where "UVISOR_RESULT_SLOT_MASK = push_bit UVISOR_RESULT_SLOT_BITS 1 - 1"
definition UVISOR_RESULT_COUNTER_MASK :: u32 where "UVISOR_RESULT_COUNTER_MASK = push_bit UVISOR_RESULT_SLOT_BITS 0xFFFFFFFF"
definition UVISOR_RESULT_COUNTER_INCREMENT :: u32 where "UVISOR_RESULT_COUNTER_INCREMENT = push_bit UVISOR_RESULT_SLOT_BITS 2"
definition UVISOR_RESULT_INVALID_COUNTER :: u32 where "UVISOR_RESULT_INVALID_COUNTER = UVISOR_RESULT_COUNTER_MASK"

lemmas result_consts = UVISOR_RESULT_SLOT_BITS_def UVISOR_RESULT_SLOT_MASK_def UVISOR_RESULT_COUNTER_MASK_def
  UVISOR_RESULT_COUNTER_INCREMENT_def UVISOR_RESULT_INVALID_COUNTER_def

definition uvisor_result_slot :: "u32 \<Rightarrow> u8" where "uvisor_result_slot r = ucast (r AND UVISOR_RESULT_SLOT_MASK)"
definition uvisor_result_counter :: "u32 \<Rightarrow> u32" where "uvisor_result_counter r = r AND UVISOR_RESULT_COUNTER_MASK"

definition uvisor_result_build :: "u32 \<Rightarrow> u8 \<Rightarrow> u32" where
  "uvisor_result_build counter slot = (counter AND UVISOR_RESULT_COUNTER_MASK) OR (ucast slot AND UVISOR_RESULT_SLOT_MASK)"

text \<open>The states of a message, stored in one byte.\<close>

definition UVISOR_RPC_MESSAGE_STATE_IDLE :: u8 where "UVISOR_RPC_MESSAGE_STATE_IDLE = 1"
definition UVISOR_RPC_MESSAGE_STATE_READY_TO_SEND :: u8 where "UVISOR_RPC_MESSAGE_STATE_READY_TO_SEND = 2"
definition UVISOR_RPC_MESSAGE_STATE_SENT :: u8 where "UVISOR_RPC_MESSAGE_STATE_SENT = 3"
definition UVISOR_RPC_MESSAGE_STATE_DONE :: u8 where "UVISOR_RPC_MESSAGE_STATE_DONE = 4"

lemmas message_states = UVISOR_RPC_MESSAGE_STATE_IDLE_def UVISOR_RPC_MESSAGE_STATE_READY_TO_SEND_def UVISOR_RPC_MESSAGE_STATE_SENT_def
  UVISOR_RPC_MESSAGE_STATE_DONE_def

text \<open>The layout of \<open>uvisor_rpc_message_t\<close>, after four parameters.\<close>

definition msg_gateway :: u32 where "msg_gateway = 16"
definition msg_other_box_id :: u32 where "msg_other_box_id = 20"
definition msg_semaphore :: u32 where "msg_semaphore = 24"
definition msg_wait_cookie :: u32 where "msg_wait_cookie = 60"
definition msg_match_cookie :: u32 where "msg_match_cookie = 64"
definition msg_state :: u32 where "msg_state = 68"
definition msg_result :: u32 where "msg_result = 72"
definition sizeof_message :: u32 where "sizeof_message = 76"

lemmas message_layout = msg_gateway_def msg_other_box_id_def msg_semaphore_def msg_wait_cookie_def msg_match_cookie_def msg_state_def
  msg_result_def sizeof_message_def

text \<open>\<open>uvisor_rpc_fn_group_t\<close>, and \<open>uvisor_rpc_t\<close> with the parts of its queues.\<close>

definition group_fn_count :: u32 where "group_fn_count = 4"
definition group_semaphore :: u32 where "group_semaphore = 8"
definition sizeof_fn_group :: u32 where "sizeof_fn_group = 44"

definition UVISOR_RPC_OUTGOING_MESSAGE_SLOTS :: u32 where "UVISOR_RPC_OUTGOING_MESSAGE_SLOTS = 8"
definition UVISOR_RPC_INCOMING_MESSAGE_SLOTS :: u32 where "UVISOR_RPC_INCOMING_MESSAGE_SLOTS = 8"
definition UVISOR_RPC_FN_GROUP_SLOTS :: u32 where "UVISOR_RPC_FN_GROUP_SLOTS = 8"

definition outgoing_queue :: u32 where "outgoing_queue = 0"
definition outgoing_pool :: u32 where "outgoing_pool = 12"
definition outgoing_messages :: u32 where "outgoing_messages = 44"
definition incoming_todo :: u32 where "incoming_todo = 652"
definition incoming_done :: u32 where "incoming_done = 664"
definition incoming_pool :: u32 where "incoming_pool = 676"
definition incoming_messages :: u32 where "incoming_messages = 708"
definition groups_queue :: u32 where "groups_queue = 1316"
definition groups_pool :: u32 where "groups_pool = 1328"
definition groups_array :: u32 where "groups_array = 1360"
definition result_counter :: u32 where "result_counter = 1712"

lemmas rpc_layout = group_fn_count_def group_semaphore_def sizeof_fn_group_def UVISOR_RPC_OUTGOING_MESSAGE_SLOTS_def
  UVISOR_RPC_INCOMING_MESSAGE_SLOTS_def UVISOR_RPC_FN_GROUP_SLOTS_def outgoing_queue_def outgoing_pool_def outgoing_messages_def
  incoming_todo_def incoming_done_def incoming_pool_def incoming_messages_def groups_queue_def groups_pool_def groups_array_def result_counter_def

definition index_rpc :: u32 where "index_rpc = 12"

definition uvisor_rpc :: "mem \<Rightarrow> u32 \<Rightarrow> u32" where
  "uvisor_rpc m index = read32 m (index + index_rpc)"

record TRPCGateway =
  ldr_pc :: u32
  gw_magic :: u32
  box_ptr :: u32
  target :: u32
  caller :: u32

definition gateway_at :: "mem \<Rightarrow> u32 \<Rightarrow> TRPCGateway" where
  "gateway_at m p = \<lparr>ldr_pc = read32 m p, gw_magic = read32 m (p + 4), box_ptr = read32 m (p + 8), target = read32 m (p + 12),
     caller = read32 m (p + 16)\<rparr>"

definition UVISOR_RPC_GATEWAY_MAGIC_ASYNC :: u32 where "UVISOR_RPC_GATEWAY_MAGIC_ASYNC = UDF_OPCODE 0x07C2"
definition UVISOR_RPC_GATEWAY_MAGIC_SYNC :: u32 where "UVISOR_RPC_GATEWAY_MAGIC_SYNC = UDF_OPCODE 0x07C3"

definition LDR_PC_PC_IMM_OPCODE :: "u32 \<Rightarrow> u32 \<Rightarrow> u32" where
  "LDR_PC_PC_IMM_OPCODE instr label = 0xF000F8DF OR push_bit 16 ((label - (instr + 4)) AND 0xFFF)"

record rpc_state =
  rpc_queues :: "u32 \<Rightarrow> uvisor_pool_queue"
  rpc_pools :: "u32 \<Rightarrow> uvisor_pool"
  rpc_mem :: mem
  rpc_posted :: "u32 list"

record rpc_env =
  rpc_build :: build_config
  rpc_config :: UvisorConfig
  rpc_contexts :: "TContextCurrentState list"
  rpc_box_count :: u8
  rpc_post :: "u32 \<Rightarrow> int"

text \<open>An operation on the queue at the address \<open>q\<close> and its pool.\<close>

definition rpc_pool_of :: "u32 \<Rightarrow> rpc_state \<Rightarrow> uvisor_pool" where
  "rpc_pool_of q st = rpc_pools st (queue_pool (rpc_queues st q))"

definition on_queue ::
  "u32 \<Rightarrow> (uvisor_pool_queue \<Rightarrow> uvisor_pool \<Rightarrow> ('a \<times> uvisor_pool_queue \<times> uvisor_pool) res) \<Rightarrow> rpc_state \<Rightarrow> ('a \<times> rpc_state) res" where
  "on_queue q f st =
     bind_res (f (rpc_queues st q) (rpc_pool_of q st)) (\<lambda>(x, queue, pool).
     Inr (x, st\<lparr>rpc_queues := (rpc_queues st)(q := queue), rpc_pools := (rpc_pools st)(queue_pool (rpc_queues st q) := pool)\<rparr>))"

definition on_pool :: "u32 \<Rightarrow> (uvisor_pool \<Rightarrow> ('a \<times> uvisor_pool) res) \<Rightarrow> rpc_state \<Rightarrow> ('a \<times> rpc_state) res" where
  "on_pool q f st =
     bind_res (f (rpc_pool_of q st)) (\<lambda>(x, pool). Inr (x, st\<lparr>rpc_pools := (rpc_pools st)(queue_pool (rpc_queues st q) := pool)\<rparr>))"

section \<open>Waking up handlers\<close>

definition semaphore_post :: "rpc_env \<Rightarrow> u32 \<Rightarrow> rpc_state \<Rightarrow> int \<times> rpc_state" where
  "semaphore_post env s st = (rpc_post env s, st\<lparr>rpc_posted := rpc_posted st @ [s]\<rparr>)"

text \<open>The inner loop, over the functions of a group, and the loop over the groups, whose links are in the memory of the box.\<close>

primrec wake_group :: "rpc_env \<Rightarrow> u32 \<Rightarrow> u32 \<Rightarrow> u32 \<Rightarrow> nat list \<Rightarrow> int \<times> rpc_state \<Rightarrow> int \<times> rpc_state" where
  "wake_group env function grp fns [] r = r"
| "wake_group env function grp fns (i # js) r =
     (case r of (num_posted, st) \<Rightarrow>
      wake_group env function grp fns js
        (if read32 (rpc_mem st) (fns + 4 * of_nat i) = function then (num_posted + 1, snd (semaphore_post env (grp + group_semaphore) st))
         else (num_posted, st)))"

primrec wake_loop :: "nat \<Rightarrow> rpc_env \<Rightarrow> u32 \<Rightarrow> u32 \<Rightarrow> u32 \<Rightarrow> u8 \<Rightarrow> int \<times> rpc_state \<Rightarrow> (int \<times> rpc_state) res" where
  "wake_loop 0 env function queue groups slot r = Inl Diverge"
| "wake_loop (Suc n) env function queue groups slot r =
     (case r of (num_posted, st) \<Rightarrow>
      if slot < pool_num (rpc_pool_of queue st) then
        let grp = groups + sizeof_fn_group * ucast slot; m = rpc_mem st;
            (num_posted, st) = wake_group env function grp (read32 m grp) [0..<unat (read32 m (grp + group_fn_count))] (num_posted, st) in
        bind_res (get_entry (rpc_pool_of queue st) slot) (\<lambda>entry.
        wake_loop n env function queue groups (entry_next entry) (num_posted, st))
      else Inr (num_posted, st))"

definition wake_up_handlers_for_target :: "nat \<Rightarrow> rpc_env \<Rightarrow> u32 \<Rightarrow> nat \<Rightarrow> rpc_state \<Rightarrow> (int \<times> rpc_state) res" where
  "wake_up_handlers_for_target n env function box_id st =
     bind_res (arr_get (rpc_contexts env) box_id) (\<lambda>ctx.
     let rpc = uvisor_rpc (rpc_mem st) (ctx_bss ctx); queue = rpc + groups_queue in
     wake_loop n env function queue (rpc + groups_array) (queue_head (rpc_queues st queue)) (0, st))"

section \<open>Checks\<close>

definition callee_box_id :: "rpc_env \<Rightarrow> TRPCGateway \<Rightarrow> int" where
  "callee_box_id env gateway =
     (if box_ptr gateway AND 3 \<noteq> 0 then - 1
      else
        let box_id = sint (box_ptr gateway - cfgtbl_ptr_start (rpc_config env)) div 4 in
        if box_id < 1 \<or> box_id \<ge> int (unat (rpc_box_count env)) then - 1 else box_id)"

definition rpc_put_it_back :: "rpc_env \<Rightarrow> u32 \<Rightarrow> u8 \<Rightarrow> rpc_state \<Rightarrow> rpc_state res" where
  "rpc_put_it_back env q slot st =
     bind_res (on_queue q (\<lambda>queue pool. uvisor_pool_queue_try_enqueue queue pool slot) st) (\<lambda>(status, st).
     bind_res (assert_res (rpc_build env) (status = 0)) (\<lambda>_. Inr st))"

definition is_valid_rpc_gateway :: "rpc_env \<Rightarrow> mem \<Rightarrow> u32 \<Rightarrow> bool" where
  "is_valid_rpc_gateway env m gateway_start =
     (let cfg = rpc_config env; gateway_end = gateway_start + 20; gateway = gateway_at m gateway_start in
      if \<not> (vmpu_public_flash_addr cfg gateway_start \<and> vmpu_public_flash_addr cfg gateway_end) then False
      else if \<not> (gw_magic gateway = UVISOR_RPC_GATEWAY_MAGIC_ASYNC \<or> gw_magic gateway = UVISOR_RPC_GATEWAY_MAGIC_SYNC) then False
      else if ldr_pc gateway \<noteq> LDR_PC_PC_IMM_OPCODE 0 16 then False
      else if callee_box_id env gateway < 0 then False
      else if \<not> (vmpu_public_flash_addr cfg (caller gateway) \<and> vmpu_public_flash_addr cfg (target gateway)) then False
      else True)"

definition is_valid_queue :: "rpc_env \<Rightarrow> u32 \<Rightarrow> nat \<Rightarrow> rpc_state \<Rightarrow> bool res" where
  "is_valid_queue env q box_id st =
     bind_res (arr_get (rpc_contexts env) box_id) (\<lambda>ctx.
     let bss_start = ctx_bss ctx; bss_end = bss_start + ctx_bss_size ctx; queue = rpc_queues st q; pool_start = queue_pool queue; pool = rpc_pools st pool_start;
         inside = (\<lambda>start end_addr. start \<ge> bss_start \<and> end_addr \<le> bss_end); man_array = pool_start + 16 in
     Inr (if \<not> inside q (q + 12) then False
          else if queue_magic queue \<noteq> UVISOR_POOL_QUEUE_MAGIC then False
          else if \<not> inside pool_start (pool_start + 16) then False
          else if pool_magic pool \<noteq> UVISOR_POOL_MAGIC then False
          else if \<not> inside man_array (man_array + 2 * ucast (pool_num pool)) then False
          else if \<not> inside (pool_array pool) (pool_array pool + pool_stride pool * ucast (pool_num pool)) then False
          else True))"

section \<open>Delivering calls\<close>

definition copy_call :: "u32 \<Rightarrow> u32 \<Rightarrow> u32 \<Rightarrow> u32 \<Rightarrow> mem \<Rightarrow> mem" where
  "copy_call caller_msg callee_msg caller_box callee_box m =
     (let m = write32 m callee_msg (read32 m caller_msg);
          m = write32 m (callee_msg + 4) (read32 m (caller_msg + 4));
          m = write32 m (callee_msg + 8) (read32 m (caller_msg + 8));
          m = write32 m (callee_msg + 12) (read32 m (caller_msg + 12));
          m = write32 m (callee_msg + msg_gateway) (read32 m (caller_msg + msg_gateway));
          m = write32 m (callee_msg + msg_other_box_id) caller_box;
          m = write32 m (callee_msg + msg_match_cookie) (read32 m (caller_msg + msg_match_cookie));
          m = write8 m (callee_msg + msg_state) UVISOR_RPC_MESSAGE_STATE_SENT;
          m = write32 m (caller_msg + msg_other_box_id) callee_box
      in write8 m (caller_msg + msg_state) UVISOR_RPC_MESSAGE_STATE_SENT)"

text \<open>\<open>assert(false)\<close> before the next round.\<close>

definition drop_message :: "rpc_env \<Rightarrow> 'a \<Rightarrow> 'a res" where
  "drop_message env x = bind_res (assert_res (rpc_build env) False) (\<lambda>_. Inr x)"

text \<open>
  The part of a round in which the message is placed into the queue of the callee, whose index is at \<open>callee_index\<close>. The number \<open>w\<close> bounds the
  search for handlers.
\<close>

definition place_call :: "nat \<Rightarrow> rpc_env \<Rightarrow> u32 \<Rightarrow> u8 \<Rightarrow> u32 \<Rightarrow> u8 \<Rightarrow> u32 \<Rightarrow> nat \<Rightarrow> u32 \<Rightarrow> u32 \<Rightarrow> rpc_state \<Rightarrow> rpc_state res" where
  "place_call w env caller_queue caller_slot caller_msg caller_box gateway callee_box callee_queue callee_array st =
     bind_res (on_pool callee_queue uvisor_pool_try_allocate st) (\<lambda>(callee_slot, st).
     let retry = (\<lambda>st. if callee_slot \<ge> pool_num (rpc_pool_of callee_queue st) then rpc_put_it_back env caller_queue caller_slot st else Inr st) in
     if callee_slot < pool_num (rpc_pool_of callee_queue st) then
       let callee_msg = callee_array + sizeof_message * ucast callee_slot;
           st = st\<lparr>rpc_mem := copy_call caller_msg callee_msg (ucast caller_box) (of_nat callee_box) (rpc_mem st)\<rparr> in
       bind_res (on_queue callee_queue (\<lambda>queue pool. uvisor_pool_queue_try_enqueue queue pool callee_slot) st) (\<lambda>(status, st).
       if status \<noteq> 0 then
         bind_res (assert_res (rpc_build env) False) (\<lambda>_. rpc_put_it_back env caller_queue caller_slot st)
       else
         bind_res (wake_up_handlers_for_target w env (target (gateway_at (rpc_mem st) gateway)) callee_box st) (\<lambda>(num_posted, st). retry st))
     else retry st)"

text \<open>One round, for the message in the slot \<open>caller_slot\<close>.\<close>

definition deliver_call :: "nat \<Rightarrow> rpc_env \<Rightarrow> u32 \<Rightarrow> u32 \<Rightarrow> u8 \<Rightarrow> u8 \<Rightarrow> rpc_state \<Rightarrow> rpc_state res" where
  "deliver_call w env caller_queue caller_array caller_box caller_slot st =
     (let m = rpc_mem st; caller_msg = caller_array + sizeof_message * ucast caller_slot; gateway = read32 m (caller_msg + msg_gateway);
          callee_box = callee_box_id env (gateway_at m gateway) in
      if \<not> is_valid_rpc_gateway env m gateway then drop_message env st
      else if callee_box < 0 then drop_message env st
      else
        bind_res (arr_get (rpc_contexts env) (nat callee_box)) (\<lambda>ctx.
        let callee_queue = uvisor_rpc m (ctx_bss ctx) + incoming_todo; callee_array = pool_array (rpc_pool_of callee_queue st) in
        bind_res (is_valid_queue env callee_queue (nat callee_box) st) (\<lambda>valid.
        if \<not> valid then drop_message env st
        else place_call w env caller_queue caller_slot caller_msg caller_box gateway (nat callee_box) callee_queue callee_array st)))"

primrec message_loop :: "nat \<Rightarrow> nat \<Rightarrow> rpc_env \<Rightarrow> u32 \<Rightarrow> u32 \<Rightarrow> u8 \<Rightarrow> int \<Rightarrow> rpc_state \<Rightarrow> rpc_state res" where
  "message_loop 0 w env caller_queue caller_array caller_box first_slot st = Inl Diverge"
| "message_loop (Suc n) w env caller_queue caller_array caller_box first_slot st =
     bind_res (on_queue caller_queue uvisor_pool_queue_try_dequeue_first st) (\<lambda>(caller_slot, st).
     if caller_slot \<ge> pool_num (rpc_pool_of caller_queue st) then Inr st
     else if first_slot \<noteq> - 1 \<and> int (unat caller_slot) = first_slot then rpc_put_it_back env caller_queue caller_slot st
     else
       bind_res (deliver_call w env caller_queue caller_array caller_box caller_slot st) (\<lambda>st.
       message_loop n w env caller_queue caller_array caller_box (if first_slot = - 1 then int (unat caller_slot) else first_slot) st))"

definition drain_message_queue :: "nat \<Rightarrow> nat \<Rightarrow> rpc_env \<Rightarrow> u8 \<Rightarrow> rpc_state \<Rightarrow> rpc_state res" where
  "drain_message_queue n w env active st =
     (let caller_index = read32 (rpc_mem st) (uvisor_box_context (rpc_config env));
          caller_queue = uvisor_rpc (rpc_mem st) caller_index + outgoing_queue; caller_array = pool_array (rpc_pool_of caller_queue st) in
      bind_res (is_valid_queue env caller_queue (unat active) st) (\<lambda>valid.
      if \<not> valid then drop_message env st
      else message_loop n w env caller_queue caller_array active (- 1) st))"

section \<open>Delivering results\<close>

definition copy_result :: "u32 \<Rightarrow> u32 \<Rightarrow> mem \<Rightarrow> mem" where
  "copy_result callee_msg caller_msg m =
     (let m = write32 m (caller_msg + msg_result) (read32 m (callee_msg + msg_result));
          m = write8 m (callee_msg + msg_state) UVISOR_RPC_MESSAGE_STATE_IDLE
      in write8 m (caller_msg + msg_state) UVISOR_RPC_MESSAGE_STATE_DONE)"

text \<open>The caller waits for \<open>callee_box\<close> to complete the call in this slot.\<close>

definition awaits_result :: "mem \<Rightarrow> u32 \<Rightarrow> u32 \<Rightarrow> u8 \<Rightarrow> bool" where
  "awaits_result m caller_msg callee_msg callee_box \<longleftrightarrow>
     read32 m (caller_msg + msg_other_box_id) = ucast callee_box \<and> m (caller_msg + msg_state) = UVISOR_RPC_MESSAGE_STATE_SENT \<and>
     read32 m (caller_msg + msg_match_cookie) = read32 m (callee_msg + msg_match_cookie)"

text \<open>One round; the result says whether the loop goes on.\<close>

definition deliver_result :: "rpc_env \<Rightarrow> u32 \<Rightarrow> u32 \<Rightarrow> u8 \<Rightarrow> u8 \<Rightarrow> rpc_state \<Rightarrow> (bool \<times> rpc_state) res" where
  "deliver_result env callee_queue callee_array callee_box callee_slot st =
     (let m = rpc_mem st; callee_msg = callee_array + sizeof_message * ucast callee_slot;
          caller_slot = uvisor_result_slot (read32 m (callee_msg + msg_match_cookie)); caller_box = unat (read32 m (callee_msg + msg_other_box_id)) in
      bind_res (arr_get (rpc_contexts env) caller_box) (\<lambda>ctx.
      let caller_queue = uvisor_rpc m (ctx_bss ctx) + outgoing_queue; caller_array = pool_array (rpc_pool_of caller_queue st) in
      bind_res (is_valid_queue env caller_queue caller_box st) (\<lambda>valid.
      if \<not> valid then drop_message env (True, st)
      else
        let caller_msg = caller_array + sizeof_message * ucast caller_slot in
        if \<not> awaits_result m caller_msg callee_msg callee_box then drop_message env (True, st)
        else
          let st = st\<lparr>rpc_mem := copy_result callee_msg caller_msg m\<rparr> in
          bind_res (on_pool callee_queue (\<lambda>pool. uvisor_pool_try_free pool callee_slot) st) (\<lambda>(callee_slot, st).
          if callee_slot \<ge> pool_num (rpc_pool_of callee_queue st) then drop_message env (False, st)
          else
            case semaphore_post env (caller_msg + msg_semaphore) st of (status, st) \<Rightarrow>
            bind_res (assert_res (rpc_build env) (status = 0)) (\<lambda>_. Inr (True, st))))))"

primrec result_loop :: "nat \<Rightarrow> rpc_env \<Rightarrow> u32 \<Rightarrow> u32 \<Rightarrow> u8 \<Rightarrow> rpc_state \<Rightarrow> rpc_state res" where
  "result_loop 0 env callee_queue callee_array callee_box st = Inl Diverge"
| "result_loop (Suc n) env callee_queue callee_array callee_box st =
     bind_res (on_queue callee_queue uvisor_pool_queue_try_dequeue_first st) (\<lambda>(callee_slot, st).
     if callee_slot \<ge> pool_num (rpc_pool_of callee_queue st) then Inr st
     else
       bind_res (deliver_result env callee_queue callee_array callee_box callee_slot st) (\<lambda>(go_on, st).
       if go_on then result_loop n env callee_queue callee_array callee_box st else Inr st))"

definition drain_result_queue :: "nat \<Rightarrow> rpc_env \<Rightarrow> u8 \<Rightarrow> rpc_state \<Rightarrow> rpc_state res" where
  "drain_result_queue n env active st =
     (let callee_index = read32 (rpc_mem st) (uvisor_box_context (rpc_config env));
          callee_queue = uvisor_rpc (rpc_mem st) callee_index + incoming_done; callee_array = pool_array (rpc_pool_of callee_queue st) in
      bind_res (is_valid_queue env callee_queue (unat active) st) (\<lambda>valid.
      if \<not> valid then drop_message env st else result_loop n env callee_queue callee_array active st))"

section \<open>The functions of the boxes\<close>

text \<open>The argument \<open>rpc\<close> is the address of the structure of the box, \<open>uvisor_rpc(__uvisor_ps)\<close>. The result of sending is a status and the cookie.\<close>

definition write_call :: "u32 \<Rightarrow> u32 \<Rightarrow> u32 \<Rightarrow> u32 \<Rightarrow> u32 \<Rightarrow> u32 \<Rightarrow> u8 \<Rightarrow> mem \<Rightarrow> mem" where
  "write_call rpc p0 p1 p2 p3 gateway slot m =
     (let counter = read32 m (rpc + result_counter) + UVISOR_RESULT_COUNTER_INCREMENT; m = write32 m (rpc + result_counter) counter;
          msg = rpc + outgoing_messages + sizeof_message * ucast slot;
          m = write32 m msg p0; m = write32 m (msg + 4) p1; m = write32 m (msg + 8) p2; m = write32 m (msg + 12) p3;
          m = write32 m (msg + msg_gateway) gateway; m = write32 m (msg + msg_wait_cookie) (uvisor_result_build counter slot);
          m = write32 m (msg + msg_match_cookie) (read32 m (msg + msg_wait_cookie))
      in write8 m (msg + msg_state) UVISOR_RPC_MESSAGE_STATE_READY_TO_SEND)"

definition send_outgoing_rpc :: "u32 \<Rightarrow> u32 \<Rightarrow> u32 \<Rightarrow> u32 \<Rightarrow> u32 \<Rightarrow> u32 \<Rightarrow> rpc_state \<Rightarrow> (int \<times> u32 \<times> rpc_state) res" where
  "send_outgoing_rpc rpc p0 p1 p2 p3 gateway st =
     (let q = rpc + outgoing_queue in
      bind_res (on_pool q uvisor_pool_allocate st) (\<lambda>(slot, st).
      if slot \<ge> pool_num (rpc_pool_of q st) then Inr (- 1, 0, st)
      else
        let msg = rpc + outgoing_messages + sizeof_message * ucast slot;
            st = st\<lparr>rpc_mem := write_call rpc p0 p1 p2 p3 gateway slot (rpc_mem st)\<rparr> in
        bind_res (on_queue q (\<lambda>queue pool. bind_res (uvisor_pool_queue_enqueue queue pool slot) (\<lambda>(queue, pool). Inr ((), queue, pool))) st) (\<lambda>(_, st).
        Inr (0, read32 (rpc_mem st) (msg + msg_match_cookie), st))))"

text \<open>What happens to the system while a box waits for a semaphore, and the status it wakes up with.\<close>

type_synonym pend = "u32 \<Rightarrow> u32 \<Rightarrow> rpc_state \<Rightarrow> int \<times> rpc_state"

definition wait_for_rpc_result :: "pend \<Rightarrow> u32 \<Rightarrow> u8 \<Rightarrow> u32 \<Rightarrow> rpc_state \<Rightarrow> int \<times> rpc_state" where
  "wait_for_rpc_result pend rpc msg_slot timeout_ms = pend (rpc + outgoing_messages + sizeof_message * ucast msg_slot + msg_semaphore) timeout_ms"

text \<open>\<open>uvisor_error\<close> ends in \<open>halt_user_error\<close>, which loops forever.\<close>

definition free_outgoing_msg :: "u32 \<Rightarrow> u8 \<Rightarrow> rpc_state \<Rightarrow> rpc_state res" where
  "free_outgoing_msg rpc msg_slot st =
     (let q = rpc + outgoing_queue in
      bind_res (get_entry (rpc_pool_of q st) msg_slot) (\<lambda>entry.
      if entry_prev entry \<noteq> UVISOR_POOL_SLOT_IS_DEQUEUED then Inl Diverge
      else bind_res (on_pool q (\<lambda>pool. uvisor_pool_free pool msg_slot) st) (\<lambda>(_, st). Inr st)))"

text \<open>Sending and waiting until they succeed; \<open>others k\<close> is what other boxes do before round \<open>k\<close> counted down.\<close>

primrec send_loop ::
  "nat \<Rightarrow> (nat \<Rightarrow> rpc_state \<Rightarrow> rpc_state) \<Rightarrow> u32 \<Rightarrow> u32 \<Rightarrow> u32 \<Rightarrow> u32 \<Rightarrow> u32 \<Rightarrow> u32 \<Rightarrow> rpc_state \<Rightarrow> (u32 \<times> rpc_state) res" where
  "send_loop 0 others rpc p0 p1 p2 p3 gateway st = Inl Diverge"
| "send_loop (Suc n) others rpc p0 p1 p2 p3 gateway st =
     bind_res (send_outgoing_rpc rpc p0 p1 p2 p3 gateway st) (\<lambda>(status, cookie, st).
     if status \<noteq> 0 then send_loop n others rpc p0 p1 p2 p3 gateway (others n st) else Inr (cookie, st))"

primrec wait_loop :: "nat \<Rightarrow> (nat \<Rightarrow> pend) \<Rightarrow> u32 \<Rightarrow> u8 \<Rightarrow> rpc_state \<Rightarrow> rpc_state res" where
  "wait_loop 0 pend rpc msg_slot st = Inl Diverge"
| "wait_loop (Suc n) pend rpc msg_slot st =
     (case wait_for_rpc_result (pend n) rpc msg_slot 0xFFFFFFFF st of (status, st) \<Rightarrow>
      if status \<noteq> 0 then wait_loop n pend rpc msg_slot st else Inr st)"

definition rpc_fncall_sync ::
  "nat \<Rightarrow> (nat \<Rightarrow> rpc_state \<Rightarrow> rpc_state) \<Rightarrow> (nat \<Rightarrow> pend) \<Rightarrow> u32 \<Rightarrow> u32 \<Rightarrow> u32 \<Rightarrow> u32 \<Rightarrow> u32 \<Rightarrow> u32 \<Rightarrow> rpc_state \<Rightarrow> (u32 \<times> rpc_state) res" where
  "rpc_fncall_sync n others pend rpc p0 p1 p2 p3 gateway st =
     bind_res (send_loop n others rpc p0 p1 p2 p3 gateway st) (\<lambda>(cookie, st).
     let msg_slot = uvisor_result_slot cookie in
     bind_res (wait_loop n pend rpc msg_slot st) (\<lambda>st.
     let result_value = read32 (rpc_mem st) (rpc + outgoing_messages + sizeof_message * ucast msg_slot + msg_result) in
     bind_res (free_outgoing_msg rpc msg_slot st) (\<lambda>st. Inr (result_value, st))))"

text \<open>An error is returned as a cookie: the status -1 is the word \<open>0xFFFFFFFF\<close>.\<close>

definition rpc_fncall_async :: "u32 \<Rightarrow> u32 \<Rightarrow> u32 \<Rightarrow> u32 \<Rightarrow> u32 \<Rightarrow> u32 \<Rightarrow> rpc_state \<Rightarrow> (u32 \<times> rpc_state) res" where
  "rpc_fncall_async rpc p0 p1 p2 p3 gateway st =
     bind_res (send_outgoing_rpc rpc p0 p1 p2 p3 gateway st) (\<lambda>(status, cookie, st). Inr (if status \<noteq> 0 then word_of_int status else cookie, st))"

text \<open>The value returned through \<open>ret\<close> is the second component; it is meaningful with the status 0 only.\<close>

definition rpc_fncall_wait :: "pend \<Rightarrow> u32 \<Rightarrow> u32 \<Rightarrow> u32 \<Rightarrow> rpc_state \<Rightarrow> (int \<times> u32 option \<times> rpc_state) res" where
  "rpc_fncall_wait pend rpc result timeout_ms st =
     (let msg_slot = uvisor_result_slot result; invalid = uvisor_result_build UVISOR_RESULT_INVALID_COUNTER msg_slot;
          msg = rpc + outgoing_messages + sizeof_message * ucast msg_slot; cookie = read32 (rpc_mem st) (msg + msg_wait_cookie);
          st = (if cookie = result then st\<lparr>rpc_mem := write32 (rpc_mem st) (msg + msg_wait_cookie) invalid\<rparr> else st) in
      if cookie \<noteq> result then Inr (- 1, None, st)
      else
        case wait_for_rpc_result pend rpc msg_slot timeout_ms st of (status, st) \<Rightarrow>
        if status \<noteq> 0 then Inr (status, None, st)
        else
          let ret = read32 (rpc_mem st) (msg + msg_result) in
          bind_res (free_outgoing_msg rpc msg_slot st) (\<lambda>st. Inr (0, Some ret, st)))"

definition allocate_function_group :: "u32 \<Rightarrow> u32 \<Rightarrow> u32 \<Rightarrow> rpc_state \<Rightarrow> (u8 option \<times> rpc_state) res" where
  "allocate_function_group rpc fn_ptr_array fn_count st =
     (let q = rpc + groups_queue in
      bind_res (on_pool q uvisor_pool_allocate st) (\<lambda>(slot, st).
      if slot \<ge> pool_num (rpc_pool_of q st) then Inr (None, st)
      else
        let grp = rpc + groups_array + sizeof_fn_group * ucast slot;
            m = write32 (write32 (rpc_mem st) grp fn_ptr_array) (grp + group_fn_count) fn_count in
        bind_res (on_queue q (\<lambda>queue pool. bind_res (uvisor_pool_queue_enqueue queue pool slot) (\<lambda>(queue, pool). Inr ((), queue, pool)))
          (st\<lparr>rpc_mem := m\<rparr>)) (\<lambda>(_, st).
        Inr (Some slot, st))))"

definition get_function_group :: "u32 \<Rightarrow> u32 \<Rightarrow> rpc_state \<Rightarrow> u8 option" where
  "get_function_group rpc fn_ptr_array st =
     find (\<lambda>i. read32 (rpc_mem st) (rpc + groups_array + sizeof_fn_group * ucast i) = fn_ptr_array)
       (map of_nat [0..<unat (pool_num (rpc_pool_of (rpc + groups_queue) st))])"

definition query_for_fn_group :: "mem \<Rightarrow> u32 \<Rightarrow> u32 \<Rightarrow> u32 \<Rightarrow> u8 \<Rightarrow> bool" where
  "query_for_fn_group m rpc fn_ptr_array fn_count slot \<longleftrightarrow>
     (let msg = rpc + incoming_messages + sizeof_message * ucast slot in
      list_ex (\<lambda>i. target (gateway_at m (read32 m (msg + msg_gateway))) = read32 m (fn_ptr_array + 4 * of_nat i)) [0..<unat fn_count])"

text \<open>The functions of the box: the address of a function, its four arguments, and the state, to its result and the new state.\<close>

type_synonym box_functions = "u32 \<Rightarrow> u32 \<Rightarrow> u32 \<Rightarrow> u32 \<Rightarrow> u32 \<Rightarrow> rpc_state \<Rightarrow> u32 \<times> rpc_state"

text \<open>The result has the number of the calling box, if a message was handled.\<close>

definition handle_incoming_rpc :: "box_functions \<Rightarrow> u32 \<Rightarrow> u8 \<Rightarrow> rpc_state \<Rightarrow> (u32 option \<times> rpc_state) res" where
  "handle_incoming_rpc fns rpc grp_slot st =
     (let m = rpc_mem st; grp = rpc + groups_array + sizeof_fn_group * ucast grp_slot; todo = rpc + incoming_todo;
          query = query_for_fn_group m rpc (read32 m grp) (read32 m (grp + group_fn_count)) in
      bind_res (on_pool todo (\<lambda>pool. uvisor_pool_queue_find_first (rpc_queues st todo) pool query) st) (\<lambda>(msg_slot, st).
      if msg_slot \<ge> pool_num (rpc_pool_of todo st) then Inr (None, st)
      else
        bind_res (on_queue todo (\<lambda>queue pool. uvisor_pool_queue_dequeue queue pool msg_slot) st) (\<lambda>(msg_slot, st).
        if msg_slot \<ge> pool_num (rpc_pool_of todo st) then Inr (None, st)
        else
          let msg = rpc + incoming_messages + sizeof_message * ucast msg_slot; m = rpc_mem st; gateway = gateway_at m (read32 m (msg + msg_gateway)) in
          if \<not> (gw_magic gateway = UVISOR_RPC_GATEWAY_MAGIC_ASYNC \<or> gw_magic gateway = UVISOR_RPC_GATEWAY_MAGIC_SYNC) then Inr (None, st)
          else
            let box_id_caller = read32 m (msg + msg_other_box_id);
                (result, st) = fns (target gateway) (read32 m msg) (read32 m (msg + 4)) (read32 m (msg + 8)) (read32 m (msg + 12)) st;
                m = write8 (write32 (rpc_mem st) (msg + msg_result) result) (msg + msg_state) UVISOR_RPC_MESSAGE_STATE_DONE in
            bind_res (on_queue (rpc + incoming_done) (\<lambda>queue pool. bind_res (uvisor_pool_queue_enqueue queue pool msg_slot)
              (\<lambda>(queue, pool). Inr ((), queue, pool))) (st\<lparr>rpc_mem := m\<rparr>)) (\<lambda>(_, st).
            Inr (Some box_id_caller, st)))))"

definition rpc_fncall_waitfor :: "pend \<Rightarrow> box_functions \<Rightarrow> u32 \<Rightarrow> u32 \<Rightarrow> u32 \<Rightarrow> u32 \<Rightarrow> rpc_state \<Rightarrow> (int \<times> u32 option \<times> rpc_state) res" where
  "rpc_fncall_waitfor pend fns rpc fn_ptr_array fn_count timeout_ms st =
     (let wait = (\<lambda>slot st.
            case pend (rpc + groups_array + sizeof_fn_group * ucast slot + group_semaphore) timeout_ms st of (status, st) \<Rightarrow>
            if status \<noteq> 0 then Inr (status, None, st)
            else bind_res (handle_incoming_rpc fns rpc slot st) (\<lambda>(handled, st). Inr (if handled \<noteq> None then 0 else - 1, handled, st))) in
      case get_function_group rpc fn_ptr_array st of
        Some slot \<Rightarrow> wait slot st
      | None \<Rightarrow>
          bind_res (allocate_function_group rpc fn_ptr_array fn_count st) (\<lambda>(slot, st).
          case slot of
            None \<Rightarrow> Inr (UVISOR_ERROR_OUT_OF_STRUCTURES, None, st)
          | Some slot \<Rightarrow>
              bind_res (handle_incoming_rpc fns rpc slot st) (\<lambda>(handled, st).
              if handled \<noteq> None then Inr (0, handled, st) else wait slot st)))"

section \<open>Setting up the queues of a box\<close>

text \<open>The argument \<open>sem_init\<close> says whether a semaphore could be initialised. A failure ends in \<open>halt_user_error\<close>.\<close>

definition init_rpc_queue :: "u32 \<Rightarrow> u32 \<Rightarrow> u32 \<Rightarrow> u32 \<Rightarrow> u32 \<Rightarrow> rpc_state \<Rightarrow> rpc_state res" where
  "init_rpc_queue q p array stride num st =
     bind_res (uvisor_pool_queue_init 0 (rpc_queues st q) p (rpc_pools st p) array stride num) (\<lambda>(status, queue, pool).
     if status \<noteq> 0 then Inl Diverge else Inr (st\<lparr>rpc_queues := (rpc_queues st)(q := queue), rpc_pools := (rpc_pools st)(p := pool)\<rparr>))"

definition init_semaphores :: "(u32 \<Rightarrow> bool) \<Rightarrow> u32 \<Rightarrow> u32 \<Rightarrow> u32 \<Rightarrow> rpc_state \<Rightarrow> rpc_state res" where
  "init_semaphores sem_init first stride num st =
     (if list_all (\<lambda>i. sem_init (first + stride * of_nat i)) [0..<unat num] then Inr st else Inl Diverge)"

definition uvisor_initialize_rpc_queues :: "(u32 \<Rightarrow> bool) \<Rightarrow> u32 \<Rightarrow> rpc_state \<Rightarrow> rpc_state res" where
  "uvisor_initialize_rpc_queues sem_init rpc st =
     bind_res (init_rpc_queue (rpc + outgoing_queue) (rpc + outgoing_pool) (rpc + outgoing_messages) sizeof_message UVISOR_RPC_OUTGOING_MESSAGE_SLOTS st) (\<lambda>st.
     bind_res (init_semaphores sem_init (rpc + outgoing_messages + msg_semaphore) sizeof_message UVISOR_RPC_OUTGOING_MESSAGE_SLOTS st) (\<lambda>st.
     bind_res (init_rpc_queue (rpc + incoming_todo) (rpc + incoming_pool) (rpc + incoming_messages) sizeof_message UVISOR_RPC_INCOMING_MESSAGE_SLOTS st) (\<lambda>st.
     bind_res (init_rpc_queue (rpc + incoming_done) (rpc + incoming_pool) (rpc + incoming_messages) sizeof_message UVISOR_RPC_INCOMING_MESSAGE_SLOTS st) (\<lambda>st.
     bind_res (init_rpc_queue (rpc + groups_queue) (rpc + groups_pool) (rpc + groups_array) sizeof_fn_group UVISOR_RPC_FN_GROUP_SLOTS st) (\<lambda>st.
     init_semaphores sem_init (rpc + groups_array + group_semaphore) sizeof_fn_group UVISOR_RPC_FN_GROUP_SLOTS st)))))"

section \<open>Cookies\<close>

lemma result_slot_mask: "UVISOR_RESULT_SLOT_MASK = mask 10" "UVISOR_RESULT_COUNTER_MASK = NOT (mask 10)"
  by (simp_all add: result_consts mask_eq_exp_minus_1)

lemma u8_low: "(ucast (s :: u8) :: u32) AND mask 10 = ucast s"
  by (rule bit_word_eqI) (auto simp: bit_simps dest: bit_imp_le_length)

lemma uvisor_result_slot_build [simp]: "uvisor_result_slot (uvisor_result_build counter slot) = slot"
  unfolding uvisor_result_slot_def uvisor_result_build_def result_slot_mask by (rule bit_word_eqI) (auto simp: bit_simps)

lemma uvisor_result_counter_build: "uvisor_result_counter (uvisor_result_build counter slot) = counter AND UVISOR_RESULT_COUNTER_MASK"
  unfolding uvisor_result_counter_def uvisor_result_build_def result_slot_mask
  by (rule bit_word_eqI) (auto simp: bit_simps dest: bit_imp_le_length)

lemma counter_bit_kept: "bit (counter + UVISOR_RESULT_COUNTER_INCREMENT) 10 = bit counter 10"
proof -
  have odd_bit: "bit w 10 \<longleftrightarrow> odd (unat w div 1024)" for w :: u32
    using bit_unsigned_iff [of w 10, where 'a = nat] by (simp add: bit_iff_odd)
  have "unat (counter + 2048) = (if unat counter + 2048 < 2 ^ 32 then unat counter + 2048 else unat counter + 2048 - 2 ^ 32)"
    using unat_u32_lt [of counter] by (simp add: unat_word_ariths mod_if)
  moreover have "(unat counter + 2048) div 1024 = unat counter div 1024 + 2"
    using div_mult_self1 [of 1024 "unat counter" 2] by simp
  moreover have "(unat counter + 2048) div 1024 = (unat counter + 2048 - 2 ^ 32) div 1024 + 4194304" if "2 ^ 32 \<le> unat counter + 2048"
    using div_mult_self1 [of 1024 "unat counter + 2048 - 2 ^ 32" 4194304] that by simp
  moreover have "odd B \<longleftrightarrow> odd A" if "A + 2 = B + 4194304" for A B :: nat
    using arg_cong [OF that, of even] by simp
  ultimately have "odd (unat (counter + 2048) div 1024) \<longleftrightarrow> odd (unat counter div 1024)"
    by (cases "unat counter + 2048 < 2 ^ 32") (simp_all only: if_True if_False not_less, simp)
  then show ?thesis by (simp add: odd_bit result_consts)
qed

lemma build_not_invalid: "\<not> bit counter 10 \<Longrightarrow> uvisor_result_build counter slot \<noteq> uvisor_result_build UVISOR_RESULT_INVALID_COUNTER slot'"
proof
  assume "\<not> bit counter 10" "uvisor_result_build counter slot = uvisor_result_build UVISOR_RESULT_INVALID_COUNTER slot'"
  then have "bit (counter AND UVISOR_RESULT_COUNTER_MASK) 10 = bit (UVISOR_RESULT_INVALID_COUNTER AND UVISOR_RESULT_COUNTER_MASK) 10"
    by (metis uvisor_result_counter_build)
  then show False using \<open>\<not> bit counter 10\<close> by (simp add: bit_simps UVISOR_RESULT_INVALID_COUNTER_def result_slot_mask)
qed

lemma read32_write32_other:
  assumes "4 \<le> unat (b - a)" "4 \<le> unat (a - b)"
  shows "read32 (write32 m a v) b = read32 m b"
proof (rule read32_frame)
  fix k :: nat assume k: "k < 4"
  have "b + of_nat k \<noteq> a + of_nat j" if "j < 4" for j
  proof
    assume eq: "b + of_nat k = a + of_nat j"
    show False
    proof (cases "k \<le> j")
      case True
      then have "b - a = of_nat (j - k)" using eq by (simp add: of_nat_diff algebra_simps)
      then show False using assms(1) that unat_of_nat_u32 [of "j - k"] by simp
    next
      case False
      then have "a - b = of_nat (k - j)" using eq by (simp add: of_nat_diff algebra_simps)
      then show False using assms(2) k unat_of_nat_u32 [of "k - j"] by simp
    qed
  qed
  from this [of 0] this [of 1] this [of 2] this [of 3]
  show "write32 m a v (b + of_nat k) = m (b + of_nat k)" by (simp add: write32_def)
qed

lemma read32_write8_other: "4 \<le> unat (a - b) \<Longrightarrow> read32 (write8 m a v) b = read32 m b"
proof (rule read32_frame)
  fix k :: nat assume "4 \<le> unat (a - b)" "k < 4"
  then have "a \<noteq> b + of_nat k" using unat_of_nat_u32 [of k] by auto
  then show "write8 m a v (b + of_nat k) = m (b + of_nat k)" by (simp add: write8_def)
qed

lemma slots_below_8: "slot < 8 \<Longrightarrow> slot = 0 \<or> slot = 1 \<or> slot = 2 \<or> slot = 3 \<or> slot = 4 \<or> slot = 5 \<or> slot = 6 \<or> slot = (7 :: u8)"
proof -
  assume "slot < 8"
  then have "unat slot \<in> {0, 1, 2, 3, 4, 5, 6, 7}" by (auto simp: word_less_nat_alt)
  then show ?thesis by (auto simp: unat_eq_iff simp flip: unat_eq_iff [where 'a = 8])
qed

lemma on_queue_mem: "on_queue q f st = Inr (x, st') \<Longrightarrow> rpc_mem st' = rpc_mem st \<and> rpc_posted st' = rpc_posted st"
  by (auto simp: on_queue_def bind_res_Inr_iff)

lemma on_pool_mem: "on_pool q f st = Inr (x, st') \<Longrightarrow> rpc_mem st' = rpc_mem st \<and> rpc_posted st' = rpc_posted st \<and> rpc_queues st' = rpc_queues st"
  by (auto simp: on_pool_def bind_res_Inr_iff)

lemma on_pool_shape:
  "on_pool q f st = Inr (x, st') \<Longrightarrow> pool_keeps f \<Longrightarrow> pool_shape (rpc_pools st' p) = pool_shape (rpc_pools st p)"
  by (auto simp: on_pool_def bind_res_Inr_iff pool_keeps_def rpc_pool_of_def)

lemma on_queue_shape:
  "on_queue q f st = Inr (x, st') \<Longrightarrow> queue_keeps f \<Longrightarrow>
     pool_shape (rpc_pools st' p) = pool_shape (rpc_pools st p) \<and> queue_pool (rpc_queues st' q') = queue_pool (rpc_queues st q')"
  by (auto simp: on_queue_def bind_res_Inr_iff queue_keeps_def rpc_pool_of_def)

lemma send_outgoing_success:
  assumes "send_outgoing_rpc rpc p0 p1 p2 p3 gateway st = Inr (0, cookie, st')"
  obtains slot where "slot < pool_num (rpc_pool_of (rpc + outgoing_queue) st)"
    "rpc_mem st' = write_call rpc p0 p1 p2 p3 gateway slot (rpc_mem st)"
    "cookie = read32 (rpc_mem st') (rpc + outgoing_messages + sizeof_message * ucast slot + msg_match_cookie)"
proof -
  let ?q = "rpc + outgoing_queue"
  obtain slot st1 st2 where st1: "on_pool ?q uvisor_pool_allocate st = Inr (slot, st1)" and slot: "slot < pool_num (rpc_pool_of ?q st1)"
    and st': "on_queue ?q (\<lambda>queue pool. bind_res (uvisor_pool_queue_enqueue queue pool slot) (\<lambda>(queue, pool). Inr ((), queue, pool)))
        (st1\<lparr>rpc_mem := write_call rpc p0 p1 p2 p3 gateway slot (rpc_mem st1)\<rparr>) = Inr ((), st')"
    and cookie: "cookie = read32 (rpc_mem st') (rpc + outgoing_messages + sizeof_message * ucast slot + msg_match_cookie)"
    using assms by (auto simp: send_outgoing_rpc_def Let_def bind_res_Inr_iff not_le split: if_splits)
  have "rpc_mem st1 = rpc_mem st" "rpc_queues st1 = rpc_queues st" using on_pool_mem [OF st1] by auto
  moreover have "pool_num (rpc_pool_of ?q st1) = pool_num (rpc_pool_of ?q st)"
    using on_pool_shape [OF st1 pool_keeps_allocate] calculation(2) by (auto simp: rpc_pool_of_def dest: pool_shape_num)
  ultimately show ?thesis using that [of slot] slot cookie on_queue_mem [OF st'] by simp
qed

lemma write_call_reads:
  fixes rpc
  assumes "slot < 8"
  defines "msg \<equiv> rpc + outgoing_messages + sizeof_message * ucast slot"
  shows "read32 (write_call rpc p0 p1 p2 p3 gateway slot m) (rpc + result_counter) = read32 m (rpc + result_counter) + UVISOR_RESULT_COUNTER_INCREMENT"
    "read32 (write_call rpc p0 p1 p2 p3 gateway slot m) (msg + msg_wait_cookie) =
       uvisor_result_build (read32 m (rpc + result_counter) + UVISOR_RESULT_COUNTER_INCREMENT) slot"
    "read32 (write_call rpc p0 p1 p2 p3 gateway slot m) (msg + msg_match_cookie) =
       uvisor_result_build (read32 m (rpc + result_counter) + UVISOR_RESULT_COUNTER_INCREMENT) slot"
  using slots_below_8 [OF assms(1)]
  by (auto simp: write_call_def Let_def msg_def message_layout rpc_layout read32_write32 read32_write32_other read32_write8_other)

text \<open>
  C34: A call that was sent gets a cookie which names the slot of its message, which is stored there for the one who waits, and which is never the
  cookie that marks a message as being waited for: the counter goes on in steps of two and bit 10 of it stays clear, also when it wraps around.
\<close>

theorem send_outgoing_rpc_cookie:
  assumes "send_outgoing_rpc rpc p0 p1 p2 p3 gateway st = Inr (0, cookie, st')"
    "pool_num (rpc_pool_of (rpc + outgoing_queue) st) \<le> 8" "\<not> bit (read32 (rpc_mem st) (rpc + result_counter)) 10"
  shows "read32 (rpc_mem st') (rpc + outgoing_messages + sizeof_message * ucast (uvisor_result_slot cookie) + msg_wait_cookie) = cookie \<and>
    cookie \<noteq> uvisor_result_build UVISOR_RESULT_INVALID_COUNTER (uvisor_result_slot cookie) \<and>
    \<not> bit (read32 (rpc_mem st') (rpc + result_counter)) 10"
proof -
  obtain slot where slot: "slot < pool_num (rpc_pool_of (rpc + outgoing_queue) st)"
    "rpc_mem st' = write_call rpc p0 p1 p2 p3 gateway slot (rpc_mem st)"
    "cookie = read32 (rpc_mem st') (rpc + outgoing_messages + sizeof_message * ucast slot + msg_match_cookie)"
    using send_outgoing_success [OF assms(1)] .
  then have "slot < 8" using assms(2) by (meson order_less_le_trans)
  note reads = write_call_reads [OF this, of rpc p0 p1 p2 p3 gateway "rpc_mem st"]
  show ?thesis using reads slot assms(3) by (simp add: counter_bit_kept build_not_invalid)
qed

section \<open>Calls are delivered into messages only\<close>

text \<open>
  The shapes of all pools and the pools of all queues are kept. An address belongs to a message if it is in an occupied slot, of the size of a message, of a
  pool whose array passes the check for some box.
\<close>

definition rpc_kept :: "rpc_state \<Rightarrow> rpc_state \<Rightarrow> bool" where
  "rpc_kept st0 st \<longleftrightarrow> (\<forall>p. pool_shape (rpc_pools st p) = pool_shape (rpc_pools st0 p)) \<and>
     (\<forall>q. queue_pool (rpc_queues st q) = queue_pool (rpc_queues st0 q))"

definition array_checked :: "TContextCurrentState \<Rightarrow> uvisor_pool \<Rightarrow> bool" where
  "array_checked ctx pool \<longleftrightarrow> ctx_bss ctx \<le> pool_array pool \<and>
     pool_array pool + pool_stride pool * ucast (pool_num pool) \<le> ctx_bss ctx + ctx_bss_size ctx"

definition in_message :: "rpc_env \<Rightarrow> rpc_state \<Rightarrow> u32 \<Rightarrow> bool" where
  "in_message env st0 a \<longleftrightarrow> (\<exists>ctx \<in> set (rpc_contexts env). \<exists>p slot. array_checked ctx (rpc_pools st0 p) \<and>
     slot < pool_num (rpc_pools st0 p) \<and> in_buffer a (pool_array (rpc_pools st0 p) + sizeof_message * ucast slot) sizeof_message)"

abbreviation rpc_confined :: "rpc_env \<Rightarrow> rpc_state \<Rightarrow> rpc_state \<Rightarrow> bool" where
  "rpc_confined env st0 \<equiv> confined_to rpc_mem (rpc_kept st0) (in_message env st0) (rpc_mem st0)"

lemma rpc_confined_refl: "rpc_confined env st st"
  by (rule confined_to_refl) (simp add: rpc_kept_def)

lemma rpc_kept_pool: "rpc_kept st0 st \<Longrightarrow> pool_shape (rpc_pool_of q st) = pool_shape (rpc_pools st0 (queue_pool (rpc_queues st0 q)))"
  by (simp add: rpc_kept_def rpc_pool_of_def)

lemma confined_on_queue:
  assumes "on_queue q f st = Inr (x, st')" "queue_keeps f" "rpc_confined env st0 st"
  shows "rpc_confined env st0 st'"
  using on_queue_mem [OF assms(1)] on_queue_shape [OF assms(1,2)] assms(3) by (simp add: confined_to_def rpc_kept_def)

lemma confined_on_pool:
  assumes "on_pool q f st = Inr (x, st')" "pool_keeps f" "rpc_confined env st0 st"
  shows "rpc_confined env st0 st'"
  using on_pool_mem [OF assms(1)] on_pool_shape [OF assms(1,2)] assms(3) by (simp add: confined_to_def rpc_kept_def)

lemma confined_rpc_put_it_back: "rpc_put_it_back env' q slot st = Inr st' \<Longrightarrow> rpc_confined env st0 st \<Longrightarrow> rpc_confined env st0 st'"
  by (auto simp: rpc_put_it_back_def bind_res_Inr_iff intro: confined_on_queue [OF _ queue_keeps_ops(2)])

lemma confined_post: "rpc_confined env st0 (st\<lparr>rpc_posted := l\<rparr>) = rpc_confined env st0 st"
  by (simp add: confined_to_def rpc_kept_def)

lemma wake_group_confined: "rpc_confined env st0 (snd r) \<Longrightarrow> rpc_confined env st0 (snd (wake_group env' f grp fns js r))"
  by (induction js arbitrary: r) (auto simp: semaphore_post_def confined_post split: prod.splits)

lemma wake_loop_confined: "wake_loop n env' f q groups slot r = Inr r' \<Longrightarrow> rpc_confined env st0 (snd r) \<Longrightarrow> rpc_confined env st0 (snd r')"
proof (induction n arbitrary: slot r)
  case (Suc n)
  obtain k st where r: "r = (k, st)" by (cases r)
  show ?case
    using Suc wake_group_confined [of st0 env "(k, st)"]
    by (auto simp: r Let_def bind_res_Inr_iff split: if_splits prod.splits) (metis snd_conv)
qed simp

lemma wake_up_confined:
  "wake_up_handlers_for_target n env' f b st = Inr (k, st') \<Longrightarrow> rpc_confined env st0 st \<Longrightarrow> rpc_confined env st0 st'"
  by (auto simp: wake_up_handlers_for_target_def Let_def bind_res_Inr_iff dest: wake_loop_confined)

lemma write_outside_message:
  assumes "\<not> in_buffer a p sizeof_message"
  shows "unat c \<le> 72 \<Longrightarrow> write32 m (p + c) v a = m a" "write32 m p v a = m a" "write8 m (p + 68) w a = m a"
  using assms write32_outside_buffer [of a p sizeof_message c] write32_outside_buffer [of a p sizeof_message 0]
    write8_outside_buffer [of a p sizeof_message 68] by (simp_all add: message_layout)

lemma copy_call_changes:
  assumes "copy_call caller_msg callee_msg b b' m a \<noteq> m a"
  shows "in_buffer a caller_msg sizeof_message \<or> in_buffer a callee_msg sizeof_message"
proof (rule ccontr)
  assume "\<not> ?thesis"
  then have out: "\<not> in_buffer a caller_msg sizeof_message" "\<not> in_buffer a callee_msg sizeof_message" by simp_all
  have "copy_call caller_msg callee_msg b b' m a = m a"
    using write_outside_message [OF out(1)] write_outside_message [OF out(2)]
    unfolding copy_call_def Let_def msg_gateway_def msg_other_box_id_def msg_match_cookie_def msg_state_def by simp
  then show False using assms by simp
qed

lemma is_valid_queue_checked:
  "is_valid_queue env q b st = Inr True \<Longrightarrow> \<exists>ctx \<in> set (rpc_contexts env). array_checked ctx (rpc_pool_of q st)"
  by (auto simp: is_valid_queue_def Let_def bind_res_Inr_iff arr_get_Inr array_checked_def rpc_pool_of_def split: if_splits)

text \<open>A slot of a pool that was checked in a state of the run is a message in the sense of the first state.\<close>

lemma checked_in_message:
  assumes "rpc_kept st0 st" "ctx \<in> set (rpc_contexts env)" "array_checked ctx (rpc_pool_of q st)" "slot < pool_num (rpc_pool_of q st)"
    "in_buffer a (pool_array (rpc_pool_of q st) + sizeof_message * ucast slot) sizeof_message"
  shows "in_message env st0 a"
  using assms rpc_kept_pool [OF assms(1), of q] unfolding in_message_def array_checked_def pool_shape_def by auto

lemma confined_place_call:
  assumes run: "place_call w env cq cslot cmsg cbox gateway b q (pool_array (rpc_pool_of q st)) st = Inr st'"
    and c: "rpc_confined env st0 st" and ctx: "ctx \<in> set (rpc_contexts env)" "array_checked ctx (rpc_pool_of q st)"
    and cmsg: "\<And>a. in_buffer a cmsg sizeof_message \<Longrightarrow> in_message env st0 a"
  shows "rpc_confined env st0 st'"
proof -
  obtain slot st1 where st1: "on_pool q uvisor_pool_try_allocate st = Inr (slot, st1)"
    using run by (auto simp: place_call_def bind_res_Inr_iff)
  have c1: "rpc_confined env st0 st1" using confined_on_pool [OF st1 pool_keeps_ops(1) c] .
  have same: "pool_shape (rpc_pool_of q st1) = pool_shape (rpc_pool_of q st)"
    using rpc_kept_pool confined_to_ok [OF c] confined_to_ok [OF c1] by metis
  define st2 where "st2 = st1\<lparr>rpc_mem := copy_call cmsg (pool_array (rpc_pool_of q st) + sizeof_message * ucast slot) (ucast cbox) (of_nat b) (rpc_mem st1)\<rparr>"
  have c2: "rpc_confined env st0 st2" if "slot < pool_num (rpc_pool_of q st1)"
  proof -
    have "in_message env st0 a" if "rpc_mem st2 a \<noteq> rpc_mem st1 a" for a
      using copy_call_changes [of cmsg _ _ _ "rpc_mem st1" a] that cmsg
        checked_in_message [OF confined_to_ok [OF c] ctx, of slot a] \<open>slot < _\<close> same
      by (auto simp: st2_def pool_shape_def)
    then show ?thesis using c1 by (auto simp: confined_to_def rpc_kept_def st2_def) metis
  qed
  show ?thesis
    using run st1 c1 c2
    by (auto simp: place_call_def Let_def bind_res_Inr_iff st2_def [symmetric] split: if_splits prod.splits
        dest: confined_on_queue [OF _ queue_keeps_ops(2)] wake_up_confined confined_rpc_put_it_back)
qed

lemma confined_deliver_call:
  assumes run: "deliver_call w env cq carray cbox cslot st = Inr st'"
    and c: "rpc_confined env st0 st" and cmsg: "\<And>a. in_buffer a (carray + sizeof_message * ucast cslot) sizeof_message \<Longrightarrow> in_message env st0 a"
  shows "rpc_confined env st0 st'"
  using run c by (auto simp: deliver_call_def drop_message_def Let_def bind_res_Inr_iff split: if_splits
      dest!: is_valid_queue_checked intro: confined_place_call [OF _ c _ _ cmsg])

lemma confined_message_loop:
  assumes "message_loop n w env cq (pool_array (rpc_pool_of cq st0)) cbox first st = Inr st'"
    "rpc_confined env st0 st" "ctx \<in> set (rpc_contexts env)" "array_checked ctx (rpc_pool_of cq st0)"
  shows "rpc_confined env st0 st'"
  using assms(1,2)
proof (induction n arbitrary: first st)
  case (Suc n)
  obtain slot st1 where st1: "on_queue cq uvisor_pool_queue_try_dequeue_first st = Inr (slot, st1)" using Suc.prems(1) by (auto simp: bind_res_Inr_iff)
  have c1: "rpc_confined env st0 st1" using confined_on_queue [OF st1 queue_keeps_ops(1) Suc.prems(2)] .
  have start: "rpc_kept st0 st0" by (simp add: rpc_kept_def)
  have "pool_num (rpc_pool_of cq st1) = pool_num (rpc_pool_of cq st0)"
    using rpc_kept_pool [OF start, of cq] rpc_kept_pool [OF confined_to_ok [OF c1], of cq] by (metis pool_shape_num)
  then have "in_message env st0 a" if "slot < pool_num (rpc_pool_of cq st1)"
    "in_buffer a (pool_array (rpc_pool_of cq st0) + sizeof_message * ucast slot) sizeof_message" for a
    using checked_in_message [OF start assms(3,4)] that by simp
  then have "rpc_confined env st0 st2"
    if "slot < pool_num (rpc_pool_of cq st1)" "deliver_call w env cq (pool_array (rpc_pool_of cq st0)) cbox slot st1 = Inr st2" for st2
    using confined_deliver_call [OF that(2) c1] that(1) by blast
  then show ?case
    using Suc.prems(1) Suc.IH st1 c1 by (auto simp: bind_res_Inr_iff not_le split: if_splits dest: confined_rpc_put_it_back)
qed simp

lemma message_in_bss:
  assumes "array_checked ctx pool" "pool_stride pool = sizeof_message" "unat (pool_array pool) + 76 * unat (pool_num pool) < 2 ^ 32"
    "slot < pool_num pool" "in_buffer a (pool_array pool + sizeof_message * ucast slot) sizeof_message"
  shows "ctx_bss ctx \<le> a \<and> a < ctx_bss ctx + ctx_bss_size ctx"
proof -
  define d where "d = a - (pool_array pool + 76 * ucast slot)"
  have d: "unat d < 76" using assms(5) by (simp add: in_buffer_def d_def sizeof_message_def)
  have slot: "unat slot + 1 \<le> unat (pool_num pool)" using assms(4) by (simp add: word_less_nat_alt)
  have mul: "unat (76 * ucast s :: u32) = 76 * unat s" for s :: u8
    using unsigned_less [of s, where 'a = nat] by (simp add: unat_word_ariths unsigned_ucast_eq take_bit_nat_eq_self)
  have le: "76 * unat slot + 76 \<le> 76 * unat (pool_num pool)" using slot by linarith
  have start: "unat (pool_array pool + 76 * ucast slot) = unat (pool_array pool) + 76 * unat slot"
    using assms(3) le mul [of slot] by (simp add: unat_word_ariths)
  have "a = (pool_array pool + 76 * ucast slot) + d" by (simp add: d_def)
  then have "unat a = unat (pool_array pool) + 76 * unat slot + unat d"
    using start assms(3) le d by (simp add: unat_word_ariths(1) [of "pool_array pool + 76 * ucast slot" d])
  moreover have "unat (pool_array pool + 76 * ucast (pool_num pool)) = unat (pool_array pool) + 76 * unat (pool_num pool)"
    using assms(3) mul [of "pool_num pool"] by (simp add: unat_word_ariths)
  ultimately show ?thesis
    using assms(1,2) le d unfolding array_checked_def sizeof_message_def word_le_nat_alt word_less_nat_alt by auto
qed


section \<open>The way of a call and back\<close>

definition messages_apart :: "u32 \<Rightarrow> u32 \<Rightarrow> bool" where
  "messages_apart p q \<longleftrightarrow> \<not> (\<exists>a. in_buffer a p sizeof_message \<and> in_buffer a q sizeof_message)"

lemma messages_apart_sym: "messages_apart p q \<Longrightarrow> messages_apart q p"
  by (auto simp: messages_apart_def)

lemma other_message:
  assumes apart: "messages_apart p q" and y: "unat y \<le> 72"
  shows "unat x \<le> 72 \<Longrightarrow> read32 (write32 m (p + x) v) (q + y) = read32 m (q + y)" "read32 (write32 m p v) (q + y) = read32 m (q + y)"
    "read32 (write8 m (p + 68) w) (q + y) = read32 m (q + y)"
    "unat x \<le> 72 \<Longrightarrow> write32 m (p + x) v (q + y) = m (q + y)" "write32 m p v (q + y) = m (q + y)" "write8 m (p + 68) w (q + y) = m (q + y)"
proof -
  have out: "\<not> in_buffer (q + y + of_nat k) p sizeof_message" if "k < 4" for k
  proof -
    have "unat (y + of_nat k) = unat y + k" using y that unat_of_nat_u32 [of k] by (simp add: unat_word_ariths)
    then have "in_buffer (q + y + of_nat k) q sizeof_message" using y that by (simp add: in_buffer_def sizeof_message_def)
    then show ?thesis using apart by (auto simp: messages_apart_def)
  qed
  show "read32 (write32 m (p + x) v) (q + y) = read32 m (q + y)" if "unat x \<le> 72"
    using write_outside_message(1) [OF out that] by (rule read32_frame)
  show "read32 (write32 m p v) (q + y) = read32 m (q + y)" using write_outside_message(2) [OF out] by (rule read32_frame)
  show "read32 (write8 m (p + 68) w) (q + y) = read32 m (q + y)" using write_outside_message(3) [OF out] by (rule read32_frame)
  show "unat x \<le> 72 \<Longrightarrow> write32 m (p + x) v (q + y) = m (q + y)" "write32 m p v (q + y) = m (q + y)" "write8 m (p + 68) w (q + y) = m (q + y)"
    using write_outside_message [OF out [of 0]] by simp_all
qed

lemma other_message_start:
  assumes "messages_apart p q"
  shows "unat x \<le> 72 \<Longrightarrow> read32 (write32 m (p + x) v) q = read32 m q" "read32 (write32 m p v) q = read32 m q" "read32 (write8 m (p + 68) w) q = read32 m q"
  using other_message [OF assms, where y = 0] by simp_all

lemma same_message:
  "x \<in> {0, 4, 8, 12, 16, 20, 64, 72} \<Longrightarrow> write32 m (p + x) v (p + 68) = m (p + 68)"
  "4 \<le> unat (y - x) \<Longrightarrow> 4 \<le> unat (x - y) \<Longrightarrow> read32 (write32 m (p + x) v) (p + y) = read32 m (p + y)"
  "4 \<le> unat y \<Longrightarrow> 4 \<le> unat (- y) \<Longrightarrow> read32 (write32 m p v) (p + y) = read32 m (p + y)"
  "4 \<le> unat x \<Longrightarrow> 4 \<le> unat (- x) \<Longrightarrow> read32 (write32 m (p + x) v) p = read32 m p"
  "4 \<le> unat (68 - y) \<Longrightarrow> read32 (write8 m (p + 68) w) (p + y) = read32 m (p + y)"
  "read32 (write8 m (p + 68) w) p = read32 m p"
  using read32_write32_other [of "p + y" "p + x"] read32_write32_other [of "p + y" p] read32_write32_other [of p "p + x"]
    read32_write8_other [of "p + 68" "p + y"] read32_write8_other [of "p + 68" p]
  by (auto simp: write32_def add.assoc)

lemmas message_frame = other_message other_message_start read32_write32 same_message


section \<open>Examples\<close>

text \<open>
  Box 0 has calls of a function of box 1 in its queue, which has two slots. The memory of box 0 starts at \<open>0x20001000\<close>, that of box 1 at
  \<open>0x20002000\<close>; the gateway is in flash at \<open>0x500\<close>. The state has the last slot of the caller's queue, the links of its pool and the free list of the
  callee's pool as arguments.
\<close>

definition example_rpc_words :: "(u32 \<times> u32) list" where
  "example_rpc_words =
     [(0x20008000, 0x20001000), (0x2000100C, 0x20001100), (0x2000200C, 0x20002100),
      (0x500, LDR_PC_PC_IMM_OPCODE 0 16), (0x504, UVISOR_RPC_GATEWAY_MAGIC_SYNC), (0x508, 0x20104), (0x50C, 0x600), (0x510, 0x700),
      (0x2000112C, 7), (0x2000113C, 0x500), (0x2000116C, 0x400), (0x20001178, 8), (0x20001188, 0x500), (0x200011B8, 0x801)]"

definition example_rpc_env :: rpc_env where
  "example_rpc_env =
     \<lparr>rpc_build = example_build, rpc_config = example_config,
      rpc_contexts = map (\<lambda>b. \<lparr>ctx_sp = 0, ctx_bss = b, ctx_bss_size = 0x1000, ctx_lr = 0, remaining_ms = 0, ctx_msp = 0, ctx_msplim = 0\<rparr>)
        [0x20001000, 0x20002000], rpc_box_count = 2, rpc_post = (\<lambda>_. 0)\<rparr>"

definition example_rpc_pool :: "u32 \<Rightarrow> u8 \<Rightarrow> u8 \<Rightarrow> (u8 \<times> u8) list \<Rightarrow> uvisor_pool" where
  "example_rpc_pool a k free es = \<lparr>pool_magic = UVISOR_POOL_MAGIC, pool_array = a, pool_stride = 76, pool_num = 2, pool_num_allocated = k,
     pool_first_free = free, pool_spinlock = \<lparr>acquired = False\<rparr>, management_array = map (\<lambda>(n, p). \<lparr>entry_next = n, entry_prev = p\<rparr>) es\<rparr>"

definition example_rpc_queue :: "u8 \<Rightarrow> u8 \<Rightarrow> u32 \<Rightarrow> uvisor_pool_queue" where
  "example_rpc_queue h t p = \<lparr>queue_magic = UVISOR_POOL_QUEUE_MAGIC, queue_head = h, queue_tail = t, queue_pool = p\<rparr>"

definition example_rpc_state ::
  "uvisor_pool_queue \<Rightarrow> (u8 \<times> u8) list \<Rightarrow> uvisor_pool_queue \<Rightarrow> u8 \<Rightarrow> u8 \<Rightarrow> (u8 \<times> u8) list \<Rightarrow> mem \<Rightarrow> rpc_state" where
  "example_rpc_state cq ces q k free es m =
     \<lparr>rpc_queues = (\<lambda>_. example_rpc_queue 0xFF 0xFF 0)(0x20001100 := cq, 0x2000238C := q),
      rpc_pools = (\<lambda>_. example_rpc_pool 0 0 0xFF [])
        (0x2000110C := example_rpc_pool 0x2000112C 2 0xFF ces, 0x200023A4 := example_rpc_pool 0x200023C4 k free es),
      rpc_mem = m, rpc_posted = []\<rparr>"

lemmas example_rpc_defs = example_rpc_state_def example_rpc_queue_def example_rpc_pool_def rpc_pool_of_def on_queue_def on_pool_def

lemmas rpc_pool_defs = uvisor_pool_queue_try_dequeue_first_def try_dequeue_first_def dequeue_def uvisor_pool_queue_try_enqueue_def enqueue_def
  uvisor_pool_try_allocate_def pool_alloc_def set_next_def set_prev_def set_entry_def get_entry_def arr_get_def pool_spin_trylock_def
  pool_spin_unlock_def spin_simps slot_consts

lemma example_valid_queues:
  "is_valid_queue example_rpc_env 0x20001100 0 (example_rpc_state (example_rpc_queue h t 0x2000110C) ces q k free es m) = Inr True"
  "is_valid_queue example_rpc_env 0x2000238C (Suc 0) (example_rpc_state cq ces (example_rpc_queue h t 0x200023A4) k free es m) = Inr True"
  by (simp_all add: is_valid_queue_def example_rpc_env_def example_rpc_defs arr_get_def)

lemma example_gateway:
  assumes "gateway_at m 0x500 = gateway_at (example_mem example_rpc_words) 0x500"
  shows "is_valid_rpc_gateway example_rpc_env m 0x500 \<and> callee_box_id example_rpc_env (gateway_at m 0x500) = 1"
  unfolding assms is_valid_rpc_gateway_def
  by (simp add: gateway_at_def example_mem_def example_rpc_words_def read32_def write32_def LDR_PC_PC_IMM_OPCODE_def
     UVISOR_RPC_GATEWAY_MAGIC_SYNC_def UDF_OPCODE_def callee_box_id_def example_rpc_env_def example_config_def vmpu_public_flash_addr_def)

text \<open>The memory after the first call is delivered. The words that matter for the next round are as before.\<close>

definition example_rpc_delivered :: mem where
  "example_rpc_delivered = copy_call 0x2000112C 0x200023C4 0 1 (example_mem example_rpc_words)"

lemma example_rpc_reads:
  "read32 (example_mem example_rpc_words) 0x20008000 = 0x20001000"
  "read32 (example_mem example_rpc_words) 0x2000100C = 0x20001100"
  "read32 (example_mem example_rpc_words) 0x2000200C = 0x20002100"
  "read32 (example_mem example_rpc_words) 0x2000113C = 0x500"
  "read32 (example_mem example_rpc_words) 0x20001188 = 0x500"
  "example_mem example_rpc_words 0x200023C4 = 0"
  "example_mem example_rpc_words 0x2000112C = 7"
  by (simp_all add: example_mem_def example_rpc_words_def read32_def write32_def)

lemma copy_call_first_byte:
  assumes "messages_apart caller_msg callee_msg"
  shows "copy_call caller_msg callee_msg b b' m callee_msg = m caller_msg"
proof -
  have same: "write32 m' (callee_msg + x) v callee_msg = m' callee_msg" if "x \<in> {4, 8, 12, 16, 20, 64}" for m' x v
    using that by (auto simp: write32_def add.assoc)
  have "ucast (read32 m caller_msg) = m caller_msg"
    by (rule bit_word_eqI) (auto simp: read32_def bit_simps)
  then have first: "write32 m callee_msg (read32 m caller_msg) callee_msg = m caller_msg" by (simp add: write32_def)
  have state: "write8 m' (callee_msg + 68) v callee_msg = m' callee_msg" for m' v by (simp add: write8_def)
  show ?thesis
    using other_message(4,6) [OF assms, where y = 0] by (simp add: copy_call_def Let_def message_layout same state first)
qed

lemma example_rpc_delivered_reads:
  "read32 example_rpc_delivered 0x2000200C = 0x20002100"
  "read32 example_rpc_delivered 0x20001188 = 0x500"
  "gateway_at example_rpc_delivered 0x500 = gateway_at (example_mem example_rpc_words) 0x500"
  "example_rpc_delivered 0x200023C4 = 7"
proof -
  have same: "example_rpc_delivered a = example_mem example_rpc_words a" if "\<not> in_buffer a 0x2000112C sizeof_message" "\<not> in_buffer a 0x200023C4 sizeof_message" for a
    using that copy_call_changes unfolding example_rpc_delivered_def by blast
  show "read32 example_rpc_delivered 0x2000200C = 0x20002100" "read32 example_rpc_delivered 0x20001188 = 0x500"
    using example_rpc_reads(3,5) by (simp_all add: read32_def same in_buffer_def sizeof_message_def)
  show "gateway_at example_rpc_delivered 0x500 = gateway_at (example_mem example_rpc_words) 0x500"
    by (simp add: gateway_at_def read32_def same in_buffer_def sizeof_message_def)
  have "messages_apart 0x2000112C 0x200023C4" by (auto simp: messages_apart_def in_buffer_range sizeof_message_def)
  then show "example_rpc_delivered 0x200023C4 = 7"
    using copy_call_first_byte [of "0x2000112C" "0x200023C4"] example_rpc_reads(7) by (simp add: example_rpc_delivered_def)
qed

lemma example_state_simps:
  "rpc_mem (example_rpc_state cq ces q k free es m) = m"
  "pool_array (rpc_pool_of 0x2000238C (example_rpc_state cq ces (example_rpc_queue h t 0x200023A4) k free es m)) = 0x200023C4"
  "pool_array (rpc_pool_of 0x20001100 (example_rpc_state (example_rpc_queue h t 0x2000110C) ces q k free es m)) = 0x2000112C"
  "pool_num (rpc_pool_of 0x20001100 (example_rpc_state (example_rpc_queue h t 0x2000110C) ces q k free es m)) = 2"
  by (simp_all add: example_rpc_defs)

lemma example_deliver:
  fixes cq ces h t k free es
  assumes "read32 m 0x2000200C = 0x20002100" "read32 m (0x2000112C + 76 * ucast slot + 16) = 0x500"
    "gateway_at m 0x500 = gateway_at (example_mem example_rpc_words) 0x500"
  defines "st \<equiv> example_rpc_state cq ces (example_rpc_queue h t 0x200023A4) k free es m"
  shows "deliver_call w example_rpc_env 0x20001100 0x2000112C 0 slot st =
    place_call w example_rpc_env 0x20001100 slot (0x2000112C + 76 * ucast slot) 0 0x500 (Suc 0) 0x2000238C 0x200023C4 st"
proof -
  have "rpc_contexts example_rpc_env ! Suc 0 =
      \<lparr>ctx_sp = 0, ctx_bss = 0x20002000, ctx_bss_size = 0x1000, ctx_lr = 0, remaining_ms = 0, ctx_msp = 0, ctx_msplim = 0\<rparr>"
    "length (rpc_contexts example_rpc_env) = 2"
    by (simp_all add: example_rpc_env_def)
  then show ?thesis
    using example_gateway [OF assms(3)] example_valid_queues(2) assms(1,2)
    by (simp add: deliver_call_def st_def example_state_simps Let_def arr_get_def message_layout rpc_layout uvisor_rpc_def index_rpc_def)
qed

lemma example_place:
  "place_call (Suc w) example_rpc_env 0x20001100 0 0x2000112C 0 0x500 (Suc 0) 0x2000238C 0x200023C4
     (example_rpc_state cq ces (example_rpc_queue 0xFF 0xFF 0x200023A4) 1 0 [(0xFF, 0xFD), (0xFF, 0xFE)] (example_mem example_rpc_words)) =
   Inr (example_rpc_state cq ces (example_rpc_queue 0 0 0x200023A4) 2 0xFF [(0xFF, 0xFF), (0xFF, 0xFE)] example_rpc_delivered)"
proof -
  have woken: "wake_up_handlers_for_target (Suc w) example_rpc_env f (Suc 0) st = Inr (0, st)"
    if "read32 (rpc_mem st) 0x2000200C = 0x20002100" "queue_head (rpc_queues st 0x20002624) = 0xFF" "pool_num (rpc_pool_of 0x20002624 st) = 2" for f st
    using that by (simp add: wake_up_handlers_for_target_def example_rpc_env_def arr_get_def uvisor_rpc_def index_rpc_def rpc_layout)
  show ?thesis
    by (simp add: place_call_def example_rpc_defs rpc_pool_defs message_layout woken example_rpc_delivered_def [symmetric] example_rpc_delivered_reads)
qed

lemma example_rpc_start:
  "drain_message_queue n w example_rpc_env 0 (example_rpc_state (example_rpc_queue h t 0x2000110C) ces q k free es (example_mem example_rpc_words)) =
     message_loop n w example_rpc_env 0x20001100 0x2000112C 0 (- 1)
       (example_rpc_state (example_rpc_queue h t 0x2000110C) ces q k free es (example_mem example_rpc_words))"
proof -
  have "uvisor_box_context (rpc_config example_rpc_env) = 0x20008000" by (simp add: example_rpc_env_def example_config_def)
  then show ?thesis
    using example_valid_queues(1)
    by (simp add: drain_message_queue_def example_state_simps example_rpc_reads uvisor_rpc_def index_rpc_def rpc_layout)
qed

lemma example_first_call:
  "deliver_call (Suc w) example_rpc_env 0x20001100 0x2000112C 0 0
     (example_rpc_state cq ces (example_rpc_queue 0xFF 0xFF 0x200023A4) 1 0 [(0xFF, 0xFD), (0xFF, 0xFE)] (example_mem example_rpc_words)) =
   Inr (example_rpc_state cq ces (example_rpc_queue 0 0 0x200023A4) 2 0xFF [(0xFF, 0xFF), (0xFF, 0xFE)] example_rpc_delivered)"
  using example_deliver [of "example_mem example_rpc_words" 0] example_rpc_reads example_place by simp

lemma example_rpc_dequeue:
  "on_queue 0x20001100 uvisor_pool_queue_try_dequeue_first
     (example_rpc_state (example_rpc_queue 0 0 0x2000110C) [(0xFF, 0xFF), e] q k free es m) =
   Inr (0, example_rpc_state (example_rpc_queue 0xFF 0xFF 0x2000110C) [(0xFF, 0xFE), e] q k free es m)"
  "on_queue 0x20001100 uvisor_pool_queue_try_dequeue_first
     (example_rpc_state (example_rpc_queue 0 1 0x2000110C) [(1, 0xFF), (0xFF, 0)] q k free es m) =
   Inr (0, example_rpc_state (example_rpc_queue 1 1 0x2000110C) [(0xFF, 0xFE), (0xFF, 0xFF)] q k free es m)"
  "on_queue 0x20001100 uvisor_pool_queue_try_dequeue_first
     (example_rpc_state (example_rpc_queue 1 1 0x2000110C) [e, (0xFF, 0xFF)] q k free es m) =
   Inr (1, example_rpc_state (example_rpc_queue 0xFF 0xFF 0x2000110C) [e, (0xFF, 0xFE)] q k free es m)"
  "on_queue 0x20001100 uvisor_pool_queue_try_dequeue_first
     (example_rpc_state (example_rpc_queue 0xFF 0xFF 0x2000110C) ces q k free es m) =
   Inr (0xFF, example_rpc_state (example_rpc_queue 0xFF 0xFF 0x2000110C) ces q k free es m)"
  by (auto simp: example_rpc_defs rpc_pool_defs fun_upd_twist)

definition example_one_call :: rpc_state where
  "example_one_call = example_rpc_state (example_rpc_queue 0 0 0x2000110C) [(0xFF, 0xFF), (0xFF, 0xFE)] (example_rpc_queue 0xFF 0xFF 0x200023A4) 1 0
     [(0xFF, 0xFD), (0xFF, 0xFE)] (example_mem example_rpc_words)"

lemma example_one_call_delivered:
  "\<exists>st'. drain_message_queue (Suc (Suc 0)) (Suc 0) example_rpc_env 0 example_one_call = Inr st' \<and> rpc_mem st' = example_rpc_delivered"
  unfolding example_one_call_def example_rpc_start
  by (simp add: example_rpc_dequeue example_state_simps example_first_call)


section \<open>A loop that does not end\<close>

text \<open>
  The loop over the calls ends when the slot that was seen first comes up again. A call that was delivered does not come up again, and \<open>first_slot\<close> is
  not reset. When the first call is delivered and the next one has to wait because the callee has no free slot, that one is taken and put back forever;
  the callee cannot run and free a slot in the meantime. No box is malicious in this example.
\<close>

definition example_two_calls :: rpc_state where
  "example_two_calls = example_rpc_state (example_rpc_queue 0 1 0x2000110C) [(1, 0xFF), (0xFF, 0)] (example_rpc_queue 0xFF 0xFF 0x200023A4) 1 0
     [(0xFF, 0xFD), (0xFF, 0xFE)] (example_mem example_rpc_words)"

definition example_full :: rpc_state where
  "example_full = example_rpc_state (example_rpc_queue 1 1 0x2000110C) [(0xFF, 0xFE), (0xFF, 0xFF)] (example_rpc_queue 0 0 0x200023A4) 2 0xFF
     [(0xFF, 0xFF), (0xFF, 0xFE)] example_rpc_delivered"

lemma example_full_put_back:
  "deliver_call w example_rpc_env 0x20001100 0x2000112C 0 1
     (example_rpc_state (example_rpc_queue 0xFF 0xFF 0x2000110C) [(0xFF, 0xFE), (0xFF, 0xFE)] (example_rpc_queue 0 0 0x200023A4) 2 0xFF
       [(0xFF, 0xFF), (0xFF, 0xFE)] example_rpc_delivered) = Inr example_full"
proof -
  have "deliver_call w example_rpc_env 0x20001100 0x2000112C 0 1
     (example_rpc_state (example_rpc_queue 0xFF 0xFF 0x2000110C) [(0xFF, 0xFE), (0xFF, 0xFE)] (example_rpc_queue 0 0 0x200023A4) 2 0xFF
       [(0xFF, 0xFF), (0xFF, 0xFE)] example_rpc_delivered) =
    place_call w example_rpc_env 0x20001100 1 0x20001178 0 0x500 (Suc 0) 0x2000238C 0x200023C4
     (example_rpc_state (example_rpc_queue 0xFF 0xFF 0x2000110C) [(0xFF, 0xFE), (0xFF, 0xFE)] (example_rpc_queue 0 0 0x200023A4) 2 0xFF
       [(0xFF, 0xFF), (0xFF, 0xFE)] example_rpc_delivered)"
    using example_deliver [of example_rpc_delivered 1] example_rpc_delivered_reads by simp
  also have "\<dots> = Inr example_full"
    by (auto simp: place_call_def example_full_def example_rpc_defs rpc_pool_defs rpc_put_it_back_def assert_res_def fun_upd_twist)
  finally show ?thesis .
qed

lemma example_full_forever: "message_loop n w example_rpc_env 0x20001100 0x2000112C 0 0 example_full = Inl Diverge"
proof (induction n)
  case (Suc n)
  have "\<not> (2 :: u8) \<le> 1" by (simp add: word_le_nat_alt)
  then show ?case
    using Suc example_full_put_back by (simp add: example_full_def example_rpc_dequeue example_state_simps)
qed simp

theorem drain_message_queue_never_ends: "drain_message_queue n (Suc w) example_rpc_env 0 example_two_calls = Inl Diverge"
proof (cases n)
  case 0
  then show ?thesis unfolding example_two_calls_def example_rpc_start by simp
next
  case (Suc k)
  then show ?thesis
    using example_full_forever [of k "Suc w"] unfolding example_two_calls_def example_rpc_start
    by (simp add: example_rpc_dequeue example_state_simps example_first_call example_full_def)
qed

section \<open>What the checks do not cover\<close>

text \<open>
  The check of a queue uses the stride of the pool, which the box sets, while messages are addressed with their own size: with the stride 0 the
  array of messages can reach far beyond the memory of the box.
\<close>

theorem is_valid_queue_accepts_any_stride:
  "is_valid_queue example_rpc_env 0x2000238C 1
     (example_rpc_state cq ces (example_rpc_queue 0xFF 0xFF 0x200023A4) k free es m
       \<lparr>rpc_pools := (\<lambda>_. (example_rpc_pool 0x20003000 k free es)\<lparr>pool_stride := 0\<rparr>)\<rparr>) = Inr True \<and>
   map ctx_bss (rpc_contexts example_rpc_env) ! 1 + map ctx_bss_size (rpc_contexts example_rpc_env) ! 1 = 0x20003000"
  by (simp add: is_valid_queue_def example_rpc_env_def example_rpc_defs arr_get_def)

text \<open>The number of the caller in a result is taken from the memory of the callee, and indexes the contexts of the boxes unchecked.\<close>

theorem deliver_result_unchecked_box:
  "length (rpc_contexts env) \<le> unat (read32 (rpc_mem st) (callee_array + sizeof_message * ucast callee_slot + msg_other_box_id)) \<Longrightarrow>
     deliver_result env q callee_array callee_box callee_slot st = Inl Oob"
  by (simp add: deliver_result_def Let_def arr_get_def)

section \<open>Further witnesses\<close>


lemma example_send:
  "\<exists>cookie st'. send_outgoing_rpc 0x20001100 1 2 3 4 0x500
     (example_rpc_state (example_rpc_queue 0xFF 0xFF 0x2000110C) [(0xFF, 0xFD), (0xFF, 0xFE)] q k free es (\<lambda>_. 0)
       \<lparr>rpc_pools := (\<lambda>_. example_rpc_pool 0x2000112C 1 0 [(0xFF, 0xFD), (0xFF, 0xFE)])\<rparr>) = Inr (0, cookie, st')"
  by (simp add: send_outgoing_rpc_def example_rpc_defs rpc_pool_defs rpc_layout uvisor_pool_allocate_def pool_spin_lock_def uvisor_pool_queue_enqueue_def)

theorem send_outgoing_rpc_cookie_witness:
  "\<exists>cookie st'. send_outgoing_rpc 0x20001100 1 2 3 4 0x500
     (example_rpc_state (example_rpc_queue 0xFF 0xFF 0x2000110C) [(0xFF, 0xFD), (0xFF, 0xFE)] (example_rpc_queue 0xFF 0xFF 0) 0 0 [] (\<lambda>_. 0)
       \<lparr>rpc_pools := (\<lambda>_. example_rpc_pool 0x2000112C 1 0 [(0xFF, 0xFD), (0xFF, 0xFE)])\<rparr>) = Inr (0, cookie, st') \<and>
     cookie \<noteq> uvisor_result_build UVISOR_RESULT_INVALID_COUNTER (uvisor_result_slot cookie)"
proof -
  obtain cookie st' where run: "send_outgoing_rpc 0x20001100 1 2 3 4 0x500
     (example_rpc_state (example_rpc_queue 0xFF 0xFF 0x2000110C) [(0xFF, 0xFD), (0xFF, 0xFE)] (example_rpc_queue 0xFF 0xFF 0) 0 0 [] (\<lambda>_. 0)
       \<lparr>rpc_pools := (\<lambda>_. example_rpc_pool 0x2000112C 1 0 [(0xFF, 0xFD), (0xFF, 0xFE)])\<rparr>) = Inr (0, cookie, st')"
    using example_send by blast
  from send_outgoing_rpc_cookie [OF run] show ?thesis
    using run by (simp add: example_rpc_state_def rpc_pool_of_def example_rpc_pool_def read32_def)
qed

end
