(* ===== verification/Thread.thy ===== *)
theory Thread
  imports Rpc Vmpu
begin

text \<open>
  Threads, \<^verbatim>\<open>core/system/src/thread.c\<close>: a table of the threads of all boxes with their allocators, which the host OS calls when it creates, destroys or switches threads. A
  switch to a thread delivers the calls of the box that ran and switches to the box of the thread. Which boxes a thread can be taken from is the subject here.
\<close>

section \<open>State\<close>

definition UVISOR_EXPORT_TABLE_THREADS_MAX_COUNT :: nat where "UVISOR_EXPORT_TABLE_THREADS_MAX_COUNT = 16"

record UvisorThreadContext =
  allocator :: u32
  process_id :: int

text \<open>The field \<open>PRIMASK\<close> tells whether interrupts are disabled; \<open>'p\<close> is the state of the protection driver.\<close>

record 'p thread_state =
  thread :: "UvisorThreadContext list"
  th_context :: context_state
  th_rpc :: rpc_state
  th_port :: 'p
  PRIMASK :: bool

text \<open>The address of the table, the switch of the protection driver, and the numbers of rounds of the loops over the calls.\<close>

record 'p thread_env =
  te_base :: u32
  te_rpc :: rpc_env
  te_switch :: "u8 \<Rightarrow> u8 \<Rightarrow> u8 \<Rightarrow> 'p \<Rightarrow> 'p res"
  te_rounds :: nat
  te_wakes :: nat

abbreviation th_active :: "'p thread_state \<Rightarrow> u8" where "th_active st \<equiv> g_active_box (th_context st)"

definition thread_rpc_env :: "'p thread_env \<Rightarrow> 'p thread_state \<Rightarrow> rpc_env" where
  "thread_rpc_env env st = (te_rpc env)\<lparr>rpc_contexts := g_context_current_states (th_context st)\<rparr>"

section \<open>Operations\<close>

text \<open>A context takes 8 bytes.\<close>

definition thread_ctx_valid :: "u32 \<Rightarrow> u32 \<Rightarrow> bool" where
  "thread_ctx_valid base context \<longleftrightarrow>
     (if context < base \<or> base + 8 * of_nat UVISOR_EXPORT_TABLE_THREADS_MAX_COUNT \<le> context then False else (context - base) mod 8 = 0)"

definition thread_index :: "'p thread_env \<Rightarrow> u32 \<Rightarrow> nat" where
  "thread_index env context = unat ((context - te_base env) div 8)"

definition thread_create :: "'p thread_env \<Rightarrow> u32 \<Rightarrow> 'p thread_state \<Rightarrow> u32 \<times> 'p thread_state" where
  "thread_create env context st =
     (let index = read32 (rpc_mem (th_rpc st)) (uvisor_box_context (rpc_config (te_rpc env))) in
      case find (\<lambda>ii. allocator (thread st ! ii) = 0) [0..<UVISOR_EXPORT_TABLE_THREADS_MAX_COUNT] of
        Some ii \<Rightarrow>
          (te_base env + 8 * of_nat ii,
           st\<lparr>thread := (thread st)[ii := \<lparr>allocator = (if context \<noteq> 0 then context else read32 (rpc_mem (th_rpc st)) (index + index_heap)),
             process_id = int (unat (th_active st))\<rparr>]\<rparr>)
      | None \<Rightarrow> (context, st))"

definition thread_destroy :: "'p thread_env \<Rightarrow> u32 \<Rightarrow> 'p thread_state \<Rightarrow> 'p thread_state res" where
  "thread_destroy env context st =
     (if context = 0 then Inr st
      else
        let ii = thread_index env context in
        if thread_ctx_valid (te_base env) context \<and> allocator (thread st ! ii) \<noteq> 0 \<and> process_id (thread st ! ii) = int (unat (th_active st)) then
          Inr (st\<lparr>thread := (thread st)[ii := (thread st ! ii)\<lparr>allocator := 0\<rparr>]\<rparr>)
        else bind_res (assert_res (rpc_build (te_rpc env)) False) (\<lambda>_. Inr st))"

text \<open>The last part of the switch: the allocator of the thread becomes the heap of the box, once that has been initialised.\<close>

definition set_active_heap :: "UvisorConfig \<Rightarrow> u32 \<Rightarrow> mem \<Rightarrow> mem" where
  "set_active_heap cfg alloc m =
     (let index = read32 m (uvisor_box_context cfg) in
      if alloc \<noteq> 0 \<and> read32 m (index + index_active_heap) \<noteq> 0 then write32 m (index + index_active_heap) alloc else m)"

definition thread_switch_nonatomic :: "'p thread_env \<Rightarrow> u32 \<Rightarrow> 'p thread_state \<Rightarrow> 'p thread_state res" where
  "thread_switch_nonatomic env context st =
     bind_res (drain_message_queue (te_rounds env) (te_wakes env) (thread_rpc_env env st) (th_active st) (th_rpc st)) (\<lambda>rpc.
     bind_res (drain_result_queue (te_rounds env) (thread_rpc_env env st) (th_active st) rpc) (\<lambda>rpc.
     let st = st\<lparr>th_rpc := rpc\<rparr>; cfg = rpc_config (te_rpc env); ii = thread_index env context in
     if context = 0 then Inr st
     else if \<not> thread_ctx_valid (te_base env) context \<or> allocator (thread st ! ii) = 0 then bind_res (assert_res (rpc_build (te_rpc env)) False) (\<lambda>_. Inr st)
     else
       bind_res
         (if process_id (thread st ! ii) \<noteq> int (unat (th_active st)) then
            context_switch_in cfg True (rpc_box_count (te_rpc env)) (te_switch env) CONTEXT_SWITCH_UNBOUND_THREAD (word_of_int (process_id (thread st ! ii))) 0 0
              (th_context st, rpc_mem rpc, th_port st)
          else Inr (th_context st, rpc_mem rpc, th_port st))
         (\<lambda>(ctx, m, port).
           Inr (st\<lparr>th_context := ctx, th_rpc := rpc\<lparr>rpc_mem := set_active_heap cfg (allocator (thread st ! ii)) m\<rparr>, th_port := port\<rparr>))))"

definition thread_switch :: "'p thread_env \<Rightarrow> u32 \<Rightarrow> 'p thread_state \<Rightarrow> 'p thread_state res" where
  "thread_switch env context st =
     (let primask = PRIMASK st in
      bind_res (thread_switch_nonatomic env context (st\<lparr>PRIMASK := True\<rparr>)) (\<lambda>st.
      Inr (if \<not> primask then st\<lparr>PRIMASK := False\<rparr> else st)))"

section \<open>Contexts and pointers\<close>

text \<open>The table is an array in memory.\<close>

definition table_placed :: "'p thread_env \<Rightarrow> bool" where
  "table_placed env \<longleftrightarrow> 0 < te_base env \<and> unat (te_base env) + 128 < 2 ^ 32"

lemma thread_ctx_valid_iff:
  assumes "table_placed env"
  shows "thread_ctx_valid (te_base env) context \<longleftrightarrow> (\<exists>i < 16. context = te_base env + 8 * of_nat i)"
    "i < 16 \<Longrightarrow> thread_index env (te_base env + 8 * of_nat i) = i"
proof -
  let ?b = "te_base env"
  have b: "unat ?b + 128 < 2 ^ 32" using assms by (simp add: table_placed_def)
  then have e: "unat (?b + 8 * of_nat UVISOR_EXPORT_TABLE_THREADS_MAX_COUNT) = unat ?b + 128" by (simp add: UVISOR_EXPORT_TABLE_THREADS_MAX_COUNT_def unat_word_ariths)
  have elem: "unat (8 * of_nat i :: u32) = 8 * i" if "i < 16" for i using that by (simp add: unat_word_ariths unat_of_nat_u32)
  show "thread_index env (?b + 8 * of_nat i) = i" if "i < 16" using elem [OF that] by (simp add: thread_index_def unat_div)
  have "thread_ctx_valid ?b context \<longleftrightarrow> unat ?b \<le> unat context \<and> unat context < unat ?b + 128 \<and> (unat context - unat ?b) mod 8 = 0"
    using unat_sub_if_size [of "context" ?b] by (auto simp: thread_ctx_valid_def word_less_nat_alt word_le_nat_alt e unat_mod word_unat_eq_iff)
  also have "\<dots> \<longleftrightarrow> (\<exists>i < 16. unat context = unat ?b + 8 * i)"
  proof
    assume "unat ?b \<le> unat context \<and> unat context < unat ?b + 128 \<and> (unat context - unat ?b) mod 8 = 0"
    then show "\<exists>i < 16. unat context = unat ?b + 8 * i" by (intro exI [of _ "(unat context - unat ?b) div 8"]) auto
  qed auto
  also have "\<dots> \<longleftrightarrow> (\<exists>i < 16. context = ?b + 8 * of_nat i)"
    using elem b by (auto simp: word_unat_eq_iff unat_word_ariths(1))
  finally show "thread_ctx_valid ?b context \<longleftrightarrow> (\<exists>i < 16. context = ?b + 8 * of_nat i)" .
qed

section \<open>Ownership of threads\<close>

text \<open>The used entries belong to boxes.\<close>

definition threads_ok :: "'p thread_env \<Rightarrow> 'p thread_state \<Rightarrow> bool" where
  "threads_ok env st \<longleftrightarrow> table_placed env \<and> length (thread st) = UVISOR_EXPORT_TABLE_THREADS_MAX_COUNT \<and> ctx_ok (rpc_box_count (te_rpc env)) (th_context st) \<and>
     (\<forall>t \<in> set (thread st). allocator t \<noteq> 0 \<longrightarrow> 0 \<le> process_id t \<and> process_id t < int (unat (rpc_box_count (te_rpc env))))"

text \<open>The box of the thread that a pointer names, if it is the pointer of a used entry.\<close>

definition thread_box :: "'p thread_env \<Rightarrow> u32 \<Rightarrow> 'p thread_state \<Rightarrow> u8 option" where
  "thread_box env context st =
     (case find (\<lambda>i. context = te_base env + 8 * of_nat i \<and> allocator (thread st ! i) \<noteq> 0) [0..<UVISOR_EXPORT_TABLE_THREADS_MAX_COUNT] of
        None \<Rightarrow> None | Some i \<Rightarrow> Some (word_of_int (process_id (thread st ! i))))"

lemma thread_box_cases:
  assumes "table_placed env"
  shows "thread_box env context st = (if thread_ctx_valid (te_base env) context \<and> allocator (thread st ! thread_index env context) \<noteq> 0
    then Some (word_of_int (process_id (thread st ! thread_index env context))) else None)"
proof (cases "find (\<lambda>i. context = te_base env + 8 * of_nat i \<and> allocator (thread st ! i) \<noteq> 0) [0..<UVISOR_EXPORT_TABLE_THREADS_MAX_COUNT]")
  case None
  then have "\<not> (thread_ctx_valid (te_base env) context \<and> allocator (thread st ! thread_index env context) \<noteq> 0)"
    using thread_ctx_valid_iff [OF assms] by (auto simp: find_None_iff UVISOR_EXPORT_TABLE_THREADS_MAX_COUNT_def)
  then show ?thesis using None by (simp add: thread_box_def)
next
  case (Some i)
  then have "i < 16" "context = te_base env + 8 * of_nat i" "allocator (thread st ! i) \<noteq> 0"
    by (auto simp: find_Some_iff UVISOR_EXPORT_TABLE_THREADS_MAX_COUNT_def)
  then show ?thesis using Some thread_ctx_valid_iff [OF assms] by (auto simp: thread_box_def)
qed

lemma thread_create_entry:
  "thread_create env context st = (p, st') \<Longrightarrow>
    st' = st \<and> p = context \<or> (\<exists>ii t. ii < 16 \<and> allocator (thread st ! ii) = 0 \<and> process_id t = int (unat (th_active st)) \<and> st' = st\<lparr>thread := (thread st)[ii := t]\<rparr>)"
proof (cases "find (\<lambda>ii. allocator (thread st ! ii) = 0) [0..<UVISOR_EXPORT_TABLE_THREADS_MAX_COUNT]")
  case (Some ii)
  assume run: "thread_create env context st = (p, st')"
  have "ii < 16" "allocator (thread st ! ii) = 0" using Some by (auto simp: find_Some_iff UVISOR_EXPORT_TABLE_THREADS_MAX_COUNT_def)
  moreover have "\<exists>t. process_id t = int (unat (th_active st)) \<and> st' = st\<lparr>thread := (thread st)[ii := t]\<rparr>"
    using run Some
    by (intro exI [of _ "\<lparr>allocator = if context \<noteq> 0 then context else read32 (rpc_mem (th_rpc st)) (read32 (rpc_mem (th_rpc st)) (uvisor_box_context (rpc_config (te_rpc env))) + index_heap),
        process_id = int (unat (th_active st))\<rparr>"]) (simp add: thread_create_def)
  ultimately show ?thesis by blast
qed (simp add: thread_create_def)

lemma thread_destroy_entry:
  assumes "table_placed env" "thread_destroy env context st = Inr st'"
  shows "st' = st \<or> (\<exists>ii < 16. process_id (thread st ! ii) = int (unat (th_active st)) \<and> st' = st\<lparr>thread := (thread st)[ii := (thread st ! ii)\<lparr>allocator := 0\<rparr>]\<rparr>)"
proof (cases "thread_ctx_valid (te_base env) context")
  case True
  then obtain i where "i < 16" "thread_index env context = i" using thread_ctx_valid_iff [OF assms(1)] by auto
  then show ?thesis using assms(2) by (auto simp: thread_destroy_def Let_def bind_res_Inr_iff split: if_splits)
qed (use assms(2) in \<open>auto simp: thread_destroy_def bind_res_Inr_iff split: if_splits\<close>)

lemma switch_nonatomic_cases:
  assumes placed: "table_placed env" and run: "thread_switch_nonatomic env context st = Inr st'"
  shows "thread_box env context st = None \<and> (\<exists>rpc. st' = st\<lparr>th_rpc := rpc\<rparr>) \<or>
    (\<exists>b ctx m m' port rpc. thread_box env context st = Some b \<and> st' = st\<lparr>th_context := ctx, th_rpc := rpc, th_port := port\<rparr> \<and>
      (b = th_active st \<and> ctx = th_context st \<or>
       context_switch_in (rpc_config (te_rpc env)) True (rpc_box_count (te_rpc env)) (te_switch env) CONTEXT_SWITCH_UNBOUND_THREAD b 0 0 (th_context st, m, th_port st) = Inr (ctx, m', port)))"
proof -
  obtain rpc1 rpc where drain: "drain_message_queue (te_rounds env) (te_wakes env) (thread_rpc_env env st) (th_active st) (th_rpc st) = Inr rpc1"
    "drain_result_queue (te_rounds env) (thread_rpc_env env st) (th_active st) rpc1 = Inr rpc"
    using run by (auto simp: thread_switch_nonatomic_def bind_res_Inr_iff)
  have "\<not> thread_ctx_valid (te_base env) 0" using placed by (simp add: thread_ctx_valid_def table_placed_def)
  then have zero: "context \<noteq> 0" if "thread_ctx_valid (te_base env) context" using that by auto
  let ?t = "thread st ! thread_index env context"
  show ?thesis
  proof (cases "thread_ctx_valid (te_base env) context \<and> allocator ?t \<noteq> 0")
    case True
    have "\<exists>ctx m m' port rpc. st' = st\<lparr>th_context := ctx, th_rpc := rpc, th_port := port\<rparr> \<and>
      (word_of_int (process_id ?t) = th_active st \<and> ctx = th_context st \<or>
       context_switch_in (rpc_config (te_rpc env)) True (rpc_box_count (te_rpc env)) (te_switch env) CONTEXT_SWITCH_UNBOUND_THREAD (word_of_int (process_id ?t)) 0 0
         (th_context st, m, th_port st) = Inr (ctx, m', port))"
    proof (cases "process_id ?t = int (unat (th_active st))")
      case same: True
      then have "st' = st\<lparr>th_rpc := th_rpc st'\<rparr>" using run drain zero True by (auto simp: thread_switch_nonatomic_def Let_def)
      then show ?thesis using same by (intro exI [of _ "th_context st"] exI [of _ "th_port st"] exI [of _ "th_rpc st'"] exI) auto
    next
      case False
      then obtain ctx m port where "context_switch_in (rpc_config (te_rpc env)) True (rpc_box_count (te_rpc env)) (te_switch env) CONTEXT_SWITCH_UNBOUND_THREAD
          (word_of_int (process_id ?t)) 0 0 (th_context st, rpc_mem rpc, th_port st) = Inr (ctx, m, port)"
        "st' = st\<lparr>th_context := ctx, th_rpc := rpc\<lparr>rpc_mem := set_active_heap (rpc_config (te_rpc env)) (allocator ?t) m\<rparr>, th_port := port\<rparr>"
        using run drain zero True by (auto simp: thread_switch_nonatomic_def Let_def bind_res_Inr_iff)
      then show ?thesis by blast
    qed
    then show ?thesis using True by (simp add: thread_box_cases [OF placed])
  next
    case False
    then have "\<exists>rpc. st' = st\<lparr>th_rpc := rpc\<rparr>" using run drain by (auto simp: thread_switch_nonatomic_def Let_def bind_res_Inr_iff split: if_splits)
    then show ?thesis using False by (auto simp: thread_box_cases [OF placed])
  qed
qed

lemma thread_switch_spec:
  assumes ok: "threads_ok env st" and run: "thread_switch env context st = Inr st'"
  shows "thread st' = thread st" "PRIMASK st' = PRIMASK st" "ctx_ok (rpc_box_count (te_rpc env)) (th_context st')" "ctx_stack (th_context st') = ctx_stack (th_context st)"
    "th_active st' = (case thread_box env context st of None \<Rightarrow> th_active st | Some b \<Rightarrow> b)"
proof -
  obtain st1 where st1: "thread_switch_nonatomic env context (st\<lparr>PRIMASK := True\<rparr>) = Inr st1" "st' = (if \<not> PRIMASK st then st1\<lparr>PRIMASK := False\<rparr> else st1)"
    using run by (auto simp: thread_switch_def bind_res_Inr_iff)
  have placed: "table_placed env" and ctx: "ctx_ok (rpc_box_count (te_rpc env)) (th_context st)" using ok by (simp_all add: threads_ok_def)
  have box: "thread_box env context (st\<lparr>PRIMASK := True\<rparr>) = thread_box env context st" by (simp add: thread_box_def split: option.split)
  have spec: "dst < rpc_box_count (te_rpc env) \<and> g_active_box c' = dst \<and> ctx_ok (rpc_box_count (te_rpc env)) c' \<and> ctx_stack c' = ctx_stack (th_context st)"
    if "context_switch_in cfg True (rpc_box_count (te_rpc env)) (te_switch env) CONTEXT_SWITCH_UNBOUND_THREAD dst 0 0 (th_context st, m, port) = Inr (c', m', port')" for cfg dst m port c' m' port'
    using switch_in_spec [OF ctx, where cfg = cfg and switch = "te_switch env" and ty = CONTEXT_SWITCH_UNBOUND_THREAD and dst = dst and ssp = 0 and dsp = 0 and m = m and port = port] that by (simp add: function_bound_def)
  have "thread st' = thread st \<and> PRIMASK st' = PRIMASK st \<and> ctx_ok (rpc_box_count (te_rpc env)) (th_context st') \<and> ctx_stack (th_context st') = ctx_stack (th_context st) \<and>
    th_active st' = (case thread_box env context st of None \<Rightarrow> th_active st | Some b \<Rightarrow> b)"
    using switch_nonatomic_cases [OF placed st1(1), unfolded box]
  proof
    assume "thread_box env context st = None \<and> (\<exists>rpc. st1 = st\<lparr>PRIMASK := True, th_rpc := rpc\<rparr>)"
    then show ?thesis using st1(2) ctx by auto
  next
    assume "\<exists>b c' m m' port rpc. thread_box env context st = Some b \<and> st1 = st\<lparr>PRIMASK := True, th_context := c', th_rpc := rpc, th_port := port\<rparr> \<and>
      (b = th_active (st\<lparr>PRIMASK := True\<rparr>) \<and> c' = th_context (st\<lparr>PRIMASK := True\<rparr>) \<or>
       context_switch_in (rpc_config (te_rpc env)) True (rpc_box_count (te_rpc env)) (te_switch env) CONTEXT_SWITCH_UNBOUND_THREAD b 0 0
         (th_context (st\<lparr>PRIMASK := True\<rparr>), m, th_port (st\<lparr>PRIMASK := True\<rparr>)) = Inr (c', m', port))"
    then show ?thesis using st1(2) ctx by (auto dest: spec)
  qed
  then show "thread st' = thread st" "PRIMASK st' = PRIMASK st" "ctx_ok (rpc_box_count (te_rpc env)) (th_context st')" "ctx_stack (th_context st') = ctx_stack (th_context st)"
    "th_active st' = (case thread_box env context st of None \<Rightarrow> th_active st | Some b \<Rightarrow> b)" by simp_all
qed

text \<open>Why a switch can stop: the delivery of calls or results does, the assertion of a debug build fails, or the switch of the protection driver stops.\<close>

lemma thread_switch_stops:
  assumes ok: "threads_ok env st" and run: "thread_switch env context st = Inl e"
  shows "drain_message_queue (te_rounds env) (te_wakes env) (thread_rpc_env env st) (th_active st) (th_rpc st) = Inl e \<or>
    (\<exists>rpc. drain_message_queue (te_rounds env) (te_wakes env) (thread_rpc_env env st) (th_active st) (th_rpc st) = Inr rpc \<and>
      drain_result_queue (te_rounds env) (thread_rpc_env env st) (th_active st) rpc = Inl e) \<or>
    debug (rpc_build (te_rpc env)) \<and> context \<noteq> 0 \<and> thread_box env context st = None \<or> (\<exists>b. thread_box env context st = Some b \<and> te_switch env b (th_active st) b (th_port st) = Inl e)"
proof (cases "\<exists>rpc1 rpc. drain_message_queue (te_rounds env) (te_wakes env) (thread_rpc_env env st) (th_active st) (th_rpc st) = Inr rpc1 \<and>
    drain_result_queue (te_rounds env) (thread_rpc_env env st) (th_active st) rpc1 = Inr rpc")
  case True
  then obtain rpc1 rpc where drain: "drain_message_queue (te_rounds env) (te_wakes env) (thread_rpc_env env st) (th_active st) (th_rpc st) = Inr rpc1"
    "drain_result_queue (te_rounds env) (thread_rpc_env env st) (th_active st) rpc1 = Inr rpc" by blast
  let ?t = "thread st ! thread_index env context" let ?n = "rpc_box_count (te_rpc env)"
  have placed: "table_placed env" and ctx: "ctx_ok ?n (th_context st)" using ok by (simp_all add: threads_ok_def)
  have env: "thread_rpc_env env (st\<lparr>PRIMASK := True\<rparr>) = thread_rpc_env env st" by (simp add: thread_rpc_env_def)
  have na: "thread_switch_nonatomic env context (st\<lparr>PRIMASK := True\<rparr>) = Inl e" using run by (auto simp: thread_switch_def bind_res_Inl_iff)
  show ?thesis
  proof (cases "thread_ctx_valid (te_base env) context \<and> allocator ?t \<noteq> 0")
    case used: True
    then obtain i where "i < 16" "thread_index env context = i" using thread_ctx_valid_iff [OF placed] by auto
    then have "?t \<in> set (thread st)" using ok by (simp add: threads_ok_def UVISOR_EXPORT_TABLE_THREADS_MAX_COUNT_def)
    then have "0 \<le> process_id ?t" "process_id ?t < int (unat ?n)" using ok used by (auto simp: threads_ok_def)
    then obtain k where "process_id ?t = int k" "k < unat ?n" by (metis nonneg_int_cases of_nat_less_iff)
    then have b: "word_of_int (process_id ?t) < ?n" using unat_u8_lt [of ?n] by (simp add: word_less_nat_alt unat_of_nat_u8)
    have "context_switch_in (rpc_config (te_rpc env)) True ?n (te_switch env) CONTEXT_SWITCH_UNBOUND_THREAD (word_of_int (process_id ?t)) 0 0 (th_context st, rpc_mem rpc, th_port st) = Inl e"
      using na drain used env by (auto simp: thread_switch_nonatomic_def Let_def bind_res_Inl_iff split: if_splits)
    then have "te_switch env (word_of_int (process_id ?t)) (th_active st) (word_of_int (process_id ?t)) (th_port st) = Inl e"
      using switch_in_spec [OF ctx, where cfg = "rpc_config (te_rpc env)" and switch = "te_switch env" and ty = CONTEXT_SWITCH_UNBOUND_THREAD and dst = "word_of_int (process_id ?t)"
          and ssp = 0 and dsp = 0 and m = "rpc_mem rpc" and port = "th_port st"] b by (auto simp: function_bound_def)
    then show ?thesis using used by (simp add: thread_box_cases [OF placed])
  next
    case False
    then have "debug (rpc_build (te_rpc env)) \<and> context \<noteq> 0"
      using na drain env by (auto simp: thread_switch_nonatomic_def Let_def bind_res_Inl_iff assert_res_def split: if_splits)
    then show ?thesis using False by (auto simp: thread_box_cases [OF placed])
  qed
next
  case False
  have "thread_rpc_env env (st\<lparr>PRIMASK := True\<rparr>) = thread_rpc_env env st" by (simp add: thread_rpc_env_def)
  then show ?thesis using run False by (auto simp: thread_switch_def thread_switch_nonatomic_def bind_res_Inl_iff)
qed

text \<open>
  Calls of the boxes and the host OS in any order. The argument \<open>B\<close> is the set of the boxes that destroy threads: a call of \<open>thread_destroy\<close> is made while one of them is active.
\<close>

inductive thread_calls :: "'p thread_env \<Rightarrow> u8 set \<Rightarrow> 'p thread_state \<Rightarrow> 'p thread_state \<Rightarrow> bool" for env B where
  calls_refl: "thread_calls env B st st"
| calls_create: "thread_calls env B st st1 \<Longrightarrow> thread_create env context st1 = (p, st2) \<Longrightarrow> thread_calls env B st st2"
| calls_destroy: "thread_calls env B st st1 \<Longrightarrow> th_active st1 \<in> B \<Longrightarrow> thread_destroy env context st1 = Inr st2 \<Longrightarrow> thread_calls env B st st2"
| calls_switch: "thread_calls env B st st1 \<Longrightarrow> thread_switch env context st1 = Inr st2 \<Longrightarrow> thread_calls env B st st2"

lemma threads_ok_upd:
  assumes "threads_ok env st" "allocator t \<noteq> 0 \<longrightarrow> process_id t = int (unat (th_active st))"
  shows "threads_ok env (st\<lparr>thread := (thread st)[ii := t]\<rparr>)"
proof -
  have "th_active st < rpc_box_count (te_rpc env)" using assms(1) by (simp add: threads_ok_def ctx_ok_def)
  then have "int (unat (th_active st)) < int (unat (rpc_box_count (te_rpc env)))" by (simp only: word_less_nat_alt of_nat_less_iff)
  then show ?thesis using assms set_update_subset_insert [of "thread st" ii t] by (auto simp: threads_ok_def)
qed

lemma threads_ok_calls: "thread_calls env B st st' \<Longrightarrow> threads_ok env st \<Longrightarrow> threads_ok env st'"
proof (induction rule: thread_calls.induct)
  case (calls_create st st1 c p st2)
  then show ?case using thread_create_entry [OF calls_create(2)] by (auto intro: threads_ok_upd)
next
  case (calls_destroy st st1 c st2)
  then show ?case using thread_destroy_entry [OF _ calls_destroy(3)] by (auto simp: threads_ok_def [of env st1] intro: threads_ok_upd)
next
  case (calls_switch st st1 c st2)
  then have ok: "threads_ok env st1" by simp
  then show ?case using thread_switch_spec [OF ok calls_switch(2)] by (simp add: threads_ok_def)
qed

text \<open>
  C14: Threads stay with the box that created them. Whatever calls the boxes and the host OS make, with whatever pointers: an entry of the table that a thread uses keeps its
  box and its allocator, as long as that box itself destroys no thread; it belongs to a box that exists. Switching to a pointer activates the box of the thread that the pointer
  names, exactly when it is the address of an entry in use, and otherwise no box; it leaves the table, the stack of contexts and the interrupt mask as they were. It stops only when the delivery
  of calls and results or the protection driver does, or, in a debug build, because the pointer names no thread.
\<close>

theorem thread_ownership:
  assumes "threads_ok env st" "thread_calls env B st st'" "i < 16" "allocator (thread st ! i) \<noteq> 0" "word_of_int (process_id (thread st ! i)) \<notin> B"
  shows "thread st' ! i = thread st ! i \<and> 0 \<le> process_id (thread st ! i) \<and> process_id (thread st ! i) < int (unat (rpc_box_count (te_rpc env))) \<and>
    (case thread_switch env context st' of
       Inl e \<Rightarrow> drain_message_queue (te_rounds env) (te_wakes env) (thread_rpc_env env st') (th_active st') (th_rpc st') = Inl e \<or>
         (\<exists>rpc. drain_message_queue (te_rounds env) (te_wakes env) (thread_rpc_env env st') (th_active st') (th_rpc st') = Inr rpc \<and>
            drain_result_queue (te_rounds env) (thread_rpc_env env st') (th_active st') rpc = Inl e) \<or>
         debug (rpc_build (te_rpc env)) \<and> context \<noteq> 0 \<and> thread_box env context st' = None \<or>
         (\<exists>b. thread_box env context st' = Some b \<and> te_switch env b (th_active st') b (th_port st') = Inl e)
     | Inr st2 \<Rightarrow> th_active st2 = (case thread_box env context st' of None \<Rightarrow> th_active st' | Some b \<Rightarrow> b) \<and> thread st2 = thread st' \<and>
         ctx_stack (th_context st2) = ctx_stack (th_context st') \<and> PRIMASK st2 = PRIMASK st')" (is "_ \<and> _ \<and> _ \<and> ?switched")
proof -
  have "thread st' ! i = thread st ! i"
    using assms(2,1,4,5)
  proof (induction rule: thread_calls.induct)
    case (calls_create st st1 c p st2)
    have "thread st2 ! i = thread st1 ! i"
      using thread_create_entry [OF calls_create(2)]
    proof (elim disjE exE conjE)
      fix ii t assume ii: "allocator (thread st1 ! ii) = 0" "st2 = st1\<lparr>thread := (thread st1)[ii := t]\<rparr>"
      have "ii \<noteq> i" using ii(1) calls_create by auto
      then show ?thesis by (simp add: ii(2))
    qed simp
    then show ?case using calls_create by simp
  next
    case (calls_destroy st st1 c st2)
    have "table_placed env" using calls_destroy.prems(1) by (simp add: threads_ok_def)
    then have "st2 = st1 \<or> (\<exists>ii < 16. process_id (thread st1 ! ii) = int (unat (th_active st1)) \<and> st2 = st1\<lparr>thread := (thread st1)[ii := (thread st1 ! ii)\<lparr>allocator := 0\<rparr>]\<rparr>)"
      using thread_destroy_entry [OF _ calls_destroy(3)] by blast
    then have "thread st2 ! i = thread st1 ! i"
    proof (elim disjE exE conjE)
      fix ii assume ii: "process_id (thread st1 ! ii) = int (unat (th_active st1))" "st2 = st1\<lparr>thread := (thread st1)[ii := (thread st1 ! ii)\<lparr>allocator := 0\<rparr>]\<rparr>"
      have "ii \<noteq> i" using ii(1) calls_destroy by auto
      then show ?thesis by (simp add: ii(2))
    qed simp
    then show ?case using calls_destroy by simp
  next
    case (calls_switch st st1 c st2)
    then show ?case using thread_switch_spec(1) [OF threads_ok_calls [OF calls_switch(1)] calls_switch(2)] by simp
  qed simp
  moreover have "thread st ! i \<in> set (thread st)" using assms(1,3) by (simp add: threads_ok_def UVISOR_EXPORT_TABLE_THREADS_MAX_COUNT_def)
  then have "0 \<le> process_id (thread st ! i) \<and> process_id (thread st ! i) < int (unat (rpc_box_count (te_rpc env)))" using assms(1,4) unfolding threads_ok_def by blast
  moreover have ?switched
  proof (cases "thread_switch env context st'")
    case (Inl e)
    show ?thesis unfolding Inl sum.case by (rule thread_switch_stops [OF threads_ok_calls [OF assms(2,1)] Inl])
  next
    case (Inr st2)
    show ?thesis unfolding Inr sum.case using thread_switch_spec [OF threads_ok_calls [OF assms(2,1)] Inr] by (intro conjI)
  qed
  ultimately show ?thesis by blast
qed

section \<open>Examples\<close>

text \<open>Box 1 is active; the first entry is a thread of box 0. The boxes have no queues for calls.\<close>

definition example_thread_env :: "unit thread_env" where
  "example_thread_env = \<lparr>te_base = 0x20000100, te_rpc = example_rpc_env\<lparr>rpc_build := example_build\<lparr>debug := False\<rparr>\<rparr>, te_switch = (\<lambda>_ _ _ port. Inr port), te_rounds = 1, te_wakes = 1\<rparr>"

definition example_threads :: "unit thread_state" where
  "example_threads = \<lparr>thread = \<lparr>allocator = 0x20003000, process_id = 0\<rparr> # replicate 15 \<lparr>allocator = 0, process_id = 0\<rparr>, th_context = example_contexts,
     th_rpc = \<lparr>rpc_queues = (\<lambda>_. example_rpc_queue 0 0 0), rpc_pools = (\<lambda>_. example_pool), rpc_mem = (\<lambda>_. 0), rpc_posted = []\<rparr>, th_port = (), PRIMASK = False\<rparr>"

lemma example_threads_ok: "threads_ok example_thread_env example_threads"
proof -
  have "ctx_ok 2 example_contexts" by (simp add: ctx_ok_def example_contexts_def context_consts UVISOR_MAX_BOXES_def ctx_stack_def)
  then show ?thesis
    by (simp add: threads_ok_def table_placed_def example_thread_env_def example_threads_def example_rpc_env_def UVISOR_EXPORT_TABLE_THREADS_MAX_COUNT_def)
qed

lemma example_thread_drains:
  assumes "rpc_mem rpc = (\<lambda>_. 0)" "th_context st = example_contexts"
  shows "drain_message_queue n w (thread_rpc_env example_thread_env st) 1 rpc = Inr rpc" "drain_result_queue n (thread_rpc_env example_thread_env st) 1 rpc = Inr rpc"
  using assms by (simp_all add: drain_message_queue_def drain_result_queue_def thread_rpc_env_def example_thread_env_def is_valid_queue_def example_contexts_def uvisor_rpc_def read32_def
      drop_message_def assert_res_def Let_def rpc_layout)

theorem thread_ownership_witness:
  "\<exists>st1 st2. thread_destroy example_thread_env 0x20000100 example_threads = Inr example_threads \<and> thread_create example_thread_env 0x20004000 example_threads = (0x20000108, st1) \<and>
    thread_switch example_thread_env 0x20000100 st1 = Inr st2 \<and> th_active st2 = 0 \<and> allocator (thread st2 ! 0) = 0x20003000"
proof -
  let ?e = example_thread_env and ?st = example_threads
  have destroy: "thread_destroy ?e 0x20000100 ?st = Inr ?st"
    by (simp add: thread_destroy_def Let_def example_thread_env_def thread_index_def example_threads_def example_contexts_def assert_res_def)
  have "find (\<lambda>ii. allocator (thread ?st ! ii) = 0) [0..<UVISOR_EXPORT_TABLE_THREADS_MAX_COUNT] = Some 1"
    by (simp add: example_threads_def UVISOR_EXPORT_TABLE_THREADS_MAX_COUNT_def upt_rec)
  then obtain st1 where create: "thread_create ?e 0x20004000 ?st = (0x20000108, st1)" and st1: "st1 = ?st\<lparr>thread := (thread ?st)[1 := \<lparr>allocator = 0x20004000, process_id = 1\<rparr>]\<rparr>"
    by (auto simp: thread_create_def Let_def example_thread_env_def example_threads_def example_contexts_def)
  have calls: "thread_calls ?e {1} ?st st1"
    by (rule calls_create [OF calls_destroy [OF calls_refl _ destroy] create]) (simp add: example_threads_def example_contexts_def)
  have box: "thread_box ?e 0x20000100 st1 = Some 0"
    by (simp add: thread_box_def st1 example_threads_def example_thread_env_def UVISOR_EXPORT_TABLE_THREADS_MAX_COUNT_def upt_rec)
  have act: "th_active st1 = 1" "rpc_mem (th_rpc st1) = (\<lambda>_. 0)" "th_context st1 = example_contexts" by (simp_all add: st1 example_threads_def example_contexts_def)
  have owner: "allocator (thread ?st ! 0) \<noteq> 0" "word_of_int (process_id (thread ?st ! 0)) \<notin> {1 :: u8}" by (simp_all add: example_threads_def)
  note own = thread_ownership [OF example_threads_ok calls _ owner, of "0x20000100", unfolded act(1) box]
  show ?thesis
  proof (cases "thread_switch ?e 0x20000100 st1")
    case (Inl e)
    then show ?thesis using own example_thread_drains [OF act(2,3)] by (simp add: example_thread_env_def)
  next
    case (Inr st2)
    then show ?thesis using own destroy create by (simp add: example_threads_def)
  qed
qed

end
