(* ===== verification/Svc.thy ===== *)
theory Svc
  imports Vmpu_Sanity
begin

text \<open>
  Supervisor calls on ARMv7-M, \<^verbatim>\<open>core/system/src/core_armv7m/svc.c\<close> and \<^verbatim>\<open>api/inc/svc_exports.h\<close>: the byte in the \<open>svc\<close> instruction selects a handler. The
  handler is written in assembly inside the C function; its decisions and memory accesses are modelled, with the handlers as names. What the handlers do is in the other theories.
\<close>

unbundle bit_operations_syntax

section \<open>The byte of a call\<close>

definition UVISOR_SVC_MODE_FAST :: u8 where "UVISOR_SVC_MODE_FAST = 1"
definition UVISOR_SVC_MODE_SLOW :: u8 where "UVISOR_SVC_MODE_SLOW = 0"
definition UVISOR_SVC_MODE_BIT :: nat where "UVISOR_SVC_MODE_BIT = 7"
definition UVISOR_SVC_MODE_MASK :: u8 where "UVISOR_SVC_MODE_MASK = push_bit UVISOR_SVC_MODE_BIT 1"
definition UVISOR_SVC_MODE :: "u8 \<Rightarrow> u8" where "UVISOR_SVC_MODE md = push_bit UVISOR_SVC_MODE_BIT md AND UVISOR_SVC_MODE_MASK"
definition UVISOR_SVC_FAST_INDEX_MAX :: nat where "UVISOR_SVC_FAST_INDEX_MAX = 2 ^ 4"
definition UVISOR_SVC_SLOW_INDEX_MAX :: nat where "UVISOR_SVC_SLOW_INDEX_MAX = 2 ^ 7"
definition UVISOR_SVC_FAST_INDEX_MASK :: u8 where "UVISOR_SVC_FAST_INDEX_MASK = 0xF"
definition UVISOR_SVC_SLOW_INDEX_MASK :: u8 where "UVISOR_SVC_SLOW_INDEX_MASK = 0x7F"
definition UVISOR_SVC_FAST_INDEX :: "u8 \<Rightarrow> u8" where "UVISOR_SVC_FAST_INDEX index = index AND UVISOR_SVC_FAST_INDEX_MASK"
definition UVISOR_SVC_SLOW_INDEX :: "u8 \<Rightarrow> u8" where "UVISOR_SVC_SLOW_INDEX index = index AND UVISOR_SVC_SLOW_INDEX_MASK"
definition UVISOR_SVC_FAST_NARGS_BIT :: nat where "UVISOR_SVC_FAST_NARGS_BIT = 4"
definition UVISOR_SVC_FAST_NARGS_MASK :: u8 where "UVISOR_SVC_FAST_NARGS_MASK = push_bit UVISOR_SVC_FAST_NARGS_BIT 7"
definition UVISOR_SVC_FAST_NARGS_SET :: "u8 \<Rightarrow> u8" where "UVISOR_SVC_FAST_NARGS_SET nargs = push_bit UVISOR_SVC_FAST_NARGS_BIT nargs AND UVISOR_SVC_FAST_NARGS_MASK"
definition UVISOR_SVC_FAST_NARGS_GET :: "u8 \<Rightarrow> u8" where "UVISOR_SVC_FAST_NARGS_GET svc_id = drop_bit UVISOR_SVC_FAST_NARGS_BIT (svc_id AND UVISOR_SVC_FAST_NARGS_MASK)"

definition UVISOR_SVC_CUSTOM_TABLE :: "u8 \<Rightarrow> u8" where
  "UVISOR_SVC_CUSTOM_TABLE index = UVISOR_SVC_MODE UVISOR_SVC_MODE_SLOW OR UVISOR_SVC_SLOW_INDEX index"

definition UVISOR_SVC_FIXED_TABLE :: "u8 \<Rightarrow> u8 \<Rightarrow> u8" where
  "UVISOR_SVC_FIXED_TABLE index nargs = UVISOR_SVC_MODE UVISOR_SVC_MODE_FAST OR UVISOR_SVC_FAST_INDEX index OR UVISOR_SVC_FAST_NARGS_SET nargs"

lemmas svc_byte_defs = UVISOR_SVC_MODE_FAST_def UVISOR_SVC_MODE_SLOW_def UVISOR_SVC_MODE_BIT_def UVISOR_SVC_MODE_MASK_def UVISOR_SVC_MODE_def UVISOR_SVC_FAST_INDEX_MASK_def
  UVISOR_SVC_SLOW_INDEX_MASK_def UVISOR_SVC_FAST_INDEX_def UVISOR_SVC_SLOW_INDEX_def UVISOR_SVC_FAST_NARGS_BIT_def UVISOR_SVC_FAST_NARGS_MASK_def UVISOR_SVC_FAST_NARGS_SET_def
  UVISOR_SVC_FAST_NARGS_GET_def UVISOR_SVC_CUSTOM_TABLE_def UVISOR_SVC_FIXED_TABLE_def

section \<open>The tables\<close>

datatype svc_function =
    svc_not_implemented | fn_virq_irq_enable | fn_virq_irq_disable | fn_virq_irq_disable_all | fn_virq_irq_enable_all | fn_virq_isr_set | fn_virq_isr_get
  | fn_virq_irq_priority_set | fn_virq_irq_priority_get | fn_virq_irq_pending_set | fn_virq_irq_pending_get | fn_virq_irq_pending_clr | fn_virq_irq_level_get | fn_debug_reboot
  | fn_page_allocator_malloc | fn_page_allocator_free | fn_vmpu_box_namespace_from_id | fn_debug_register_driver | fn_halt_user_error | fn_vmpu_mpu_invalidate
  | fn_virq_gateway_in | fn_virq_gateway_out | fn_register_gateway_perform_operation | fn_box_init_first | fn_box_init_next

text \<open>The entries in the order of \<open>UvisorSvcTarget\<close>.\<close>

definition g_svc_vtor_tbl :: "svc_function list" where
  "g_svc_vtor_tbl =
     [svc_not_implemented, fn_virq_irq_enable, fn_virq_irq_disable, fn_virq_irq_disable_all, fn_virq_irq_enable_all, fn_virq_isr_set, fn_virq_isr_get, fn_virq_irq_priority_set,
      fn_virq_irq_priority_get, fn_virq_irq_pending_set, fn_virq_irq_pending_get, fn_virq_irq_pending_clr, fn_virq_irq_level_get, fn_debug_reboot, fn_page_allocator_malloc,
      fn_page_allocator_free, fn_vmpu_box_namespace_from_id, fn_debug_register_driver, fn_halt_user_error, fn_vmpu_mpu_invalidate]"

definition jump_table_unpriv :: "svc_function list" where
  "jump_table_unpriv = [fn_virq_gateway_out, svc_not_implemented, svc_not_implemented, fn_register_gateway_perform_operation, fn_box_init_first, fn_box_init_next] @ replicate 10 svc_not_implemented"

definition jump_table_priv :: "svc_function list" where
  "jump_table_priv = fn_virq_gateway_in # replicate 15 svc_not_implemented"

definition UVISOR_SVC_ID_GET :: "nat \<Rightarrow> u8" where "UVISOR_SVC_ID_GET offset = UVISOR_SVC_CUSTOM_TABLE (of_nat offset)"

section \<open>The handler\<close>

text \<open>
  What the handler does next: run the hook of the host OS, run a handler of a fast table with the stack pointer, the address of the call and the byte, run a handler of the slow table with four
  arguments, or return.
\<close>

datatype svc_action = Run_hook u32 | Run_fast svc_function u32 u32 u8 | Run_slow svc_function u32 u32 u32 u32 | Svc_return

definition called_from_unpriv :: "access \<Rightarrow> mem \<Rightarrow> u32 \<Rightarrow> u32 \<Rightarrow> svc_action res" where
  "called_from_unpriv acc m priv_svc_0 psp =
     bind_res (vmpu_unpriv_uint32_read acc m (psp + 24)) (\<lambda>pc.
     let pc = pc - 2 in
     bind_res (vmpu_unpriv_uint8_read acc m pc) (\<lambda>imm.
     if imm = 0 then Inr (Run_hook priv_svc_0)
     else if imm AND UVISOR_SVC_MODE_MASK \<noteq> 0 then
       bind_res (arr_get jump_table_unpriv (unat (imm AND UVISOR_SVC_FAST_INDEX_MASK))) (\<lambda>fn. Inr (Run_fast fn psp pc imm))
     else if unat imm \<le> length g_svc_vtor_tbl - 1 then
       bind_res (arr_get g_svc_vtor_tbl (unat imm)) (\<lambda>fn.
       bind_res (vmpu_unpriv_uint32_read acc m (psp + 12)) (\<lambda>r3.
       bind_res (vmpu_unpriv_uint32_read acc m (psp + 8)) (\<lambda>r2.
       bind_res (vmpu_unpriv_uint32_read acc m (psp + 4)) (\<lambda>r1.
       bind_res (vmpu_unpriv_uint32_read acc m psp) (\<lambda>r0. Inr (Run_slow fn r0 r1 r2 r3))))))
     else Inr Svc_return))"

definition called_from_priv :: "mem \<Rightarrow> u32 \<Rightarrow> u32 \<Rightarrow> svc_action res" where
  "called_from_priv m priv_svc_0 msp =
     (let pc = read32 m (msp + 24) - 2; imm = read8 m pc in
      if imm = 0 then Inr (Run_hook priv_svc_0)
      else if imm AND UVISOR_SVC_MODE_MASK \<noteq> 0 then
        bind_res (arr_get jump_table_priv (unat (imm AND UVISOR_SVC_FAST_INDEX_MASK))) (\<lambda>fn. Inr (Run_fast fn msp pc imm))
      else if unat imm \<le> length g_svc_vtor_tbl - 1 then
        bind_res (arr_get g_svc_vtor_tbl (unat imm)) (\<lambda>fn. Inr (Run_slow fn (read32 m msp) (read32 m (msp + 4)) (read32 m (msp + 8)) (read32 m (msp + 12))))
      else Inr Svc_return)"

definition SVCall_IRQn_Handler :: "access \<Rightarrow> mem \<Rightarrow> u32 \<Rightarrow> u32 \<Rightarrow> u32 \<Rightarrow> u32 \<Rightarrow> svc_action res" where
  "SVCall_IRQn_Handler acc m priv_svc_0 lr psp msp = (if lr AND 4 = 0 then called_from_priv m priv_svc_0 msp else called_from_unpriv acc m priv_svc_0 psp)"

text \<open>After a slow handler the result is stored in the stacked \<open>r0\<close>; with the saved \<open>lr\<close> on the stack that is at \<open>sp + 4\<close> for a privileged caller.\<close>

definition svc_thunk_unpriv :: "access \<Rightarrow> mem \<Rightarrow> u32 \<Rightarrow> u32 \<Rightarrow> mem res" where
  "svc_thunk_unpriv acc m psp r0 = vmpu_unpriv_uint32_write acc m psp r0"

definition svc_thunk_priv :: "mem \<Rightarrow> u32 \<Rightarrow> u32 \<Rightarrow> mem" where
  "svc_thunk_priv m sp r0 = write32 m (sp + 4) r0"

definition svc_init :: "build_config \<Rightarrow> unit res" where
  "svc_init bc =
     bind_res (assert_res bc (length jump_table_unpriv = UVISOR_SVC_FAST_INDEX_MAX)) (\<lambda>_.
     bind_res (assert_res bc (length jump_table_priv = UVISOR_SVC_FAST_INDEX_MAX)) (\<lambda>_.
     assert_res bc (length g_svc_vtor_tbl \<le> UVISOR_SVC_SLOW_INDEX_MAX)))"

section \<open>What a call can reach\<close>

lemma svc_tables: "length jump_table_unpriv = 16" "length jump_table_priv = 16" "length g_svc_vtor_tbl = 20"
  by (simp_all add: jump_table_unpriv_def jump_table_priv_def g_svc_vtor_tbl_def)

lemma svc_init_passes: "svc_init bc = Inr ()"
  by (simp add: svc_init_def svc_tables assert_res_def UVISOR_SVC_FAST_INDEX_MAX_def UVISOR_SVC_SLOW_INDEX_MAX_def)

lemma fast_index_bound: "unat (imm AND UVISOR_SVC_FAST_INDEX_MASK) < 16"
proof -
  have "imm AND UVISOR_SVC_FAST_INDEX_MASK \<le> 0xF" unfolding UVISOR_SVC_FAST_INDEX_MASK_def by (rule word_and_le1)
  then show ?thesis by (simp add: word_le_nat_alt)
qed

lemma mode_fast_iff: "imm AND UVISOR_SVC_MODE_MASK \<noteq> 0 \<longleftrightarrow> 128 \<le> unat imm" for imm :: u8
proof -
  have "imm AND UVISOR_SVC_MODE_MASK \<noteq> 0 \<longleftrightarrow> bit imm 7"
    by (simp only: UVISOR_SVC_MODE_MASK_def UVISOR_SVC_MODE_BIT_def bit_iff_and_push_bit_not_eq_0)
  also have "\<dots> \<longleftrightarrow> odd (unat imm div 128)" using bit_iff_odd [of "unat imm" 7] by (simp add: bit_unsigned_iff)
  also have "\<dots> \<longleftrightarrow> 128 \<le> unat imm"
  proof -
    have "unat imm div 128 < 2" using unat_u8_lt [of imm] by (simp add: less_mult_imp_div_less)
    then show ?thesis by (auto simp: less_2_cases_iff)
  qed
  finally show ?thesis .
qed


text \<open>The identifiers select the handlers they are made for, and the number of arguments can be read back.\<close>

lemma svc_id_selects: "0 < i \<Longrightarrow> i < 20 \<Longrightarrow> unat (UVISOR_SVC_ID_GET i) = i"
proof -
  assume i: "0 < i" "i < 20"
  then have "unat (take_bit 7 (of_nat i :: u8)) = i" by (simp add: unsigned_take_bit_eq unat_of_nat_u8 take_bit_nat_eq_self)
  moreover have "(0x7F :: u8) = mask 7" by (simp add: mask_eq_exp_minus_1)
  ultimately have "unat (of_nat i AND (0x7F :: u8)) = i" by (simp only: take_bit_eq_mask)
  then show ?thesis by (simp add: UVISOR_SVC_ID_GET_def svc_byte_defs)
qed

text \<open>A call with the byte 5 and the argument 3 in \<open>r0\<close>.\<close>

definition example_svc_mem :: mem where
  "example_svc_mem = (\<lambda>a. if a = 0x20001000 then 3 else if a = 0x20001018 then 2 else if a = 0x20001019 then 1 else if a = 0x100 then 5 else 0)"


end
