(* ===== verification/Debug_Box.thy ===== *)
theory Debug_Box
  imports Virq Vmpu_Armv8m
begin

text \<open>
  The debug box, \<^verbatim>\<open>core/debug/src/debug_box.c\<close> and \<^verbatim>\<open>core_armv7m/debug_box_armv7m.c\<close>, and the privileged hooks of the host OS,
  \<^verbatim>\<open>core/system/src/core_armv7m/priv_sys_hooks.c\<close>. A box can register itself as the debug box; when uVisor halts, it enters a handler of that box once. In the other theories a halt is
  final, as it is without a debug box.
\<close>

unbundle bit_operations_syntax

section \<open>Privileged hooks\<close>

record UvisorPrivSystemHooks =
  priv_svc_0 :: u32
  priv_pendsv :: u32
  priv_systick :: u32
  priv_os_suspend :: u32
  priv_uvisor_semaphore_post :: u32

definition hooks_at :: "mem \<Rightarrow> u32 \<Rightarrow> UvisorPrivSystemHooks" where
  "hooks_at m p = \<lparr>priv_svc_0 = read32 m p, priv_pendsv = read32 m (p + 4), priv_systick = read32 m (p + 8), priv_os_suspend = read32 m (p + 12),
     priv_uvisor_semaphore_post = read32 m (p + 16)\<rparr>"

definition hook_ok :: "UvisorConfig \<Rightarrow> u32 \<Rightarrow> unit res" where
  "hook_ok cfg hook = (if hook \<noteq> 0 \<and> \<not> vmpu_public_flash_addr cfg hook then Inl (Halt SANITY_CHECK_FAILED) else Inr ())"

text \<open>The size in the first test is that of the pointer, 4 bytes.\<close>

definition priv_sys_hooks_sanity_check :: "UvisorConfig \<Rightarrow> mem \<Rightarrow> u32 \<Rightarrow> unit res" where
  "priv_sys_hooks_sanity_check cfg m p =
     (if \<not> vmpu_public_flash_addr cfg p \<or> \<not> vmpu_public_flash_addr cfg (p + 4) then Inl (Halt SANITY_CHECK_FAILED)
      else
        let hooks = hooks_at m p in
        bind_res (hook_ok cfg (priv_svc_0 hooks)) (\<lambda>_.
        bind_res (hook_ok cfg (priv_pendsv hooks)) (\<lambda>_.
        bind_res (hook_ok cfg (priv_systick hooks)) (\<lambda>_.
        bind_res (hook_ok cfg (priv_os_suspend hooks)) (\<lambda>_.
        hook_ok cfg (priv_uvisor_semaphore_post hooks))))))"

definition load_hook :: "u32 \<Rightarrow> u32 \<Rightarrow> u32" where
  "load_hook new_hook old_hook = (if new_hook \<noteq> 0 then new_hook else old_hook)"

definition priv_sys_hooks_load :: "UvisorConfig \<Rightarrow> mem \<Rightarrow> u32 \<Rightarrow> UvisorPrivSystemHooks \<Rightarrow> UvisorPrivSystemHooks res" where
  "priv_sys_hooks_load cfg m p g =
     bind_res (priv_sys_hooks_sanity_check cfg m p) (\<lambda>_.
     let hooks = hooks_at m p in
     Inr \<lparr>priv_svc_0 = load_hook (priv_svc_0 hooks) (priv_svc_0 g), priv_pendsv = load_hook (priv_pendsv hooks) (priv_pendsv g),
       priv_systick = load_hook (priv_systick hooks) (priv_systick g), priv_os_suspend = load_hook (priv_os_suspend hooks) (priv_os_suspend g),
       priv_uvisor_semaphore_post = load_hook (priv_uvisor_semaphore_post hooks) (priv_uvisor_semaphore_post g)\<rparr>)"

text \<open>The table before hooks are loaded; \<open>isr\<close> is the address of \<open>isr_default_sys_handler\<close>.\<close>

definition default_hooks :: "u32 \<Rightarrow> UvisorPrivSystemHooks" where
  "default_hooks isr = \<lparr>priv_svc_0 = isr, priv_pendsv = isr, priv_systick = isr, priv_os_suspend = 0, priv_uvisor_semaphore_post = 0\<rparr>"

section \<open>The debug box\<close>

record TDebugBox =
  dbg_driver :: u32
  dbg_initialized :: bool
  dbg_box_id :: u8

text \<open>The flag \<open>debugged_once_before\<close> is a static variable of \<open>debug_halt_error\<close>; \<open>'p\<close> is the state of the protection driver.\<close>

record 'p debug_state =
  g_debug_box :: TDebugBox
  debugged_once_before :: bool
  g_priv_sys_hooks :: UvisorPrivSystemHooks
  db_context :: context_state
  db_mem :: mem
  db_port :: 'p
  BASEPRI :: u32

text \<open>The rights of the active box, the switch of the protection driver, the effect of the host OS's suspend function on memory, and the address of \<open>debug_die\<close>.\<close>

record 'p debug_env =
  de_cfg :: UvisorConfig
  de_access :: access
  de_box_count :: u8
  de_switch :: "u8 \<Rightarrow> u8 \<Rightarrow> u8 \<Rightarrow> 'p \<Rightarrow> 'p res"
  de_virq :: virq_config
  de_suspend :: "u32 \<Rightarrow> mem \<Rightarrow> mem"
  debug_die_addr :: u32

definition TRESETREASON_MAX :: u32 where "TRESETREASON_MAX = 2"
definition DEBUG_BOX_HANDLERS_NUMBER :: nat where "DEBUG_BOX_HANDLERS_NUMBER = 2"

text \<open>The suspend hook is called without a check: a null pointer is a call of address 0, which is \<open>Oob\<close> here.\<close>

definition debug_deprivilege_and_return :: "'p debug_env \<Rightarrow> u32 \<Rightarrow> u32 \<Rightarrow> u32 \<Rightarrow> u32 \<Rightarrow> u32 \<Rightarrow> u32 \<Rightarrow> 'p debug_state \<Rightarrow> 'p debug_state res" where
  "debug_deprivilege_and_return env debug_handler return_handler a0 a1 a2 a3 st =
     bind_res (context_validate_exc_sf (de_access env) (db_mem st) (PSP (db_context st))) (\<lambda>ssp.
     let dst_id = dbg_box_id (g_debug_box st) in
     bind_res (vmpu_unpriv_uint32_read (de_access env) (db_mem st) (ssp + 28)) (\<lambda>xpsr.
     bind_res (context_forge_exc_sf (db_context st) (db_mem st) ssp dst_id debug_handler return_handler xpsr 0) (\<lambda>(dst_sp, m).
     let m = write32 (write32 (write32 (write32 m dst_sp a0) (dst_sp + 4) a1) (dst_sp + 8) a2) (dst_sp + 12) a3 in
     bind_res (guard_res (priv_os_suspend (g_priv_sys_hooks st) \<noteq> 0) Oob) (\<lambda>_.
     let m = de_suspend env (priv_os_suspend (g_priv_sys_hooks st)) m;
         basepri = push_bit (8 - NVIC_PRIO_BITS (de_virq env)) UVISOR_NVIC_MIN_PRIORITY in
     bind_res (context_switch_in (de_cfg env) True (de_box_count env) (de_switch env) CONTEXT_SWITCH_FUNCTION_DEBUG dst_id ssp dst_sp (db_context st, m, db_port st)) (\<lambda>(ctx, m, port).
     Inr (st\<lparr>db_context := ctx, db_mem := m, db_port := port, BASEPRI := basepri\<rparr>))))))"

definition halt_code :: "THaltError \<Rightarrow> u32" where
  "halt_code reason = (case reason of HALT_NO_ERROR \<Rightarrow> 0 | PERMISSION_DENIED \<Rightarrow> 1 | SANITY_CHECK_FAILED \<Rightarrow> 2 | NOT_IMPLEMENTED \<Rightarrow> 3 | NOT_ALLOWED \<Rightarrow> 4 | FAULT_MEMMANAGE \<Rightarrow> 5
     | FAULT_BUS \<Rightarrow> 6 | FAULT_USAGE \<Rightarrow> 7 | FAULT_HARD \<Rightarrow> 8 | FAULT_DEBUG \<Rightarrow> 9 | FAULT_SECURE \<Rightarrow> 10)"

text \<open>\<open>halt_error\<close> is the second entry of the driver.\<close>

definition debug_halt_error :: "'p debug_env \<Rightarrow> THaltError \<Rightarrow> 'p debug_state \<Rightarrow> 'p debug_state res" where
  "debug_halt_error env reason st =
     (if \<not> dbg_initialized (g_debug_box st) \<or> debugged_once_before st then Inl Diverge
      else
        let st = st\<lparr>debugged_once_before := True\<rparr> in
        debug_deprivilege_and_return env (read32 (db_mem st) (dbg_driver (g_debug_box st) + 4)) (debug_die_addr env) (halt_code reason) 0 0 0 st)"

definition halt :: "'p debug_env \<Rightarrow> THaltError \<Rightarrow> 'p debug_state \<Rightarrow> 'p debug_state res" where
  "halt env reason st = debug_halt_error env reason st"

text \<open>
  \<open>halt\<close> returns when it has entered the debug box, and its caller goes on. That matters here, where callers of \<open>halt\<close> depend on the debug box. The result of
  \<open>debug_reboot\<close> is the state at the reset of the device.
\<close>

definition halt_if :: "'p debug_env \<Rightarrow> bool \<Rightarrow> THaltError \<Rightarrow> 'p debug_state \<Rightarrow> 'p debug_state res" where
  "halt_if env wrong reason st = (if wrong then halt env reason st else Inr st)"

definition debug_reboot :: "'p debug_env \<Rightarrow> u32 \<Rightarrow> 'p debug_state \<Rightarrow> 'p debug_state res" where
  "debug_reboot env reason st =
     halt_if env (\<not> dbg_initialized (g_debug_box st) \<or> g_active_box (db_context st) \<noteq> dbg_box_id (g_debug_box st) \<or> reason \<ge> TRESETREASON_MAX) NOT_ALLOWED st"

definition debug_get_version :: "'p debug_env \<Rightarrow> 'p debug_state \<Rightarrow> (u32 \<times> 'p debug_state) res" where
  "debug_get_version env st = bind_res (halt env NOT_IMPLEMENTED st) (\<lambda>st. Inr (0, st))"

primrec driver_loop :: "'p debug_env \<Rightarrow> u32 \<Rightarrow> nat \<Rightarrow> 'p debug_state \<Rightarrow> 'p debug_state res" where
  "driver_loop env p 0 st = Inr st"
| "driver_loop env p (Suc n) st =
     bind_res (halt_if env (\<not> vmpu_public_flash_addr (de_cfg env) (read32 (db_mem st) p)) SANITY_CHECK_FAILED st) (\<lambda>st.
     bind_res (halt_if env (read32 (db_mem st) p = 0) SANITY_CHECK_FAILED st) (\<lambda>st.
     driver_loop env (p + 4) n st))"

definition debug_register_driver :: "'p debug_env \<Rightarrow> u32 \<Rightarrow> 'p debug_state \<Rightarrow> 'p debug_state res" where
  "debug_register_driver env driver st =
     bind_res (halt_if env (dbg_initialized (g_debug_box st)) NOT_ALLOWED st) (\<lambda>st.
     bind_res (halt_if env (\<not> vmpu_public_flash_addr (de_cfg env) driver \<or> \<not> vmpu_public_flash_addr (de_cfg env) (driver + 8)) SANITY_CHECK_FAILED st) (\<lambda>st.
     bind_res (halt_if env (driver = 0) SANITY_CHECK_FAILED st) (\<lambda>st.
     bind_res (driver_loop env driver DEBUG_BOX_HANDLERS_NUMBER st) (\<lambda>st.
     Inr (st\<lparr>g_debug_box := \<lparr>dbg_driver = driver, dbg_initialized = True, dbg_box_id = g_active_box (db_context st)\<rparr>\<rparr>)))))"

definition halt_user_error :: "'a res" where "halt_user_error = Inl Diverge"

text \<open>The result is the new \<open>lr\<close> and \<open>SHCSR\<close>.\<close>

definition SCB_SHCSR_SVCALLACT :: u32 where "SCB_SHCSR_SVCALLACT = push_bit 7 1"

definition debug_box_enter_from_priv :: "build_config \<Rightarrow> u32 \<Rightarrow> u32 \<Rightarrow> (u32 \<times> u32) res" where
  "debug_box_enter_from_priv bc lr shcsr =
     (if EXC_FROM_NP lr then Inr (lr, shcsr)
      else bind_res (assert_res bc (shcsr AND SCB_SHCSR_SVCALLACT \<noteq> 0)) (\<lambda>_. Inr (0xFFFFFFFD, shcsr AND NOT SCB_SHCSR_SVCALLACT)))"

section \<open>What halting does\<close>

lemma deprivilege_spec:
  assumes ctx: "ctx_ok (de_box_count env) (db_context st)" and run: "debug_deprivilege_and_return env h r a0 a1 a2 a3 st = Inr st'"
  shows "g_debug_box st' = g_debug_box st" "debugged_once_before st' = debugged_once_before st" "g_active_box (db_context st') = dbg_box_id (g_debug_box st)"
    "ctx_ok (de_box_count env) (db_context st')" "dbg_box_id (g_debug_box st) < de_box_count env"
    "ctx_stack (db_context st') = \<lparr>src_id = g_active_box (db_context st), ctx_type = CONTEXT_SWITCH_FUNCTION_DEBUG, src_sp = PSP (db_context st)\<rparr> # ctx_stack (db_context st)"
    "BASEPRI st' = push_bit (8 - NVIC_PRIO_BITS (de_virq env)) UVISOR_NVIC_MIN_PRIORITY" "priv_os_suspend (g_priv_sys_hooks st) \<noteq> 0"
proof -
  obtain ssp dst_sp m port c' m' where v: "context_validate_exc_sf (de_access env) (db_mem st) (PSP (db_context st)) = Inr ssp" and hook: "priv_os_suspend (g_priv_sys_hooks st) \<noteq> 0"
    and sw: "context_switch_in (de_cfg env) True (de_box_count env) (de_switch env) CONTEXT_SWITCH_FUNCTION_DEBUG (dbg_box_id (g_debug_box st)) ssp dst_sp (db_context st, m, db_port st) = Inr (c', m', port)"
    and st': "st' = st\<lparr>db_context := c', db_mem := m', db_port := port, BASEPRI := push_bit (8 - NVIC_PRIO_BITS (de_virq env)) UVISOR_NVIC_MIN_PRIORITY\<rparr>"
    using run by (auto simp: debug_deprivilege_and_return_def bind_res_Inr_iff Let_def guard_res_def split: if_splits)
  have "ssp = PSP (db_context st)" using v by (auto simp: context_validate_exc_sf_def bind_res_Inr_iff)
  moreover have "dbg_box_id (g_debug_box st) < de_box_count env \<and> g_active_box c' = dbg_box_id (g_debug_box st) \<and> ctx_ok (de_box_count env) c' \<and>
      ctx_stack c' = \<lparr>src_id = g_active_box (db_context st), ctx_type = CONTEXT_SWITCH_FUNCTION_DEBUG, src_sp = ssp\<rparr> # ctx_stack (db_context st)"
    using switch_in_spec [OF ctx, where cfg = "de_cfg env" and switch = "de_switch env" and ty = CONTEXT_SWITCH_FUNCTION_DEBUG and dst = "dbg_box_id (g_debug_box st)" and ssp = ssp
        and dsp = dst_sp and m = m and port = "db_port st"] by (simp add: sw function_bound_def)
  ultimately show "g_debug_box st' = g_debug_box st" "debugged_once_before st' = debugged_once_before st" "g_active_box (db_context st') = dbg_box_id (g_debug_box st)"
    "ctx_ok (de_box_count env) (db_context st')" "dbg_box_id (g_debug_box st) < de_box_count env"
    "ctx_stack (db_context st') = \<lparr>src_id = g_active_box (db_context st), ctx_type = CONTEXT_SWITCH_FUNCTION_DEBUG, src_sp = PSP (db_context st)\<rparr> # ctx_stack (db_context st)"
    "BASEPRI st' = push_bit (8 - NVIC_PRIO_BITS (de_virq env)) UVISOR_NVIC_MIN_PRIORITY" "priv_os_suspend (g_priv_sys_hooks st) \<noteq> 0"
    using hook by (simp_all add: st')
qed

lemma halt_stuck: "\<not> dbg_initialized (g_debug_box st) \<or> debugged_once_before st \<Longrightarrow> halt env reason st = Inl Diverge"
  by (simp add: halt_def debug_halt_error_def)

lemma halt_if_stuck: "\<not> dbg_initialized (g_debug_box st) \<or> debugged_once_before st \<Longrightarrow> halt_if env wrong reason st = Inr st' \<longleftrightarrow> \<not> wrong \<and> st' = st"
  by (auto simp: halt_if_def halt_stuck)

lemma halt_enters:
  assumes ctx: "ctx_ok (de_box_count env) (db_context st)" and run: "halt env reason st = Inr st'"
  shows "dbg_initialized (g_debug_box st) \<and> \<not> debugged_once_before st \<and> debugged_once_before st' \<and> g_debug_box st' = g_debug_box st \<and>
    g_active_box (db_context st') = dbg_box_id (g_debug_box st) \<and> dbg_box_id (g_debug_box st) < de_box_count env \<and>
    ctx_stack (db_context st') = \<lparr>src_id = g_active_box (db_context st), ctx_type = CONTEXT_SWITCH_FUNCTION_DEBUG, src_sp = PSP (db_context st)\<rparr> # ctx_stack (db_context st)"
proof -
  let ?st = "st\<lparr>debugged_once_before := True\<rparr>"
  have "\<not> (\<not> dbg_initialized (g_debug_box st) \<or> debugged_once_before st)" using run halt_stuck [of st env reason] by auto
  moreover from this have "debug_deprivilege_and_return env (read32 (db_mem st) (dbg_driver (g_debug_box st) + 4)) (debug_die_addr env) (halt_code reason) 0 0 0 ?st = Inr st'"
    using run by (simp add: halt_def debug_halt_error_def Let_def)
  note d = deprivilege_spec [OF _ this]
  ultimately show ?thesis using d ctx by simp
qed

lemma driver_loop_stuck:
  assumes "\<not> dbg_initialized (g_debug_box st) \<or> debugged_once_before st"
  shows "driver_loop env p n st = Inr st' \<longleftrightarrow>
    st' = st \<and> (\<forall>i < n. read32 (db_mem st) (p + 4 * of_nat i) \<noteq> 0 \<and> vmpu_public_flash_addr (de_cfg env) (read32 (db_mem st) (p + 4 * of_nat i)))"
  using assms
proof (induction n arbitrary: p)
  case (Suc n)
  have first: "(\<forall>i < Suc n. Q (p + 4 * of_nat i)) \<longleftrightarrow> Q p \<and> (\<forall>i < n. Q (p + 4 + 4 * of_nat i))" for Q :: "u32 \<Rightarrow> bool"
    by (auto simp: less_Suc_eq_0_disj algebra_simps)
  show ?case
    unfolding first [of "\<lambda>a. read32 (db_mem st) a \<noteq> 0 \<and> vmpu_public_flash_addr (de_cfg env) (read32 (db_mem st) a)"]
    using Suc by (auto simp: bind_res_Inr_iff halt_if_stuck)
qed auto

text \<open>
  C21: Halting and the debug box. A halt returns only when a debug box is registered and has not been entered before; then that box is active, and the interrupted context is on the stack of
  contexts. When there is no debug box yet, or it has been entered, exactly these calls return: the debug box may reset the device with a known reason, and a box becomes the debug box when there is none, if
  its driver and all handlers are in public flash and not null.
\<close>

theorem debug_box_guarded:
  fixes st
  defines "box \<equiv> g_debug_box st" and "active \<equiv> g_active_box (db_context st)"
  assumes "ctx_ok (de_box_count env) (db_context st)"
  shows "(halt env reason st = Inr st1 \<longrightarrow> dbg_initialized box \<and> \<not> debugged_once_before st \<and> debugged_once_before st1 \<and> g_debug_box st1 = box \<and>
      g_active_box (db_context st1) = dbg_box_id box \<and> dbg_box_id box < de_box_count env \<and>
      ctx_stack (db_context st1) = \<lparr>src_id = active, ctx_type = CONTEXT_SWITCH_FUNCTION_DEBUG, src_sp = PSP (db_context st)\<rparr> # ctx_stack (db_context st)) \<and>
    (\<not> dbg_initialized box \<or> debugged_once_before st \<longrightarrow>
      (debug_reboot env r st = Inr st2 \<longleftrightarrow> dbg_initialized box \<and> active = dbg_box_id box \<and> r < 2 \<and> st2 = st) \<and>
      (debug_register_driver env driver st = Inr st3 \<longleftrightarrow> \<not> dbg_initialized box \<and> vmpu_public_flash_addr (de_cfg env) driver \<and> vmpu_public_flash_addr (de_cfg env) (driver + 8) \<and>
        driver \<noteq> 0 \<and> (\<forall>i < 2. read32 (db_mem st) (driver + 4 * of_nat i) \<noteq> 0 \<and> vmpu_public_flash_addr (de_cfg env) (read32 (db_mem st) (driver + 4 * of_nat i))) \<and>
        st3 = st\<lparr>g_debug_box := \<lparr>dbg_driver = driver, dbg_initialized = True, dbg_box_id = active\<rparr>\<rparr>))"
proof (intro conjI impI)
  assume stuck: "\<not> dbg_initialized box \<or> debugged_once_before st"
  then show "debug_reboot env r st = Inr st2 \<longleftrightarrow> dbg_initialized box \<and> active = dbg_box_id box \<and> r < 2 \<and> st2 = st"
    by (auto simp: debug_reboot_def halt_if_stuck box_def active_def TRESETREASON_MAX_def)
  show "debug_register_driver env driver st = Inr st3 \<longleftrightarrow> \<not> dbg_initialized box \<and> vmpu_public_flash_addr (de_cfg env) driver \<and> vmpu_public_flash_addr (de_cfg env) (driver + 8) \<and>
      driver \<noteq> 0 \<and> (\<forall>i < 2. read32 (db_mem st) (driver + 4 * of_nat i) \<noteq> 0 \<and> vmpu_public_flash_addr (de_cfg env) (read32 (db_mem st) (driver + 4 * of_nat i))) \<and>
      st3 = st\<lparr>g_debug_box := \<lparr>dbg_driver = driver, dbg_initialized = True, dbg_box_id = active\<rparr>\<rparr>"
    using driver_loop_stuck [of st env driver 2] halt_if_stuck [of st env] stuck
    by (auto simp: debug_register_driver_def bind_res_Inr_iff DEBUG_BOX_HANDLERS_NUMBER_def box_def active_def)
qed (use halt_enters [OF assms(3), of reason st1] in \<open>auto simp: box_def active_def\<close>)

section \<open>Calls that go on after a halt\<close>

lemma read_words_granted: "(\<And>w a k. acc w a k) \<Longrightarrow> read_words acc m a n = Inr ()"
  by (induction n arbitrary: a) (simp_all add: vmpu_unpriv_uint32_read_def)

lemma halt_returns:
  assumes ctx: "ctx_ok (de_box_count env) (db_context st)" and box: "dbg_initialized (g_debug_box st)" "\<not> debugged_once_before st" "dbg_box_id (g_debug_box st) < de_box_count env"
    and acc: "\<And>w a k. de_access env w a k" and hook: "priv_os_suspend (g_priv_sys_hooks st) \<noteq> 0" and depth: "length (ctx_stack (db_context st)) < UVISOR_CONTEXT_MAX_DEPTH"
    and switch: "\<And>a b c p. \<exists>p'. de_switch env a b c p = Inr p'"
  shows "\<exists>st'. halt env reason st = Inr st'"
proof -
  let ?b = "dbg_box_id (g_debug_box st)" and ?psp = "PSP (db_context st)"
  have v: "context_validate_exc_sf (de_access env) (db_mem st) ?psp = Inr ?psp"
    using read_words_granted [of "de_access env", OF acc] by (simp add: context_validate_exc_sf_def vmpu_unpriv_uint32_read_def acc)
  have x: "vmpu_unpriv_uint32_read (de_access env) (db_mem st) (?psp + 28) = Inr (read32 (db_mem st) (?psp + 28))" by (simp add: vmpu_unpriv_uint32_read_def acc)
  obtain d m where f: "context_forge_exc_sf (db_context st) (db_mem st) ?psp ?b h r (read32 (db_mem st) (?psp + 28)) 0 = Inr (d h r, m h r)" for h r
    using ctx_ok_box [OF ctx box(3)] by (simp add: context_forge_exc_sf_def Let_def)
  have sw: "\<exists>c' m' p. context_switch_in (de_cfg env) True (de_box_count env) (de_switch env) CONTEXT_SWITCH_FUNCTION_DEBUG ?b ?psp dsp (db_context st, m0, db_port st) = Inr (c', m', p)" for dsp m0
  proof (cases "context_switch_in (de_cfg env) True (de_box_count env) (de_switch env) CONTEXT_SWITCH_FUNCTION_DEBUG ?b ?psp dsp (db_context st, m0, db_port st)")
    case (Inl e)
    then show ?thesis
      using switch_in_spec [OF ctx, where cfg = "de_cfg env" and switch = "de_switch env" and ty = CONTEXT_SWITCH_FUNCTION_DEBUG and dst = ?b and ssp = ?psp and dsp = dsp and m = m0 and port = "db_port st"]
        box(3) depth switch [of ?b "g_active_box (db_context st)" ?b "db_port st"] by auto
  qed auto
  show ?thesis
    using box(1,2) sw by (auto simp: halt_def debug_halt_error_def debug_deprivilege_and_return_def Let_def v x f guard_res_def hook bind_res_Inr_iff)
qed

text \<open>
  The checks of \<open>debug_reboot\<close> and \<open>debug_register_driver\<close> do not return after \<open>halt\<close>. With a debug box that has not been entered yet, every box can reset the device, and can replace
  the driver of the debug box by its own.
\<close>

theorem debug_reboot_by_any_box:
  assumes "ctx_ok (de_box_count env) (db_context st)" "dbg_initialized (g_debug_box st)" "\<not> debugged_once_before st" "dbg_box_id (g_debug_box st) < de_box_count env"
    "\<And>w a k. de_access env w a k" "priv_os_suspend (g_priv_sys_hooks st) \<noteq> 0" "length (ctx_stack (db_context st)) < UVISOR_CONTEXT_MAX_DEPTH"
    "\<And>a b c p. \<exists>p'. de_switch env a b c p = Inr p'"
  shows "\<exists>st'. debug_reboot env reason st = Inr st'"
  using halt_returns [OF assms, of NOT_ALLOWED] by (simp add: debug_reboot_def halt_if_def)

theorem debug_register_driver_replaces:
  assumes "ctx_ok (de_box_count env) (db_context st)" "halt env NOT_ALLOWED st = Inr st1" "vmpu_public_flash_addr (de_cfg env) driver" "vmpu_public_flash_addr (de_cfg env) (driver + 8)" "driver \<noteq> 0"
    "\<forall>i < 2. read32 (db_mem st1) (driver + 4 * of_nat i) \<noteq> 0 \<and> vmpu_public_flash_addr (de_cfg env) (read32 (db_mem st1) (driver + 4 * of_nat i))"
  shows "debug_register_driver env driver st = Inr (st1\<lparr>g_debug_box := (g_debug_box st)\<lparr>dbg_driver := driver\<rparr>\<rparr>)"
proof -
  have "dbg_initialized (g_debug_box st)" "debugged_once_before st1" "g_debug_box st1 = g_debug_box st" "g_active_box (db_context st1) = dbg_box_id (g_debug_box st)"
    using halt_enters [OF assms(1,2)] by simp_all
  moreover from this have "driver_loop env driver 2 st1 = Inr st1" using driver_loop_stuck [of st1 env driver 2] assms(6) by simp
  ultimately show ?thesis using assms(2-5) by (cases "g_debug_box st") (simp add: debug_register_driver_def halt_if_def DEBUG_BOX_HANDLERS_NUMBER_def)
qed

section \<open>Examples\<close>

text \<open>
  Two boxes, of which box 1 is active. Flash starts at 0 and its public part ends at \<open>secure_start\<close>. The words at 16 and 20 are a driver.
\<close>

definition example_debug_env :: "unit debug_env" where
  "example_debug_env = \<lparr>de_cfg = example_config\<lparr>flash_start := 0, secure_start := 0x1000\<rparr>, de_access = (\<lambda>_ _ _. True), de_box_count = 2, de_switch = (\<lambda>_ _ _ p. Inr p),
     de_virq = \<lparr>NVIC_VECTORS = 2, uvisor_owned = \<lambda>_. False, NVIC_PRIO_BITS = 3\<rparr>, de_suspend = (\<lambda>_ m. m), debug_die_addr = 0x100\<rparr>"

definition example_debug :: "bool \<Rightarrow> unit debug_state" where
  "example_debug registered = \<lparr>g_debug_box = \<lparr>dbg_driver = 16, dbg_initialized = registered, dbg_box_id = 0\<rparr>, debugged_once_before = False,
     g_priv_sys_hooks = (default_hooks 4)\<lparr>priv_os_suspend := 8\<rparr>, db_context = example_contexts, db_mem = (\<lambda>a. if a = 16 \<or> a = 20 then 0x40 else 0), db_port = (), BASEPRI = 0\<rparr>"

lemma example_debug_ctx: "ctx_ok (de_box_count example_debug_env) (db_context (example_debug b))" "ctx_stack (db_context (example_debug b)) = []"
  by (simp_all add: ctx_ok_def example_debug_env_def example_debug_def example_contexts_def context_consts UVISOR_MAX_BOXES_def ctx_stack_def)

lemma example_debug_halts: "\<exists>st1. halt example_debug_env PERMISSION_DENIED (example_debug True) = Inr st1"
  by (rule halt_returns) (simp_all add: example_debug_ctx, simp_all add: example_debug_env_def example_debug_def context_consts)

theorem debug_box_guarded_witness:
  "\<exists>st1. halt example_debug_env PERMISSION_DENIED (example_debug True) = Inr st1 \<and> g_active_box (db_context st1) = 0 \<and>
    debug_register_driver example_debug_env 16 (example_debug False) = Inr ((example_debug False)\<lparr>g_debug_box := \<lparr>dbg_driver = 16, dbg_initialized = True, dbg_box_id = 1\<rparr>\<rparr>)"
proof -
  obtain st1 where st1: "halt example_debug_env PERMISSION_DENIED (example_debug True) = Inr st1" using example_debug_halts by blast
  then have "g_active_box (db_context st1) = 0" using debug_box_guarded [OF example_debug_ctx(1) [of True], of PERMISSION_DENIED st1] by (simp add: example_debug_def)
  moreover have "\<forall>i < 2. read32 (db_mem (example_debug False)) (16 + 4 * of_nat i) = 0x40" by (auto simp: less_2_cases_iff read32_def example_debug_def)
  then have "debug_register_driver example_debug_env 16 (example_debug False) = Inr ((example_debug False)\<lparr>g_debug_box := \<lparr>dbg_driver = 16, dbg_initialized = True, dbg_box_id = 1\<rparr>\<rparr>)"
    using debug_box_guarded [OF example_debug_ctx(1) [of False], where driver = 16]
    by (simp add: example_debug_def example_debug_env_def vmpu_public_flash_addr_def example_contexts_def)
  ultimately show ?thesis using st1 by blast
qed

text \<open>The table of the hooks has five words, of which only the first two are checked to be in public flash.\<close>

theorem priv_sys_hooks_table_outside_flash:
  "priv_sys_hooks_sanity_check (example_config\<lparr>flash_start := 0, secure_start := 0x1000\<rparr>) (\<lambda>_. 0) 0xFF8 = Inr () \<and>
    \<not> vmpu_public_flash_addr (example_config\<lparr>flash_start := 0, secure_start := 0x1000\<rparr>) (0xFF8 + 8)"
  by (simp add: priv_sys_hooks_sanity_check_def vmpu_public_flash_addr_def hook_ok_def hooks_at_def read32_def)

end
