(* ===== verification/Spec2Isabelle.thy ===== *)
theory Spec2Isabelle
  imports Pool_Queue Register_Gateway Fault_Handler Box_Order Vmpu_Kinetis Scheduler_Armv8m Thread Svc Debug_Box
begin

text \<open>
  uVisor isolates boxes, pieces of firmware with their own stack, memory and interrupts, from each other on
  ARM Cortex-M processors. This library models its privileged core (\<^verbatim>\<open>src/core\<close>), for ARMv7-M, ARMv8-M and
  Kinetis, and proves the properties the isolation rests on. Each C function is an Isabelle function of the same name; global variables are fields of a
  record that is passed and returned; \<open>uint8_t\<close>, \<open>uint16_t\<close> and \<open>uint32_t\<close> are words of that
  width, so that overflow is as in C.

  \<^bold>\<open>Stopping.\<close> The result type \<open>'a res\<close> (theory \<open>Prelude\<close>) is either a value or the reason why the code stops: a
  \<open>HALT_ERROR\<close> with its reason, an array access out of range, a fault of an access made with the rights of a box, or a
  spin lock that is never released. \<open>HALT_ERROR\<close> is final here; with a debug box registered the
  C code continues in that box, which theory \<open>Debug_Box\<close> models.

  \<^bold>\<open>Parts.\<close>

  \<^item> \<open>Prelude\<close>: results, arrays, lemmas on words and lists.

  \<^item> \<open>Spinlock\<close>, \<open>Queue_Interface\<close>, \<open>Pool_Queue\<close> (\<^verbatim>\<open>core/system/src/spinlock.c\<close>, \<^verbatim>\<open>pool_queue.c\<close>): pools with
    a free list and queues linked through the pool. The representation predicates \<open>pool_rep\<close> and \<open>queue_rep\<close> relate the
    links to lists; each operation is shown to be the list operation. The locale of first-in first-out queues is interpreted on
    the pool queue. Loops over links have the number of slots as fuel, which a well formed pool never exhausts.

  \<^item> \<open>Vmpu_Base\<close> (\<^verbatim>\<open>core/vmpu/inc/vmpu.h\<close>, \<^verbatim>\<open>api/inc/vmpu_exports.h\<close>): configuration, access rights, region sizes, bit-banding.

  \<^item> \<open>Mpu_Armv7m\<close> (\<^verbatim>\<open>vmpu_armv7m_mpu.c\<close>): the regions of the boxes and the eight regions of the hardware. Translated
    regions mean to the hardware what was asked for, the table stays well formed, and pushing regions
    never evicts the stack of the active box.

  \<^item> \<open>Page_Allocator\<close> (\<^verbatim>\<open>page_allocator.c\<close>, \<^verbatim>\<open>page_allocator_faults.c\<close>): the invariant \<open>pa_ok\<close> of the page maps, kept by every operation; who
    owns which page after an allocation and after a release.

  \<^item> \<open>Unpriv_Access\<close> (\<^verbatim>\<open>vmpu_unpriv_access.h\<close>, \<^verbatim>\<open>vmpu_armv8m_unpriv_access.c\<close>): memory as a function from
    addresses to bytes, and accesses made with the rights of a box. What the hardware grants and how a refused access is recovered are arguments, which the ports provide.

  \<^item> \<open>Vmpu_Armv7m\<close>, \<open>Box_Order\<close> (\<^verbatim>\<open>vmpu_armv7m.c\<close>): which faults are recovered, what switching boxes leaves in the
    MPU, where the memory of a box is, and in which order boxes are placed: the search tries all orders and finds a smallest one.

  \<^item> \<open>Context\<close> (\<^verbatim>\<open>context.c\<close>): nested switches between boxes refine a stack of contexts, and return to where they came from; forged
    exception frames.

  \<^item> \<open>Virq\<close> (\<^verbatim>\<open>core_armv7m/virq.c\<close>): interrupts. No call of another box touches an interrupt that a box owns.

  \<^item> \<open>Register_Gateway\<close> (\<^verbatim>\<open>register_gateway.c\<close>): what a gateway to a register can change.

  \<^item> \<open>Vmpu_Sanity\<close>, \<open>Vmpu\<close> (\<^verbatim>\<open>vmpu.c\<close>, \<^verbatim>\<open>box_init.c\<close>): the checks at start-up, the enumeration of the boxes, which keeps
    their memory regions and interrupts apart, the index of a box, and namespaces.

  \<^item> \<open>Fault_Handler\<close> (\<^verbatim>\<open>vmpu.c\<close>, \<^verbatim>\<open>vmpu_armv7m.c\<close>): emulated accesses and the system exceptions. The emulation takes the search for the
    rights of an address as an argument, so that the Kinetis port uses it too.

  \<^item> \<open>Mpu_Armv8m\<close> (\<^verbatim>\<open>vmpu_armv8m_mpu.c\<close>): the security attribution unit of ARMv8-M and the check of buffers that a box provides.

  \<^item> \<open>Vmpu_Armv8m\<close> (\<^verbatim>\<open>vmpu_armv8m.c\<close>): switching, recovery of faults, the exception handler and the memory of a box. After a switch and any number of
    recovered faults the attribution unit opens only what the active box may use.

  \<^item> \<open>Kinetis_Aips\<close>, \<open>Mpu_Kinetis\<close>, \<open>Vmpu_Kinetis\<close> (\<^verbatim>\<open>core/vmpu/src/mpu_kinetis\<close>): the peripheral bridges, the region table and hardware regions, and the
    switch, fault recovery and exception handler of that port. Claimed peripherals stay exclusive, regions of boxes stay apart, and a switch shows exactly what belongs to the new box.

  \<^item> \<open>Virq_Armv8m\<close> (\<^verbatim>\<open>core_armv8m/virq.c\<close>): the interrupts, system timer and SVCall exception of the non-secure side, saved and restored per box.

  \<^item> \<open>Scheduler_Armv8m\<close> (\<^verbatim>\<open>core_armv8m/scheduler.c\<close>): the tick composes message delivery, context switch, interrupts and attribution unit. The boxes take turns, each
    continues where it was interrupted, and the isolation holds in every slice. The sequence of slices is an inductive relation in which a running box may do whatever the hardware lets it do.

  \<^item> \<open>Thread\<close> (\<^verbatim>\<open>thread.c\<close>): the table of threads. Threads stay with their box, and a switch activates the box of the thread.

  \<^item> \<open>Svc\<close> (\<^verbatim>\<open>core_armv7m/svc.c\<close>, \<^verbatim>\<open>api/inc/svc_exports.h\<close>): which handler a supervisor call reaches, and with which rights it is decoded.

  \<^item> \<open>Debug_Box\<close> (\<^verbatim>\<open>debug_box.c\<close>, \<^verbatim>\<open>halt.c\<close>, \<^verbatim>\<open>priv_sys_hooks.c\<close>): halting, the debug box and the hooks of the host OS; theorems show what callers
    that go on after a halt allow.

  \<^item> \<open>Ipc\<close> (\<^verbatim>\<open>core/system/src/ipc.c\<close>, \<^verbatim>\<open>api/src/ipc.c\<close>): messages between boxes. Delivery is all or nothing, and writes only to buffers that passed
    the check. The loop over a send queue has the number of rounds as fuel, since it need not end; a theorem shows a queue with which it does not.

  \<^item> \<open>Rpc\<close> (\<^verbatim>\<open>core/system/src/rpc.c\<close>, \<^verbatim>\<open>api/src/rpc.c\<close>, \<^verbatim>\<open>api/rtx/src/box_init.c\<close>): remote procedure calls. Calls are delivered into
    messages of checked queues only, carry the true caller, and their results come back; cookies are unique. The loops of the delivery have the number of
    rounds as fuel; a theorem shows that the loop over the calls need not end.

  \<^item> \<open>Box_Api\<close>: lemmas that \<open>Ipc\<close> and \<open>Rpc\<close> share.

  \<^bold>\<open>How the parts interact.\<close> \<open>vmpu_enumerate_boxes\<close> calls the order search, the memory layout, the region table, the interrupt table
  and, at the end, the context switch; \<open>context_switch_in\<close> calls \<open>vmpu_switch\<close>, which loads the regions of a box and
  the pages it has used, on ARMv8-M after \<open>virq_switch\<close>; the scheduler and the threads call it between the delivery of messages; a fault is resolved through the page allocator or the region table and pushes a region.

  \<^bold>\<open>Parameters.\<close> The linker's configuration \<open>UvisorConfig\<close>, the rights that the hardware grants (\<open>access\<close>), newlib's
  \<open>_REENT_INIT_PTR\<close>, the initialisation of the message queues of a box, and the MPU switch inside the context
  switch, which \<open>Vmpu\<close> instantiates with the one for ARMv7-M and \<open>Scheduler_Armv8m\<close> with the one for ARMv8-M. How the hardware reacts to writes of \<open>ICSR\<close> and \<open>CESR\<close> is
  an argument too.

  \<^bold>\<open>Not modelled.\<close> The naked functions that start a box, stack registers or jump to hooks, and start-up, which are assembly; debug output, and the debug box on
  ARMv8-M, which is a call from the secure to the non-secure side; the allocator of a box, which consists of calls of RTX, code that is not in the repository; the stubs of the library of the boxes;
  printf, which is third-party code; CMSIS except the interrupt controller functions in use.
\<close>

end
